(* ===== verification/Prelude.thy ===== *)
theory Prelude
  imports
    Main
    "HOL-Library.AList"
    "HOL-Library.Char_ord"
    "HOL-Library.List_Lexorder"
    "HOL-Library.Multiset"
    "HOL-Library.Sublist"
begin

text \<open>
  Shared vocabulary of the gridctl development.

  Go values are represented as follows throughout.
  \<^item> A Go \<^verbatim>\<open>string\<close> or \<^verbatim>\<open>[]byte\<close> is a \<^typ>\<open>string\<close>: a list of bytes (a \<^typ>\<open>char\<close> is one byte).
  \<^item> A Go \<^verbatim>\<open>map[K]V\<close> is an association list whose keys are distinct; its order stands for the
    iteration order that the Go runtime picks, which no theorem fixes.
    Lookup is \<^const>\<open>map_of\<close>, insertion \<^const>\<open>AList.update\<close>, deletion \<^const>\<open>AList.delete\<close>.
  \<^item> A pointer that may be nil is an \<open>option\<close>.
  \<^item> A result with an error is a sum, \<open>Inl\<close> the error.
  \<^item> \<^verbatim>\<open>time.Time\<close> and \<^verbatim>\<open>time.Duration\<close> are \<^typ>\<open>int\<close> nanoseconds; the zero \<^verbatim>\<open>time.Time\<close> is \<open>None\<close>.

  This theory holds those types, the parts of package \<^verbatim>\<open>strings\<close> the program uses,
  and the list and map lemmas that several components share.
\<close>

named_theorems go_defs \<open>definitions that straight-line proofs unfold\<close>

subsection \<open>Types\<close>

type_synonym ('k, 'v) gomap = "('k \<times> 'v) list"
type_synonym gotime = int
type_synonym duration = int

abbreviation second :: duration where
  "second \<equiv> 1000000000"

abbreviation map_has :: "('k, 'v) gomap \<Rightarrow> 'k \<Rightarrow> bool" where
  "map_has m k \<equiv> map_of m k \<noteq> None"

definition map_keys_ok :: "('k, 'v) gomap \<Rightarrow> bool" where
  "map_keys_ok m \<longleftrightarrow> distinct (map fst m)"

text \<open>A set represented in Go as \<^verbatim>\<open>map[string]bool\<close>: the missing key reads \<^verbatim>\<open>false\<close>.\<close>

definition set_put :: "'a \<Rightarrow> 'a list \<Rightarrow> 'a list" where
  "set_put x xs = (if x \<in> set xs then xs else xs @ [x])"

definition sort_strings :: "string list \<Rightarrow> string list" where
  "sort_strings xs = sort xs"

subsection \<open>Package strings\<close>

text \<open>\<open>cut sep s\<close> splits at the first occurrence of \<open>sep\<close>, as \<^verbatim>\<open>strings.SplitN(s, sep, 2)\<close>
  and \<^verbatim>\<open>strings.Index\<close> do for a non-empty separator; \<open>None\<close> when there is none.\<close>

primrec cut :: "string \<Rightarrow> string \<Rightarrow> (string \<times> string) option" where
  "cut sep [] = (if sep = [] then Some ([], []) else None)"
| "cut sep (c # cs) =
     (if prefix sep (c # cs) then Some ([], drop (length sep) (c # cs))
      else map_option (\<lambda>(a, b). (c # a, b)) (cut sep cs))"

definition contains :: "string \<Rightarrow> string \<Rightarrow> bool" where
  "contains s sub \<longleftrightarrow> cut sub s \<noteq> None"

text \<open>\<^verbatim>\<open>strings.ReplaceAll\<close> for a non-empty \<open>old\<close> (the only use the program makes of it):
  left to right, without overlap.\<close>

function replace_all :: "string \<Rightarrow> string \<Rightarrow> string \<Rightarrow> string" where
  "replace_all old new s =
     (case s of [] \<Rightarrow> []
      | c # cs \<Rightarrow>
          if old \<noteq> [] \<and> prefix old s then new @ replace_all old new (drop (length old) s)
          else c # replace_all old new cs)"
  by pat_completeness auto
termination
  by (relation "measure (\<lambda>(old, new, s). length s)") auto

declare replace_all.simps [simp del]

text \<open>White space as \<^verbatim>\<open>unicode.IsSpace\<close> has it, each rune as its UTF-8 bytes.\<close>

definition space_runes :: "string list" where
  "space_runes =
     [[CHR 0x09], [CHR 0x0A], [CHR 0x0B], [CHR 0x0C], [CHR 0x0D], [CHR 0x20],
      [CHR 0xC2, CHR 0x85], [CHR 0xC2, CHR 0xA0], [CHR 0xE1, CHR 0x9A, CHR 0x80],
      [CHR 0xE2, CHR 0x80, CHR 0x80], [CHR 0xE2, CHR 0x80, CHR 0x81],
      [CHR 0xE2, CHR 0x80, CHR 0x82], [CHR 0xE2, CHR 0x80, CHR 0x83],
      [CHR 0xE2, CHR 0x80, CHR 0x84], [CHR 0xE2, CHR 0x80, CHR 0x85],
      [CHR 0xE2, CHR 0x80, CHR 0x86], [CHR 0xE2, CHR 0x80, CHR 0x87],
      [CHR 0xE2, CHR 0x80, CHR 0x88], [CHR 0xE2, CHR 0x80, CHR 0x89],
      [CHR 0xE2, CHR 0x80, CHR 0x8A], [CHR 0xE2, CHR 0x80, CHR 0xA8],
      [CHR 0xE2, CHR 0x80, CHR 0xA9], [CHR 0xE2, CHR 0x80, CHR 0xAF],
      [CHR 0xE2, CHR 0x81, CHR 0x9F], [CHR 0xE3, CHR 0x80, CHR 0x80]]"

definition strip_one :: "string list \<Rightarrow> string \<Rightarrow> string option" where
  "strip_one rs s =
     (case find (\<lambda>r. r \<noteq> [] \<and> prefix r s) rs of None \<Rightarrow> None | Some r \<Rightarrow> Some (drop (length r) s))"

lemma strip_one_length: "strip_one rs s = Some t \<Longrightarrow> length t < length s"
  by (auto simp: strip_one_def find_Some_iff prefix_def split: option.splits)

function trim_left_runes :: "string list \<Rightarrow> string \<Rightarrow> string" where
  "trim_left_runes rs s =
     (case strip_one rs s of None \<Rightarrow> s | Some t \<Rightarrow> trim_left_runes rs t)"
  by pat_completeness auto
termination
  by (relation "measure (\<lambda>(rs, s). length s)") (auto dest: strip_one_length)

declare trim_left_runes.simps [simp del]

definition trim_space :: "string \<Rightarrow> string" where
  "trim_space s =
     rev (trim_left_runes (map rev space_runes) (rev (trim_left_runes space_runes s)))"

text \<open>\<^verbatim>\<open>strings.ToLower\<close>: ASCII letters, and the two runes outside ASCII whose lower case is an
  ASCII letter (U+0130 and the Kelvin sign U+212A). Any other byte outside ASCII is kept: every
  caller in the model either looks the result up in a table of ASCII keys or maps all bytes outside
  ASCII to the same separator, so which non-ASCII letter stands there is never observed.\<close>

definition in_range :: "char \<Rightarrow> char \<Rightarrow> char \<Rightarrow> bool" where
  "in_range lo hi c \<longleftrightarrow> (of_char lo :: int) \<le> of_char c \<and> (of_char c :: int) \<le> of_char hi"

definition lower_char :: "char \<Rightarrow> char" where
  "lower_char c = (if in_range (CHR ''A'') (CHR ''Z'') c then char_of ((of_char c :: int) + 32) else c)"

fun to_lower :: "string \<Rightarrow> string" where
  "to_lower [] = []"
| "to_lower (c # cs) =
     (if prefix [CHR 0xC4, CHR 0xB0] (c # cs)
      then CHR ''i'' # to_lower (drop 1 cs)
      else if prefix [CHR 0xE2, CHR 0x84, CHR 0xAA] (c # cs)
      then CHR ''k'' # to_lower (drop 2 cs)
      else lower_char c # to_lower cs)"

text \<open>Text in single quotes, and \<^verbatim>\<open>strings.Join\<close>.\<close>

definition sq :: "string \<Rightarrow> string" where
  "sq s = [CHR 0x27] @ s @ [CHR 0x27]"

fun join_with :: "string \<Rightarrow> string list \<Rightarrow> string" where
  "join_with sep [] = []"
| "join_with sep [w] = w"
| "join_with sep (w # ws) = w @ sep @ join_with sep ws"

text \<open>\<^verbatim>\<open>strings.TrimRight(s, "-")\<close> and friends.\<close>

definition trim_right_char :: "char \<Rightarrow> string \<Rightarrow> string" where
  "trim_right_char c s = rev (dropWhile (\<lambda>x. x = c) (rev s))"

text \<open>The verb \<^verbatim>\<open>%q\<close> (\<^verbatim>\<open>strconv.Quote\<close>): double quotes, with quotes, backslashes and ASCII
  control characters escaped. A byte outside ASCII is kept, as it is in a printable rune.\<close>

definition hex_digit :: "int \<Rightarrow> char" where
  "hex_digit n = (if n < 10 then char_of (n + 48) else char_of (n + 87))"

definition quote_char :: "char \<Rightarrow> string" where
  "quote_char c =
     (case map_of [(CHR 0x22, CHR 0x22), (CHR 0x5C, CHR 0x5C), (CHR 0x07, CHR ''a''), (CHR 0x08, CHR ''b''),
         (CHR 0x0C, CHR ''f''), (CHR 0x0A, CHR ''n''), (CHR 0x0D, CHR ''r''), (CHR 0x09, CHR ''t''),
         (CHR 0x0B, CHR ''v'')] c of
        Some e \<Rightarrow> [CHR 0x5C, e]
      | None \<Rightarrow>
          if (of_char c :: int) < 32 \<or> (of_char c :: int) = 127
          then [CHR 0x5C, CHR ''x'', hex_digit (of_char c div 16), hex_digit (of_char c mod 16)]
          else [c])"

definition go_quote :: "string \<Rightarrow> string" where
  "go_quote s = [CHR 0x22] @ concat (map quote_char s) @ [CHR 0x22]"

text \<open>The verb \<^verbatim>\<open>%d\<close>.\<close>

fun nat_digits :: "nat \<Rightarrow> string" where
  "nat_digits n = (if n < 10 then [hex_digit (int n)] else nat_digits (n div 10) @ [hex_digit (int (n mod 10))])"

declare nat_digits.simps [simp del]

definition itoa :: "int \<Rightarrow> string" where
  "itoa i = (if i < 0 then ''-'' @ nat_digits (nat (- i)) else nat_digits (nat i))"

subsection \<open>Decimal numbers\<close>

lemma hex_digit_range: "0 \<le> m \<Longrightarrow> m < 10 \<Longrightarrow> (of_char (hex_digit m) :: int) = m + 48"
  by (simp add: hex_digit_def)

lemma hex_digit_inj: "0 \<le> m \<Longrightarrow> m < 10 \<Longrightarrow> 0 \<le> n \<Longrightarrow> n < 10 \<Longrightarrow> hex_digit m = hex_digit n \<longleftrightarrow> m = n"
  by (metis add_right_cancel hex_digit_range)

lemma nat_digits_inj: "nat_digits m = nat_digits n \<longleftrightarrow> m = n"
proof (induction m arbitrary: n rule: less_induct)
  case (less m)
  have ne: "nat_digits k \<noteq> []" for k by (subst nat_digits.simps) simp
  have small: "nat_digits k = [hex_digit (int k)]" if "k < 10" for k using that by (subst nat_digits.simps) simp
  have large: "nat_digits k = nat_digits (k div 10) @ [hex_digit (int (k mod 10))]" if "\<not> k < 10" for k
    using that by (subst nat_digits.simps) simp
  have last: "hex_digit (int (m mod 10)) = hex_digit (int (n mod 10)) \<longleftrightarrow> m mod 10 = n mod 10"
    using hex_digit_inj [of "int (m mod 10)" "int (n mod 10)"] of_nat_eq_iff [of "m mod 10" "n mod 10", where ?'a = int]
    by simp
  show ?case
  proof (cases "m < 10 \<or> n < 10")
    case True
    then show ?thesis using ne ne [THEN not_sym]
      by (cases "m < 10"; cases "n < 10") (auto simp: small large hex_digit_inj)
  next
    case False
    with less.IH [of "m div 10" "n div 10"] last show ?thesis
      by (simp add: large) (metis div_mult_mod_eq)
  qed
qed

lemma nat_digits_char: "c \<in> set (nat_digits n) \<Longrightarrow> 48 \<le> (of_char c :: int) \<and> (of_char c :: int) \<le> 57"
proof (induction n rule: less_induct)
  case (less n)
  show ?case
  proof (cases "n < 10")
    case True
    with less.prems show ?thesis by (subst (asm) nat_digits.simps) (simp add: hex_digit_range)
  next
    case False
    have m: "0 \<le> int n mod 10" "int n mod 10 < 10" by simp_all
    from less.prems False have "c \<in> set (nat_digits (n div 10)) \<or> c = hex_digit (int n mod 10)"
      by (subst (asm) nat_digits.simps) (auto simp: zmod_int)
    then show ?thesis using less.IH [of "n div 10"] False hex_digit_range [OF m] m by auto
  qed
qed

lemma itoa_char: "c \<in> set (itoa i) \<Longrightarrow> c = CHR ''-'' \<or> 48 \<le> (of_char c :: int) \<and> (of_char c :: int) \<le> 57"
  by (auto simp: itoa_def dest: nat_digits_char split: if_splits)

lemma itoa_inj: "itoa i = itoa j \<longleftrightarrow> i = j"
proof -
  have "nat_digits n \<noteq> CHR ''-'' # s" for n s
  proof
    assume "nat_digits n = CHR ''-'' # s"
    then have "CHR ''-'' \<in> set (nat_digits n)" by simp
    from nat_digits_char [OF this] show False by simp
  qed
  then show ?thesis by (auto simp: itoa_def nat_digits_inj)
    (metis append_Cons append_Nil)+
qed

subsection \<open>Splitting at a separator\<close>

lemma cut_SomeD: "cut sep s = Some (a, b) \<Longrightarrow> s = a @ sep @ b"
  by (induction s arbitrary: a b) (auto simp: prefix_def split: if_splits)

lemma cut_None_iff: "sep \<noteq> [] \<Longrightarrow> cut sep s = None \<longleftrightarrow> \<not> sublist sep s"
  by (induction s) (auto simp: sublist_Cons_right)

lemma contains_iff_sublist: "sub \<noteq> [] \<Longrightarrow> contains s sub \<longleftrightarrow> sublist sub s"
  by (simp add: contains_def cut_None_iff)

text \<open>The first component of a cut holds no earlier occurrence of the separator.\<close>

lemma cut_first:
  assumes "cut sep s = Some (a, b)" and "sep \<noteq> []" and "k < length a"
  shows "\<not> prefix sep (drop k s)"
  using assms
proof (induction s arbitrary: a b k)
  case (Cons c cs)
  show ?case
  proof (cases "prefix sep (c # cs)")
    case True
    with Cons.prems show ?thesis by auto
  next
    case False
    with Cons.prems obtain a' where a': "cut sep cs = Some (a', b)" "a = c # a'" by auto
    show ?thesis
    proof (cases k)
      case 0
      with False show ?thesis by simp
    next
      case (Suc j)
      with Cons.IH [OF a'(1) Cons.prems(2), of j] a'(2) Cons.prems(3) show ?thesis by simp
    qed
  qed
qed auto

subsection \<open>Maps as association lists\<close>

lemma map_keys_ok_update [simp]: "map_keys_ok m \<Longrightarrow> map_keys_ok (AList.update k v m)"
  by (simp add: map_keys_ok_def distinct_update)

lemma map_keys_ok_delete [simp]: "map_keys_ok m \<Longrightarrow> map_keys_ok (AList.delete k m)"
  by (simp add: map_keys_ok_def distinct_delete)

lemma map_keys_ok_empty [simp]: "map_keys_ok []"
  by (simp add: map_keys_ok_def)

lemma map_of_update: "map_of (AList.update k v m) x = (if x = k then Some v else map_of m x)"
  by (simp add: update_conv')

lemma map_of_delete: "map_of (AList.delete k m) x = (if x = k then None else map_of m x)"
  by (simp add: delete_conv')

lemma map_keys_ok_mem: "map_keys_ok m \<Longrightarrow> (k, v) \<in> set m \<longleftrightarrow> map_of m k = Some v"
  by (auto simp: map_keys_ok_def dest: map_of_SomeD)

subsection \<open>Sets and sorted names\<close>

lemma length_filter_full_iff: "length (filter P xs) = length xs \<longleftrightarrow> (\<forall>x\<in>set xs. P x)"
  by (metis filter_True length_filter_less less_irrefl)

lemma set_fold_set_put [simp]: "set (fold set_put xs acc) = set xs \<union> set acc"
  by (induction xs arbitrary: acc) (auto simp: set_put_def)

lemma fold_set_put_Nil [simp]: "fold set_put xs acc = [] \<longleftrightarrow> xs = [] \<and> acc = []"
  by (metis Un_empty set_empty set_fold_set_put)

lemma set_set_put [simp]: "set (set_put x xs) = insert x (set xs)"
  by (auto simp: set_put_def)

lemma distinct_set_put [simp]: "distinct xs \<Longrightarrow> distinct (set_put x xs)"
  by (auto simp: set_put_def)

lemma set_sort_strings [simp]: "set (sort_strings xs) = set xs"
  by (simp add: sort_strings_def)

lemma distinct_sort_strings [simp]: "distinct (sort_strings xs) \<longleftrightarrow> distinct xs"
  by (simp add: sort_strings_def)

lemma sorted_sort_strings [simp]: "sorted (sort_strings xs)"
  by (simp add: sort_strings_def)

text \<open>Sorting removes the dependence on the iteration order of a map.\<close>

lemma sort_strings_perm: "mset xs = mset ys \<Longrightarrow> sort_strings xs = sort_strings ys"
  unfolding sort_strings_def by (rule properties_for_sort) simp_all

lemma length_sort_strings [simp]: "length (sort_strings xs) = length xs"
  by (simp add: sort_strings_def)

lemma find_append: "find P (xs @ ys) = (case find P xs of Some x \<Rightarrow> Some x | None \<Rightarrow> find P ys)"
  by (induction xs) auto

text \<open>Splitting at the last occurrence of a separator.\<close>

lemma last_sep_inj:
  assumes "a @ c # b = a' @ c # b'" and "c \<notin> set b" "c \<notin> set b'"
  shows "a = a' \<and> b = b'"
proof -
  have r: "rev b @ c # rev a = rev b' @ c # rev a'" using arg_cong [OF assms(1), of rev] by simp
  have tw: "takeWhile (\<lambda>x. x \<noteq> c) (rev b @ c # z) = rev b" "takeWhile (\<lambda>x. x \<noteq> c) (rev b' @ c # z) = rev b'" for z
    using assms(2,3) by (simp_all add: takeWhile_append)
  from tw r have "rev b = rev b'" by metis
  with r show ?thesis by simp
qed

end
