(* ===== verification/Mcp_Types.thy ===== *)
theory Mcp_Types
  imports Prelude
begin

text \<open>
  Data types of \<^verbatim>\<open>pkg/mcp/types.go\<close> that several components share: tools with their behaviour
  hints, the client of a downstream server as far as the router and the gateway read it, and the
  call identity and verdict of a pre-call gate. Raw JSON (\<^verbatim>\<open>json.RawMessage\<close>) is its bytes.
\<close>

record tool_annotations =
  an_title :: string
  an_readOnlyHint :: "bool option"
  an_destructiveHint :: "bool option"
  an_idempotentHint :: "bool option"
  an_openWorldHint :: "bool option"

definition zero_annotations :: tool_annotations where
  "zero_annotations = \<lparr>an_title = [], an_readOnlyHint = None, an_destructiveHint = None,
     an_idempotentHint = None, an_openWorldHint = None\<rparr>"

text \<open>\<^verbatim>\<open>Clone\<close> copies the struct; in the model a record is its own copy.\<close>

definition Clone :: "tool_annotations option \<Rightarrow> tool_annotations option" where
  "Clone a = (case a of None \<Rightarrow> None | Some c \<Rightarrow> Some c)"

record tool =
  t_name :: string
  t_title :: string
  t_description :: string
  t_inputSchema :: string
  t_outputSchema :: string
  t_annotations :: "tool_annotations option"

text \<open>What the router and the gateway read of an \<^verbatim>\<open>AgentClient\<close>: its server name, the tools it
  currently advertises and the tools before any whitelist.\<close>

record agent_client =
  ac_name :: string
  ac_tools :: "tool list"
  ac_allTools :: "tool list"

record gate_call =
  gc_prefixedTool :: string
  gc_serverName :: string
  gc_clientAccessID :: string

datatype 'm gate_decision = GateAllow | GateDeny 'm

subsection \<open>Narrowing a tool list\<close>

text \<open>
  The contract between the policies that narrow what a client sees and the dispatcher that checks
  what a client calls: the listing operation keeps exactly the tools whose call the same policy
  admits, in order.
\<close>

locale exposure =
  fixes allows :: "'i \<Rightarrow> string \<Rightarrow> bool"
    and narrow :: "'i \<Rightarrow> tool list \<Rightarrow> tool list"
  assumes narrow_spec: "narrow i ts = filter (\<lambda>t. allows i (t_name t)) ts"
begin

lemma listed_iff_callable: "t \<in> set (narrow i ts) \<longleftrightarrow> t \<in> set ts \<and> allows i (t_name t)"
  by (simp add: narrow_spec)

lemma narrow_idem: "narrow i (narrow i ts) = narrow i ts"
  by (simp add: narrow_spec)

lemma narrow_append: "narrow i (ts @ us) = narrow i ts @ narrow i us"
  by (simp add: narrow_spec)

lemma narrow_full_iff: "length (narrow i ts) = length ts \<longleftrightarrow> (\<forall>t\<in>set ts. allows i (t_name t))"
  by (simp add: narrow_spec length_filter_full_iff)

lemma narrow_distinct: "distinct (map t_name ts) \<Longrightarrow> distinct (map t_name (narrow i ts))"
  by (simp add: narrow_spec distinct_map_filter)

end

end
