(* ===== verification/Tool_Names.thy ===== *)
theory Tool_Names
  imports Prelude
begin

text \<open>
  Prefixed tool names (\<^verbatim>\<open>pkg/mcp/router.go\<close>): the gateway exposes tool \<open>t\<close> of server \<open>s\<close> as
  \<open>s__t\<close> and splits an inbound name at the first delimiter. The configuration loader has its own,
  stricter splitter (\<^verbatim>\<open>pkg/config/validate.go\<close>). Both are instances of one interface,
  \<open>name_codec\<close>, whose lemmas give the injectivity that the router relies on.
\<close>

subsection \<open>Definitions\<close>

definition ToolNameDelimiter :: string where
  "ToolNameDelimiter = ''__''"

definition PrefixTool :: "string \<Rightarrow> string \<Rightarrow> string" where
  "PrefixTool serverName toolName = serverName @ ToolNameDelimiter @ toolName"

datatype tool_name_error = InvalidToolNameFormat string

definition ParsePrefixedTool :: "string \<Rightarrow> tool_name_error + string \<times> string" where
  "ParsePrefixedTool prefixed =
     (case cut ToolNameDelimiter prefixed of
        None \<Rightarrow> Inl (InvalidToolNameFormat prefixed)
      | Some (a, b) \<Rightarrow> Inr (a, b))"

text \<open>The index tests of the source, \<^verbatim>\<open>idx <= 0\<close> and \<^verbatim>\<open>idx+len(delim) >= len(prefixed)\<close>, say
  that the part before or after the delimiter is empty.\<close>

definition splitPrefixedToolName :: "string \<Rightarrow> (string \<times> string) option" where
  "splitPrefixedToolName prefixed =
     (case cut ''__'' prefixed of
        None \<Rightarrow> None
      | Some (a, b) \<Rightarrow> if a = [] \<or> b = [] then None else Some (a, b))"

text \<open>The result of the parser with its error dropped, as the callers that test only
  \<^verbatim>\<open>err == nil\<close> read it.\<close>

definition parsed :: "string \<Rightarrow> (string \<times> string) option" where
  "parsed p = (case ParsePrefixedTool p of Inl _ \<Rightarrow> None | Inr r \<Rightarrow> Some r)"

text \<open>A server name that survives the round trip: neither it nor it followed by the first
  underscore of the delimiter holds the delimiter.\<close>

definition server_name_ok :: "string \<Rightarrow> bool" where
  "server_name_ok s \<longleftrightarrow> \<not> contains (s @ ''_'') ''__''"

subsection \<open>The interface\<close>

locale name_codec =
  fixes encode :: "'a \<Rightarrow> 'b \<Rightarrow> 'c"
    and decode :: "'c \<Rightarrow> ('a \<times> 'b) option"
    and valid :: "'a \<Rightarrow> 'b \<Rightarrow> bool"
  assumes decode_encode: "valid a b \<Longrightarrow> decode (encode a b) = Some (a, b)"
    and encode_decode: "decode c = Some (a, b) \<Longrightarrow> encode a b = c"
begin

lemma encode_inj:
  "valid a b \<Longrightarrow> valid a' b' \<Longrightarrow> encode a b = encode a' b' \<longleftrightarrow> a = a' \<and> b = b'"
  by (metis decode_encode option.inject prod.inject)

lemma decode_inj: "decode c = Some p \<Longrightarrow> decode c' = Some p \<Longrightarrow> c = c'"
  by (cases p) (metis encode_decode)

lemma distinct_encode:
  "distinct bs \<Longrightarrow> (\<And>b. b \<in> set bs \<Longrightarrow> valid a b) \<Longrightarrow> distinct (map (encode a) bs)"
  by (simp add: distinct_map inj_on_def encode_inj)

lemma distinct_encode_concat:
  assumes "distinct as" and "\<And>a. a \<in> set as \<Longrightarrow> distinct (f a)"
    and "\<And>a b. a \<in> set as \<Longrightarrow> b \<in> set (f a) \<Longrightarrow> valid a b"
  shows "distinct (concat (map (\<lambda>a. map (encode a) (f a)) as))"
  using assms
proof (induction as)
  case (Cons a as)
  have "distinct (map (encode a) (f a))" using Cons.prems by (intro distinct_encode) auto
  moreover have "set (map (encode a) (f a)) \<inter> set (concat (map (\<lambda>a. map (encode a) (f a)) as)) = {}"
    using Cons.prems by (auto simp: encode_inj)
  ultimately show ?case using Cons by auto
qed simp

end

subsection \<open>Both splitters are codecs\<close>

lemma cut_PrefixTool:
  "cut ''__'' (s @ CHR ''_'' # CHR ''_'' # t) = Some (s, t) \<longleftrightarrow> \<not> contains (s @ ''_'') ''__''"
proof (induction s)
  case (Cons c s)
  have "prefix ''__'' ((c # s) @ CHR ''_'' # CHR ''_'' # t) \<longleftrightarrow> prefix ''__'' ((c # s) @ ''_'')"
    by (cases s) auto
  with Cons show ?case by (cases "cut ''__'' (s @ ''_'')") (auto simp: contains_def)
qed (simp add: contains_def)

lemma ParsePrefixedTool_Inr_iff: "ParsePrefixedTool p = Inr r \<longleftrightarrow> cut ''__'' p = Some r"
  by (auto simp: ParsePrefixedTool_def ToolNameDelimiter_def split: option.splits)

lemma parsed_eq: "parsed p = cut ''__'' p"
  by (auto simp: parsed_def ParsePrefixedTool_def ToolNameDelimiter_def split: option.splits)

lemma parsed_None_iff: "parsed p = None \<longleftrightarrow> \<not> contains p ''__''"
  by (simp only: parsed_eq contains_def not_not)

interpretation parse: name_codec PrefixTool parsed "\<lambda>s t. server_name_ok s"
  by unfold_locales
    (auto simp: PrefixTool_def ToolNameDelimiter_def parsed_eq server_name_ok_def cut_PrefixTool
      dest: cut_SomeD)

interpretation strict: name_codec PrefixTool splitPrefixedToolName
    "\<lambda>s t. server_name_ok s \<and> s \<noteq> [] \<and> t \<noteq> []"
  by unfold_locales
    (auto simp: PrefixTool_def ToolNameDelimiter_def splitPrefixedToolName_def server_name_ok_def
      cut_PrefixTool [THEN iffD2] split: option.splits if_splits dest: cut_SomeD)

lemma parsed_PrefixTool [simp]: "server_name_ok s \<Longrightarrow> parsed (PrefixTool s t) = Some (s, t)"
  by (rule parse.decode_encode)

lemma parsed_ParsePrefixedTool: "parsed p = Some (s, t) \<longleftrightarrow> ParsePrefixedTool p = Inr (s, t)"
  by (simp add: parsed_eq ParsePrefixedTool_Inr_iff)

text \<open>The part of a parsed name before the delimiter is itself a well-formed server name.\<close>

lemma cut_first_ok:
  assumes "cut ''__'' p = Some (s, t)"
  shows "server_name_ok s"
proof -
  from assms have "p = s @ ''__'' @ t" by (rule cut_SomeD)
  with assms show ?thesis by (simp add: server_name_ok_def cut_PrefixTool)
qed

lemma parsed_server_ok: "parsed p = Some (s, t) \<Longrightarrow> server_name_ok s"
  by (simp add: parsed_eq cut_first_ok)

subsection \<open>Properties\<close>

text \<open>C35. A prefixed tool name splits back into the server and tool it was built from exactly when
  the server name neither contains the delimiter \<^verbatim>\<open>__\<close> nor ends in an underscore. Configuration
  validation puts no such restriction on server names, so the tools of a server called
  \<^verbatim>\<open>my__srv\<close> are advertised under names that route to a server \<^verbatim>\<open>my\<close>.\<close>

theorem prefix_roundtrip_iff:
  "ParsePrefixedTool (PrefixTool s t) = Inr (s, t) \<longleftrightarrow> server_name_ok s"
  by (simp add: ParsePrefixedTool_Inr_iff PrefixTool_def ToolNameDelimiter_def server_name_ok_def
      cut_PrefixTool)

text \<open>The configuration splitter accepts a subset of what the runtime parser accepts, with the
  same halves: it only adds that neither half is empty.\<close>

theorem split_refines_parse:
  "splitPrefixedToolName p = Some (s, t) \<longleftrightarrow> ParsePrefixedTool p = Inr (s, t) \<and> s \<noteq> [] \<and> t \<noteq> []"
  by (auto simp: splitPrefixedToolName_def ParsePrefixedTool_Inr_iff split: option.splits if_splits)

end
