(* ===== verification/Client_Id.thy ===== *)
theory Client_Id
  imports Prelude
begin

text \<open>
  Client identity (\<^verbatim>\<open>pkg/mcp/clientid.go\<close>): the per-request context values that carry a client's
  attribution id, access id and tool group, the extraction of an explicit identifier from a
  request, and \<^verbatim>\<open>NormalizeClientID\<close>, which every policy uses to reconcile the wire identity with
  the configured one.
\<close>

subsection \<open>Context values\<close>

text \<open>The three context keys are distinct empty struct types; a context is the record of the last
  value stored under each.\<close>

record call_ctx =
  ctx_client_id :: "string option"
  ctx_access_id :: "string option"
  ctx_group :: "string option"

definition background :: call_ctx where
  "background = \<lparr>ctx_client_id = None, ctx_access_id = None, ctx_group = None\<rparr>"

definition WithClientID :: "call_ctx \<Rightarrow> string \<Rightarrow> call_ctx" where
  "WithClientID ctx i = (if i = [] then ctx else ctx\<lparr>ctx_client_id := Some i\<rparr>)"

definition ClientIDFromContext :: "call_ctx \<Rightarrow> string" where
  "ClientIDFromContext ctx = (case ctx_client_id ctx of None \<Rightarrow> [] | Some v \<Rightarrow> v)"

definition WithClientAccessID :: "call_ctx \<Rightarrow> string \<Rightarrow> call_ctx" where
  "WithClientAccessID ctx i = (if i = [] then ctx else ctx\<lparr>ctx_access_id := Some i\<rparr>)"

definition ClientAccessIDFromContext :: "call_ctx \<Rightarrow> string" where
  "ClientAccessIDFromContext ctx = (case ctx_access_id ctx of None \<Rightarrow> [] | Some v \<Rightarrow> v)"

definition WithGroup :: "call_ctx \<Rightarrow> string \<Rightarrow> call_ctx" where
  "WithGroup ctx g = (if g = [] then ctx else ctx\<lparr>ctx_group := Some g\<rparr>)"

definition GroupFromContext :: "call_ctx \<Rightarrow> string" where
  "GroupFromContext ctx = (case ctx_group ctx of None \<Rightarrow> [] | Some v \<Rightarrow> v)"

text \<open>The parts of an HTTP request the gateway reads: the value of the \<^verbatim>\<open>client\<close> query parameter
  (\<open>None\<close> when the URL is nil, empty when absent) and of the access-id header.\<close>

record http_request =
  query_client :: "string option"
  header_client :: string

definition clientAccessIDFromRequest :: "http_request option \<Rightarrow> string" where
  "clientAccessIDFromRequest r =
     (case r of
        None \<Rightarrow> []
      | Some q \<Rightarrow>
          (case query_client q of
             None \<Rightarrow> trim_space (header_client q)
           | Some v \<Rightarrow> if trim_space v \<noteq> [] then trim_space v else trim_space (header_client q)))"

subsection \<open>Normalisation\<close>

definition clientNameAliases :: "(string, string) gomap" where
  "clientNameAliases =
     [(''claude-ai'', ''claude-desktop''),
      (''claude desktop'', ''claude-desktop''),
      (''claude code'', ''claude-code''),
      (''claude-code'', ''claude-code''),
      (''cursor'', ''cursor''),
      (''cursor-ide'', ''cursor''),
      (''windsurf'', ''windsurf''),
      (''continue'', ''continue''),
      (''continue.dev'', ''continue''),
      (''cline'', ''cline''),
      (''zed'', ''zed''),
      (''goose'', ''goose''),
      (''lm studio'', ''lmstudio''),
      (''lm-studio'', ''lmstudio''),
      (''lmstudio'', ''lmstudio''),
      (''lmstudio-mcp-server-session'', ''lmstudio'')]"

text \<open>The loop of \<^verbatim>\<open>slugifyClientName\<close>; the flag is \<^verbatim>\<open>prevSep\<close>. The source's separator case
  (white space, underscore, hyphen, slash) and its default case have the same body. A rune outside
  ASCII falls in one of these two; as bytes it is a run of separators, which collapses to the same
  single hyphen.\<close>

fun slug_loop :: "bool \<Rightarrow> string \<Rightarrow> string" where
  "slug_loop prevSep [] = []"
| "slug_loop prevSep (r # rs) =
     (if in_range (CHR ''a'') (CHR ''z'') r then r # slug_loop False rs
      else if in_range (CHR ''0'') (CHR ''9'') r then r # slug_loop False rs
      else if r = CHR ''.'' then r # slug_loop False rs
      else if \<not> prevSep then CHR ''-'' # slug_loop True rs
      else slug_loop prevSep rs)"

definition slugifyClientName :: "string \<Rightarrow> string" where
  "slugifyClientName s = trim_right_char (CHR ''-'') (slug_loop True s)"

definition NormalizeClientID :: "string \<Rightarrow> string" where
  "NormalizeClientID raw =
     (let trimmed = trim_space raw in
      if trimmed = [] then []
      else let lower = to_lower trimmed in
        (case map_of clientNameAliases lower of
           Some alias \<Rightarrow> alias
         | None \<Rightarrow> slugifyClientName lower))"

subsection \<open>Slugs are fixed points\<close>

definition slug_char :: "char \<Rightarrow> bool" where
  "slug_char c \<longleftrightarrow>
     in_range (CHR ''a'') (CHR ''z'') c \<or> in_range (CHR ''0'') (CHR ''9'') c \<or> c = CHR ''.''"

text \<open>The shape of a slug: allowed characters and single hyphens, none in front.\<close>

fun slug_form :: "bool \<Rightarrow> string \<Rightarrow> bool" where
  "slug_form p [] = True"
| "slug_form p (c # cs) =
     (slug_char c \<and> slug_form False cs \<or> c = CHR ''-'' \<and> \<not> p \<and> slug_form True cs)"

lemma hyphen_not_slug [simp]: "\<not> slug_char (CHR ''-'')"
  by (simp add: slug_char_def in_range_def)

lemma slug_loop_Cons:
  "slug_loop p (r # rs) =
     (if slug_char r then r # slug_loop False rs
      else if \<not> p then CHR ''-'' # slug_loop True rs else slug_loop p rs)"
  by (auto simp: slug_char_def)

lemma slug_loop_form: "slug_form p (slug_loop p s)"
  by (induction s arbitrary: p) (auto simp: slug_loop_Cons simp del: slug_loop.simps(2))

lemma slug_loop_fix: "slug_form p s \<Longrightarrow> slug_loop p s = s"
  by (induction s arbitrary: p) (auto simp: slug_loop_Cons simp del: slug_loop.simps(2))

lemma slug_form_prefix: "slug_form p (a @ b) \<Longrightarrow> slug_form p a"
  by (induction a arbitrary: p) auto

lemma trim_right_prefix: "\<exists>z. s = trim_right_char c s @ z"
proof -
  have "rev s = takeWhile (\<lambda>x. x = c) (rev s) @ dropWhile (\<lambda>x. x = c) (rev s)" by simp
  then have "s = rev (dropWhile (\<lambda>x. x = c) (rev s)) @ rev (takeWhile (\<lambda>x. x = c) (rev s))"
    by (metis rev_append rev_rev_ident)
  then show ?thesis by (auto simp: trim_right_char_def)
qed

lemma slug_form_trim: "slug_form p s \<Longrightarrow> slug_form p (trim_right_char c s)"
  by (metis slug_form_prefix trim_right_prefix)

lemma trim_right_idem [simp]: "trim_right_char c (trim_right_char c s) = trim_right_char c s"
  by (simp add: trim_right_char_def)

definition is_slug :: "string \<Rightarrow> bool" where
  "is_slug s \<longleftrightarrow> slug_form True s \<and> trim_right_char (CHR ''-'') s = s"

lemma slugify_is_slug: "is_slug (slugifyClientName s)"
  by (simp add: is_slug_def slugifyClientName_def slug_form_trim slug_loop_form)

lemma slugify_fix: "is_slug s \<Longrightarrow> slugifyClientName s = s"
  by (simp add: is_slug_def slugifyClientName_def slug_loop_fix)

text \<open>Trimming and lower-casing leave a slug alone.\<close>

definition slug_code :: "int \<Rightarrow> bool" where
  "slug_code n \<longleftrightarrow> 45 \<le> n \<and> n \<le> 57 \<or> 97 \<le> n \<and> n \<le> 122"

lemma slug_form_codes: "slug_form p s \<Longrightarrow> c \<in> set s \<Longrightarrow> slug_code (of_char c)"
  by (induction s arbitrary: p) (auto simp: slug_char_def in_range_def slug_code_def)

lemma space_runes_ends:
  "r \<in> set space_runes \<Longrightarrow> r \<noteq> [] \<and> \<not> slug_code (of_char (hd r)) \<and> \<not> slug_code (of_char (last r))"
  by (auto simp: space_runes_def slug_code_def)

lemma trim_left_none:
  assumes "\<And>r. r \<in> set rs \<Longrightarrow> r \<noteq> [] \<Longrightarrow> \<not> prefix r s"
  shows "trim_left_runes rs s = s"
proof -
  have "strip_one rs s = None"
    using assms by (auto simp: strip_one_def find_None_iff split: option.splits dest!: find_Some_iff [THEN iffD1])
  then show ?thesis by (subst trim_left_runes.simps) simp
qed

lemma trim_space_fix:
  assumes "\<And>c. c \<in> set s \<Longrightarrow> slug_code (of_char c)"
  shows "trim_space s = s"
proof -
  have 1: "trim_left_runes space_runes s = s"
  proof (rule trim_left_none)
    fix r assume "r \<in> set space_runes" "r \<noteq> []"
    with space_runes_ends [of r] assms show "\<not> prefix r s"
      by (metis hd_in_set list.set_sel(1) prefix_order.dual_order.trans set_mono_prefix subsetD)
  qed
  have 2: "trim_left_runes (map rev space_runes) (rev s) = rev s"
  proof (rule trim_left_none)
    fix r assume "r \<in> set (map rev space_runes)" "r \<noteq> []"
    then obtain q where "q \<in> set space_runes" "r = rev q" by auto
    with space_runes_ends [of q] assms show "\<not> prefix r (rev s)"
      by (metis last_in_set set_mono_prefix set_rev subsetD)
  qed
  from 1 2 show ?thesis by (simp add: trim_space_def)
qed

lemma to_lower_fix: "(\<And>c. c \<in> set s \<Longrightarrow> slug_code (of_char c)) \<Longrightarrow> to_lower s = s"
proof (induction s)
  case (Cons c cs)
  have c: "slug_code (of_char c)" using Cons.prems by simp
  then have "c \<noteq> CHR 0xC4" "c \<noteq> CHR 0xE2"
    by (auto simp: slug_code_def)
  moreover have "lower_char c = c" using c by (auto simp: lower_char_def in_range_def slug_code_def)
  moreover have "to_lower cs = cs" using Cons by simp
  ultimately show ?case by simp
qed simp

lemma normalize_slug:
  assumes "is_slug s" and "s \<noteq> []"
  shows "NormalizeClientID s = (case map_of clientNameAliases s of Some a \<Rightarrow> a | None \<Rightarrow> s)"
proof -
  have codes: "slug_code (of_char c)" if "c \<in> set s" for c
    using slug_form_codes [of True s c] assms(1) that by (simp add: is_slug_def)
  show ?thesis
    using assms trim_space_fix [OF codes] to_lower_fix [OF codes]
    by (simp add: NormalizeClientID_def slugify_fix split: option.splits)
qed

lemma alias_table_ok:
  "list_all (\<lambda>(k, a). a \<noteq> [] \<and> is_slug a
     \<and> (map_of clientNameAliases a = None \<or> map_of clientNameAliases a = Some a)) clientNameAliases"
  by code_simp

lemma alias_values: "map_of clientNameAliases k = Some a \<Longrightarrow>
   a \<noteq> [] \<and> is_slug a \<and> (map_of clientNameAliases a = None \<or> map_of clientNameAliases a = Some a)"
  using alias_table_ok by (auto simp: list_all_iff dest!: map_of_SomeD)

lemma is_slug_Nil [simp]: "is_slug []"
  by (simp add: is_slug_def trim_right_char_def)

lemma normalize_is_slug: "is_slug (NormalizeClientID raw)"
  by (auto simp: NormalizeClientID_def Let_def slugify_is_slug alias_values split: option.splits)

lemma normalize_alias: "map_of clientNameAliases k = Some a \<Longrightarrow> NormalizeClientID a = a"
  using alias_values [of k a] by (auto simp: normalize_slug split: option.splits)

lemma normalize_empty [simp]: "NormalizeClientID [] = []"
  using trim_space_fix [of "[]"] by (simp add: NormalizeClientID_def)

subsection \<open>Properties\<close>

text \<open>Normalisation is stable from its second application on, and a second application changes an
  identifier only by the built-in alias table. It is not idempotent: \<^verbatim>\<open>Cursor IDE\<close> normalises to
  \<^verbatim>\<open>cursor-ide\<close>, which is an alias key and normalises further to \<^verbatim>\<open>cursor\<close>. The session
  stores an identifier normalised once and the access policy normalises it again, while a profile
  key is normalised once, so such a profile never matches its own client.\<close>

theorem normalize_twice:
  "NormalizeClientID (NormalizeClientID raw) =
     (case map_of clientNameAliases (NormalizeClientID raw) of
        Some a \<Rightarrow> a | None \<Rightarrow> NormalizeClientID raw)
   \<and> NormalizeClientID (NormalizeClientID (NormalizeClientID raw)) =
     NormalizeClientID (NormalizeClientID raw)
   \<and> NormalizeClientID ''Cursor IDE'' = ''cursor-ide''
   \<and> NormalizeClientID ''cursor-ide'' = ''cursor''"
proof (intro conjI)
  show 1: "NormalizeClientID (NormalizeClientID raw) =
     (case map_of clientNameAliases (NormalizeClientID raw) of
        Some a \<Rightarrow> a | None \<Rightarrow> NormalizeClientID raw)"
  proof (cases "NormalizeClientID raw = []")
    case True
    then show ?thesis by (simp add: clientNameAliases_def)
  next
    case False
    then show ?thesis by (rule normalize_slug [OF normalize_is_slug])
  qed
  show "NormalizeClientID (NormalizeClientID (NormalizeClientID raw)) =
     NormalizeClientID (NormalizeClientID raw)"
    by (cases "map_of clientNameAliases (NormalizeClientID raw)") (simp_all add: 1 normalize_alias)
  show "NormalizeClientID ''Cursor IDE'' = ''cursor-ide''" by code_simp
  show "NormalizeClientID ''cursor-ide'' = ''cursor''" by code_simp
qed

end
