(* ===== verification/Client_Scope.thy ===== *)
theory Client_Scope
  imports Mcp_Types Tool_Names Client_Id
begin

text \<open>
  Per-client tool access (\<^verbatim>\<open>pkg/mcp/clientscope.go\<close>): the compiled \<^verbatim>\<open>clients:\<close> block, the test
  on the call path (\<^verbatim>\<open>Allows\<close>), the filter on the listing path (\<^verbatim>\<open>Filter\<close>) and the scope report.
  A nil policy is \<open>None\<close>; a set of names is the list of its members.
\<close>

subsection \<open>Definitions\<close>

record client_profile_spec =
  ps_aliases :: "string list"
  ps_servers :: "string list"
  ps_tools :: "string list"

record client_access_spec =
  cas_default :: string
  cas_profiles :: "(string, client_profile_spec) gomap"

record client_profile =
  cp_servers :: "string list"
  cp_tools :: "string list"

definition allowsTool :: "client_profile \<Rightarrow> string \<Rightarrow> bool" where
  "allowsTool p prefixedName =
     (case ParsePrefixedTool prefixedName of
        Inl _ \<Rightarrow> False
      | Inr (server, _) \<Rightarrow>
          if cp_servers p \<noteq> [] \<and> server \<notin> set (cp_servers p) then False
          else if cp_tools p \<noteq> [] \<and> prefixedName \<notin> set (cp_tools p) then False
          else True)"

record client_access_policy =
  cap_defaultAllow :: bool
  cap_profiles :: "(string, client_profile) gomap"
  cap_aliasIndex :: "(string, string) gomap"

definition add_alias :: "string \<Rightarrow> (string, string) gomap \<Rightarrow> string \<Rightarrow> (string, string) gomap" where
  "add_alias key idx alias =
     (if NormalizeClientID alias \<noteq> [] then AList.update (NormalizeClientID alias) key idx else idx)"

text \<open>One iteration of the loop over \<^verbatim>\<open>spec.Profiles\<close>.\<close>

definition add_profile ::
  "client_access_policy \<Rightarrow> string \<times> client_profile_spec \<Rightarrow> client_access_policy" where
  "add_profile p np =
     (let key = NormalizeClientID (fst np);
          cp = \<lparr>cp_servers = fold set_put (ps_servers (snd np)) [],
                cp_tools = fold set_put (ps_tools (snd np)) []\<rparr>
      in p\<lparr>cap_profiles := AList.update key cp (cap_profiles p),
           cap_aliasIndex := foldl (add_alias key) (cap_aliasIndex p) (ps_aliases (snd np))\<rparr>)"

definition NewClientAccessPolicy :: "client_access_spec option \<Rightarrow> client_access_policy option" where
  "NewClientAccessPolicy spec =
     (case spec of
        None \<Rightarrow> None
      | Some sp \<Rightarrow>
          Some (foldl add_profile
            \<lparr>cap_defaultAllow = (cas_default sp = ''allow''), cap_profiles = [], cap_aliasIndex = []\<rparr>
            (cas_profiles sp)))"

definition resolveKey :: "client_access_policy \<Rightarrow> string \<Rightarrow> string \<times> bool" where
  "resolveKey p accessID =
     (let n = NormalizeClientID accessID in
      if map_has (cap_profiles p) n then (n, True)
      else case map_of (cap_aliasIndex p) n of
        Some k \<Rightarrow> (k, True)
      | None \<Rightarrow> (n, False))"

text \<open>Reading a missing key of a Go map gives the zero profile, which has no restriction.\<close>

definition profile_at :: "client_access_policy \<Rightarrow> string \<Rightarrow> client_profile" where
  "profile_at p key =
     (case map_of (cap_profiles p) key of Some cp \<Rightarrow> cp | None \<Rightarrow> \<lparr>cp_servers = [], cp_tools = []\<rparr>)"

definition Allows :: "client_access_policy option \<Rightarrow> string \<Rightarrow> string \<Rightarrow> bool" where
  "Allows p accessID prefixedName =
     (case p of
        None \<Rightarrow> True
      | Some q \<Rightarrow>
          let (key, listed) = resolveKey q accessID in
          if \<not> listed then cap_defaultAllow q
          else allowsTool (profile_at q key) prefixedName)"

definition Filter_tools :: "client_access_policy option \<Rightarrow> string \<Rightarrow> tool list \<Rightarrow> tool list" where
  "Filter_tools p accessID tools =
     (case p of
        None \<Rightarrow> tools
      | Some q \<Rightarrow>
          let (key, listed) = resolveKey q accessID in
          if \<not> listed then (if cap_defaultAllow q then tools else [])
          else filter (\<lambda>t. allowsTool (profile_at q key) (t_name t)) tools)"

record client_scope_result =
  cs_configured :: bool
  cs_unscoped :: bool
  cs_servers :: "string list"
  cs_tools :: "string list"

definition profileAllowLists ::
  "client_access_policy option \<Rightarrow> string \<Rightarrow> string list \<times> string list \<times> bool" where
  "profileAllowLists p key =
     (case p of
        None \<Rightarrow> ([], [], False)
      | Some q \<Rightarrow>
          (case map_of (cap_profiles q) (NormalizeClientID key) of
             None \<Rightarrow> ([], [], False)
           | Some prof \<Rightarrow> (sort_strings (cp_servers prof), sort_strings (cp_tools prof), True)))"

definition scope_servers :: "tool list \<Rightarrow> string list" where
  "scope_servers ts =
     fold (\<lambda>t acc. case ParsePrefixedTool (t_name t) of Inl _ \<Rightarrow> acc | Inr (s, _) \<Rightarrow> set_put s acc) ts []"

definition scopeResult :: "client_access_policy option \<Rightarrow> string \<Rightarrow> tool list \<Rightarrow> client_scope_result" where
  "scopeResult p accessID allTools =
     (let visible = Filter_tools p accessID allTools in
      \<lparr>cs_configured = (p \<noteq> None),
       cs_unscoped = (p = None \<or> length visible = length allTools),
       cs_servers = sort_strings (scope_servers visible),
       cs_tools = sort_strings (map t_name visible)\<rparr>)"

text \<open>\<^verbatim>\<open>Gateway.ClientScope\<close> and \<^verbatim>\<open>Gateway.ClientScopePreview\<close> over the catalog of live tools;
  a nil \<open>tools\<close> argument of the preview is \<open>None\<close>.\<close>

definition ClientScope :: "client_access_policy option \<Rightarrow> tool list \<Rightarrow> string \<Rightarrow> client_scope_result" where
  "ClientScope policy catalog accessID = scopeResult policy (NormalizeClientID accessID) catalog"

definition ClientScopePreview ::
  "client_access_policy option \<Rightarrow> tool list \<Rightarrow> string \<Rightarrow> string list \<Rightarrow> string list option
   \<Rightarrow> client_scope_result" where
  "ClientScopePreview policy catalog accessID servers tools =
     (let key = NormalizeClientID accessID;
          tools' = (case tools of
             Some ts \<Rightarrow> ts
           | None \<Rightarrow> (case profileAllowLists policy key of (_, saved, listed) \<Rightarrow> if listed then saved else []));
          spec = \<lparr>cas_default = [],
                  cas_profiles = [(key, \<lparr>ps_aliases = [], ps_servers = servers, ps_tools = tools'\<rparr>)]\<rparr>
      in scopeResult (NewClientAccessPolicy (Some spec)) key catalog)"

subsection \<open>Listing agrees with calling\<close>

interpretation scope: exposure "Allows p" "Filter_tools p" for p
  by unfold_locales
    (auto simp: Allows_def Filter_tools_def split: option.splits prod.splits)

subsection \<open>The compiled policy\<close>

lemma allowsTool_iff:
  "allowsTool p n \<longleftrightarrow>
     (\<exists>s t. ParsePrefixedTool n = Inr (s, t) \<and> (cp_servers p = [] \<or> s \<in> set (cp_servers p))
        \<and> (cp_tools p = [] \<or> n \<in> set (cp_tools p)))"
  by (auto simp: allowsTool_def split: sum.splits prod.splits if_splits)

text \<open>Every alias of a compiled policy points at a compiled profile.\<close>

definition policy_ok :: "client_access_policy \<Rightarrow> bool" where
  "policy_ok p \<longleftrightarrow> map_keys_ok (cap_profiles p)
     \<and> (\<forall>a k. map_of (cap_aliasIndex p) a = Some k \<longrightarrow> map_has (cap_profiles p) k)"

lemma foldl_add_alias:
  "map_of (foldl (add_alias key) idx as) a = Some k \<Longrightarrow> map_of idx a = Some k \<or> k = key"
proof (induction as arbitrary: idx)
  case (Cons x as)
  then have "map_of (add_alias key idx x) a = Some k \<or> k = key" by simp
  then show ?case by (auto simp: add_alias_def map_of_update Let_def split: if_splits)
qed simp

lemma policy_ok_add_profile: "policy_ok p \<Longrightarrow> policy_ok (add_profile p np)"
  by (auto simp: policy_ok_def add_profile_def Let_def map_of_update dest!: foldl_add_alias)

lemma policy_ok_foldl: "policy_ok p \<Longrightarrow> policy_ok (foldl add_profile p ps)"
  by (induction ps arbitrary: p) (simp_all add: policy_ok_add_profile)

lemma policy_ok_empty: "policy_ok \<lparr>cap_defaultAllow = d, cap_profiles = [], cap_aliasIndex = []\<rparr>"
  by (simp add: policy_ok_def)

lemma NewClientAccessPolicy_ok: "NewClientAccessPolicy spec = Some p \<Longrightarrow> policy_ok p"
  by (auto simp: NewClientAccessPolicy_def policy_ok_foldl policy_ok_empty split: option.splits)

lemma resolveKey_listed: "policy_ok p \<Longrightarrow> resolveKey p i = (k, True) \<Longrightarrow> map_has (cap_profiles p) k"
  by (auto simp: resolveKey_def policy_ok_def Let_def split: if_splits option.splits)

lemma cap_defaultAllow_foldl [simp]: "cap_defaultAllow (foldl add_profile p ps) = cap_defaultAllow p"
  by (induction ps arbitrary: p) (simp_all add: add_profile_def Let_def)

lemma set_scope_servers:
  "set (scope_servers ts) = {s. \<exists>t\<in>set ts. \<exists>u. ParsePrefixedTool (t_name t) = Inr (s, u)}"
proof -
  have "set (fold (\<lambda>t acc. case ParsePrefixedTool (t_name t) of Inl _ \<Rightarrow> acc | Inr (s, _) \<Rightarrow> set_put s acc) ts acc)
      = {s. \<exists>t\<in>set ts. \<exists>u. ParsePrefixedTool (t_name t) = Inr (s, u)} \<union> set acc" for acc
    by (induction ts arbitrary: acc) (auto split: sum.splits)
  then show ?thesis by (simp add: scope_servers_def)
qed

text \<open>Compiling one profile, seen from a key: the last profile whose name normalises to it.\<close>

lemma cap_profiles_add_profile:
  "map_of (cap_profiles (add_profile p (n, sp))) k =
     (if k = NormalizeClientID n
      then Some \<lparr>cp_servers = fold set_put (ps_servers sp) [], cp_tools = fold set_put (ps_tools sp) []\<rparr>
      else map_of (cap_profiles p) k)"
  by (simp add: add_profile_def Let_def map_of_update)

lemma cap_profiles_foldl_at:
  assumes "(name, sp) \<in> set ps"
    and "\<And>n' sp'. (n', sp') \<in> set ps \<Longrightarrow> NormalizeClientID n' = NormalizeClientID name \<Longrightarrow> (n', sp') = (name, sp)"
  shows "map_of (cap_profiles (foldl add_profile p ps)) (NormalizeClientID name)
     = Some \<lparr>cp_servers = fold set_put (ps_servers sp) [], cp_tools = fold set_put (ps_tools sp) []\<rparr>"
  using assms
proof (induction ps arbitrary: p rule: rev_induct)
  case (snoc q ps)
  obtain n' sp' where q: "q = (n', sp')" by fastforce
  show ?case
  proof (cases "NormalizeClientID n' = NormalizeClientID name")
    case True
    with snoc.prems(2) [of n' sp'] q show ?thesis
      by (simp add: cap_profiles_add_profile)
  next
    case False
    with snoc.prems(1) q have mem: "(name, sp) \<in> set ps" by auto
    have "map_of (cap_profiles (foldl add_profile p ps)) (NormalizeClientID name)
       = Some \<lparr>cp_servers = fold set_put (ps_servers sp) [], cp_tools = fold set_put (ps_tools sp) []\<rparr>"
      by (rule snoc.IH [OF mem]) (rule snoc.prems(2), simp_all)
    with False q show ?thesis by (simp add: cap_profiles_add_profile)
  qed
qed simp

subsection \<open>Properties\<close>

text \<open>For every policy and client, the listing path keeps exactly the tools that the call path
  admits for that client: nothing is listed that a call would be denied, and nothing that may be
  called is hidden.\<close>

theorem filter_matches_allows:
  "Filter_tools p accessID tools = filter (\<lambda>t. Allows p accessID (t_name t)) tools"
  by (rule scope.narrow_spec)

text \<open>The profile that governs a client: the one whose name normalises to the client's normalised access id, or, when no
  name does, one with an alias that does.\<close>

definition alias_matches :: "client_profile_spec \<Rightarrow> string \<Rightarrow> bool" where
  "alias_matches sp n \<longleftrightarrow> n \<noteq> [] \<and> n \<in> NormalizeClientID ` set (ps_aliases sp)"

definition governs :: "client_access_spec \<Rightarrow> string \<Rightarrow> string \<times> client_profile_spec \<Rightarrow> bool" where
  "governs spec accessID np \<longleftrightarrow> np \<in> set (cas_profiles spec)
     \<and> (NormalizeClientID (fst np) = NormalizeClientID accessID
        \<or> (\<forall>q\<in>set (cas_profiles spec). NormalizeClientID (fst q) \<noteq> NormalizeClientID accessID)
          \<and> alias_matches (snd np) (NormalizeClientID accessID))"

text \<open>No two profiles have the same key, and no alias belongs to two.\<close>

definition unambiguous :: "client_access_spec \<Rightarrow> bool" where
  "unambiguous spec \<longleftrightarrow> (\<forall>p\<in>set (cas_profiles spec). \<forall>q\<in>set (cas_profiles spec). p \<noteq> q \<longrightarrow>
     NormalizeClientID (fst p) \<noteq> NormalizeClientID (fst q)
     \<and> (\<forall>n. \<not> (alias_matches (snd p) n \<and> alias_matches (snd q) n)))"

lemma alias_fold:
  "map_of (foldl (add_alias key) idx as) n = (if n \<noteq> [] \<and> n \<in> NormalizeClientID ` set as then Some key else map_of idx n)"
  by (induction as arbitrary: idx) (auto simp: add_alias_def map_of_update)

lemma alias_at:
  "map_of (cap_aliasIndex (add_profile p np)) n =
     (if alias_matches (snd np) n then Some (NormalizeClientID (fst np)) else map_of (cap_aliasIndex p) n)"
  by (simp add: add_profile_def Let_def alias_fold alias_matches_def)

lemma alias_found:
  "map_of (cap_aliasIndex (foldl add_profile p ps)) n =
     (case filter (\<lambda>np. alias_matches (snd np) n) (rev ps) of [] \<Rightarrow> map_of (cap_aliasIndex p) n
      | np # _ \<Rightarrow> Some (NormalizeClientID (fst np)))"
  by (induction ps rule: rev_induct) (simp_all add: alias_at)

lemma profile_found:
  "map_has (cap_profiles (foldl add_profile p ps)) n \<longleftrightarrow> map_has (cap_profiles p) n \<or> (\<exists>np\<in>set ps. NormalizeClientID (fst np) = n)"
proof (induction ps arbitrary: p)
  case (Cons np ps)
  have "map_has (cap_profiles (add_profile p np)) n \<longleftrightarrow> map_has (cap_profiles p) n \<or> NormalizeClientID (fst np) = n"
    by (cases np) (auto simp: cap_profiles_add_profile)
  with Cons show ?case by auto
qed simp

lemma governed_key:
  assumes "unambiguous spec" "governs spec accessID np" "NewClientAccessPolicy (Some spec) = Some p"
  shows "resolveKey p accessID = (NormalizeClientID (fst np), True)"
proof -
  let ?n = "NormalizeClientID accessID"
  let ?e = "\<lparr>cap_defaultAllow = (cas_default spec = ''allow''), cap_profiles = [], cap_aliasIndex = []\<rparr>"
  have p: "p = foldl add_profile ?e (cas_profiles spec)" using assms(3) by (simp add: NewClientAccessPolicy_def)
  have np: "np \<in> set (cas_profiles spec)" using assms(2) by (simp add: governs_def)
  show ?thesis
  proof (cases "NormalizeClientID (fst np) = ?n")
    case True
    with np have "map_has (cap_profiles p) ?n" unfolding p profile_found by auto
    then show ?thesis using True by (simp add: resolveKey_def)
  next
    case False
    with assms(2) have f: "\<forall>q\<in>set (cas_profiles spec). NormalizeClientID (fst q) \<noteq> ?n" "alias_matches (snd np) ?n"
      by (auto simp: governs_def)
    then have "\<not> map_has (cap_profiles p) ?n" unfolding p profile_found by simp
    moreover have "filter (\<lambda>q. alias_matches (snd q) ?n) (rev (cas_profiles spec)) \<noteq> []"
      using f(2) np by (auto simp: filter_empty_conv)
    then obtain q qs where q: "filter (\<lambda>q. alias_matches (snd q) ?n) (rev (cas_profiles spec)) = q # qs"
      by (cases "filter (\<lambda>q. alias_matches (snd q) ?n) (rev (cas_profiles spec))") auto
    then have "q \<in> set (filter (\<lambda>q. alias_matches (snd q) ?n) (rev (cas_profiles spec)))" by simp
    then have "q \<in> set (cas_profiles spec)" "alias_matches (snd q) ?n" by simp_all
    with assms(1) f(2) np have "q = np" by (auto simp: unambiguous_def)
    then have "map_of (cap_aliasIndex p) ?n = Some (NormalizeClientID (fst np))" using q by (simp add: p alias_found)
    ultimately show ?thesis by (simp add: resolveKey_def)
  qed
qed

text \<open>C34. Profiles are enforced, on exactly the clients they govern. In a block where no two profiles have the same
  normalised name and no alias belongs to two, a client that a profile governs, by its name or else by an alias, may call a
  tool exactly when the name has a server prefix, the server is in the profile's server list (or the list is empty) and
  the tool is in its tool list (or that is empty); a client that no profile governs may call every tool under
  \<^verbatim>\<open>default: allow\<close>, and none otherwise.\<close>

theorem profile_enforced:
  assumes "unambiguous spec"
  shows "(\<forall>name sp. governs spec accessID (name, sp) \<longrightarrow>
      (Allows (NewClientAccessPolicy (Some spec)) accessID prefixedName \<longleftrightarrow>
        (\<exists>s t. ParsePrefixedTool prefixedName = Inr (s, t) \<and> (ps_servers sp = [] \<or> s \<in> set (ps_servers sp))
          \<and> (ps_tools sp = [] \<or> prefixedName \<in> set (ps_tools sp)))))
    \<and> ((\<nexists>np. governs spec accessID np) \<longrightarrow>
      (Allows (NewClientAccessPolicy (Some spec)) accessID prefixedName \<longleftrightarrow> cas_default spec = ''allow''))"
proof (intro conjI allI impI)
  obtain p where p: "NewClientAccessPolicy (Some spec) = Some p" by (simp add: NewClientAccessPolicy_def)
  fix name sp assume g: "governs spec accessID (name, sp)"
  then have mem: "(name, sp) \<in> set (cas_profiles spec)" by (simp add: governs_def)
  then have one: "\<forall>q\<in>set (cas_profiles spec). NormalizeClientID (fst q) = NormalizeClientID name \<longrightarrow> q = (name, sp)"
    using assms by (metis fst_conv unambiguous_def)
  have "map_of (cap_profiles p) (NormalizeClientID name)
      = Some \<lparr>cp_servers = fold set_put (ps_servers sp) [], cp_tools = fold set_put (ps_tools sp) []\<rparr>"
  proof -
    have "p = foldl add_profile \<lparr>cap_defaultAllow = (cas_default spec = ''allow''), cap_profiles = [], cap_aliasIndex = []\<rparr>
        (cas_profiles spec)" using p by (simp add: NewClientAccessPolicy_def)
    then show ?thesis using cap_profiles_foldl_at [OF mem] one by (metis fst_conv)
  qed
  then show "Allows (NewClientAccessPolicy (Some spec)) accessID prefixedName \<longleftrightarrow>
        (\<exists>s t. ParsePrefixedTool prefixedName = Inr (s, t) \<and> (ps_servers sp = [] \<or> s \<in> set (ps_servers sp))
          \<and> (ps_tools sp = [] \<or> prefixedName \<in> set (ps_tools sp)))"
    using governed_key [OF assms g p] by (simp add: p Allows_def profile_at_def allowsTool_iff)
next
  let ?n = "NormalizeClientID accessID"
  obtain p where p: "NewClientAccessPolicy (Some spec) = Some p" by (simp add: NewClientAccessPolicy_def)
  assume none: "\<nexists>np. governs spec accessID np"
  then have k: "\<forall>q\<in>set (cas_profiles spec). NormalizeClientID (fst q) \<noteq> ?n" by (auto simp: governs_def)
  with none have "filter (\<lambda>np. alias_matches (snd np) ?n) (rev (cas_profiles spec)) = []"
    by (auto simp: governs_def filter_empty_conv)
  then have "map_of (cap_aliasIndex p) ?n = None" using p by (auto simp: NewClientAccessPolicy_def alias_found)
  moreover have "map_of (cap_profiles p) ?n = None"
  proof -
    let ?e = "\<lparr>cap_defaultAllow = (cas_default spec = ''allow''), cap_profiles = [], cap_aliasIndex = []\<rparr>"
    have e: "p = foldl add_profile ?e (cas_profiles spec)" "cap_profiles ?e = []"
      using p by (simp_all add: NewClientAccessPolicy_def)
    have "\<not> map_has (cap_profiles p) ?n" unfolding e(1) profile_found using k e(2) by simp
    then show ?thesis by simp
  qed
  moreover have "cap_defaultAllow p = (cas_default spec = ''allow'')" using p by (auto simp: NewClientAccessPolicy_def)
  ultimately show "Allows (NewClientAccessPolicy (Some spec)) accessID prefixedName \<longleftrightarrow> cas_default spec = ''allow''"
    by (simp add: p Allows_def resolveKey_def)
qed

definition demo_access :: client_access_spec where
  "demo_access = \<lparr>cas_default = ''allow'', cas_profiles = [(''zed'', \<lparr>ps_aliases = [''mine''], ps_servers = [''git''], ps_tools = []\<rparr>)]\<rparr>"

theorem profile_enforced_witness:
  "\<not> Allows (NewClientAccessPolicy (Some demo_access)) ''mine'' ''jira__search''
   \<and> Allows (NewClientAccessPolicy (Some demo_access)) ''other'' ''jira__search''"
proof -
  have u: "unambiguous demo_access" by (simp add: unambiguous_def demo_access_def)
  have n: "NormalizeClientID ''mine'' = ''mine''" "NormalizeClientID ''zed'' = ''zed''" "NormalizeClientID ''other'' = ''other''"
    by code_simp+
  have "governs demo_access ''mine'' (''zed'', \<lparr>ps_aliases = [''mine''], ps_servers = [''git''], ps_tools = []\<rparr>)"
    by (simp add: governs_def demo_access_def alias_matches_def n)
  moreover have "\<nexists>np. governs demo_access ''other'' np" by (auto simp: governs_def demo_access_def alias_matches_def n)
  moreover have "ParsePrefixedTool ''jira__search'' = Inr (''jira'', ''search'')" by code_simp
  moreover have "cas_default demo_access = ''allow''" by (simp add: demo_access_def)
  ultimately show ?thesis
    using profile_enforced [OF u, of "''mine''" "''jira__search''"] profile_enforced [OF u, of "''other''" "''jira__search''"]
    by (simp del: not_ex)
qed

text \<open>Deny by default: a client whose normalised access id is neither a profile key nor an alias
  sees an empty tool list and may call nothing, unless the block says \<^verbatim>\<open>default: allow\<close>, in which
  case it sees every tool unchanged.\<close>

theorem unlisted_client_default:
  assumes "NewClientAccessPolicy (Some spec) = Some p"
    and "map_of (cap_profiles p) (NormalizeClientID accessID) = None"
    and "map_of (cap_aliasIndex p) (NormalizeClientID accessID) = None"
  shows "Filter_tools (Some p) accessID tools = (if cas_default spec = ''allow'' then tools else [])
     \<and> Allows (Some p) accessID prefixedName = (cas_default spec = ''allow'')"
proof -
  have "cap_defaultAllow p = (cas_default spec = ''allow'')"
    using assms(1) by (auto simp: NewClientAccessPolicy_def)
  with assms(2,3) show ?thesis
    by (auto simp: Allows_def Filter_tools_def resolveKey_def Let_def)
qed

theorem unlisted_client_default_witness:
  "Filter_tools (NewClientAccessPolicy (Some \<lparr>cas_default = ''deny'', cas_profiles = []\<rparr>)) ''zed''
     [\<lparr>t_name = ''git__log'', t_title = [], t_description = [], t_inputSchema = [],
       t_outputSchema = [], t_annotations = None\<rparr>] = []"
  using unlisted_client_default [of "\<lparr>cas_default = ''deny'', cas_profiles = []\<rparr>"
      "\<lparr>cap_defaultAllow = False, cap_profiles = [], cap_aliasIndex = []\<rparr>" "''zed''"
      "[\<lparr>t_name = ''git__log'', t_title = [], t_description = [], t_inputSchema = [],
       t_outputSchema = [], t_annotations = None\<rparr>]" "''git__log''"]
  by (simp add: NewClientAccessPolicy_def)

text \<open>A profile keyed by the very name its client reports need not apply to that client. With the
  profile \<^verbatim>\<open>Cursor IDE\<close> restricted to server \<^verbatim>\<open>git\<close> under \<^verbatim>\<open>default: allow\<close>, a session of the
  client \<^verbatim>\<open>Cursor IDE\<close> carries the access id \<^verbatim>\<open>cursor-ide\<close>, which the policy normalises again to
  \<^verbatim>\<open>cursor\<close> and does not find, so the client may call a tool of another server.\<close>

theorem profile_bypassed_by_alias:
  "Allows (NewClientAccessPolicy (Some \<lparr>cas_default = ''allow'',
      cas_profiles = [(''Cursor IDE'', \<lparr>ps_aliases = [], ps_servers = [''git''], ps_tools = []\<rparr>)]\<rparr>))
     (NormalizeClientID ''Cursor IDE'') ''jira__search''"
  by code_simp

text \<open>The scope report tells the truth about the live catalog: its tools are the sorted names of the
  tools the client may call, its servers are the sorted distinct servers of those tools, and it says
  unscoped exactly when no policy is installed or every tool of the catalog may be called.\<close>

theorem scope_report_sound:
  "set (cs_tools (scopeResult p i cat)) = {t_name t |t. t \<in> set cat \<and> Allows p i (t_name t)}
   \<and> sorted (cs_tools (scopeResult p i cat))
   \<and> set (cs_servers (scopeResult p i cat)) =
       {s. \<exists>t\<in>set cat. Allows p i (t_name t) \<and> (\<exists>u. ParsePrefixedTool (t_name t) = Inr (s, u))}
   \<and> sorted (cs_servers (scopeResult p i cat))
   \<and> (cs_unscoped (scopeResult p i cat) \<longleftrightarrow> p = None \<or> (\<forall>t\<in>set cat. Allows p i (t_name t)))"
  by (auto simp: scopeResult_def Let_def set_scope_servers scope.listed_iff_callable scope.narrow_full_iff)

theorem scope_report_sound_witness:
  "cs_tools (scopeResult (NewClientAccessPolicy (Some \<lparr>cas_default = ''deny'',
      cas_profiles = [(''zed'', \<lparr>ps_aliases = [], ps_servers = [''git''], ps_tools = []\<rparr>)]\<rparr>)) ''zed''
     [\<lparr>t_name = ''git__log'', t_title = [], t_description = [], t_inputSchema = [], t_outputSchema = [], t_annotations = None\<rparr>])
     = [''git__log'']
   \<and> sorted (cs_tools (scopeResult None ''zed'' []))"
  by (intro conjI) (code_simp, use scope_report_sound [of None "''zed''" "[]"] in blast)

end
