(* ===== verification/Tool_Groups.thy ===== *)
theory Tool_Groups
  imports Mcp_Types Tool_Names
begin

text \<open>
  Tool groups (\<^verbatim>\<open>pkg/mcp/groups.go\<close>): the compiled \<^verbatim>\<open>groups:\<close> block, which curates and renames
  the tools a group endpoint exposes, and the translation of an inbound name back to its canonical
  form. A nil policy is \<open>None\<close>; \<^verbatim>\<open>map[string]bool\<close> sets are lists of members.
\<close>

subsection \<open>Definitions\<close>

record group_override_spec =
  ov_name :: string
  ov_description :: string
  ov_readOnlyHint :: "bool option"
  ov_destructiveHint :: "bool option"
  ov_idempotentHint :: "bool option"
  ov_openWorldHint :: "bool option"

record group_spec =
  gs_description :: string
  gs_servers :: "string list"
  gs_tools :: "string list"
  gs_exclude :: "string list"
  gs_overrides :: "(string, group_override_spec) gomap"

type_synonym groups_spec = "(string, group_spec) gomap"

record group_def =
  gd_name :: string
  gd_description :: string
  gd_servers :: "string list"
  gd_tools :: "string list"
  gd_exclude :: "string list"
  gd_overrides :: "(string, group_override_spec) gomap"
  gd_alias :: "(string, string) gomap"

definition isMember :: "group_def \<Rightarrow> string \<Rightarrow> bool" where
  "isMember d prefixed =
     (if prefixed \<in> set (gd_exclude d) then False
      else if prefixed \<in> set (gd_tools d) then True
      else case ParsePrefixedTool prefixed of
        Inl _ \<Rightarrow> False
      | Inr (server, _) \<Rightarrow> server \<in> set (gd_servers d))"

type_synonym group_policy = "(string, group_def) gomap"

text \<open>One iteration of the loop over the overrides of a group.\<close>

definition add_override ::
  "(string, group_override_spec) gomap \<times> (string, string) gomap \<Rightarrow> string \<times> group_override_spec
   \<Rightarrow> (string, group_override_spec) gomap \<times> (string, string) gomap" where
  "add_override st co =
     (AList.update (fst co) (snd co) (fst st),
      if ov_name (snd co) \<noteq> [] then AList.update (ov_name (snd co)) (fst co) (snd st) else snd st)"

definition compile_group :: "string \<Rightarrow> group_spec \<Rightarrow> group_def" where
  "compile_group name g =
     (let oa = foldl add_override ([], []) (gs_overrides g) in
      \<lparr>gd_name = name, gd_description = gs_description g,
       gd_servers = fold set_put (gs_servers g) [],
       gd_tools = fold set_put (gs_tools g) [],
       gd_exclude = fold set_put (gs_exclude g) [],
       gd_overrides = fst oa, gd_alias = snd oa\<rparr>)"

definition NewGroupPolicy :: "groups_spec \<Rightarrow> group_policy option" where
  "NewGroupPolicy spec =
     (if spec = [] then None
      else Some (foldl (\<lambda>m (name, g). AList.update name (compile_group name g) m) [] spec))"

definition Has_group :: "group_policy option \<Rightarrow> string \<Rightarrow> bool" where
  "Has_group p name = (case p of None \<Rightarrow> False | Some gs \<Rightarrow> map_has gs name)"

definition Names_of :: "group_policy option \<Rightarrow> string list" where
  "Names_of p = (case p of None \<Rightarrow> [] | Some gs \<Rightarrow> sort_strings (map fst gs))"

definition mergeAnnotations ::
  "tool_annotations option \<Rightarrow> group_override_spec \<Rightarrow> tool_annotations option" where
  "mergeAnnotations downstream ov =
     (let merged = Clone downstream in
      if ov_readOnlyHint ov = None \<and> ov_destructiveHint ov = None
         \<and> ov_idempotentHint ov = None \<and> ov_openWorldHint ov = None
      then merged
      else
        let m0 = (case merged of None \<Rightarrow> zero_annotations | Some m \<Rightarrow> m);
            m1 = (if ov_readOnlyHint ov \<noteq> None then m0\<lparr>an_readOnlyHint := ov_readOnlyHint ov\<rparr> else m0);
            m2 = (if ov_destructiveHint ov \<noteq> None then m1\<lparr>an_destructiveHint := ov_destructiveHint ov\<rparr> else m1);
            m3 = (if ov_idempotentHint ov \<noteq> None then m2\<lparr>an_idempotentHint := ov_idempotentHint ov\<rparr> else m2);
            m4 = (if ov_openWorldHint ov \<noteq> None then m3\<lparr>an_openWorldHint := ov_openWorldHint ov\<rparr> else m3)
        in Some m4)"

text \<open>The exposed name of a renamed tool, and the body of the loop of \<^verbatim>\<open>filterAndRewrite\<close> for a
  member tool.\<close>

definition exposed_rename :: "bool \<Rightarrow> string \<Rightarrow> group_override_spec \<Rightarrow> string" where
  "exposed_rename prefixAliases name ov =
     (if prefixAliases
      then (case ParsePrefixedTool name of
              Inl _ \<Rightarrow> ov_name ov
            | Inr (server, _) \<Rightarrow> PrefixTool server (ov_name ov))
      else ov_name ov)"

definition rewrite_tool :: "group_def \<Rightarrow> bool \<Rightarrow> tool \<Rightarrow> tool" where
  "rewrite_tool d prefixAliases tool =
     (case map_of (gd_overrides d) (t_name tool) of
        None \<Rightarrow> tool
      | Some ov \<Rightarrow>
          let exposed = exposed_rename prefixAliases (t_name tool) ov;
              r1 = (if ov_name ov \<noteq> []
                    then tool\<lparr>t_description := replace_all (go_quote (t_name tool)) (go_quote exposed) (t_description tool),
                            t_name := exposed,
                            t_title := (if t_title tool = t_name tool then exposed else t_title tool)\<rparr>
                    else tool);
              r2 = (if ov_description ov \<noteq> [] then r1\<lparr>t_description := ov_description ov\<rparr> else r1)
          in r2\<lparr>t_annotations := mergeAnnotations (t_annotations tool) ov\<rparr>)"

fun rewrite_loop :: "group_def \<Rightarrow> bool \<Rightarrow> tool list \<Rightarrow> tool list" where
  "rewrite_loop d prefixAliases [] = []"
| "rewrite_loop d prefixAliases (tool # tools) =
     (if \<not> isMember d (t_name tool) then rewrite_loop d prefixAliases tools
      else rewrite_tool d prefixAliases tool # rewrite_loop d prefixAliases tools)"

definition filterAndRewrite ::
  "group_policy option \<Rightarrow> string \<Rightarrow> tool list \<Rightarrow> bool \<Rightarrow> tool list" where
  "filterAndRewrite p grp tools prefixAliases =
     (case p of
        None \<Rightarrow> []
      | Some gs \<Rightarrow>
          (case map_of gs grp of
             None \<Rightarrow> []
           | Some d \<Rightarrow> rewrite_loop d prefixAliases tools))"

definition FilterAndRewrite :: "group_policy option \<Rightarrow> string \<Rightarrow> tool list \<Rightarrow> tool list" where
  "FilterAndRewrite p grp tools = filterAndRewrite p grp tools False"

definition FilterAndRewritePrefixed :: "group_policy option \<Rightarrow> string \<Rightarrow> tool list \<Rightarrow> tool list" where
  "FilterAndRewritePrefixed p grp tools = filterAndRewrite p grp tools True"

text \<open>\<^verbatim>\<open>ResolveAlias\<close> on one group; \<open>exists\<close> is the function argument of the source, \<open>None\<close> for nil.
  The branches are in the order of the source.\<close>

definition resolve_in :: "group_def \<Rightarrow> (string \<Rightarrow> bool) option \<Rightarrow> string \<Rightarrow> string option" where
  "resolve_in d live name =
     (case map_of (gd_alias d) name of
        Some canonical \<Rightarrow> Some canonical
      | None \<Rightarrow>
          if (case live of None \<Rightarrow> False | Some f \<Rightarrow> f name) \<and> isMember d name then Some name
          else
            (let prefixed_alias =
               (case ParsePrefixedTool name of
                  Inl _ \<Rightarrow> None
                | Inr (server, tail) \<Rightarrow>
                    (case map_of (gd_alias d) tail of
                       None \<Rightarrow> None
                     | Some canonical \<Rightarrow>
                         (case ParsePrefixedTool canonical of
                            Inl _ \<Rightarrow> None
                          | Inr (cs, _) \<Rightarrow> if cs = server then Some canonical else None)))
             in case prefixed_alias of
                  Some canonical \<Rightarrow> Some canonical
                | None \<Rightarrow> if isMember d name then Some name else None))"

definition ResolveAlias ::
  "group_policy option \<Rightarrow> string \<Rightarrow> string \<Rightarrow> (string \<Rightarrow> bool) option \<Rightarrow> string option" where
  "ResolveAlias p grp name live =
     (case p of
        None \<Rightarrow> None
      | Some gs \<Rightarrow>
          (case map_of gs grp of
             None \<Rightarrow> None
           | Some d \<Rightarrow> resolve_in d live name))"

record group_tool_status =
  gts_name :: string
  gts_canonical :: string
  gts_description :: string
  gts_annotations :: "tool_annotations option"
  gts_renamed :: bool
  gts_rewritten :: bool

record group_status =
  gst_name :: string
  gst_description :: string
  gst_endpoint :: string
  gst_memberCount :: nat
  gst_tools :: "string list"
  gst_members :: "group_tool_status list"
  gst_overrides :: "(string, string) gomap"

fun status_members :: "group_policy option \<Rightarrow> string \<Rightarrow> group_def \<Rightarrow> tool list \<Rightarrow> group_tool_status list" where
  "status_members p name d [] = []"
| "status_members p name d (tool # live) =
     (if \<not> isMember d (t_name tool) then status_members p name d live
      else case FilterAndRewrite p name [tool] of
        [e] \<Rightarrow>
          (let ov = map_of (gd_overrides d) (t_name tool) in
           \<lparr>gts_name = t_name e, gts_canonical = t_name tool, gts_description = t_description e,
            gts_annotations = t_annotations e,
            gts_renamed = (case ov of None \<Rightarrow> False | Some v \<Rightarrow> ov_name v \<noteq> []),
            gts_rewritten = (case ov of None \<Rightarrow> False | Some v \<Rightarrow> ov_description v \<noteq> [])\<rparr>)
          # status_members p name d live
      | _ \<Rightarrow> status_members p name d live)"

text \<open>\<^verbatim>\<open>sort.Slice\<close> by name is not stable; on members with equal exposed names the model keeps the
  live order. The keys of the policy come from \<^const>\<open>Names_of\<close>, so the lookup cannot miss.\<close>

definition group_status_of :: "group_policy option \<Rightarrow> string \<Rightarrow> group_def \<Rightarrow> tool list \<Rightarrow> group_status" where
  "group_status_of p name d liveTools =
     (let members = sort_key gts_name (status_members p name d liveTools) in
      \<lparr>gst_name = name, gst_description = gd_description d,
       gst_endpoint = ''/groups/'' @ name @ ''/mcp'',
       gst_memberCount = length members, gst_tools = map gts_name members, gst_members = members,
       gst_overrides = map (\<lambda>(c, ov). (c, ov_name ov)) (gd_overrides d)\<rparr>)"

definition Status_groups :: "group_policy option \<Rightarrow> tool list \<Rightarrow> group_status list" where
  "Status_groups p liveTools =
     (case p of
        None \<Rightarrow> []
      | Some gs \<Rightarrow>
          List.map_filter
            (\<lambda>name. map_option (\<lambda>d. group_status_of p name d liveTools) (map_of gs name)) (Names_of p))"

definition GroupsRewritingTool :: "group_policy option \<Rightarrow> string \<Rightarrow> string list" where
  "GroupsRewritingTool p canonical =
     (case p of
        None \<Rightarrow> []
      | Some gs \<Rightarrow>
          filter (\<lambda>name. case map_of gs name of
              None \<Rightarrow> False
            | Some d \<Rightarrow> (case map_of (gd_overrides d) canonical of
                  None \<Rightarrow> False
                | Some ov \<Rightarrow> ov_description ov \<noteq> [] \<and> isMember d canonical))
            (Names_of p))"

definition RenamedOriginals :: "group_policy option \<Rightarrow> (string, (string, string) gomap) gomap" where
  "RenamedOriginals p =
     (case p of
        None \<Rightarrow> []
      | Some gs \<Rightarrow>
          filter (\<lambda>(name, renames). renames \<noteq> [])
            (map (\<lambda>(name, d). (name, map (\<lambda>(c, ov). (c, ov_name ov))
                (filter (\<lambda>(c, ov). ov_name ov \<noteq> []) (gd_overrides d)))) gs))"

subsection \<open>Resolution inverts exposure\<close>

text \<open>
  The contract of a curated surface: what is exposed under some name resolves back to the member it
  came from, and nothing resolves to a tool outside the surface.
\<close>

locale curated_surface =
  fixes ok :: "'d \<Rightarrow> bool"
    and member :: "'d \<Rightarrow> string \<Rightarrow> bool"
    and expose :: "'d \<Rightarrow> string \<Rightarrow> string"
    and resolve :: "'d \<Rightarrow> (string \<Rightarrow> bool) option \<Rightarrow> string \<Rightarrow> string option"
  assumes resolve_expose:
      "ok d \<Longrightarrow> member d c \<Longrightarrow> live c \<Longrightarrow> resolve d (Some live) (expose d c) = Some c"
    and resolve_member: "ok d \<Longrightarrow> resolve d f n = Some c \<Longrightarrow> member d c"
begin

lemma expose_inj:
  assumes "ok d" "member d c" "member d c'" "expose d c = expose d c'"
  shows "c = c'"
proof -
  have "Some c = resolve d (Some (\<lambda>_. True)) (expose d c)" by (simp add: resolve_expose assms(1,2))
  also have "\<dots> = Some c'" by (simp add: resolve_expose assms(1,3,4))
  finally show ?thesis by simp
qed

lemma distinct_exposed:
  "ok d \<Longrightarrow> distinct cs \<Longrightarrow> (\<And>c. c \<in> set cs \<Longrightarrow> member d c) \<Longrightarrow> distinct (map (expose d) cs)"
  by (auto simp: distinct_map inj_on_def dest: expose_inj)

end

definition exposed_name :: "group_def \<Rightarrow> string \<Rightarrow> string" where
  "exposed_name d c =
     (case map_of (gd_overrides d) c of
        None \<Rightarrow> c
      | Some ov \<Rightarrow> if ov_name ov \<noteq> [] then ov_name ov else c)"

text \<open>What validation establishes of a group: the alias index inverts the renames, renames are flat,
  overridden tools are members and explicit members are prefixed names.\<close>

definition group_def_ok :: "group_def \<Rightarrow> bool" where
  "group_def_ok d \<longleftrightarrow>
     (\<forall>c ov. map_of (gd_overrides d) c = Some ov \<longrightarrow> ov_name ov \<noteq> [] \<longrightarrow> map_of (gd_alias d) (ov_name ov) = Some c)
   \<and> (\<forall>n c. map_of (gd_alias d) n = Some c \<longrightarrow> map_has (gd_overrides d) c \<and> parsed n = None)
   \<and> (\<forall>c. map_has (gd_overrides d) c \<longrightarrow> isMember d c)
   \<and> (\<forall>c\<in>set (gd_tools d). parsed c \<noteq> None)"

lemma group_def_okD:
  assumes "group_def_ok d"
  shows "map_of (gd_overrides d) c = Some ov \<Longrightarrow> ov_name ov \<noteq> [] \<Longrightarrow> map_of (gd_alias d) (ov_name ov) = Some c"
    and "map_of (gd_alias d) n = Some c \<Longrightarrow> isMember d c"
    and "parsed n \<noteq> None \<Longrightarrow> map_of (gd_alias d) n = None"
    and "isMember d c \<Longrightarrow> parsed c \<noteq> None"
proof -
  show "map_of (gd_overrides d) c = Some ov \<Longrightarrow> ov_name ov \<noteq> [] \<Longrightarrow> map_of (gd_alias d) (ov_name ov) = Some c"
    using assms unfolding group_def_ok_def by blast
  show "map_of (gd_alias d) n = Some c \<Longrightarrow> isMember d c"
    using assms unfolding group_def_ok_def by blast
  show "parsed n \<noteq> None \<Longrightarrow> map_of (gd_alias d) n = None"
    using assms unfolding group_def_ok_def by (metis not_Some_eq)
  have "c \<in> set (gd_tools d) \<Longrightarrow> parsed c \<noteq> None"
    using assms unfolding group_def_ok_def by blast
  then show "isMember d c \<Longrightarrow> parsed c \<noteq> None"
    by (auto simp: isMember_def parsed_def split: if_splits sum.splits)
qed

lemma resolve_in_expose:
  assumes ok: "group_def_ok d" and mem: "isMember d c" and live: "live c"
  shows "resolve_in d (Some live) (exposed_name d c) = Some c"
proof (cases "map_of (gd_alias d) (exposed_name d c)")
  case None
  with group_def_okD(1) [OF ok] have "exposed_name d c = c"
    by (auto simp: exposed_name_def split: option.splits if_splits)
  with None mem live show ?thesis by (simp add: resolve_in_def)
next
  case (Some k)
  moreover have "exposed_name d c \<noteq> c"
    using Some group_def_okD(3,4) [OF ok] mem by (metis option.distinct(1))
  ultimately show ?thesis
    using group_def_okD(1) [OF ok]
    by (auto simp: resolve_in_def exposed_name_def split: option.splits if_splits)
qed

lemma resolve_in_member: "group_def_ok d \<Longrightarrow> resolve_in d f n = Some c \<Longrightarrow> isMember d c"
  by (auto simp: resolve_in_def Let_def dest: group_def_okD(2) split: option.splits if_splits sum.splits prod.splits)

interpretation surface: curated_surface group_def_ok isMember exposed_name resolve_in
  by unfold_locales (fact resolve_in_expose, fact resolve_in_member)

subsection \<open>The rewritten surface\<close>

lemma rewrite_loop_eq:
  "rewrite_loop d pre tools = map (rewrite_tool d pre) (filter (\<lambda>t. isMember d (t_name t)) tools)"
  by (induction tools) auto

lemma t_name_rewrite_tool: "t_name (rewrite_tool d False t) = exposed_name d (t_name t)"
  by (simp add: rewrite_tool_def exposed_name_def exposed_rename_def Let_def split: option.splits)

lemma t_name_rewrite_tool_prefixed:
  "t_name (rewrite_tool d True t) =
     (case map_of (gd_overrides d) (t_name t) of
        None \<Rightarrow> t_name t
      | Some ov \<Rightarrow> if ov_name ov \<noteq> [] then exposed_rename True (t_name t) ov else t_name t)"
  by (simp add: rewrite_tool_def Let_def split: option.splits)

lemma FilterAndRewrite_Some:
  "map_of gs grp = Some d \<Longrightarrow>
     FilterAndRewrite (Some gs) grp tools = map (rewrite_tool d False) (filter (\<lambda>t. isMember d (t_name t)) tools)"
  by (simp add: FilterAndRewrite_def filterAndRewrite_def rewrite_loop_eq)

lemma status_members_eq:
  "map_of gs name = Some d \<Longrightarrow>
     map gts_name (status_members (Some gs) name d live) = map t_name (FilterAndRewrite (Some gs) name live)"
  by (induction live) (auto simp: FilterAndRewrite_Some Let_def)

lemma status_members_canonical:
  "map_of gs name = Some d \<Longrightarrow>
     map gts_canonical (status_members (Some gs) name d live) = filter (isMember d) (map t_name live)"
  by (induction live) (auto simp: FilterAndRewrite_Some Let_def)

subsection \<open>Compilation\<close>

lemma fst_add_override: "fst (add_override st x) = AList.update (fst x) (snd x) (fst st)"
  by (simp add: add_override_def)

lemma foldl_add_override_overrides:
  "distinct (map fst ovs) \<Longrightarrow> map_of (fst (foldl add_override ([], []) ovs)) = map_of ovs"
proof (induction ovs rule: rev_induct)
  case (snoc x ovs)
  then have "map_of ovs (fst x) = None" by (simp add: map_of_eq_None_iff)
  moreover have "map_of (fst (foldl add_override ([], []) (ovs @ [x]))) = (map_of ovs)(fst x \<mapsto> snd x)"
    using snoc by (simp add: fst_add_override update_conv')
  ultimately show ?case by (cases x) (simp add: map_add_def fun_eq_iff split: option.splits)
qed simp

lemma foldl_add_override_alias:
  "map_of (snd (foldl add_override ([], []) ovs)) n = Some c \<Longrightarrow>
     n \<noteq> [] \<and> (\<exists>ov. (c, ov) \<in> set ovs \<and> ov_name ov = n)"
  by (induction ovs arbitrary: c rule: rev_induct)
     (auto simp: add_override_def map_of_update split: if_splits)

lemma foldl_add_override_alias_dom:
  "(c, ov) \<in> set ovs \<Longrightarrow> ov_name ov \<noteq> [] \<Longrightarrow> map_has (snd (foldl add_override ([], []) ovs)) (ov_name ov)"
  by (induction ovs rule: rev_induct)
     (auto simp: add_override_def map_of_update)

text \<open>The same conditions on a group as configured.\<close>

definition group_spec_ok :: "group_spec \<Rightarrow> bool" where
  "group_spec_ok g \<longleftrightarrow>
     distinct (map fst (gs_overrides g))
   \<and> distinct (filter (\<lambda>n. n \<noteq> []) (map (\<lambda>(c, ov). ov_name ov) (gs_overrides g)))
   \<and> (\<forall>(c, ov)\<in>set (gs_overrides g). isMember (compile_group [] g) c \<and> \<not> contains (ov_name ov) ''__'')
   \<and> (\<forall>c\<in>set (gs_tools g). parsed c \<noteq> None)"

lemma distinct_renames:
  "distinct (filter (\<lambda>n. n \<noteq> []) (map (\<lambda>(c, ov). ov_name ov) ovs)) \<Longrightarrow>
     (c, ov) \<in> set ovs \<Longrightarrow> (c', ov') \<in> set ovs \<Longrightarrow> ov_name ov = ov_name ov' \<Longrightarrow> ov_name ov \<noteq> [] \<Longrightarrow> c = c'"
  by (induction ovs) (force split: if_splits)+

lemma isMember_compile_name: "isMember (compile_group name g) = isMember (compile_group name' g)"
  by (rule ext) (simp add: isMember_def compile_group_def Let_def split: sum.split)

lemma compile_group_ok:
  assumes "group_spec_ok g"
  shows "group_def_ok (compile_group name g)"
proof -
  let ?d = "compile_group name g"
  note g = assms [unfolded group_spec_ok_def]
  have ovs: "map_of (gd_overrides ?d) = map_of (gs_overrides g)"
    using g by (simp add: compile_group_def Let_def foldl_add_override_overrides)
  have al: "gd_alias ?d = snd (foldl add_override ([], []) (gs_overrides g))"
    by (simp add: compile_group_def Let_def)
  have mem: "isMember ?d c" if "(c, ov) \<in> set (gs_overrides g)" for c ov
    using g that isMember_compile_name [of name g "[]"] by auto
  have inv: "\<exists>ov. (c, ov) \<in> set (gs_overrides g) \<and> ov_name ov = n \<and> n \<noteq> []"
    if "map_of (gd_alias ?d) n = Some c" for n c
    using foldl_add_override_alias that unfolding al by blast
  show ?thesis
    unfolding group_def_ok_def ovs
  proof (intro conjI allI impI ballI)
    fix c ov assume "map_of (gs_overrides g) c = Some ov" "ov_name ov \<noteq> []"
    then have m: "(c, ov) \<in> set (gs_overrides g)" and n: "ov_name ov \<noteq> []" by (auto dest: map_of_SomeD)
    from foldl_add_override_alias_dom [OF m n] obtain c' where c': "map_of (gd_alias ?d) (ov_name ov) = Some c'"
      unfolding al by blast
    with inv obtain ov' where "(c', ov') \<in> set (gs_overrides g)" "ov_name ov' = ov_name ov" by blast
    with distinct_renames [OF _ m] g n c' show "map_of (gd_alias ?d) (ov_name ov) = Some c" by metis
  next
    fix n c assume "map_of (gd_alias ?d) n = Some c"
    with inv obtain ov where ov: "(c, ov) \<in> set (gs_overrides g)" "ov_name ov = n" by blast
    then show "map_has (gs_overrides g) c" by (metis map_of_eq_None_iff fst_conv image_eqI)
    from ov g have "\<not> contains n ''__''" by auto
    then show "parsed n = None" by (simp add: parsed_None_iff)
  next
    fix c assume "map_has (gs_overrides g) c"
    then show "isMember ?d c" using mem by (auto dest: map_of_SomeD)
  next
    fix c assume "c \<in> set (gd_tools ?d)"
    then show "parsed c \<noteq> None" using g by (auto simp: compile_group_def Let_def)
  qed
qed

lemma NewGroupPolicy_at:
  assumes "NewGroupPolicy spec = Some gs" and "map_of gs grp = Some d"
  shows "\<exists>g. (grp, g) \<in> set spec \<and> d = compile_group grp g"
proof -
  have "map_of (foldl (\<lambda>m (name, g). AList.update name (compile_group name g) m) [] spec) grp = Some d
     \<Longrightarrow> \<exists>g. (grp, g) \<in> set spec \<and> d = compile_group grp g"
    by (induction spec arbitrary: d rule: rev_induct) (auto simp: map_of_update split: if_splits)
  with assms show ?thesis by (auto simp: NewGroupPolicy_def split: if_splits)
qed

subsection \<open>Properties\<close>

text \<open>What a group session lists, it can call: for a validated group, every tool of the rewritten
  surface built from live tools resolves, under the name it is exposed by, to a live member tool.\<close>

theorem listed_tool_resolves:
  assumes "map_of gs grp = Some d" and "group_def_ok d"
    and "\<forall>t\<in>set tools. live (t_name t)"
    and "e \<in> set (FilterAndRewrite (Some gs) grp tools)"
  shows "\<exists>t\<in>set tools. e = rewrite_tool d False t \<and> isMember d (t_name t)
     \<and> ResolveAlias (Some gs) grp (t_name e) (Some live) = Some (t_name t)"
  using assms
  by (auto simp: FilterAndRewrite_Some ResolveAlias_def t_name_rewrite_tool surface.resolve_expose)

definition demo_override :: group_override_spec where
  "demo_override = \<lparr>ov_name = ''shout'', ov_description = [], ov_readOnlyHint = Some True,
     ov_destructiveHint = None, ov_idempotentHint = None, ov_openWorldHint = None\<rparr>"

definition demo_spec :: group_spec where
  "demo_spec = \<lparr>gs_description = [], gs_servers = [''alpha''], gs_tools = [], gs_exclude = [],
     gs_overrides = [(''alpha__echo'', demo_override)]\<rparr>"

definition demo_group_tool :: tool where
  "demo_group_tool = \<lparr>t_name = ''alpha__echo'', t_title = ''alpha__echo'', t_description = ''Echo'',
     t_inputSchema = [], t_outputSchema = [], t_annotations = None\<rparr>"

lemma demo_spec_ok: "group_spec_ok demo_spec"
  by code_simp

lemma demo_surface:
  "map t_name (FilterAndRewrite (Some [(''g'', compile_group ''g'' demo_spec)]) ''g'' [demo_group_tool]) = [''shout'']"
  by code_simp

theorem listed_tool_resolves_witness:
  "ResolveAlias (Some [(''g'', compile_group ''g'' demo_spec)]) ''g'' ''shout'' (Some (\<lambda>n. n = ''alpha__echo''))
     = Some ''alpha__echo''"
proof -
  let ?gs = "[(''g'', compile_group ''g'' demo_spec)]"
  obtain e where e: "FilterAndRewrite (Some ?gs) ''g'' [demo_group_tool] = [e]" and n: "t_name e = ''shout''"
    using demo_surface by auto
  show ?thesis
    using listed_tool_resolves [of ?gs "''g''" "compile_group ''g'' demo_spec" "[demo_group_tool]"
        "\<lambda>n. n = ''alpha__echo''" e] compile_group_ok [OF demo_spec_ok, of "''g''"] e n
    by (simp add: demo_group_tool_def)
qed

text \<open>A group call never leaves the group: for a validated group, whatever name a session sends and
  whichever tools are live, a name that resolves at all resolves to a member of the group; an unknown
  group or a missing policy resolves nothing.\<close>

theorem resolved_tool_is_member:
  assumes "\<forall>d. map_of gs grp = Some d \<longrightarrow> group_def_ok d"
    and "ResolveAlias (Some gs) grp name live = Some canonical"
  shows "\<exists>d. map_of gs grp = Some d \<and> isMember d canonical"
  using assms by (auto simp: ResolveAlias_def dest: surface.resolve_member split: option.splits)

theorem resolved_tool_is_member_witness:
  "\<exists>d. map_of [(''g'', compile_group ''g'' demo_spec)] ''g'' = Some d \<and> isMember d ''alpha__echo''"
  by (rule resolved_tool_is_member [where name = "''shout''" and live = None])
     (use compile_group_ok [OF demo_spec_ok, of "''g''"] in simp, code_simp)

text \<open>Exposed names are unambiguous: for a validated group, distinct live tools are listed under
  distinct names.\<close>

theorem exposed_names_distinct:
  assumes "map_of gs grp = Some d" and "group_def_ok d" and "distinct (map t_name tools)"
  shows "distinct (map t_name (FilterAndRewrite (Some gs) grp tools))"
proof -
  let ?ms = "filter (\<lambda>t. isMember d (t_name t)) tools"
  have "distinct (map (exposed_name d) (map t_name ?ms))"
    using assms(2,3) by (intro surface.distinct_exposed) (auto simp: distinct_map_filter)
  then show ?thesis using assms(1) by (simp add: FilterAndRewrite_Some t_name_rewrite_tool comp_def)
qed

theorem exposed_names_distinct_witness:
  "distinct (map t_name (FilterAndRewrite (Some [(''g'', compile_group ''g'' demo_spec)]) ''g'' [demo_group_tool]))"
  by (rule exposed_names_distinct [where d = "compile_group ''g'' demo_spec"])
     (simp_all add: compile_group_ok demo_spec_ok)

text \<open>In the code-mode surface a renamed tool is exposed as its server followed by the rename, and
  that name resolves to the tool unless a live member already holds it literally.\<close>

theorem prefixed_rename_resolves:
  assumes "map_of gs grp = Some d" and "group_def_ok d" and "isMember d (t_name t)"
    and "map_of (gd_overrides d) (t_name t) = Some ov" and "ov_name ov \<noteq> []"
    and "\<not> (live (t_name (rewrite_tool d True t)) \<and> isMember d (t_name (rewrite_tool d True t)))"
  shows "\<exists>server tail. ParsePrefixedTool (t_name t) = Inr (server, tail)
     \<and> t_name (rewrite_tool d True t) = PrefixTool server (ov_name ov)
     \<and> ResolveAlias (Some gs) grp (t_name (rewrite_tool d True t)) (Some live) = Some (t_name t)"
proof -
  obtain server tail where p: "parsed (t_name t) = Some (server, tail)"
    using group_def_okD(4) [OF assms(2,3)] by auto
  then have P: "ParsePrefixedTool (t_name t) = Inr (server, tail)" by (simp add: parsed_ParsePrefixedTool)
  let ?n = "PrefixTool server (ov_name ov)"
  have n: "t_name (rewrite_tool d True t) = ?n"
    using assms(4,5) P by (simp add: t_name_rewrite_tool_prefixed exposed_rename_def)
  have pn: "parsed ?n = Some (server, ov_name ov)" using parsed_server_ok [OF p] by simp
  then have "ParsePrefixedTool ?n = Inr (server, ov_name ov)" by (simp add: parsed_ParsePrefixedTool)
  moreover have "map_of (gd_alias d) ?n = None" using group_def_okD(3) [OF assms(2)] pn by simp
  moreover have "map_of (gd_alias d) (ov_name ov) = Some (t_name t)"
    using group_def_okD(1) [OF assms(2,4,5)] .
  ultimately have "ResolveAlias (Some gs) grp ?n (Some live) = Some (t_name t)"
    using assms(1,6) P n by (auto simp: ResolveAlias_def resolve_in_def)
  with P n show ?thesis by simp
qed

theorem prefixed_rename_resolves_witness:
  "ResolveAlias (Some [(''g'', compile_group ''g'' demo_spec)]) ''g'' ''alpha__shout''
     (Some (\<lambda>n. n = ''alpha__echo'')) = Some ''alpha__echo''"
proof -
  have n: "t_name (rewrite_tool (compile_group ''g'' demo_spec) True demo_group_tool) = ''alpha__shout''"
    by code_simp
  have "isMember (compile_group ''g'' demo_spec) (t_name demo_group_tool)" by code_simp
  moreover have "map_of (gd_overrides (compile_group ''g'' demo_spec)) (t_name demo_group_tool) = Some demo_override"
    by code_simp
  moreover have "ov_name demo_override \<noteq> []" by (simp add: demo_override_def)
  ultimately show ?thesis
    using prefixed_rename_resolves [of "[(''g'', compile_group ''g'' demo_spec)]" "''g''"
        "compile_group ''g'' demo_spec" demo_group_tool demo_override "\<lambda>n. n = ''alpha__echo''"]
      compile_group_ok [OF demo_spec_ok, of "''g''"] n
    by (auto simp: demo_group_tool_def)
qed

text \<open>Override hints win field by field: each hint of the merged annotations is the override's when
  the override sets it and the downstream server's otherwise, the title is always the downstream's,
  and annotations are absent exactly when neither side declares any.\<close>

theorem merge_annotations_spec:
  "(mergeAnnotations a ov = None \<longleftrightarrow> a = None \<and> ov_readOnlyHint ov = None \<and> ov_destructiveHint ov = None
      \<and> ov_idempotentHint ov = None \<and> ov_openWorldHint ov = None)
   \<and> (\<forall>m. mergeAnnotations a ov = Some m \<longrightarrow>
        (let b = (case a of None \<Rightarrow> zero_annotations | Some x \<Rightarrow> x);
             pick = (\<lambda>o' d. case o' of None \<Rightarrow> d | Some v \<Rightarrow> Some v)
         in an_title m = an_title b
          \<and> an_readOnlyHint m = pick (ov_readOnlyHint ov) (an_readOnlyHint b)
          \<and> an_destructiveHint m = pick (ov_destructiveHint ov) (an_destructiveHint b)
          \<and> an_idempotentHint m = pick (ov_idempotentHint ov) (an_idempotentHint b)
          \<and> an_openWorldHint m = pick (ov_openWorldHint ov) (an_openWorldHint b)))"
  by (auto simp: mergeAnnotations_def Clone_def Let_def split: option.splits)

theorem merge_annotations_spec_witness:
  "mergeAnnotations None demo_override = Some (zero_annotations\<lparr>an_readOnlyHint := Some True\<rparr>)"
proof -
  obtain m where m: "mergeAnnotations None demo_override = Some m"
    using merge_annotations_spec [of None demo_override] by (auto simp: demo_override_def)
  with merge_annotations_spec [of None demo_override] show ?thesis
    by (cases m) (auto simp: demo_override_def zero_annotations_def Let_def)
qed

end
