(* ===== verification/Rate_Limits.thy ===== *)
theory Rate_Limits
  imports Complex_Main Client_Id Mcp_Types "HOL-Library.Signed_Division"
begin

text \<open>
  Rate limits (\<^verbatim>\<open>pkg/limits/limits.go\<close>, \<^verbatim>\<open>status.go\<close>): the compiled policy, the pre-call gate, the
  carry-over of buckets across a reload and the status report.

  The token bucket is \<^verbatim>\<open>golang.org/x/time/rate\<close>: its operations are the parameter \<open>'l limiter_ops\<close>, and
  \<open>token_bucket\<close> states what its documentation promises. A new bucket takes calls per minute and a
  capacity; the clock is an argument. A limiter that two policies share by pointer after
  \<^verbatim>\<open>CarryOver\<close> is held by the new one: the old policy is retired. Times are exact rationals.
\<close>

record 'l limiter_ops =
  lim_new :: "int \<Rightarrow> int \<Rightarrow> 'l"
  lim_allow :: "gotime \<Rightarrow> 'l \<Rightarrow> bool \<times> 'l"
  lim_tokens :: "gotime \<Rightarrow> 'l \<Rightarrow> rat"

record rate_limit =
  rl_client :: string
  rl_server :: string
  rl_tool :: string
  rl_callsPerMinute :: int
  rl_burst :: int

definition limitScopeKey :: "string \<Rightarrow> string \<Rightarrow> string \<Rightarrow> string \<times> string \<times> bool" where
  "limitScopeKey client server tool =
     (let s0 = (0 :: nat, [], []);
          s1 = (if client \<noteq> [] then (fst s0 + 1, ''client'', client) else s0);
          s2 = (if server \<noteq> [] then (fst s1 + 1, ''server'', server) else s1);
          s3 = (if tool \<noteq> [] then (fst s2 + 1, ''tool'', tool) else s2)
      in (fst (snd s3), snd (snd s3), fst s3 = 1))"

definition ScopeKey :: "rate_limit \<Rightarrow> string \<times> string \<times> bool" where
  "ScopeKey r = limitScopeKey (rl_client r) (rl_server r) (rl_tool r)"

record 'l rate_entry =
  re_scope :: string
  re_key :: string
  re_rawKey :: string
  re_perMinute :: int
  re_burst :: int
  re_limiter :: 'l

definition carryKey :: "'l rate_entry \<Rightarrow> string" where
  "carryKey e = re_scope e @ ''|'' @ re_rawKey e @ ''|'' @ itoa (re_perMinute e) @ ''|'' @ itoa (re_burst e)"

definition DefaultBurst :: "int \<Rightarrow> int" where
  "DefaultBurst callsPerMinute = (let b = callsPerMinute sdiv 6 in if b < 5 then 5 else b)"

definition scopeClient :: string where
  "scopeClient = ''client''"

definition scopeServer :: string where
  "scopeServer = ''server''"

text \<open>The compile loop: \<open>seen\<close> holds the scopes already compiled, a later duplicate is skipped.\<close>

fun compile_rates :: "'l limiter_ops \<Rightarrow> string list \<Rightarrow> rate_limit list \<Rightarrow> 'l rate_entry list" where
  "compile_rates ops seen [] = []"
| "compile_rates ops seen (r # rs) =
     (let (scope, key, ok) = ScopeKey r in
      if \<not> ok then compile_rates ops seen rs
      else let matchKey = (if scope = scopeClient then NormalizeClientID key else key) in
        if scope @ ''|'' @ matchKey \<in> set seen then compile_rates ops seen rs
        else let burst = (if rl_burst r \<le> 0 then DefaultBurst (rl_callsPerMinute r) else rl_burst r) in
          \<lparr>re_scope = scope, re_key = matchKey, re_rawKey = key, re_perMinute = rl_callsPerMinute r,
           re_burst = burst, re_limiter = lim_new ops (rl_callsPerMinute r) burst\<rparr>
          # compile_rates ops ((scope @ ''|'' @ matchKey) # seen) rs)"

text \<open>A nil policy is \<open>None\<close>.\<close>

type_synonym 'l policy = "'l rate_entry list option"

definition NewPolicy :: "'l limiter_ops \<Rightarrow> rate_limit list option \<Rightarrow> 'l policy" where
  "NewPolicy ops cfg =
     (case cfg of
        None \<Rightarrow> None
      | Some rls \<Rightarrow>
          if rls = [] then None
          else let rates = compile_rates ops [] rls in if rates = [] then None else Some rates)"

definition scopeMatches :: "string \<Rightarrow> string \<Rightarrow> gate_call \<Rightarrow> string \<Rightarrow> bool" where
  "scopeMatches scope key call normClient =
     (if scope = scopeClient then normClient \<noteq> [] \<and> key = normClient
      else if scope = scopeServer then gc_serverName call \<noteq> [] \<and> key = gc_serverName call
      else key = gc_prefixedTool call)"

definition matches :: "'l rate_entry \<Rightarrow> gate_call \<Rightarrow> string \<Rightarrow> bool" where
  "matches e call normClient = scopeMatches (re_scope e) (re_key e) call normClient"

text \<open>The gate's denial message carries the scope, the configured key, the rate and the retry hint.\<close>

datatype rate_denial = RateLimitExceeded string string int duration

definition retryAfter :: "'l limiter_ops \<Rightarrow> gotime \<Rightarrow> 'l rate_entry \<Rightarrow> duration" where
  "retryAfter ops now e =
     (let deficit = 1 - lim_tokens ops now (re_limiter e);
          deficit' = (if deficit < 0 then 0 else deficit);
          perSecond = of_int (re_perMinute e) / 60;
          d = \<lfloor>deficit' / perSecond * of_int second\<rfloor>
      in max ((d + second div 2) div second * second) second)"

fun check_loop :: "'l limiter_ops \<Rightarrow> gotime \<Rightarrow> gate_call \<Rightarrow> string \<Rightarrow> 'l rate_entry list
    \<Rightarrow> rate_denial gate_decision \<times> 'l rate_entry list" where
  "check_loop ops now call normClient [] = (GateAllow, [])"
| "check_loop ops now call normClient (e # es) =
     (if \<not> matches e call normClient
      then let (d, es') = check_loop ops now call normClient es in (d, e # es')
      else let (ok, l') = lim_allow ops now (re_limiter e); e' = e\<lparr>re_limiter := l'\<rparr> in
        if \<not> ok
        then (GateDeny (RateLimitExceeded (re_scope e) (re_rawKey e) (re_perMinute e) (retryAfter ops now e')), e' # es)
        else let (d, es') = check_loop ops now call normClient es in (d, e' # es'))"

definition CheckToolCall :: "'l limiter_ops \<Rightarrow> gotime \<Rightarrow> 'l rate_entry list \<Rightarrow> gate_call
    \<Rightarrow> rate_denial gate_decision \<times> 'l rate_entry list" where
  "CheckToolCall ops now rates call = check_loop ops now call (NormalizeClientID (gc_clientAccessID call)) rates"

definition carry_entry :: "(string, 'l rate_entry) gomap \<Rightarrow> 'l rate_entry \<Rightarrow> 'l rate_entry" where
  "carry_entry prev e =
     (case map_of prev (carryKey e) of None \<Rightarrow> e | Some q \<Rightarrow> e\<lparr>re_limiter := re_limiter q\<rparr>)"

definition CarryOver :: "'l policy \<Rightarrow> 'l policy \<Rightarrow> 'l policy" where
  "CarryOver p old =
     (case (p, old) of
        (Some rates, Some oldRates) \<Rightarrow>
          let prevRates = fold (\<lambda>e m. AList.update (carryKey e) e m) oldRates [] in
          Some (map (carry_entry prevRates) rates)
      | _ \<Rightarrow> p)"

record entry_status =
  es_kind :: string
  es_scope :: string
  es_key :: string
  es_state :: string
  es_callsPerMinute :: int
  es_burst :: int

record status_report =
  sr_configured :: bool
  sr_entries :: "entry_status list"

definition entry_status_of :: "'l limiter_ops \<Rightarrow> gotime \<Rightarrow> 'l rate_entry \<Rightarrow> entry_status" where
  "entry_status_of ops now e =
     \<lparr>es_kind = ''rate'', es_scope = re_scope e, es_key = re_rawKey e,
      es_state = (if lim_tokens ops now (re_limiter e) < 1 then ''exceeded'' else ''ok''),
      es_callsPerMinute = re_perMinute e, es_burst = re_burst e\<rparr>"

definition Status_limits :: "'l limiter_ops \<Rightarrow> gotime \<Rightarrow> 'l policy \<Rightarrow> status_report" where
  "Status_limits ops now p =
     (case p of
        None \<Rightarrow> \<lparr>sr_configured = False, sr_entries = []\<rparr>
      | Some rates \<Rightarrow> \<lparr>sr_configured = True, sr_entries = map (entry_status_of ops now) rates\<rparr>)"

subsection \<open>What the token bucket promises\<close>

text \<open>The buckets made with a rate and a capacity: the new one, and those that calls lead to.\<close>

inductive made :: "'l limiter_ops \<Rightarrow> int \<Rightarrow> int \<Rightarrow> 'l \<Rightarrow> bool" for ops m b where
  made_new: "made ops m b (lim_new ops m b)"
| made_allow: "made ops m b l \<Longrightarrow> made ops m b (snd (lim_allow ops t l))"

definition refill :: "int \<Rightarrow> duration \<Rightarrow> rat" where
  "refill m d = of_int m * of_int d / of_int (60 * second)"

text \<open>The documented behaviour: a bucket of capacity \<open>b\<close> that starts full and fills at the given rate;
  a call is admitted exactly when a token is there, and takes it.\<close>

definition token_bucket :: "'l limiter_ops \<Rightarrow> bool" where
  "token_bucket ops \<longleftrightarrow>
     (\<forall>m b l t. 0 < m \<longrightarrow> 0 < b \<longrightarrow> made ops m b l \<longrightarrow>
        0 \<le> lim_tokens ops t l \<and> lim_tokens ops t l \<le> of_int b
        \<and> (\<forall>t'\<ge>t. lim_tokens ops t' l \<le> lim_tokens ops t l + refill m (t' - t))
        \<and> (if fst (lim_allow ops t l)
           then 1 \<le> lim_tokens ops t l \<and> lim_tokens ops t (snd (lim_allow ops t l)) = lim_tokens ops t l - 1
           else lim_tokens ops t l < 1 \<and> lim_tokens ops t (snd (lim_allow ops t l)) = lim_tokens ops t l))"

lemma token_bucketD:
  assumes "token_bucket ops" "0 < m" "0 < b" "made ops m b l"
  shows "0 \<le> lim_tokens ops t l" "lim_tokens ops t l \<le> of_int b"
    "t \<le> t' \<Longrightarrow> lim_tokens ops t' l \<le> lim_tokens ops t l + refill m (t' - t)"
    "fst (lim_allow ops t l) \<longleftrightarrow> 1 \<le> lim_tokens ops t l"
    "lim_tokens ops t (snd (lim_allow ops t l)) = lim_tokens ops t l - (if fst (lim_allow ops t l) then 1 else 0)"
proof -
  have *: "0 \<le> lim_tokens ops t l \<and> lim_tokens ops t l \<le> of_int b
      \<and> (\<forall>t'\<ge>t. lim_tokens ops t' l \<le> lim_tokens ops t l + refill m (t' - t))
      \<and> (if fst (lim_allow ops t l)
         then 1 \<le> lim_tokens ops t l \<and> lim_tokens ops t (snd (lim_allow ops t l)) = lim_tokens ops t l - 1
         else lim_tokens ops t l < 1 \<and> lim_tokens ops t (snd (lim_allow ops t l)) = lim_tokens ops t l)" for t
    using assms unfolding token_bucket_def by blast
  show "0 \<le> lim_tokens ops t l" "lim_tokens ops t l \<le> of_int b"
    "t \<le> t' \<Longrightarrow> lim_tokens ops t' l \<le> lim_tokens ops t l + refill m (t' - t)" using * [of t] by auto
  show "fst (lim_allow ops t l) \<longleftrightarrow> 1 \<le> lim_tokens ops t l"
    "lim_tokens ops t (snd (lim_allow ops t l)) = lim_tokens ops t l - (if fst (lim_allow ops t l) then 1 else 0)"
    using * [of t] by (auto split: if_splits)
qed

text \<open>A bucket to exhibit: tokens and the time they were counted.\<close>

record bucket =
  b_rate :: int
  b_cap :: int
  b_tokens :: rat
  b_last :: "gotime option"

definition bucket_tokens :: "gotime \<Rightarrow> bucket \<Rightarrow> rat" where
  "bucket_tokens t l =
     (case b_last l of
        None \<Rightarrow> of_int (b_cap l)
      | Some s \<Rightarrow> min (of_int (b_cap l)) (b_tokens l + refill (b_rate l) (max 0 (t - s))))"

definition bucket_ops :: "bucket limiter_ops" where
  "bucket_ops =
     \<lparr>lim_new = (\<lambda>m b. \<lparr>b_rate = m, b_cap = b, b_tokens = of_int b, b_last = None\<rparr>),
      lim_allow = (\<lambda>t l. if 1 \<le> bucket_tokens t l
         then (True, l\<lparr>b_tokens := bucket_tokens t l - 1, b_last := Some t\<rparr>) else (False, l)),
      lim_tokens = bucket_tokens\<rparr>"

lemma refill_mono: "0 < m \<Longrightarrow> 0 \<le> d \<Longrightarrow> 0 \<le> refill m d"
  by (simp add: refill_def)

lemma refill_add: "refill m (c + d) = refill m c + refill m d"
  by (simp add: refill_def distrib_left add_divide_distrib)

lemma bucket_made:
  assumes "made bucket_ops m b l" and "0 < m" "0 < b"
  shows "b_rate l = m \<and> b_cap l = b \<and> (b_last l \<noteq> None \<longrightarrow> 0 \<le> b_tokens l)"
  using assms by (induction rule: made.induct) (auto simp: bucket_ops_def)

lemma bucket_is_token_bucket: "token_bucket bucket_ops"
proof -
  have "0 \<le> bucket_tokens t l \<and> bucket_tokens t l \<le> of_int b
      \<and> (\<forall>t'\<ge>t. bucket_tokens t' l \<le> bucket_tokens t l + refill m (t' - t))
      \<and> (1 \<le> bucket_tokens t l \<longrightarrow> bucket_tokens t (l\<lparr>b_tokens := bucket_tokens t l - 1, b_last := Some t\<rparr>) = bucket_tokens t l - 1)"
    if m: "0 < m" "0 < b" and l: "made bucket_ops m b l" for m b l t
  proof -
    have r: "b_rate l = m" "b_cap l = b" "b_last l \<noteq> None \<longrightarrow> 0 \<le> b_tokens l" using bucket_made [OF l m] by auto
    have mono: "refill m (max 0 (t' - s)) \<le> refill m (max 0 (t - s)) + refill m (t' - t)" if "t \<le> t'" for t' s
      unfolding refill_add [symmetric] using m(1) that
      by (simp add: refill_def divide_right_mono mult_left_mono)
    have nonneg: "0 \<le> refill m (max 0 d)" "refill m 0 = 0" for d using m(1) by (simp_all add: refill_def)
    have grow: "bucket_tokens t' l \<le> bucket_tokens t l + refill m (t' - t)" if "t \<le> t'" for t'
    proof (cases "b_last l")
      case None
      then show ?thesis using refill_mono [OF m(1), of "t' - t"] that by (simp add: bucket_tokens_def)
    next
      case (Some a)
      have "0 \<le> refill m (t' - t)" using refill_mono [OF m(1), of "t' - t"] that by simp
      with mono [OF that, of a] show ?thesis by (simp add: bucket_tokens_def Some r min_def)
    qed
    show ?thesis using r m(2) nonneg grow
      by (cases "b_last l") (auto simp: bucket_tokens_def min_le_iff_disj)
  qed
  then show ?thesis unfolding token_bucket_def by (auto simp: bucket_ops_def)
qed

subsection \<open>One check\<close>

text \<open>An entry after a check: as it was, or with the bucket the call was offered to.\<close>

definition offered :: "'l limiter_ops \<Rightarrow> gotime \<Rightarrow> 'l rate_entry \<Rightarrow> 'l rate_entry" where
  "offered ops now e = e\<lparr>re_limiter := snd (lim_allow ops now (re_limiter e))\<rparr>"

definition admits :: "'l limiter_ops \<Rightarrow> gotime \<Rightarrow> 'l rate_entry \<Rightarrow> bool" where
  "admits ops now e = fst (lim_allow ops now (re_limiter e))"

lemma check_loop_Cons:
  "check_loop ops now call nc (e # es) =
     (if \<not> matches e call nc then (fst (check_loop ops now call nc es), e # snd (check_loop ops now call nc es))
      else if \<not> admits ops now e
      then (GateDeny (RateLimitExceeded (re_scope e) (re_rawKey e) (re_perMinute e) (retryAfter ops now (offered ops now e))),
            offered ops now e # es)
      else (fst (check_loop ops now call nc es), offered ops now e # snd (check_loop ops now call nc es)))"
  by (simp add: admits_def offered_def split_beta Let_def)

lemma check_loop_deny:
  assumes "fst (check_loop ops now call nc es) = GateDeny msg"
  shows "\<exists>pre e post. es = pre @ e # post \<and> (\<forall>x\<in>set pre. matches x call nc \<longrightarrow> admits ops now x)
     \<and> matches e call nc \<and> \<not> admits ops now e
     \<and> msg = RateLimitExceeded (re_scope e) (re_rawKey e) (re_perMinute e) (retryAfter ops now (offered ops now e))
     \<and> snd (check_loop ops now call nc es) =
         map (\<lambda>x. if matches x call nc then offered ops now x else x) pre @ offered ops now e # post"
  using assms
proof (induction es)
  case (Cons x es)
  note Cons_eq = check_loop_Cons [of ops now call nc x es]
  show ?case
  proof (cases "matches x call nc \<and> \<not> admits ops now x")
    case True
    with Cons.prems show ?thesis unfolding Cons_eq by (intro exI [of _ "[]"] exI [of _ x] exI [of _ es]) auto
  next
    case False
    then have "fst (check_loop ops now call nc es) = GateDeny msg" using Cons.prems unfolding Cons_eq by (auto split: if_splits)
    from Cons.IH [OF this] obtain pre e post where "es = pre @ e # post" "\<forall>x\<in>set pre. matches x call nc \<longrightarrow> admits ops now x"
      "matches e call nc" "\<not> admits ops now e"
      "msg = RateLimitExceeded (re_scope e) (re_rawKey e) (re_perMinute e) (retryAfter ops now (offered ops now e))"
      "snd (check_loop ops now call nc es) = map (\<lambda>x. if matches x call nc then offered ops now x else x) pre @ offered ops now e # post"
      by blast
    with False show ?thesis unfolding Cons_eq by (intro exI [of _ "x # pre"] exI [of _ e] exI [of _ post]) auto
  qed
qed simp

lemma check_loop_allowed_entries:
  "fst (check_loop ops now call nc es) = GateAllow \<Longrightarrow>
     snd (check_loop ops now call nc es) = map (\<lambda>x. if matches x call nc then offered ops now x else x) es"
  by (induction es) (auto simp: check_loop_Cons simp del: check_loop.simps(2) split: if_splits)

lemma check_loop_allow:
  "fst (check_loop ops now call nc es) = GateAllow \<longleftrightarrow> (\<forall>e\<in>set es. matches e call nc \<longrightarrow> admits ops now e)"
  by (induction es) (auto simp: check_loop_Cons simp del: check_loop.simps(2))

lemma check_loop_nth:
  assumes "i < length es"
  shows "length (snd (check_loop ops now call nc es)) = length es
    \<and> (snd (check_loop ops now call nc es) ! i = es ! i \<or> snd (check_loop ops now call nc es) ! i = offered ops now (es ! i))
    \<and> (fst (check_loop ops now call nc es) = GateAllow \<longrightarrow> matches (es ! i) call nc
         \<longrightarrow> snd (check_loop ops now call nc es) ! i = offered ops now (es ! i))"
  using assms
proof (induction es arbitrary: i)
  case (Cons e es)
  have len: "length (snd (check_loop ops now call nc es)) = length es" for es
    by (induction es) (auto simp: check_loop_Cons simp del: check_loop.simps(2))
  show ?case
  proof (cases i)
    case 0
    then show ?thesis using len by (auto simp: check_loop_Cons simp del: check_loop.simps(2))
  next
    case (Suc j)
    then show ?thesis using Cons.IH [of j] Cons.prems len
      by (auto simp: check_loop_Cons simp del: check_loop.simps(2))
  qed
qed simp

lemma matches_offered [simp]: "matches (offered ops now e) call nc = matches e call nc"
  by (simp add: matches_def offered_def)

lemma offered_simps [simp]:
  "re_scope (offered ops now e) = re_scope e" "re_key (offered ops now e) = re_key e"
  "re_rawKey (offered ops now e) = re_rawKey e" "re_perMinute (offered ops now e) = re_perMinute e"
  "re_burst (offered ops now e) = re_burst e"
  by (simp_all add: offered_def)

text \<open>A run of checks: the verdicts, in order.\<close>

fun run_checks :: "'l limiter_ops \<Rightarrow> (gotime \<times> gate_call) list \<Rightarrow> 'l rate_entry list \<Rightarrow> bool list" where
  "run_checks ops [] es = []"
| "run_checks ops ((now, call) # cs) es =
     (fst (CheckToolCall ops now es call) = GateAllow) # run_checks ops cs (snd (CheckToolCall ops now es call))"

lemma run_checks_bound:
  assumes "token_bucket ops" and "i < length es" and "0 < re_perMinute (es ! i)" "0 < re_burst (es ! i)"
    and "made ops (re_perMinute (es ! i)) (re_burst (es ! i)) (re_limiter (es ! i))"
    and "sorted (t0 # map fst cs)"
    and "\<forall>(now, call)\<in>set cs. matches (es ! i) call (NormalizeClientID (gc_clientAccessID call))"
  shows "of_nat (length (filter (\<lambda>ok. ok) (run_checks ops cs es))) \<le>
     lim_tokens ops t0 (re_limiter (es ! i)) + refill (re_perMinute (es ! i)) (last (t0 # map fst cs) - t0)"
  using assms(2-)
proof (induction cs arbitrary: es t0)
  case Nil
  then show ?case using token_bucketD(1) [OF assms(1) Nil(2,3,4)] by (simp add: refill_def)
next
  case (Cons c cs)
  obtain now call where c: "c = (now, call)" by (cases c)
  let ?e = "es ! i" let ?m = "re_perMinute (es ! i)" let ?l = "re_limiter (es ! i)"
  let ?es' = "snd (CheckToolCall ops now es call)" let ?e' = "?es' ! i"
  note tb = token_bucketD [OF assms(1) Cons.prems(2,3,4)]
  from check_loop_nth [OF Cons.prems(1), of ops now call "NormalizeClientID (gc_clientAccessID call)"]
  have len: "length ?es' = length es" and e': "?e' = ?e \<or> ?e' = offered ops now ?e"
    and al: "fst (CheckToolCall ops now es call) = GateAllow \<Longrightarrow> ?e' = offered ops now ?e \<and> admits ops now ?e"
    using Cons.prems(1,6) check_loop_allow [of ops now call "NormalizeClientID (gc_clientAccessID call)" es] c
    by (auto simp: CheckToolCall_def)
  have made': "made ops ?m (re_burst ?e) (re_limiter ?e')"
    using e' Cons.prems(4) by (auto simp: offered_def intro: made_allow)
  have same: "re_perMinute ?e' = ?m" "re_burst ?e' = re_burst ?e" "matches ?e' = matches ?e"
    using e' by (auto simp: fun_eq_iff)
  have ord: "t0 \<le> now" "sorted (now # map fst cs)" using Cons.prems(5) c by auto
  have IH: "of_nat (length (filter (\<lambda>ok. ok) (run_checks ops cs ?es'))) \<le>
      lim_tokens ops now (re_limiter ?e') + refill ?m (last (now # map fst cs) - now)"
    using Cons.IH [of ?es' now] Cons.prems c len made' same ord by auto
  have spend: "lim_tokens ops now (re_limiter ?e') \<le> lim_tokens ops now ?l - (if fst (CheckToolCall ops now es call) = GateAllow then 1 else 0)"
    using e' al tb(5) [of now] by (auto simp: offered_def admits_def)
  have "lim_tokens ops now ?l \<le> lim_tokens ops t0 ?l + refill ?m (now - t0)" using tb(3) ord(1) by blast
  moreover have "refill ?m (last (t0 # map fst (c # cs)) - t0) = refill ?m (last (now # map fst cs) - now) + refill ?m (now - t0)"
    unfolding refill_add [symmetric] using c by simp
  ultimately show ?case using IH spend c by (auto split: if_splits)
qed

subsection \<open>Compilation\<close>

definition seen_key :: "rate_limit \<Rightarrow> string" where
  "seen_key r = (let (scope, key, ok) = ScopeKey r in
     scope @ ''|'' @ (if scope = scopeClient then NormalizeClientID key else key))"

definition entry_of :: "'l limiter_ops \<Rightarrow> rate_limit \<Rightarrow> 'l rate_entry" where
  "entry_of ops r = (let (scope, key, ok) = ScopeKey r;
       burst = (if rl_burst r \<le> 0 then DefaultBurst (rl_callsPerMinute r) else rl_burst r) in
     \<lparr>re_scope = scope, re_key = (if scope = scopeClient then NormalizeClientID key else key), re_rawKey = key,
      re_perMinute = rl_callsPerMinute r, re_burst = burst, re_limiter = lim_new ops (rl_callsPerMinute r) burst\<rparr>)"

lemma compile_rates_Cons:
  "compile_rates ops seen (r # rs) =
     (if \<not> snd (snd (ScopeKey r)) \<or> seen_key r \<in> set seen then compile_rates ops seen rs
      else entry_of ops r # compile_rates ops (seen_key r # seen) rs)"
  by (auto simp: split_beta Let_def entry_of_def seen_key_def)

lemma compiled_entries: "e \<in> set (compile_rates ops seen rls) \<Longrightarrow> \<exists>r\<in>set rls. e = entry_of ops r \<and> snd (snd (ScopeKey r)) \<and> seen_key r \<notin> set seen"
proof (induction rls arbitrary: seen)
  case (Cons r rls)
  then show ?case unfolding compile_rates_Cons by (fastforce split: if_splits)
qed simp

lemma compiled_bucket:
  assumes "e \<in> set (compile_rates ops seen rls)"
  shows "made ops (re_perMinute e) (re_burst e) (re_limiter e)" "0 < re_burst e"
    "re_limiter e = lim_new ops (re_perMinute e) (re_burst e)"
proof -
  from compiled_entries [OF assms] obtain r where e: "e = entry_of ops r" by blast
  show "re_limiter e = lim_new ops (re_perMinute e) (re_burst e)" by (simp add: e entry_of_def split_beta Let_def)
  then show "made ops (re_perMinute e) (re_burst e) (re_limiter e)" by (simp add: made_new)
  show "0 < re_burst e" by (simp add: e entry_of_def split_beta Let_def DefaultBurst_def)
qed

lemma ScopeKey_scope: "snd (snd (ScopeKey r)) \<Longrightarrow> fst (ScopeKey r) \<in> {''client'', ''server'', ''tool''}"
  by (auto simp: ScopeKey_def limitScopeKey_def Let_def split: if_splits)

lemma compiled_scope: "e \<in> set (compile_rates ops seen rls) \<Longrightarrow> re_scope e \<in> {''client'', ''server'', ''tool''}"
  by (drule compiled_entries) (auto simp: entry_of_def split_beta Let_def dest: ScopeKey_scope)

lemma seen_key_entry: "seen_key r = re_scope (entry_of ops r) @ ''|'' @ re_key (entry_of ops r)"
  by (simp add: seen_key_def entry_of_def split_beta Let_def)

lemma compiled_distinct: "distinct (map (\<lambda>e. re_scope e @ ''|'' @ re_key e) (compile_rates ops seen rls))"
proof (induction rls arbitrary: seen)
  case (Cons r rls)
  have "seen_key r \<notin> (\<lambda>e. re_scope e @ ''|'' @ re_key e) ` set (compile_rates ops (seen_key r # seen) rls)"
    by (auto dest!: compiled_entries simp: seen_key_entry [of _ ops])
  with Cons show ?case unfolding compile_rates_Cons by (auto simp: seen_key_entry [of r ops])
qed simp

text \<open>The invariant of a compiled policy: known scopes, match keys derived from the configured keys, and
  no two entries for one scope and match key.\<close>

definition entries_ok :: "'l rate_entry list \<Rightarrow> bool" where
  "entries_ok es \<longleftrightarrow>
     (\<forall>e\<in>set es. re_scope e \<in> {''client'', ''server'', ''tool''}
        \<and> re_key e = (if re_scope e = scopeClient then NormalizeClientID (re_rawKey e) else re_rawKey e))
     \<and> distinct (map (\<lambda>e. (re_scope e, re_key e)) es)"

lemma NewPolicy_entries:
  assumes "NewPolicy ops cfg = Some es"
  obtains rls where "es = compile_rates ops [] rls"
  using assms by (auto simp: NewPolicy_def Let_def split: option.splits if_splits)

lemma NewPolicy_ok: "NewPolicy ops cfg = Some es \<Longrightarrow> entries_ok es"
proof (erule NewPolicy_entries)
  fix rls assume es: "es = compile_rates ops [] rls"
  have "distinct (map (\<lambda>(s, k). s @ ''|'' @ k) (map (\<lambda>e. (re_scope e, re_key e)) es))"
    using compiled_distinct [of ops "[]" rls] by (simp add: es comp_def)
  then have "distinct (map (\<lambda>e. (re_scope e, re_key e)) es)" using distinct_map by blast
  moreover have "re_key e = (if re_scope e = scopeClient then NormalizeClientID (re_rawKey e) else re_rawKey e)"
    if "e \<in> set es" for e
    using compiled_entries [of e ops "[]" rls] that by (auto simp: es entry_of_def split_beta Let_def)
  ultimately show "entries_ok es" using compiled_scope [of _ ops "[]" rls] by (simp add: entries_ok_def es)
qed

lemma bar_notin_itoa: "CHR ''|'' \<notin> set (itoa i)"
proof
  assume "CHR ''|'' \<in> set (itoa i)"
  from itoa_char [OF this] show False by simp
qed

lemma carryKey_inj:
  assumes "re_scope e \<in> {''client'', ''server'', ''tool''}" "re_scope q \<in> {''client'', ''server'', ''tool''}"
  shows "carryKey e = carryKey q \<longleftrightarrow> re_scope e = re_scope q \<and> re_rawKey e = re_rawKey q
     \<and> re_perMinute e = re_perMinute q \<and> re_burst e = re_burst q"
proof
  assume eq: "carryKey e = carryKey q"
  have "(re_scope e @ ''|'' @ re_rawKey e @ ''|'' @ itoa (re_perMinute e)) @ CHR ''|'' # itoa (re_burst e) =
      (re_scope q @ ''|'' @ re_rawKey q @ ''|'' @ itoa (re_perMinute q)) @ CHR ''|'' # itoa (re_burst q)"
    using eq by (simp add: carryKey_def)
  from last_sep_inj [OF this bar_notin_itoa bar_notin_itoa]
  have b: "re_burst e = re_burst q"
    and "(re_scope e @ ''|'' @ re_rawKey e) @ CHR ''|'' # itoa (re_perMinute e) = (re_scope q @ ''|'' @ re_rawKey q) @ CHR ''|'' # itoa (re_perMinute q)"
    by (simp_all add: itoa_inj)
  from last_sep_inj [OF this(2) bar_notin_itoa bar_notin_itoa]
  have m: "re_perMinute e = re_perMinute q" and s: "re_scope e @ ''|'' @ re_rawKey e = re_scope q @ ''|'' @ re_rawKey q"
    by (simp_all add: itoa_inj)
  from s assms have "re_scope e = re_scope q \<and> re_rawKey e = re_rawKey q" by auto
  with b m show "re_scope e = re_scope q \<and> re_rawKey e = re_rawKey q \<and> re_perMinute e = re_perMinute q \<and> re_burst e = re_burst q"
    by simp
qed (simp add: carryKey_def)

lemma carry_index:
  assumes "distinct (map carryKey old)"
  shows "map_of (fold (\<lambda>e m. AList.update (carryKey e) e m) old m) k =
     (case find (\<lambda>q. carryKey q = k) old of Some q \<Rightarrow> Some q | None \<Rightarrow> map_of m k)"
proof -
  have keep: "map_of (fold (\<lambda>e m. AList.update (carryKey e) e m) old m) k = map_of m k" if "k \<notin> carryKey ` set old" for old m
    using that by (induction old arbitrary: m) (auto simp: map_of_update)
  have found: "map_of (fold (\<lambda>e m. AList.update (carryKey e) e m) old m) k = Some q"
    if "find (\<lambda>q. carryKey q = k) old = Some q" for q
    using that assms
  proof (induction old arbitrary: m)
    case (Cons a old)
    then show ?case using keep [of old "AList.update (carryKey a) a m"] by (auto simp: map_of_update split: if_splits)
  qed simp
  show ?thesis
  proof (cases "find (\<lambda>q. carryKey q = k) old")
    case None
    then have "k \<notin> carryKey ` set old" by (auto simp: find_None_iff)
    then show ?thesis using keep None by simp
  qed (simp add: found)
qed

lemma entries_ok_carryKeys: "entries_ok es \<Longrightarrow> distinct (map carryKey es)"
  unfolding entries_ok_def distinct_map inj_on_def
  by (metis (no_types, lifting) carryKey_inj)

subsection \<open>Properties\<close>

definition demo_limits :: "rate_limit list" where
  "demo_limits =
     [\<lparr>rl_client = ''Claude Code'', rl_server = [], rl_tool = [], rl_callsPerMinute = 60, rl_burst = 2\<rparr>,
      \<lparr>rl_client = ''claude-code'', rl_server = [], rl_tool = [], rl_callsPerMinute = 6, rl_burst = 1\<rparr>,
      \<lparr>rl_client = [], rl_server = ''db'', rl_tool = [], rl_callsPerMinute = 30, rl_burst = 0\<rparr>]"

definition demo_call :: gate_call where
  "demo_call = \<lparr>gc_prefixedTool = ''db__get'', gc_serverName = ''db'', gc_clientAccessID = ''claude-code''\<rparr>"

definition demo_rates :: "bucket rate_entry list" where
  "demo_rates = compile_rates bucket_ops [] demo_limits"

lemma demo_rates_policy: "NewPolicy bucket_ops (Some demo_limits) = Some demo_rates"
proof -
  have "map re_burst demo_rates = [2, 5]" by code_simp
  then have "demo_rates \<noteq> []" by auto
  then show ?thesis by (simp add: NewPolicy_def demo_rates_def demo_limits_def Let_def)
qed

lemma demo_rates_facts:
  "length demo_rates = 2" "re_perMinute (demo_rates ! 0) = 60" "re_burst (demo_rates ! 0) = 2"
  "matches (demo_rates ! 0) demo_call (NormalizeClientID (gc_clientAccessID demo_call))"
  by code_simp+

lemma compiled_rate_bound:
  assumes "token_bucket ops" and "NewPolicy ops cfg = Some es" and "i < length es" and "0 < re_perMinute (es ! i)"
    and "sorted (t0 # map fst cs)"
    and "\<forall>(now, call)\<in>set cs. matches (es ! i) call (NormalizeClientID (gc_clientAccessID call))"
  shows "of_nat (length (filter (\<lambda>ok. ok) (run_checks ops cs es))) \<le>
     of_int (re_burst (es ! i)) + of_int (re_perMinute (es ! i)) * of_int (last (t0 # map fst cs) - t0) / (60000000000 :: rat)"
proof -
  from assms(2) obtain rls where "es = compile_rates ops [] rls" by (rule NewPolicy_entries)
  with assms(3) have e: "es ! i \<in> set (compile_rates ops [] rls)" by simp
  note b = compiled_bucket [OF e]
  have "of_nat (length (filter (\<lambda>ok. ok) (run_checks ops cs es))) \<le>
      lim_tokens ops t0 (re_limiter (es ! i)) + refill (re_perMinute (es ! i)) (last (t0 # map fst cs) - t0)"
    using assms b by (intro run_checks_bound) auto
  moreover have "lim_tokens ops t0 (re_limiter (es ! i)) \<le> of_int (re_burst (es ! i))"
    using token_bucketD(2) [OF assms(1,4) b(2,1)] .
  ultimately show ?thesis by (simp add: refill_def)
qed

text \<open>A rate limit bounds the calls that get through: among calls that match an entry of a freshly
  compiled policy, at most the entry's burst plus its rate times the elapsed time are allowed, whatever
  other entries the policy has and whatever they decide.\<close>

theorem rate_limit_enforced:
  assumes "token_bucket ops" and "NewPolicy ops cfg = Some es" and "i < length es" and "0 < re_perMinute (es ! i)"
    and "sorted (t0 # map fst cs)"
    and "\<forall>(now, call)\<in>set cs. matches (es ! i) call (NormalizeClientID (gc_clientAccessID call))"
  shows "of_nat (length (filter (\<lambda>ok. ok) (run_checks ops cs es))) \<le>
     of_int (re_burst (es ! i)) + of_int (re_perMinute (es ! i)) * of_int (last (t0 # map fst cs) - t0) / (60000000000 :: rat)"
  using assms by (rule compiled_rate_bound)

theorem rate_limit_enforced_witness:
  "of_nat (length (filter (\<lambda>ok. ok) (run_checks bucket_ops (replicate 5 (0, demo_call)) demo_rates))) \<le> (2 :: rat)"
  using rate_limit_enforced [OF bucket_is_token_bucket demo_rates_policy, of 0 0 "replicate 5 (0, demo_call)"]
  by (simp add: demo_rates_facts)

text \<open>The gate denies by the first matching entry whose bucket is empty, in the order of the
  configuration: matching entries before it have spent a token, it has been asked, the later ones are
  untouched. When no matching bucket is empty the call is allowed, and exactly the matching buckets have
  been asked.\<close>

theorem gate_first_denial:
  "case CheckToolCall ops now es call of
     (GateAllow, es') \<Rightarrow> (\<forall>e\<in>set es. matches e call (NormalizeClientID (gc_clientAccessID call)) \<longrightarrow> admits ops now e)
       \<and> es' = map (\<lambda>x. if matches x call (NormalizeClientID (gc_clientAccessID call)) then offered ops now x else x) es
   | (GateDeny msg, es') \<Rightarrow> \<exists>pre e post. es = pre @ e # post
       \<and> (\<forall>x\<in>set pre. matches x call (NormalizeClientID (gc_clientAccessID call)) \<longrightarrow> admits ops now x)
       \<and> matches e call (NormalizeClientID (gc_clientAccessID call)) \<and> \<not> admits ops now e
       \<and> msg = RateLimitExceeded (re_scope e) (re_rawKey e) (re_perMinute e) (retryAfter ops now (offered ops now e))
       \<and> es' = map (\<lambda>x. if matches x call (NormalizeClientID (gc_clientAccessID call)) then offered ops now x else x) pre
                @ offered ops now e # post"
proof -
  let ?c = "check_loop ops now call (NormalizeClientID (gc_clientAccessID call)) es"
  obtain d es' where c: "?c = (d, es')" by fastforce
  show ?thesis
  proof (cases d)
    case GateAllow
    then have a: "fst ?c = GateAllow" using c by simp
    from check_loop_allow [THEN iffD1, OF a] check_loop_allowed_entries [OF a] c GateAllow show ?thesis
      by (simp add: CheckToolCall_def)
  next
    case (GateDeny msg)
    then have a: "fst ?c = GateDeny msg" using c by simp
    from check_loop_deny [OF a] c GateDeny show ?thesis by (simp add: CheckToolCall_def)
  qed
qed

theorem gate_first_denial_witness:
  "admits bucket_ops 0 (demo_rates ! 0)"
proof -
  obtain d es' where c: "CheckToolCall bucket_ops 0 demo_rates demo_call = (d, es')" by fastforce
  have "fst (CheckToolCall bucket_ops 0 demo_rates demo_call) = GateAllow" by code_simp
  with c have "d = GateAllow" by simp
  with gate_first_denial [where ops = bucket_ops and now = 0 and es = demo_rates and call = demo_call] c
  have "\<forall>e\<in>set demo_rates. matches e demo_call (NormalizeClientID (gc_clientAccessID demo_call)) \<longrightarrow> admits bucket_ops 0 e"
    by simp
  then show ?thesis using demo_rates_facts by (metis nth_mem zero_less_numeral)
qed

text \<open>A reload never refills an unchanged limit: an entry whose scope, configured key, rate and burst
  were in the retired policy keeps that policy's bucket, and any other entry keeps its own fresh one.\<close>

theorem carry_over_keeps_buckets:
  assumes "entries_ok new" and "entries_ok old"
  shows "CarryOver (Some new) (Some old) = Some (map (\<lambda>e.
      case find (\<lambda>q. re_scope q = re_scope e \<and> re_rawKey q = re_rawKey e
                 \<and> re_perMinute q = re_perMinute e \<and> re_burst q = re_burst e) old of
        Some q \<Rightarrow> e\<lparr>re_limiter := re_limiter q\<rparr> | None \<Rightarrow> e) new)"
proof -
  have "carry_entry (fold (\<lambda>e m. AList.update (carryKey e) e m) old []) e =
      (case find (\<lambda>q. re_scope q = re_scope e \<and> re_rawKey q = re_rawKey e
                 \<and> re_perMinute q = re_perMinute e \<and> re_burst q = re_burst e) old of
        Some q \<Rightarrow> e\<lparr>re_limiter := re_limiter q\<rparr> | None \<Rightarrow> e)" if "e \<in> set new" for e
  proof -
    have "find (\<lambda>q. carryKey q = carryKey e) old = find (\<lambda>q. re_scope q = re_scope e \<and> re_rawKey q = re_rawKey e
                 \<and> re_perMinute q = re_perMinute e \<and> re_burst q = re_burst e) old"
      using assms that by (intro find_cong refl carryKey_inj) (auto simp: entries_ok_def)
    then show ?thesis
      by (simp add: carry_entry_def carry_index [OF entries_ok_carryKeys [OF assms(2)]] split: option.splits)
  qed
  then show ?thesis by (simp add: CarryOver_def Let_def)
qed

theorem carry_over_keeps_buckets_witness:
  "\<exists>es. CarryOver (Some demo_rates) (Some (snd (CheckToolCall bucket_ops 0 demo_rates demo_call))) = Some es
     \<and> map (b_tokens \<circ> re_limiter) es = [1, 4]"
proof -
  have "NewPolicy bucket_ops (Some demo_limits) = Some demo_rates" by (rule demo_rates_policy)
  then have ok: "entries_ok demo_rates" by (rule NewPolicy_ok)
  have ok': "entries_ok (snd (CheckToolCall bucket_ops 0 demo_rates demo_call))" by code_simp
  show ?thesis unfolding carry_over_keeps_buckets [OF ok ok'] by (intro exI conjI refl) (code_simp, simp)
qed

text \<open>A compiled policy has at most one entry per scope and normalised key, so at most one entry of each
  scope matches a call.\<close>

theorem one_entry_per_scope:
  assumes "NewPolicy ops cfg = Some es" and "e \<in> set es" "q \<in> set es" and "re_scope e = re_scope q"
    and "matches e call nc" "matches q call nc"
  shows "e = q"
proof -
  have "re_key e = re_key q" using assms(4-6) by (auto simp: matches_def scopeMatches_def split: if_splits)
  moreover have "inj_on (\<lambda>e. (re_scope e, re_key e)) (set es)"
    using NewPolicy_ok [OF assms(1)] by (simp add: entries_ok_def distinct_map)
  ultimately show ?thesis using assms(2-4) by (auto dest: inj_onD)
qed

end
