(* ===== verification/Replica_Set.thy ===== *)
theory Replica_Set
  imports Complex_Main Mcp_Types "HOL-Library.Word" "HOL-Library.Signed_Division"
begin

text \<open>
  Replica sets (\<^verbatim>\<open>pkg/mcp/replica_set.go\<close>): the pool of replicas of one logical server, its two
  dispatch policies, its membership operations and the restart back-off of a failing replica.

  Replicas are shared by pointer in the source; here a replica is found by its id, which the set
  keeps unique (\<open>pool_ok\<close>), and a write through a pointer is \<open>update_replica\<close>. Counters keep
  their machine width where the code relies on it: \<^verbatim>\<open>attempts\<close> is a 32-bit word that saturates, the
  round-robin cursor a 64-bit word that wraps. The random jitter is a parameter: \<^verbatim>\<open>rand.Float64()\<close>
  returns \<open>k / 2^53\<close> for some \<open>k < 2^53\<close>.
\<close>

subsection \<open>Back-off\<close>

definition restartBackoffInitial :: duration where
  "restartBackoffInitial = 1 * second"

definition restartBackoffCap :: duration where
  "restartBackoffCap = 30 * second"

record backoff_state =
  bo_attempts :: "32 word"
  bo_nextAt :: "gotime option"

definition zero_backoff :: backoff_state where
  "zero_backoff = \<lparr>bo_attempts = 0, bo_nextAt = None\<rparr>"

definition ShouldTry :: "backoff_state \<Rightarrow> gotime \<Rightarrow> bool" where
  "ShouldTry b now = (case bo_nextAt b of None \<Rightarrow> True | Some t \<Rightarrow> \<not> now < t)"

text \<open>The doubling loop; its argument counts the iterations left.\<close>

fun backoff_loop :: "nat \<Rightarrow> duration \<Rightarrow> duration" where
  "backoff_loop 0 base = base"
| "backoff_loop (Suc n) base = (if base < restartBackoffCap then backoff_loop n (base * 2) else base)"

definition backoff_base :: "32 word \<Rightarrow> duration" where
  "backoff_base attempts =
     (let base = backoff_loop (unat attempts) restartBackoffInitial in
      if base > restartBackoffCap then restartBackoffCap else base)"

text \<open>The offset \<open>(rand.Float64()*2 - 1) * (base * 0.25)\<close>, truncated towards zero.\<close>

definition jitter_offset :: "duration \<Rightarrow> int \<Rightarrow> duration" where
  "jitter_offset base k = ((2 * k - 2 ^ 53) * base) sdiv (4 * 2 ^ 53)"

definition computeBackoff :: "32 word \<Rightarrow> int \<Rightarrow> duration" where
  "computeBackoff attempts k = backoff_base attempts + jitter_offset (backoff_base attempts) k"

definition Advance :: "backoff_state \<Rightarrow> gotime \<Rightarrow> int \<Rightarrow> backoff_state \<times> duration" where
  "Advance b now k =
     (let delay = computeBackoff (bo_attempts b) k;
          attempts = (if bo_attempts b < - 1 then bo_attempts b + 1 else bo_attempts b)
      in (\<lparr>bo_attempts = attempts, bo_nextAt = Some (now + delay)\<rparr>, delay))"

definition Reset_backoff :: "backoff_state \<Rightarrow> backoff_state" where
  "Reset_backoff b = \<lparr>bo_attempts = 0, bo_nextAt = None\<rparr>"

subsection \<open>Replicas and the set\<close>

record replica =
  r_id :: int
  r_client :: agent_client
  r_healthy :: bool
  r_inFlight :: int
  r_restart :: backoff_state
  r_startedAt :: "gotime option"

definition SetHealthy :: "bool \<Rightarrow> replica \<Rightarrow> replica" where
  "SetHealthy h r = r\<lparr>r_healthy := h\<rparr>"

definition IncInFlight :: "replica \<Rightarrow> replica" where
  "IncInFlight r = r\<lparr>r_inFlight := r_inFlight r + 1\<rparr>"

definition DecInFlight :: "replica \<Rightarrow> replica" where
  "DecInFlight r = r\<lparr>r_inFlight := r_inFlight r - 1\<rparr>"

definition MarkStarted :: "gotime \<Rightarrow> replica \<Rightarrow> replica" where
  "MarkStarted now r = r\<lparr>r_startedAt := Some now\<rparr>"

definition ReplicaPolicyRoundRobin :: string where
  "ReplicaPolicyRoundRobin = ''round-robin''"

definition ReplicaPolicyLeastConnections :: string where
  "ReplicaPolicyLeastConnections = ''least-connections''"

record replica_set =
  rs_name :: string
  rs_policy :: string
  rs_replicas :: "replica list"
  rs_rrCursor :: "64 word"
  rs_nextID :: int
  rs_toolCache :: "tool list"

definition SetToolCache :: "replica_set \<Rightarrow> tool list \<Rightarrow> replica_set" where
  "SetToolCache s tools = (if tools = [] then s else s\<lparr>rs_toolCache := tools\<rparr>)"

definition CachedTools :: "replica_set \<Rightarrow> tool list" where
  "CachedTools s = (if rs_toolCache s = [] then [] else rs_toolCache s)"

definition new_replica :: "int \<Rightarrow> agent_client \<Rightarrow> gotime \<Rightarrow> replica" where
  "new_replica i c now = \<lparr>r_id = i, r_client = c, r_healthy = True, r_inFlight = 0,
     r_restart = zero_backoff, r_startedAt = Some now\<rparr>"

fun new_replicas :: "int \<Rightarrow> agent_client list \<Rightarrow> gotime \<Rightarrow> replica list" where
  "new_replicas i [] now = []"
| "new_replicas i (c # cs) now = new_replica i c now # new_replicas (i + 1) cs now"

definition NewReplicaSet :: "string \<Rightarrow> string \<Rightarrow> agent_client list \<Rightarrow> gotime \<Rightarrow> replica_set" where
  "NewReplicaSet name policy clients now =
     (let policy' = (if policy \<noteq> ReplicaPolicyRoundRobin \<and> policy \<noteq> ReplicaPolicyLeastConnections
                     then ReplicaPolicyRoundRobin else policy);
          st = \<lparr>rs_name = name, rs_policy = policy', rs_replicas = new_replicas 0 clients now,
                rs_rrCursor = 0, rs_nextID = int (length clients), rs_toolCache = []\<rparr>
      in case clients of [] \<Rightarrow> st | c # _ \<Rightarrow> SetToolCache st (ac_tools c))"

definition Size_set :: "replica_set \<Rightarrow> int" where
  "Size_set s = int (length (rs_replicas s))"

datatype pick_error = ErrNoHealthyReplicas

text \<open>The position \<^verbatim>\<open>((start+i)%n+n)%n\<close>: 64-bit addition wraps, \<^verbatim>\<open>%\<close> truncates towards zero.\<close>

definition rr_index :: "nat \<Rightarrow> 64 word \<Rightarrow> nat" where
  "rr_index n pos = nat ((sint pos smod int n + int n) smod int n)"

fun rr_scan :: "replica list \<Rightarrow> 64 word \<Rightarrow> nat \<Rightarrow> nat \<Rightarrow> replica option" where
  "rr_scan rs start i 0 = None"
| "rr_scan rs start i (Suc k) =
     (let r = rs ! rr_index (length rs) (start + of_nat i) in
      if r_healthy r then Some r else rr_scan rs start (Suc i) k)"

text \<open>\<^verbatim>\<open>start\<close> is the cursor before the increment; the increment is in \<open>Pick\<close>.\<close>

definition pickRoundRobinLocked :: "64 word \<Rightarrow> replica list \<Rightarrow> replica option" where
  "pickRoundRobinLocked start rs = rr_scan rs start 0 (length rs)"

fun lc_scan :: "replica option \<Rightarrow> replica list \<Rightarrow> replica option" where
  "lc_scan chosen [] = chosen"
| "lc_scan chosen (r # rs) =
     (if \<not> r_healthy r then lc_scan chosen rs
      else case chosen of
        None \<Rightarrow> lc_scan (Some r) rs
      | Some c \<Rightarrow>
          if r_inFlight r < r_inFlight c \<or> (r_inFlight r = r_inFlight c \<and> r_id r < r_id c)
          then lc_scan (Some r) rs else lc_scan (Some c) rs)"

definition pickLeastConnectionsLocked :: "replica list \<Rightarrow> replica option" where
  "pickLeastConnectionsLocked rs = lc_scan None rs"

definition Pick :: "replica_set \<Rightarrow> (pick_error + replica) \<times> replica_set" where
  "Pick s =
     (if rs_replicas s = [] then (Inl ErrNoHealthyReplicas, s)
      else if rs_policy s = ReplicaPolicyLeastConnections
      then (case pickLeastConnectionsLocked (rs_replicas s) of
              None \<Rightarrow> Inl ErrNoHealthyReplicas | Some r \<Rightarrow> Inr r, s)
      else (case pickRoundRobinLocked (rs_rrCursor s) (rs_replicas s) of
              None \<Rightarrow> Inl ErrNoHealthyReplicas | Some r \<Rightarrow> Inr r,
            s\<lparr>rs_rrCursor := rs_rrCursor s + 1\<rparr>))"

definition Client_of :: "replica_set \<Rightarrow> agent_client option \<times> replica_set" where
  "Client_of s =
     (case Pick s of
        (Inl _, s') \<Rightarrow> (None, s')
      | (Inr r, s') \<Rightarrow> (Some (r_client r), s'))"

text \<open>The client is never nil here: every caller passes the result of a successful spawn.\<close>

definition AddReplica :: "replica_set \<Rightarrow> agent_client \<Rightarrow> gotime \<Rightarrow> int \<times> replica_set" where
  "AddReplica s client now =
     (let i = rs_nextID s;
          s1 = s\<lparr>rs_nextID := rs_nextID s + 1, rs_replicas := rs_replicas s @ [new_replica i client now]\<rparr>
      in (i, SetToolCache s1 (ac_tools client)))"

datatype remove_error = ReplicaNotInSet int string

fun remove_by_id :: "int \<Rightarrow> replica list \<Rightarrow> (replica \<times> replica list) option" where
  "remove_by_id i [] = None"
| "remove_by_id i (r # rs) =
     (if r_id r \<noteq> i then map_option (\<lambda>(x, xs). (x, r # xs)) (remove_by_id i rs) else Some (r, rs))"

definition RemoveReplica :: "replica_set \<Rightarrow> int \<Rightarrow> (remove_error + replica) \<times> replica_set" where
  "RemoveReplica s i =
     (case remove_by_id i (rs_replicas s) of
        None \<Rightarrow> (Inl (ReplicaNotInSet i (rs_name s)), s)
      | Some (r, rs) \<Rightarrow> (Inr r, s\<lparr>rs_replicas := rs\<rparr>))"

definition ReinsertReplica :: "replica_set \<Rightarrow> replica option \<Rightarrow> replica_set" where
  "ReinsertReplica s ro =
     (case ro of
        None \<Rightarrow> s
      | Some r \<Rightarrow>
          if \<exists>e\<in>set (rs_replicas s). r_id e = r_id r then s
          else s\<lparr>rs_replicas := rs_replicas s @ [SetHealthy True r]\<rparr>)"

definition HealthyCount :: "replica_set \<Rightarrow> int" where
  "HealthyCount s = int (length (filter r_healthy (rs_replicas s)))"

text \<open>A median of integer samples is a multiple of one half, which a \<^verbatim>\<open>float64\<close> holds exactly at the
  sizes that occur; the model computes in the rationals.\<close>

definition median_of :: "rat list \<Rightarrow> rat" where
  "median_of vals =
     (if vals = [] then 0
      else let vs = sort vals; mid = length vs div 2 in
        if length vs mod 2 = 1 then vs ! mid else (vs ! (mid - 1) + vs ! mid) / 2)"

definition MedianInFlight :: "replica_set \<Rightarrow> rat" where
  "MedianInFlight s =
     median_of (map (\<lambda>r. of_int (r_inFlight r)) (filter r_healthy (rs_replicas s)))"

text \<open>A write through a replica pointer held by a caller.\<close>

definition update_replica :: "int \<Rightarrow> (replica \<Rightarrow> replica) \<Rightarrow> replica_set \<Rightarrow> replica_set" where
  "update_replica i f s = s\<lparr>rs_replicas := map (\<lambda>r. if r_id r = i then f r else r) (rs_replicas s)\<rparr>"

subsection \<open>Arithmetic of the back-off and of the cursor\<close>

lemma smod_wrap:
  assumes n: "(0::int) < n"
  shows "(x smod n + n) smod n = x mod n"
proof -
  have pos: "a smod n = a mod n" if "0 \<le> a" for a :: int
    using that n by (simp add: signed_modulo_int_def signed_divide_int_def sgn_if minus_div_mult_eq_mod abs_if)
  show ?thesis
  proof (cases "0 \<le> x")
    case True
    then show ?thesis using n by (simp add: pos)
  next
    case False
    have "x smod n = - ((- x) mod n)"
      using False n by (simp add: signed_modulo_int_def signed_divide_int_def sgn_if abs_if minus_div_mult_eq_mod [symmetric])
    moreover have "0 \<le> n - (- x) mod n" using n by (simp add: order_less_imp_le)
    ultimately have "(x smod n + n) smod n = (n - (- x) mod n) mod n" using n by (simp add: pos)
    also have "\<dots> = x mod n" by (metis minus_mod_self1 minus_minus mod_minus_eq)
    finally show ?thesis .
  qed
qed

lemma rr_index_eq: "0 < n \<Longrightarrow> rr_index n pos = nat (sint pos mod int n)"
  by (simp add: rr_index_def smod_wrap)

lemma rr_index_less: "0 < n \<Longrightarrow> rr_index n pos < n"
  by (simp add: rr_index_eq nat_less_iff)

lemma backoff_loop_min:
  "0 < b \<Longrightarrow> min (backoff_loop n b) restartBackoffCap = min (2 ^ n * b) restartBackoffCap"
proof (induction n arbitrary: b)
  case (Suc n)
  show ?case
  proof (cases "b < restartBackoffCap")
    case True
    then show ?thesis using Suc.IH [of "b * 2"] Suc.prems by (simp add: ac_simps)
  next
    case False
    have "b \<le> 2 ^ Suc n * b"
      using Suc.prems mult_right_mono [of 1 "2 ^ Suc n" b] one_le_power [of "2::int" "Suc n"] by simp
    with False show ?thesis by simp
  qed
qed simp

lemma backoff_base_eq: "backoff_base a = min (2 ^ unat a * second) restartBackoffCap"
  using backoff_loop_min [of restartBackoffInitial "unat a"]
  by (simp add: backoff_base_def restartBackoffInitial_def Let_def min_def split: if_splits)

lemma jitter_bound:
  assumes "0 \<le> k" "k < 2 ^ 53" "0 \<le> base"
  shows "4 * \<bar>jitter_offset base k\<bar> \<le> base"
proof -
  let ?x = "(2 * k - 2 ^ 53) * base"
  have "\<bar>2 * k - 2 ^ 53\<bar> \<le> 2 ^ 53" using assms by auto
  then have "\<bar>?x\<bar> \<le> 2 ^ 53 * base"
    using assms(3) by (simp add: abs_mult mult_right_mono)
  then have "\<bar>?x\<bar> div (4 * 2 ^ 53) \<le> (2 ^ 53 * base) div (4 * 2 ^ 53)"
    by (intro zdiv_mono1) simp_all
  also have "\<dots> = base div 4" by simp
  finally have le: "\<bar>?x\<bar> div (4 * 2 ^ 53) \<le> base div 4" .
  have "\<bar>jitter_offset base k\<bar> = \<bar>sgn ?x\<bar> * (\<bar>?x\<bar> div (4 * 2 ^ 53))"
    by (simp add: jitter_offset_def signed_divide_int_def abs_mult pos_imp_zdiv_nonneg_iff)
  also have "\<dots> \<le> \<bar>?x\<bar> div (4 * 2 ^ 53)"
    by (simp add: abs_sgn_eq pos_imp_zdiv_nonneg_iff)
  also note le
  finally show ?thesis by linarith
qed

subsection \<open>The dispatch contract\<close>

text \<open>
  What the router relies on, whatever the policy: a pick returns a healthy replica of the set, and
  fails only when there is none. The predicate \<open>ok\<close> says when a policy's state supports this; for
  round robin it excludes a scan during which the 64-bit cursor wraps around.
\<close>

locale dispatcher =
  fixes ok :: "'c \<Rightarrow> replica list \<Rightarrow> bool"
    and pick :: "'c \<Rightarrow> replica list \<Rightarrow> replica option"
  assumes pick_sound: "pick c rs = Some r \<Longrightarrow> r \<in> set rs \<and> r_healthy r"
    and pick_complete: "ok c rs \<Longrightarrow> r \<in> set rs \<Longrightarrow> r_healthy r \<Longrightarrow> pick c rs \<noteq> None"
begin

lemma pick_None_iff: "ok c rs \<Longrightarrow> pick c rs = None \<longleftrightarrow> (\<forall>r\<in>set rs. \<not> r_healthy r)"
  using pick_complete pick_sound by (metis option.exhaust)

lemma pick_single: "ok c [r] \<Longrightarrow> pick c [r] = (if r_healthy r then Some r else None)"
  using pick_sound [of c "[r]"] pick_complete [of c "[r]"] by (cases "pick c [r]") auto

end

definition cursor_ok :: "64 word \<Rightarrow> replica list \<Rightarrow> bool" where
  "cursor_ok c rs \<longleftrightarrow> sint c + int (length rs) \<le> 2 ^ 63"

lemma sint_plus_of_nat:
  assumes "sint (c :: 64 word) + int i < 2 ^ 63"
  shows "sint (c + of_nat i) = sint c + int i"
proof -
  have lo: "- (2 ^ 63) \<le> sint c" using sint_ge [of c] by simp
  have "c + of_nat i = (of_int (sint c + int i) :: 64 word)" by simp
  then have "sint (c + of_nat i) = signed_take_bit 63 (sint c + int i)"
    by (simp only: signed_of_int) simp
  also have "\<dots> = sint c + int i"
    using assms lo by (intro signed_take_bit_int_eq_self) auto
  finally show ?thesis .
qed

lemma rr_scan_sound: "rs \<noteq> [] \<Longrightarrow> rr_scan rs start i k = Some r \<Longrightarrow> r \<in> set rs \<and> r_healthy r"
  by (induction k arbitrary: i) (auto simp: Let_def rr_index_less split: if_splits)

lemma rr_scan_None:
  "rr_scan rs start i k = None \<Longrightarrow> m < k \<Longrightarrow> \<not> r_healthy (rs ! rr_index (length rs) (start + of_nat (i + m)))"
proof (induction k arbitrary: i m)
  case (Suc k)
  from Suc.prems(1) have first: "\<not> r_healthy (rs ! rr_index (length rs) (start + of_nat i))"
    and rest: "rr_scan rs start (Suc i) k = None"
    by (auto simp: Let_def simp del: of_nat_Suc split: if_splits)
  show ?case
  proof (cases m)
    case 0
    then show ?thesis using first by simp
  next
    case (Suc m')
    then show ?thesis using Suc.IH [OF rest, of m'] Suc.prems(2) by simp
  qed
qed simp

lemma rr_index_covers:
  assumes "cursor_ok c rs" and "j < length rs"
  shows "\<exists>m<length rs. rr_index (length rs) (c + of_nat m) = j"
proof -
  let ?n = "int (length rs)"
  let ?m = "nat ((int j - sint c) mod ?n)"
  have n: "0 < ?n" using assms(2) by linarith
  have m: "int ?m = (int j - sint c) mod ?n" using n by simp
  have less: "?m < length rs" using n m pos_mod_bound [of ?n "int j - sint c"] by linarith
  have "sint (c + of_nat ?m) = sint c + int ?m"
    using assms(1) less unfolding cursor_ok_def by (intro sint_plus_of_nat) linarith
  then have "sint (c + of_nat ?m) mod ?n = int j mod ?n" by (simp only: m mod_simps) simp
  then have "rr_index (length rs) (c + of_nat ?m) = j"
    using assms(2) rr_index_eq [of "length rs"] by (cases rs) simp_all
  with less show ?thesis by blast
qed

interpretation round_robin: dispatcher cursor_ok pickRoundRobinLocked
proof unfold_locales
  fix c rs r assume "pickRoundRobinLocked c rs = Some r"
  then show "r \<in> set rs \<and> r_healthy r"
    by (cases "rs = []") (auto simp: pickRoundRobinLocked_def dest: rr_scan_sound)
next
  fix c rs r assume ok: "cursor_ok c rs" and r: "r \<in> set rs" "r_healthy r"
  then obtain j where j: "j < length rs" "rs ! j = r" by (auto simp: in_set_conv_nth)
  with rr_index_covers [OF ok] obtain m where "m < length rs" "rr_index (length rs) (c + of_nat m) = j" by blast
  with j r rr_scan_None [of rs c 0 "length rs" m] show "pickRoundRobinLocked c rs \<noteq> None"
    by (auto simp: pickRoundRobinLocked_def)
qed

text \<open>Least connections: the winner is minimal in the order of in-flight count, then id.\<close>

definition lc_le :: "replica \<Rightarrow> replica \<Rightarrow> bool" where
  "lc_le r q \<longleftrightarrow> r_inFlight r < r_inFlight q \<or> (r_inFlight r = r_inFlight q \<and> r_id r \<le> r_id q)"

lemma lc_scan_spec:
  assumes "\<forall>c. chosen = Some c \<longrightarrow> r_healthy c"
  shows "case lc_scan chosen rs of
      None \<Rightarrow> chosen = None \<and> (\<forall>r\<in>set rs. \<not> r_healthy r)
    | Some w \<Rightarrow> r_healthy w \<and> (w \<in> set rs \<or> chosen = Some w) \<and> (\<forall>c. chosen = Some c \<longrightarrow> lc_le w c)
        \<and> (\<forall>r\<in>set rs. r_healthy r \<longrightarrow> lc_le w r)"
  using assms
proof (induction rs arbitrary: chosen)
  case Nil
  then show ?case by (auto simp: lc_le_def split: option.splits)
next
  case (Cons r rs)
  show ?case
  proof (cases "r_healthy r")
    case False
    then show ?thesis using Cons.IH [OF Cons.prems] by (auto split: option.splits)
  next
    case True
    show ?thesis
    proof (cases "\<exists>c. chosen = Some c \<and> \<not> (r_inFlight r < r_inFlight c \<or> (r_inFlight r = r_inFlight c \<and> r_id r < r_id c))")
      case keep: True
      with True Cons.IH [OF Cons.prems] show ?thesis by (auto simp: lc_le_def split: option.splits)
    next
      case swap: False
      then have "lc_scan chosen (r # rs) = lc_scan (Some r) rs" using True by (auto split: option.splits)
      with swap True Cons.IH [of "Some r"] show ?thesis by (auto simp: lc_le_def split: option.splits)
    qed
  qed
qed

interpretation least_connections: dispatcher "\<lambda>_ _. True" "\<lambda>_ :: unit. pickLeastConnectionsLocked"
  by unfold_locales
    (use lc_scan_spec [of None] in \<open>fastforce simp: pickLeastConnectionsLocked_def split: option.splits\<close>)+

subsection \<open>Properties of dispatch and of the back-off\<close>

lemma word_succ_saturates:
  "unat (if a < - 1 then a + 1 else a) = min (unat a + 1) (2 ^ 32 - 1)" for a :: "32 word"
proof -
  have top: "unat (- 1 :: 32 word) = 2 ^ 32 - 1" by (simp add: unsigned_minus_1_eq_mask mask_eq_exp_minus_1)
  have le: "unat a \<le> 2 ^ 32 - 1" using unsigned_less [where ?'a = nat and w = a] by simp
  show ?thesis
  proof (cases "a < - 1")
    case True
    then have "unat a + 1 < 2 ^ 32" using top by (simp add: word_less_nat_alt)
    then have "unat (a + 1) = unat a + 1" by (simp add: unat_word_ariths(1))
    with True le show ?thesis using \<open>unat a + 1 < 2 ^ 32\<close> by simp
  next
    case False
    then show ?thesis using top le by (simp add: word_less_nat_alt)
  qed
qed

text \<open>One failed reconnect attempt: the attempt counter grows by one and saturates at the largest
  32-bit value, the delay stays within a quarter of \<open>min(2^attempts, 30)\<close> seconds, and the next attempt
  is refused strictly before \<open>now + delay\<close> and allowed from then on.\<close>

theorem backoff_schedule:
  assumes "0 \<le> k" and "k < 2 ^ 53" and adv: "Advance b now k = (b', d)"
  shows "unat (bo_attempts b') = min (unat (bo_attempts b) + 1) (2 ^ 32 - 1)
    \<and> 3 * min (2 ^ unat (bo_attempts b) * second) (30 * second) \<le> 4 * d
    \<and> 4 * d \<le> 5 * min (2 ^ unat (bo_attempts b) * second) (30 * second)
    \<and> (\<forall>t. ShouldTry b' t \<longleftrightarrow> now + d \<le> t)"
proof (intro conjI allI)
  let ?base = "backoff_base (bo_attempts b)"
  have d: "d = ?base + jitter_offset ?base k" and b': "bo_nextAt b' = Some (now + d)"
    "bo_attempts b' = (if bo_attempts b < - 1 then bo_attempts b + 1 else bo_attempts b)"
    using adv by (auto simp: Advance_def computeBackoff_def Let_def)
  show "unat (bo_attempts b') = min (unat (bo_attempts b) + 1) (2 ^ 32 - 1)"
    by (simp only: b' word_succ_saturates)
  have base: "?base = min (2 ^ unat (bo_attempts b) * second) (30 * second)"
    by (simp add: backoff_base_eq restartBackoffCap_def)
  have "0 \<le> ?base" by (simp add: base)
  from jitter_bound [OF assms(1,2) this] have jitter:
    "- ?base \<le> 4 * jitter_offset ?base k" "4 * jitter_offset ?base k \<le> ?base"
    by (simp_all add: abs_if split: if_splits)
  show "3 * min (2 ^ unat (bo_attempts b) * second) (30 * second) \<le> 4 * d"
    unfolding d base [symmetric] using jitter by (simp add: algebra_simps)
  show "4 * d \<le> 5 * min (2 ^ unat (bo_attempts b) * second) (30 * second)"
    unfolding d base [symmetric] using jitter by (simp add: algebra_simps)
  show "ShouldTry b' t \<longleftrightarrow> now + d \<le> t" for t by (auto simp: ShouldTry_def b')
qed

theorem backoff_schedule_witness:
  "ShouldTry (fst (Advance zero_backoff 0 0)) (2 * second)"
proof -
  obtain b' d where adv: "Advance zero_backoff 0 0 = (b', d)" by fastforce
  from backoff_schedule [OF _ _ adv] show ?thesis
    unfolding adv by (simp add: zero_backoff_def min_def)
qed

lemma pick_contract:
  assumes "rs_policy s = ReplicaPolicyLeastConnections \<or> cursor_ok (rs_rrCursor s) (rs_replicas s)"
  shows "case fst (Pick s) of
      Inl ErrNoHealthyReplicas \<Rightarrow> \<forall>r\<in>set (rs_replicas s). \<not> r_healthy r
    | Inr r \<Rightarrow> r \<in> set (rs_replicas s) \<and> r_healthy r
        \<and> (rs_policy s = ReplicaPolicyLeastConnections \<longrightarrow>
             (\<forall>q\<in>set (rs_replicas s). r_healthy q \<longrightarrow> lc_le r q))"
proof (cases "rs_policy s = ReplicaPolicyLeastConnections")
  case True
  then show ?thesis using lc_scan_spec [of None "rs_replicas s"]
    by (auto simp: Pick_def pickLeastConnectionsLocked_def split: option.splits)
next
  case False
  with assms have ok: "cursor_ok (rs_rrCursor s) (rs_replicas s)" by simp
  show ?thesis using False round_robin.pick_None_iff [OF ok]
    by (auto simp: Pick_def dest: round_robin.pick_sound split: option.splits)
qed

text \<open>Dispatch is sound and complete: a pick returns a healthy replica of the set or, when every
  replica is unhealthy, reports that there is none; it never changes the replicas, and a
  least-connections pick is minimal in the order of in-flight count, then id.\<close>

theorem pick_sound_complete:
  assumes "rs_policy s = ReplicaPolicyLeastConnections \<or> cursor_ok (rs_rrCursor s) (rs_replicas s)"
  shows "(case fst (Pick s) of
      Inl ErrNoHealthyReplicas \<Rightarrow> \<forall>r\<in>set (rs_replicas s). \<not> r_healthy r
    | Inr r \<Rightarrow> r \<in> set (rs_replicas s) \<and> r_healthy r
        \<and> (rs_policy s = ReplicaPolicyLeastConnections \<longrightarrow>
             (\<forall>q\<in>set (rs_replicas s). r_healthy q \<longrightarrow> lc_le r q)))
    \<and> rs_replicas (snd (Pick s)) = rs_replicas s"
  using pick_contract [OF assms] by (simp add: Pick_def)

definition demo_client :: agent_client where
  "demo_client = \<lparr>ac_name = ''s'', ac_tools = [], ac_allTools = []\<rparr>"

definition demo_pool :: "string \<Rightarrow> replica_set" where
  "demo_pool policy = update_replica 0 (SetHealthy False)
     (update_replica 1 IncInFlight
       (NewReplicaSet ''s'' policy [demo_client, demo_client, demo_client] 0))"

theorem pick_sound_complete_witness:
  "\<exists>r. fst (Pick (demo_pool ReplicaPolicyLeastConnections)) = Inr r \<and> r_id r = 2
     \<and> lc_le r (rs_replicas (demo_pool ReplicaPolicyLeastConnections) ! 1)"
proof -
  let ?s = "demo_pool ReplicaPolicyLeastConnections"
  have p: "rs_policy ?s = ReplicaPolicyLeastConnections" by code_simp
  have i: "map_sum id r_id (fst (Pick ?s)) = Inr 2" by code_simp
  have q: "r_healthy (rs_replicas ?s ! 1)" "1 < length (rs_replicas ?s)" by code_simp+
  from i obtain r where r: "fst (Pick ?s) = Inr r" "r_id r = 2" by (cases "fst (Pick ?s)") auto
  with pick_sound_complete [of ?s] p have "\<forall>q\<in>set (rs_replicas ?s). r_healthy q \<longrightarrow> lc_le r q" by auto
  with r q show ?thesis by (metis nth_mem)
qed

text \<open>A run of \<open>n\<close> consecutive picks.\<close>

fun picks :: "nat \<Rightarrow> replica_set \<Rightarrow> (pick_error + replica) list" where
  "picks 0 s = []"
| "picks (Suc n) s = fst (Pick s) # picks n (snd (Pick s))"

lemma Pick_round_robin_healthy:
  assumes "rs_policy s = ReplicaPolicyRoundRobin" "rs_replicas s \<noteq> []" "\<forall>r\<in>set (rs_replicas s). r_healthy r"
  shows "Pick s = (Inr (rs_replicas s ! nat (sint (rs_rrCursor s) mod int (length (rs_replicas s)))),
                   s\<lparr>rs_rrCursor := rs_rrCursor s + 1\<rparr>)"
proof -
  let ?rs = "rs_replicas s"
  obtain k where k: "length ?rs = Suc k" using assms(2) by (cases ?rs) auto
  have "r_healthy (?rs ! rr_index (length ?rs) (rs_rrCursor s))"
    using assms(2,3) by (simp add: rr_index_less)
  then have "pickRoundRobinLocked (rs_rrCursor s) ?rs = Some (?rs ! rr_index (length ?rs) (rs_rrCursor s))"
    by (simp add: pickRoundRobinLocked_def k)
  then show ?thesis using assms(1,2)
    by (simp add: Pick_def ReplicaPolicyRoundRobin_def ReplicaPolicyLeastConnections_def rr_index_eq)
qed

lemma picks_nth:
  assumes "rs_policy s = ReplicaPolicyRoundRobin" "rs_replicas s \<noteq> []" "\<forall>r\<in>set (rs_replicas s). r_healthy r"
    and "sint (rs_rrCursor s) + int m \<le> 2 ^ 63"
  shows "picks m s = map (\<lambda>i. Inr (rs_replicas s ! nat ((sint (rs_rrCursor s) + int i) mod int (length (rs_replicas s))))) [0..<m]"
  using assms
proof (induction m arbitrary: s)
  case (Suc m)
  let ?s' = "s\<lparr>rs_rrCursor := rs_rrCursor s + 1\<rparr>"
  have P: "Pick s = (Inr (rs_replicas s ! nat (sint (rs_rrCursor s) mod int (length (rs_replicas s)))), ?s')"
    using Suc.prems by (intro Pick_round_robin_healthy)
  show ?case
  proof (cases m)
    case 0
    then show ?thesis by (simp add: P)
  next
    case (Suc m')
    with Suc.prems(4) have c: "sint (rs_rrCursor ?s') = sint (rs_rrCursor s) + 1"
      using sint_plus_of_nat [of "rs_rrCursor s" 1] by simp
    have "picks m ?s' = map (\<lambda>i. Inr (rs_replicas s ! nat ((sint (rs_rrCursor s) + 1 + int i) mod int (length (rs_replicas s))))) [0..<m]"
      using Suc.IH [of ?s'] Suc.prems c by simp
    then show ?thesis
      by (simp add: P upt_conv_Cons map_Suc_upt [symmetric] ac_simps del: upt_Suc)
  qed
qed simp

text \<open>C36. Round robin is fair: in a set with the round-robin policy and replicas that are all healthy, as many
  consecutive picks as there are replicas return each of them exactly once, in the order of the set rotated by the cursor,
  unless the 64-bit cursor overflows within those picks.\<close>

theorem round_robin_fair:
  assumes "rs_policy s = ReplicaPolicyRoundRobin" "rs_replicas s \<noteq> []"
    and "\<forall>r\<in>set (rs_replicas s). r_healthy r" and "cursor_ok (rs_rrCursor s) (rs_replicas s)"
  shows "picks (length (rs_replicas s)) s
       = map Inr (rotate (nat (sint (rs_rrCursor s) mod int (length (rs_replicas s)))) (rs_replicas s))"
proof (rule nth_equalityI)
  let ?rs = "rs_replicas s" let ?n = "length (rs_replicas s)" let ?c = "sint (rs_rrCursor s)"
  have ps: "picks ?n s = map (\<lambda>i. Inr (?rs ! nat ((?c + int i) mod int ?n))) [0..<?n]"
    using assms by (intro picks_nth) (simp_all add: cursor_ok_def)
  show "length (picks ?n s) = length (map Inr (rotate (nat (?c mod int ?n)) ?rs))" by (simp add: ps)
  fix i assume "i < length (picks ?n s)"
  then have i: "i < ?n" by (simp add: ps)
  have n: "0 < int ?n" using assms(2) by simp
  have "int ((nat (?c mod int ?n) + i) mod ?n) = (?c + int i) mod int ?n"
    using n by (simp add: zmod_int mod_simps)
  then have "nat ((?c + int i) mod int ?n) = (nat (?c mod int ?n) + i) mod ?n" by (metis nat_int)
  then show "picks ?n s ! i = map Inr (rotate (nat (?c mod int ?n)) ?rs) ! i"
    using i by (simp add: ps nth_rotate)
qed

theorem round_robin_fair_witness:
  "map (map_sum id r_id) (picks 3 (snd (Pick (NewReplicaSet ''s'' ''auto'' [demo_client, demo_client, demo_client] 0))))
     = [Inr 1, Inr 2, Inr 0]"
proof -
  let ?s = "snd (Pick (NewReplicaSet ''s'' ''auto'' [demo_client, demo_client, demo_client] 0))"
  have rs: "rs_replicas ?s = new_replicas 0 [demo_client, demo_client, demo_client] 0"
    "rs_policy ?s = ReplicaPolicyRoundRobin" "rs_rrCursor ?s = 1"
    by (simp_all add: NewReplicaSet_def Pick_def SetToolCache_def demo_client_def new_replica_def
        ReplicaPolicyRoundRobin_def ReplicaPolicyLeastConnections_def)
  from round_robin_fair [of ?s] show ?thesis
    unfolding rs by (simp add: rs cursor_ok_def new_replica_def numeral_3_eq_3 rotate1_def)
qed

subsection \<open>Membership\<close>

text \<open>
  The life of a set: replicas are added, detached by \<^verbatim>\<open>RemoveReplica\<close> and then either reaped or put
  back by \<^verbatim>\<open>ReinsertReplica\<close>, while dispatch and writes through replica pointers go on. The second
  component holds the replicas detached but not yet reaped, to which callers still hold pointers.
\<close>

inductive pool_step :: "replica_set \<times> replica list \<Rightarrow> replica_set \<times> replica list \<Rightarrow> bool" where
  step_add: "pool_step (s, det) (snd (AddReplica s c now), det)"
| step_remove: "RemoveReplica s i = (Inr r, s') \<Longrightarrow> pool_step (s, det) (s', r # det)"
| step_remove_missing: "RemoveReplica s i = (Inl e, s') \<Longrightarrow> pool_step (s, det) (s', det)"
| step_reinsert: "pool_step (s, det1 @ r # det2) (ReinsertReplica s (Some r), det1 @ det2)"
| step_reap: "pool_step (s, det1 @ r # det2) (s, det1 @ det2)"
| step_pick: "pool_step (s, det) (snd (Pick s), det)"
| step_write: "(\<And>r. r_id (f r) = r_id r) \<Longrightarrow>
    pool_step (s, det) (update_replica i f s, map (\<lambda>r. if r_id r = i then f r else r) det)"
| step_cache: "pool_step (s, det) (SetToolCache s ts, det)"

inductive_cases pool_stepE: "pool_step (s, det) st"

definition pool_ids :: "replica_set \<times> replica list \<Rightarrow> int list" where
  "pool_ids st = map r_id (rs_replicas (fst st) @ snd st)"

definition pool_ok :: "replica_set \<times> replica list \<Rightarrow> bool" where
  "pool_ok st \<longleftrightarrow> distinct (pool_ids st) \<and> (\<forall>i\<in>set (pool_ids st). 0 \<le> i \<and> i < rs_nextID (fst st)) \<and> 0 \<le> rs_nextID (fst st)"

lemma SetToolCache_simps [simp]:
  "rs_replicas (SetToolCache s ts) = rs_replicas s" "rs_nextID (SetToolCache s ts) = rs_nextID s"
  "rs_name (SetToolCache s ts) = rs_name s" "rs_policy (SetToolCache s ts) = rs_policy s"
  by (simp_all add: SetToolCache_def)

lemma Pick_keeps [simp]:
  "rs_replicas (snd (Pick s)) = rs_replicas s" "rs_nextID (snd (Pick s)) = rs_nextID s"
  "rs_name (snd (Pick s)) = rs_name s" "rs_policy (snd (Pick s)) = rs_policy s"
  "rs_toolCache (snd (Pick s)) = rs_toolCache s"
  by (simp_all add: Pick_def)

lemma remove_by_id_SomeD:
  "remove_by_id i rs = Some (r, rs') \<Longrightarrow>
     \<exists>xs ys. rs = xs @ r # ys \<and> rs' = xs @ ys \<and> r_id r = i \<and> (\<forall>x\<in>set xs. r_id x \<noteq> i)"
proof (induction rs arbitrary: rs')
  case (Cons q qs)
  show ?case
  proof (cases "r_id q = i")
    case True
    with Cons.prems show ?thesis by (intro exI [of _ "[]"] exI [of _ qs]) auto
  next
    case False
    with Cons.prems obtain zs where "remove_by_id i qs = Some (r, zs)" "rs' = q # zs" by auto
    with Cons.IH [of zs] obtain xs ys where "qs = xs @ r # ys" "rs' = q # xs @ ys" "r_id r = i" "\<forall>x\<in>set xs. r_id x \<noteq> i"
      by blast
    with False show ?thesis by (intro exI [of _ "q # xs"] exI [of _ ys]) auto
  qed
qed simp

lemma remove_by_id_None_iff: "remove_by_id i rs = None \<longleftrightarrow> i \<notin> r_id ` set rs"
  by (induction rs) auto

lemma RemoveReplica_InrE:
  assumes "RemoveReplica s i = (Inr r, s')"
  obtains xs ys where "rs_replicas s = xs @ r # ys" "s' = s\<lparr>rs_replicas := xs @ ys\<rparr>" "r_id r = i"
    "\<forall>x\<in>set xs. r_id x \<noteq> i"
  using assms remove_by_id_SomeD [of i "rs_replicas s"]
  by (fastforce simp: RemoveReplica_def split: option.splits)

lemma RemoveReplica_Inl: "RemoveReplica s i = (Inl e, s') \<Longrightarrow> s' = s"
  by (auto simp: RemoveReplica_def split: option.splits)

lemma pool_ok_step: "pool_step st st' \<Longrightarrow> pool_ok st \<Longrightarrow> pool_ok st'"
proof (induction rule: pool_step.induct)
  case (step_remove s i r s' det)
  from step_remove.hyps show ?case
    by (rule RemoveReplica_InrE) (use step_remove.prems in \<open>auto simp: pool_ok_def pool_ids_def\<close>)
next
  case (step_reinsert s det1 r det2)
  then show ?case
    by (auto simp: pool_ok_def pool_ids_def ReinsertReplica_def SetHealthy_def)
next
  case (step_write f s det i)
  have "pool_ids (update_replica i f s, map (\<lambda>r. if r_id r = i then f r else r) det) = pool_ids (s, det)"
    using step_write.hyps by (simp add: pool_ids_def update_replica_def)
  with step_write.prems show ?case by (simp add: pool_ok_def update_replica_def)
qed (auto simp: pool_ok_def pool_ids_def AddReplica_def new_replica_def Let_def ball_Un
    intro: order_less_imp_le dest: RemoveReplica_Inl)

lemma new_replicas_ids: "map r_id (new_replicas i cs now) = map (\<lambda>k. i + int k) [0..<length cs]"
proof (induction cs arbitrary: i)
  case (Cons c cs)
  then show ?case by (simp add: new_replica_def upt_conv_Cons map_Suc_upt [symmetric] ac_simps del: upt_Suc)
qed simp

lemma NewReplicaSet_simps [simp]:
  "rs_replicas (NewReplicaSet n p cs now) = new_replicas 0 cs now"
  "rs_nextID (NewReplicaSet n p cs now) = int (length cs)"
  "rs_name (NewReplicaSet n p cs now) = n"
  by (simp_all add: NewReplicaSet_def Let_def split: list.splits)

lemma pool_ok_new: "pool_ok (NewReplicaSet n p cs now, [])"
  by (auto simp: pool_ok_def pool_ids_def new_replicas_ids distinct_map inj_on_def)

lemma nextID_mono: "pool_step st st' \<Longrightarrow> rs_nextID (fst st) \<le> rs_nextID (fst st')"
  by (induction rule: pool_step.induct)
    (auto simp: AddReplica_def ReinsertReplica_def update_replica_def Let_def elim: RemoveReplica_InrE
      dest: RemoveReplica_Inl)

text \<open>Replica ids are unique and never reused: in every state a set reaches, the attached and the
  detached replicas have pairwise different ids below the next id, and an added replica takes an id
  that no replica of any earlier state of the run had.\<close>

theorem replica_ids_never_reused:
  assumes "pool_step\<^sup>*\<^sup>* (NewReplicaSet n p cs now, []) st" and "pool_step\<^sup>*\<^sup>* st st'"
  shows "distinct (pool_ids st') \<and> fst (AddReplica (fst st') c t) \<notin> set (pool_ids st)"
proof -
  have ok: "pool_ok st" using assms(1) by (induction rule: rtranclp_induct) (auto intro: pool_ok_new pool_ok_step)
  have "pool_ok st' \<and> rs_nextID (fst st) \<le> rs_nextID (fst st')"
    using assms(2) by (induction rule: rtranclp_induct) (auto intro: ok pool_ok_step dest: nextID_mono)
  with ok show ?thesis by (fastforce simp: pool_ok_def AddReplica_def Let_def)
qed

theorem replica_ids_never_reused_witness:
  "fst (AddReplica (snd (RemoveReplica (NewReplicaSet ''s'' [] [demo_client, demo_client] 0) 1)) demo_client 5) = 2
   \<and> 2 \<notin> set (pool_ids (NewReplicaSet ''s'' [] [demo_client, demo_client] 0, []))"
proof -
  let ?s0 = "NewReplicaSet ''s'' [] [demo_client, demo_client] 0"
  obtain r s' where r: "RemoveReplica ?s0 1 = (Inr r, s')"
    by (simp add: RemoveReplica_def new_replica_def)
  have i: "fst (AddReplica (snd (RemoveReplica ?s0 1)) demo_client 5) = 2"
    by (simp add: RemoveReplica_def new_replica_def AddReplica_def)
  have "pool_step\<^sup>*\<^sup>* (?s0, []) (s', [r])" using step_remove [OF r, of "[]"] by blast
  from replica_ids_never_reused [OF rtranclp.rtrancl_refl this, of demo_client 5] i r show ?thesis by simp
qed

lemma remove_reinsert_facts:
  assumes "pool_ok (s, det)" and "RemoveReplica s i = (Inr r, s')"
  shows "rs_replicas s' = filter (\<lambda>q. r_id q \<noteq> i) (rs_replicas s)
    \<and> rs_replicas (ReinsertReplica s' (Some r)) = rs_replicas s' @ [SetHealthy True r]
    \<and> mset (pool_ids (ReinsertReplica s' (Some r), [])) = mset (pool_ids (s, []))
    \<and> ReinsertReplica (ReinsertReplica s' (Some r)) (Some r) = ReinsertReplica s' (Some r)"
  using assms(2)
proof (rule RemoveReplica_InrE)
  fix xs ys assume *: "rs_replicas s = xs @ r # ys" "s' = s\<lparr>rs_replicas := xs @ ys\<rparr>" "r_id r = i" "\<forall>x\<in>set xs. r_id x \<noteq> i"
  from * assms(1) have "i \<notin> r_id ` set ys" by (simp add: pool_ok_def pool_ids_def)
  then have d: "\<forall>y\<in>set ys. r_id y \<noteq> i" by blast
  with * have f: "filter (\<lambda>q. r_id q \<noteq> i) (xs @ ys) = xs @ ys" by (simp add: filter_id_conv)
  have re: "ReinsertReplica s' (Some r) = s'\<lparr>rs_replicas := xs @ ys @ [SetHealthy True r]\<rparr>"
    using * d by (auto simp: ReinsertReplica_def)
  show ?thesis
    using * d f re by (auto simp: ReinsertReplica_def SetHealthy_def pool_ids_def)
qed

text \<open>Detaching and putting back: removing a replica that is in the set returns it and leaves the
  others in order; putting it back restores the set up to order, with that replica healthy again, and
  a second attempt to put it back changes nothing.\<close>

theorem remove_reinsert:
  assumes "pool_ok (s, det)" and "RemoveReplica s i = (Inr r, s')"
  shows "rs_replicas s' = filter (\<lambda>q. r_id q \<noteq> i) (rs_replicas s)
    \<and> rs_replicas (ReinsertReplica s' (Some r)) = rs_replicas s' @ [SetHealthy True r]
    \<and> mset (pool_ids (ReinsertReplica s' (Some r), [])) = mset (pool_ids (s, []))
    \<and> ReinsertReplica (ReinsertReplica s' (Some r)) (Some r) = ReinsertReplica s' (Some r)"
  using assms by (rule remove_reinsert_facts)

theorem remove_reinsert_witness:
  "map r_id (rs_replicas (ReinsertReplica (snd (RemoveReplica (NewReplicaSet ''s'' [] [demo_client, demo_client] 0) 0))
      (Some (new_replica 0 demo_client 0)))) = [1, 0]"
proof -
  let ?s = "NewReplicaSet ''s'' [] [demo_client, demo_client] 0"
  have r: "RemoveReplica ?s 0 = (Inr (new_replica 0 demo_client 0), snd (RemoveReplica ?s 0))"
    by (simp add: RemoveReplica_def new_replica_def)
  from remove_reinsert [OF pool_ok_new r] show ?thesis by (simp add: new_replica_def SetHealthy_def)
qed

end
