(* ===== verification/Autoscaler.thy ===== *)
theory Autoscaler
  imports Replica_Set
begin

text \<open>
  The autoscaler of one replica set (\<^verbatim>\<open>pkg/mcp/autoscaler.go\<close>): the rolling window of load samples,
  the replica target, and the tick that spawns or reaps.

  The \<^verbatim>\<open>Spawner\<close> is code of other packages: \<open>spawn\<close> and \<open>reap\<close> are parameters that act on a world
  \<open>'w\<close> and may fail with an error \<open>'e\<close>. The drain loop waits on the environment: it is a recursion
  over the list of polls, each with the in-flight count and the clock it reads, and an exhausted list
  means that the loop is still waiting. Medians are rationals (a sample is a multiple of one half, and
  the ceiling of their quotients is the same in \<^verbatim>\<open>float64\<close> at the sizes that occur). \<open>wall\<close> is the
  clock that \<^verbatim>\<open>AddReplica\<close> and the drain deadline read. Logging and tracing have no effect on the state.
\<close>

record autoscale_policy =
  p_min :: int
  p_max :: int
  p_targetInFlight :: int
  p_scaleUpAfter :: duration
  p_scaleDownAfter :: duration
  p_warmPool :: int
  p_idleToZero :: bool

definition drainTimeout :: duration where
  "drainTimeout = 30 * second"

definition drainPollInterval :: duration where
  "drainPollInterval = 100 * 1000000"

datatype decision = DecisionNoop | DecisionScaleUp | DecisionScaleDown

definition decision_String :: "decision \<Rightarrow> string" where
  "decision_String d = (case d of DecisionScaleUp \<Rightarrow> ''up'' | DecisionScaleDown \<Rightarrow> ''down'' | DecisionNoop \<Rightarrow> ''noop'')"

subsection \<open>The rolling window\<close>

record inFlightWindow =
  w_samples :: "(gotime \<times> rat) list"
  w_size :: duration

definition newInFlightWindow :: "duration \<Rightarrow> inFlightWindow" where
  "newInFlightWindow sz = \<lparr>w_samples = [], w_size = (if sz < 30 * second then 30 * second else sz)\<rparr>"

definition Add_sample :: "inFlightWindow \<Rightarrow> gotime \<Rightarrow> rat \<Rightarrow> inFlightWindow" where
  "Add_sample w at' median =
     (let samples = w_samples w @ [(at', median)]; cutoff = at' - w_size w in
      w\<lparr>w_samples := dropWhile (\<lambda>(t, m). t < cutoff) samples\<rparr>)"

definition Latest :: "inFlightWindow \<Rightarrow> rat" where
  "Latest w = (if w_samples w = [] then 0 else snd (last (w_samples w)))"

definition Resize :: "inFlightWindow \<Rightarrow> duration \<Rightarrow> inFlightWindow" where
  "Resize w sz = w\<lparr>w_size := (if sz < 30 * second then 30 * second else sz)\<rparr>"

definition sampleMedian :: "inFlightWindow \<Rightarrow> gotime \<Rightarrow> rat" where
  "sampleMedian w from = median_of (map snd (filter (\<lambda>(t, m). \<not> t < from) (w_samples w)))"

fun zero_scan :: "bool \<Rightarrow> gotime \<Rightarrow> (gotime \<times> rat) list \<Rightarrow> bool" where
  "zero_scan sawAny from [] = sawAny"
| "zero_scan sawAny from ((t, m) # rest) =
     (if t < from then zero_scan sawAny from rest
      else if m > 0 then False else zero_scan True from rest)"

definition allSamplesZeroSince :: "inFlightWindow \<Rightarrow> gotime \<Rightarrow> bool" where
  "allSamplesZeroSince w from = zero_scan False from (w_samples w)"

definition oldestAt :: "inFlightWindow \<Rightarrow> gotime option" where
  "oldestAt w = (case w_samples w of [] \<Rightarrow> None | (t, m) # _ \<Rightarrow> Some t)"

subsection \<open>The scaler\<close>

record autoscaler =
  as_name :: string
  as_set :: replica_set
  as_policy :: autoscale_policy
  as_lastScaleUpAt :: "gotime option"
  as_lastScaleDownAt :: "gotime option"
  as_lastDecision :: decision
  as_window :: inFlightWindow

definition windowSizeFor :: "duration \<Rightarrow> duration" where
  "windowSizeFor scaleUpAfter =
     (let half = scaleUpAfter sdiv 2 in if half < 30 * second then 30 * second else half)"

definition NewAutoscaler :: "string \<Rightarrow> replica_set \<Rightarrow> autoscale_policy \<Rightarrow> autoscaler" where
  "NewAutoscaler name st p =
     \<lparr>as_name = name, as_set = st, as_policy = p, as_lastScaleUpAt = None, as_lastScaleDownAt = None,
      as_lastDecision = DecisionNoop, as_window = newInFlightWindow (windowSizeFor (p_scaleUpAfter p))\<rparr>"

definition UpdatePolicy :: "autoscaler \<Rightarrow> autoscale_policy \<Rightarrow> autoscaler" where
  "UpdatePolicy a p =
     a\<lparr>as_policy := p, as_window := Resize (as_window a) (windowSizeFor (p_scaleUpAfter p))\<rparr>"

definition computeTarget :: "int \<Rightarrow> rat \<Rightarrow> autoscale_policy \<Rightarrow> int" where
  "computeTarget current median p =
     (let load = (if current > 0 \<and> p_targetInFlight p > 0
                  then \<lceil>of_int current * median / of_int (p_targetInFlight p)\<rceil> else 0);
          load' = (if load < p_min p then p_min p else load);
          target = load' + p_warmPool p;
          target' = (if target > p_max p then p_max p else target)
      in if target' < 0 then 0 else target')"

record autoscale_status =
  st_min :: int
  st_max :: int
  st_current :: int
  st_target :: int
  st_targetInFlight :: int
  st_medianInFlight :: int
  st_lastScaleUpAt :: "gotime option"
  st_lastScaleDownAt :: "gotime option"
  st_lastDecision :: string
  st_warmPool :: int
  st_idleToZero :: bool

text \<open>\<^verbatim>\<open>math.Round\<close> rounds halves away from zero.\<close>

definition math_round :: "rat \<Rightarrow> int" where
  "math_round x = (if x < 0 then - \<lfloor>- x + 1 / 2\<rfloor> else \<lfloor>x + 1 / 2\<rfloor>)"

definition Status_scaler :: "autoscaler \<Rightarrow> autoscale_status" where
  "Status_scaler a =
     (let p = as_policy a; current = HealthyCount (as_set a); median = MedianInFlight (as_set a) in
      \<lparr>st_min = p_min p, st_max = p_max p, st_current = current, st_target = computeTarget current median p,
       st_targetInFlight = p_targetInFlight p, st_medianInFlight = math_round median,
       st_lastScaleUpAt = as_lastScaleUpAt a, st_lastScaleDownAt = as_lastScaleDownAt a,
       st_lastDecision = decision_String (as_lastDecision a), st_warmPool = p_warmPool p,
       st_idleToZero = p_idleToZero p\<rparr>)"

datatype 'e scale_error =
    SpawnFailed 'e
  | ReplicaGone remove_error
  | DrainCancelled
  | ErrDrainTimeout
  | ReapFailed 'e
  | ColdStartRefused

definition recordDecision :: "autoscaler \<Rightarrow> decision \<Rightarrow> (decision \<times> 'e scale_error option) \<times> autoscaler" where
  "recordDecision a d = ((d, None), a\<lparr>as_lastDecision := d\<rparr>)"

definition noop_tick :: "autoscaler \<Rightarrow> (decision \<times> 'e scale_error option) \<times> autoscaler" where
  "noop_tick a = ((DecisionNoop, None), a\<lparr>as_lastDecision := DecisionNoop\<rparr>)"

fun spawn_loop :: "('w \<Rightarrow> ('e + agent_client) \<times> 'w) \<Rightarrow> gotime \<Rightarrow> nat \<Rightarrow> replica_set \<Rightarrow> 'w
    \<Rightarrow> nat \<times> 'e option \<times> replica_set \<times> 'w" where
  "spawn_loop spawn wall 0 s w = (0, None, s, w)"
| "spawn_loop spawn wall (Suc n) s w =
     (case spawn w of
        (Inl e, w') \<Rightarrow> (0, Some e, s, w')
      | (Inr client, w') \<Rightarrow>
          let (i, s') = AddReplica s client wall;
              (added, err, s'', w'') = spawn_loop spawn wall n s' w'
          in (Suc added, err, s'', w''))"

definition scaleUp :: "('w \<Rightarrow> ('e + agent_client) \<times> 'w) \<Rightarrow> gotime \<Rightarrow> gotime \<Rightarrow> int \<Rightarrow> int \<Rightarrow> autoscale_policy
    \<Rightarrow> autoscaler \<Rightarrow> 'w \<Rightarrow> ((decision \<times> 'e scale_error option) \<times> autoscaler) \<times> 'w" where
  "scaleUp spawn wall now current target p a w =
     (let poolFloor = p_min p + p_warmPool p; eager = current < poolFloor in
      if \<not> eager \<and> (case as_lastScaleUpAt a of None \<Rightarrow> False | Some lastUp \<Rightarrow> now - lastUp < p_scaleUpAfter p)
      then (recordDecision a DecisionNoop, w)
      else if \<not> eager \<and> sampleMedian (as_window a) (now - p_scaleUpAfter p) < of_int (p_targetInFlight p)
      then (recordDecision a DecisionNoop, w)
      else let need = target - current in
        if need \<le> 0 then (noop_tick a, w)
        else let (added, err, s', w') = spawn_loop spawn wall (nat need) (as_set a) w;
                 a1 = a\<lparr>as_set := s'\<rparr>;
                 a2 = (if added > 0 then a1\<lparr>as_lastScaleUpAt := Some now, as_lastDecision := DecisionScaleUp\<rparr> else a1)
             in (((DecisionScaleUp, map_option SpawnFailed err), a2), w'))"

text \<open>The order of \<^verbatim>\<open>time.Time.Before\<close> on start times, the zero time first.\<close>

definition started_before :: "gotime option \<Rightarrow> gotime option \<Rightarrow> bool" where
  "started_before a b = (case b of None \<Rightarrow> False | Some y \<Rightarrow> (case a of None \<Rightarrow> True | Some x \<Rightarrow> x < y))"

fun reap_scan :: "replica \<Rightarrow> replica list \<Rightarrow> replica" where
  "reap_scan chosen [] = chosen"
| "reap_scan chosen (r # rs) =
     (if r_inFlight r < r_inFlight chosen then reap_scan r rs
      else if r_inFlight r = r_inFlight chosen \<and> started_before (r_startedAt r) (r_startedAt chosen)
      then reap_scan r rs else reap_scan chosen rs)"

definition pickReapTarget :: "replica_set \<Rightarrow> replica option" where
  "pickReapTarget s = (case rs_replicas s of [] \<Rightarrow> None | r # rs \<Rightarrow> Some (reap_scan r rs))"

text \<open>One wake-up of the drain loop: the context is done, or the poll interval has passed and the loop
  reads the victim's in-flight counter and the clock.\<close>

datatype poll = PollDone | Poll int gotime

datatype drain_outcome = Drained | Cancelled | TimedOut

fun drain_loop :: "gotime \<Rightarrow> int \<Rightarrow> poll list \<Rightarrow> (drain_outcome \<times> int) option" where
  "drain_loop deadline inFlight [] = None"
| "drain_loop deadline inFlight (PollDone # ps) = Some (Cancelled, inFlight)"
| "drain_loop deadline inFlight (Poll n t # ps) =
     (if n = 0 then Some (Drained, n)
      else if t > deadline then Some (TimedOut, n)
      else drain_loop deadline n ps)"

text \<open>The result is the error, if any, the set, and the victim as its pointer now reads.\<close>

definition drainAndReap :: "(replica \<Rightarrow> 'w \<Rightarrow> 'e option \<times> 'w) \<Rightarrow> gotime \<Rightarrow> poll list \<Rightarrow> replica \<Rightarrow> replica_set \<Rightarrow> 'w
    \<Rightarrow> ('e scale_error option \<times> replica \<times> replica_set \<times> 'w) option" where
  "drainAndReap reap wall polls r s w =
     (case RemoveReplica s (r_id r) of
        (Inl e, s') \<Rightarrow> Some (Some (ReplicaGone e), r, s', w)
      | (Inr _, s') \<Rightarrow>
          (case drain_loop (wall + drainTimeout) (r_inFlight r) polls of
             None \<Rightarrow> None
           | Some (out, n) \<Rightarrow>
               let r' = r\<lparr>r_inFlight := n\<rparr> in
               (case out of
                  Cancelled \<Rightarrow> Some (Some DrainCancelled, r', s', w)
                | TimedOut \<Rightarrow> Some (Some ErrDrainTimeout, r', s', w)
                | Drained \<Rightarrow> let (e, w') = reap r' w in Some (map_option ReapFailed e, r', s', w'))))"

definition scaleDown :: "(replica \<Rightarrow> 'w \<Rightarrow> 'e option \<times> 'w) \<Rightarrow> gotime \<Rightarrow> poll list \<Rightarrow> gotime \<Rightarrow> int \<Rightarrow> autoscale_policy
    \<Rightarrow> string \<Rightarrow> autoscaler \<Rightarrow> 'w \<Rightarrow> (((decision \<times> 'e scale_error option) \<times> autoscaler) \<times> 'w) option" where
  "scaleDown reap wall polls now current p reason a w =
     (let flr = (if p_idleToZero p \<and> reason = ''idle_to_zero'' then 0 else p_min p + p_warmPool p) in
      if current \<le> flr then Some (recordDecision a DecisionNoop, w)
      else if (case as_lastScaleDownAt a of None \<Rightarrow> False | Some lastDown \<Rightarrow> now - lastDown < p_scaleDownAfter p)
      then Some (recordDecision a DecisionNoop, w)
      else if reason = ''load'' \<and> sampleMedian (as_window a) (now - p_scaleDownAfter p) > of_int (p_targetInFlight p) / 2
      then Some (recordDecision a DecisionNoop, w)
      else case pickReapTarget (as_set a) of
        None \<Rightarrow> Some (recordDecision a DecisionNoop, w)
      | Some victim \<Rightarrow>
          (case drainAndReap reap wall polls victim (as_set a) w of
             None \<Rightarrow> None
           | Some (Some e, victim', s', w') \<Rightarrow>
               Some (((DecisionScaleDown, Some e), a\<lparr>as_set := ReinsertReplica s' (Some victim')\<rparr>), w')
           | Some (None, victim', s', w') \<Rightarrow>
               Some (((DecisionScaleDown, None),
                      a\<lparr>as_set := s', as_lastScaleDownAt := Some now, as_lastDecision := DecisionScaleDown\<rparr>), w')))"

definition idle_gate :: "autoscaler \<Rightarrow> gotime \<Rightarrow> autoscale_policy \<Rightarrow> bool" where
  "idle_gate a now p =
     (let sinceWindow = now - p_scaleDownAfter p in
      (case oldestAt (as_window a) of None \<Rightarrow> False | Some oldest \<Rightarrow> \<not> oldest > sinceWindow)
      \<and> allSamplesZeroSince (as_window a) sinceWindow)"

definition Tick :: "('w \<Rightarrow> ('e + agent_client) \<times> 'w) \<Rightarrow> (replica \<Rightarrow> 'w \<Rightarrow> 'e option \<times> 'w) \<Rightarrow> gotime \<Rightarrow> poll list
    \<Rightarrow> gotime \<Rightarrow> autoscaler \<Rightarrow> 'w \<Rightarrow> (((decision \<times> 'e scale_error option) \<times> autoscaler) \<times> 'w) option" where
  "Tick spawn reap wall polls now a0 w =
     (let p = as_policy a0;
          median = MedianInFlight (as_set a0);
          a = a0\<lparr>as_window := Add_sample (as_window a0) now median\<rparr>;
          current = HealthyCount (as_set a);
          target = computeTarget current median p
      in if p_idleToZero p \<and> p_min p = 0 \<and> current > 0 \<and> idle_gate a now p
         then scaleDown reap wall polls now current p ''idle_to_zero'' a w
         else if target > current then Some (scaleUp spawn wall now current target p a w)
         else if target < current then scaleDown reap wall polls now current p ''load'' a w
         else Some (noop_tick a, w))"

definition TriggerColdStart :: "('w \<Rightarrow> ('e + agent_client) \<times> 'w) \<Rightarrow> gotime \<Rightarrow> autoscaler \<Rightarrow> 'w
    \<Rightarrow> ('e scale_error option \<times> autoscaler) \<times> 'w" where
  "TriggerColdStart spawn wall a w =
     (if HealthyCount (as_set a) > 0 then ((None, a), w)
      else if p_max (as_policy a) < 1 then ((Some ColdStartRefused, a), w)
      else case spawn w of
        (Inl e, w') \<Rightarrow> ((Some (SpawnFailed e), a), w')
      | (Inr client, w') \<Rightarrow>
          let (i, s') = AddReplica (as_set a) client wall in
          ((None, a\<lparr>as_set := s', as_lastScaleUpAt := Some wall, as_lastDecision := DecisionScaleUp\<rparr>), w'))"

subsection \<open>Facts about the pieces\<close>

text \<open>A policy that configuration validation lets through.\<close>

definition scale_policy_ok :: "autoscale_policy \<Rightarrow> bool" where
  "scale_policy_ok p \<longleftrightarrow> 0 \<le> p_min p \<and> p_min p \<le> p_max p \<and> 1 \<le> p_max p \<and> 0 \<le> p_warmPool p \<and> 1 \<le> p_targetInFlight p"

lemma HealthyCount_AddReplica [simp]: "HealthyCount (snd (AddReplica s c now)) = HealthyCount s + 1"
  by (simp add: HealthyCount_def AddReplica_def new_replica_def Let_def)

lemma spawn_loop_spec:
  "spawn_loop spawn wall n s w = (added, err, s', w') \<Longrightarrow>
     added \<le> n \<and> (err = None \<longleftrightarrow> added = n) \<and> HealthyCount s' = HealthyCount s + int added
     \<and> (\<exists>new. rs_replicas s' = rs_replicas s @ new \<and> length new = added)"
proof (induction n arbitrary: s w added err s' w')
  case (Suc n)
  show ?case
  proof (cases "spawn w")
    case (Pair res w1)
    show ?thesis
    proof (cases res)
      case (Inl e)
      with Suc.prems Pair show ?thesis by auto
    next
      case (Inr c)
      obtain i s1 where s1: "AddReplica s c wall = (i, s1)" by fastforce
      obtain k e s2 w2 where k: "spawn_loop spawn wall n s1 w1 = (k, e, s2, w2)" by (metis prod_cases4)
      have "HealthyCount s1 = HealthyCount s + 1" "rs_replicas s1 = rs_replicas s @ [new_replica i c wall]"
        using HealthyCount_AddReplica [of s c wall] s1 by (auto simp: AddReplica_def Let_def)
      with Suc.IH [OF k] Suc.prems Pair Inr s1 k show ?thesis by auto
    qed
  qed
qed simp

lemma reap_scan_spec:
  "reap_scan c rs \<in> insert c (set rs) \<and> (\<forall>q\<in>insert c (set rs). r_inFlight (reap_scan c rs) \<le> r_inFlight q)"
proof (induction rs arbitrary: c)
  case (Cons r rs)
  have c: "reap_scan c rs \<in> insert c (set rs)" "r_inFlight (reap_scan c rs) \<le> r_inFlight c"
    "\<forall>q\<in>set rs. r_inFlight (reap_scan c rs) \<le> r_inFlight q" using Cons.IH [of c] by auto
  have r: "reap_scan r rs \<in> insert r (set rs)" "r_inFlight (reap_scan r rs) \<le> r_inFlight r"
    "\<forall>q\<in>set rs. r_inFlight (reap_scan r rs) \<le> r_inFlight q" using Cons.IH [of r] by auto
  consider "r_inFlight r \<le> r_inFlight c" "reap_scan c (r # rs) = reap_scan r rs"
    | "r_inFlight c \<le> r_inFlight r" "reap_scan c (r # rs) = reap_scan c rs"
    by (cases "r_inFlight r" "r_inFlight c" rule: linorder_cases;
        cases "started_before (r_startedAt r) (r_startedAt c)") auto
  then show ?case by cases (use c r in auto)
qed simp

lemma pickReapTarget_spec:
  assumes "pickReapTarget s = Some v"
  shows "v \<in> set (rs_replicas s) \<and> (\<forall>q\<in>set (rs_replicas s). r_inFlight v \<le> r_inFlight q)"
proof (cases "rs_replicas s")
  case (Cons r rs)
  with assms reap_scan_spec [of r rs] show ?thesis by (auto simp: pickReapTarget_def)
qed (use assms in \<open>simp add: pickReapTarget_def\<close>)

lemma RemoveReplica_present:
  assumes "v \<in> set (rs_replicas s)"
  obtains r s' where "RemoveReplica s (r_id v) = (Inr r, s')"
  using assms remove_by_id_None_iff [of "r_id v" "rs_replicas s"]
  by (cases "remove_by_id (r_id v) (rs_replicas s)") (auto simp: RemoveReplica_def)

lemma drainAndReap_spec:
  assumes "drainAndReap reap wall polls r s w = Some (e, r', s', w')" and "r \<in> set (rs_replicas s)"
  shows "\<exists>n r0. r' = r\<lparr>r_inFlight := n\<rparr> \<and> RemoveReplica s (r_id r) = (Inr r0, s') \<and> (e = None \<longrightarrow> n = 0)"
proof -
  from assms(2) obtain r0 s0 where rem: "RemoveReplica s (r_id r) = (Inr r0, s0)" by (rule RemoveReplica_present)
  have zero: "n = 0" if "drain_loop d k ps = Some (Drained, n)" for d k ps n
    using that by (induction d k ps rule: drain_loop.induct) (auto split: if_splits)
  show ?thesis using assms(1) rem zero
    by (auto simp: drainAndReap_def Let_def split: option.splits prod.splits drain_outcome.splits)
qed

text \<open>The three outcomes of a scale-down: refused, reaped, or put back after a failure.\<close>

lemma scaleDown_cases:
  assumes "scaleDown reap wall polls now current p reason a w = Some (((d, e), a'), w')"
  obtains
    (refused) "as_set a' = as_set a" "as_lastScaleDownAt a' = as_lastScaleDownAt a" "d = DecisionNoop" "e = None"
  | (acted) v n r0 s' where
      "pickReapTarget (as_set a) = Some v" "RemoveReplica (as_set a) (r_id v) = (Inr r0, s')" "d = DecisionScaleDown"
      "current > (if p_idleToZero p \<and> reason = ''idle_to_zero'' then 0 else p_min p + p_warmPool p)"
      "\<forall>t. as_lastScaleDownAt a = Some t \<longrightarrow> p_scaleDownAfter p \<le> now - t"
      "reason = ''load'' \<longrightarrow> sampleMedian (as_window a) (now - p_scaleDownAfter p) \<le> of_int (p_targetInFlight p) / 2"
      "if e = None then n = 0 \<and> as_set a' = s' \<and> as_lastScaleDownAt a' = Some now
       else as_set a' = ReinsertReplica s' (Some (v\<lparr>r_inFlight := n\<rparr>)) \<and> as_lastScaleDownAt a' = as_lastScaleDownAt a"
proof (cases "d = DecisionNoop")
  case True
  then show thesis using assms
    by (intro refused) (auto simp: scaleDown_def recordDecision_def Let_def
        split: if_splits option.splits prod.splits)
next
  case False
  let ?flr = "if p_idleToZero p \<and> reason = ''idle_to_zero'' then 0 else p_min p + p_warmPool p"
  have g: "\<not> current \<le> ?flr"
    "\<not> (case as_lastScaleDownAt a of None \<Rightarrow> False | Some lastDown \<Rightarrow> now - lastDown < p_scaleDownAfter p)"
    "\<not> (reason = ''load'' \<and> sampleMedian (as_window a) (now - p_scaleDownAfter p) > of_int (p_targetInFlight p) / 2)"
    using assms False unfolding scaleDown_def Let_def recordDecision_def
    by (force split: if_split_asm)+
  then have eq: "scaleDown reap wall polls now current p reason a w =
      (case pickReapTarget (as_set a) of
        None \<Rightarrow> Some (recordDecision a DecisionNoop, w)
      | Some victim \<Rightarrow>
          (case drainAndReap reap wall polls victim (as_set a) w of
             None \<Rightarrow> None
           | Some (Some e, victim', s', w') \<Rightarrow>
               Some (((DecisionScaleDown, Some e), a\<lparr>as_set := ReinsertReplica s' (Some victim')\<rparr>), w')
           | Some (None, victim', s', w') \<Rightarrow>
               Some (((DecisionScaleDown, None),
                      a\<lparr>as_set := s', as_lastScaleDownAt := Some now, as_lastDecision := DecisionScaleDown\<rparr>), w')))"
    by (simp only: scaleDown_def Let_def if_False)
  then obtain v where v: "pickReapTarget (as_set a) = Some v"
    using assms False by (auto simp: recordDecision_def split: option.splits)
  then obtain e1 v' s' w1 where dr: "drainAndReap reap wall polls v (as_set a) w = Some (e1, v', s', w1)"
    using assms eq by (cases "drainAndReap reap wall polls v (as_set a) w") auto
  from drainAndReap_spec [OF dr] pickReapTarget_spec [OF v] obtain n r0 where
    n: "v' = v\<lparr>r_inFlight := n\<rparr>" "RemoveReplica (as_set a) (r_id v) = (Inr r0, s')" "e1 = None \<longrightarrow> n = 0" by blast
  show thesis
  proof (rule acted [OF v n(2)])
    show "d = DecisionScaleDown" using assms eq v dr by (auto split: option.splits)
    show "current > ?flr" using g(1) by linarith
    show "\<forall>t. as_lastScaleDownAt a = Some t \<longrightarrow> p_scaleDownAfter p \<le> now - t" using g(2) by auto
    show "reason = ''load'' \<longrightarrow> sampleMedian (as_window a) (now - p_scaleDownAfter p) \<le> of_int (p_targetInFlight p) / 2"
      using g(3) by (auto simp: not_less)
    show "if e = None then n = 0 \<and> as_set a' = s' \<and> as_lastScaleDownAt a' = Some now
       else as_set a' = ReinsertReplica s' (Some (v\<lparr>r_inFlight := n\<rparr>)) \<and> as_lastScaleDownAt a' = as_lastScaleDownAt a"
      using assms eq v dr n by (auto split: option.splits)
  qed
qed

text \<open>The outcomes of a tick, as the properties use them.\<close>

abbreviation sampled :: "autoscaler \<Rightarrow> gotime \<Rightarrow> autoscaler" where
  "sampled a now \<equiv> a\<lparr>as_window := Add_sample (as_window a) now (MedianInFlight (as_set a))\<rparr>"

lemma Tick_cases:
  assumes "Tick spawn reap wall polls now a w = Some (((d, e), a'), w')"
  obtains
    (down) reason where
      "scaleDown reap wall polls now (HealthyCount (as_set a)) (as_policy a) reason (sampled a now) w = Some (((d, e), a'), w')"
      "reason = ''load'' \<or> (reason = ''idle_to_zero'' \<and> p_idleToZero (as_policy a) \<and> p_min (as_policy a) = 0
         \<and> idle_gate (sampled a now) now (as_policy a))"
  | (up) target where
      "target = computeTarget (HealthyCount (as_set a)) (MedianInFlight (as_set a)) (as_policy a)"
      "target > HealthyCount (as_set a)"
      "scaleUp spawn wall now (HealthyCount (as_set a)) target (as_policy a) (sampled a now) w = (((d, e), a'), w')"
  | (idle) "as_set a' = as_set a" "as_lastScaleDownAt a' = as_lastScaleDownAt a" "d = DecisionNoop" "e = None"
  using assms by (auto simp: Tick_def Let_def noop_tick_def split: if_splits)

lemma scaleUp_keeps:
  assumes "scaleUp spawn wall now current target p a w = (((d, e), a'), w')"
  shows "as_window a' = as_window a \<and> as_policy a' = as_policy a"
proof -
  obtain added err s' w2 where sp: "spawn_loop spawn wall (nat (target - current)) (as_set a) w = (added, err, s', w2)"
    by (metis prod_cases4)
  have "as_window (snd (fst (scaleUp spawn wall now current target p a w))) = as_window a
      \<and> as_policy (snd (fst (scaleUp spawn wall now current target p a w))) = as_policy a"
    unfolding scaleUp_def Let_def sp recordDecision_def noop_tick_def prod.case by simp
  then show ?thesis unfolding assms by simp
qed

lemma scaleDown_keeps:
  assumes "scaleDown reap wall polls now current p reason a w = Some (((d, e), a'), w')"
  shows "as_window a' = as_window a \<and> as_policy a' = as_policy a"
proof (cases "d = DecisionNoop")
  case True
  then show ?thesis using assms by (auto simp: scaleDown_def recordDecision_def Let_def split: if_splits option.splits prod.splits)
next
  case False
  then obtain v r where "pickReapTarget (as_set a) = Some v" and r: "drainAndReap reap wall polls v (as_set a) w = Some r"
    and c: "(case r of (Some e1, v1, s1, w1) \<Rightarrow> Some (((DecisionScaleDown, Some e1), a\<lparr>as_set := ReinsertReplica s1 (Some v1)\<rparr>), w1)
      | (None, v1, s1, w1) \<Rightarrow> Some (((DecisionScaleDown, None), a\<lparr>as_set := s1, as_lastScaleDownAt := Some now, as_lastDecision := DecisionScaleDown\<rparr>), w1))
      = Some (((d, e), a'), w')"
    using assms unfolding scaleDown_def recordDecision_def Let_def by (auto split: if_splits option.splits)
  obtain e1 v1 s1 w1 where "r = (e1, v1, s1, w1)" by (cases r)
  then show ?thesis using c by (cases e1) auto
qed

lemma Tick_keeps:
  assumes "Tick spawn reap wall polls now a w = Some (((d, e), a'), w')"
  shows "w_size (as_window a') = w_size (as_window a) \<and> as_policy a' = as_policy a"
proof -
  let ?b = "a\<lparr>as_window := Add_sample (as_window a) now (MedianInFlight (as_set a))\<rparr>"
  have "as_window a' = as_window ?b \<and> as_policy a' = as_policy ?b"
    using assms unfolding Tick_def Let_def noop_tick_def
    by (auto split: if_splits dest: scaleUp_keeps scaleDown_keeps simp: prod.expand)
  then show ?thesis by (simp add: Add_sample_def Let_def)
qed

lemma scaleUp_cases:
  assumes "scaleUp spawn wall now current target p a w = (((d, e), a'), w')"
  obtains
    (refused) "as_set a' = as_set a" "d = DecisionNoop" "e = None"
  | (spawned) added err where
      "spawn_loop spawn wall (nat (target - current)) (as_set a) w = (added, err, as_set a', w')"
      "d = DecisionScaleUp" "e = map_option SpawnFailed err"
      "current < p_min p + p_warmPool p \<or>
        ((\<forall>t. as_lastScaleUpAt a = Some t \<longrightarrow> p_scaleUpAfter p \<le> now - t)
         \<and> of_int (p_targetInFlight p) \<le> sampleMedian (as_window a) (now - p_scaleUpAfter p))"
      "as_lastScaleUpAt a' = (if added > 0 then Some now else as_lastScaleUpAt a)"
proof (cases "d = DecisionNoop")
  case True
  then show thesis using assms
    by (intro refused) (auto simp: scaleUp_def recordDecision_def noop_tick_def Let_def split: if_splits prod.splits)
next
  case False
  obtain added err s' w1 where sp: "spawn_loop spawn wall (nat (target - current)) (as_set a) w = (added, err, s', w1)"
    by (metis prod_cases4)
  have g: "current < p_min p + p_warmPool p \<or>
     \<not> (case as_lastScaleUpAt a of None \<Rightarrow> False | Some lastUp \<Rightarrow> now - lastUp < p_scaleUpAfter p)"
    "current < p_min p + p_warmPool p \<or>
     \<not> sampleMedian (as_window a) (now - p_scaleUpAfter p) < of_int (p_targetInFlight p)"
    "\<not> target - current \<le> 0"
    using assms False unfolding scaleUp_def Let_def recordDecision_def noop_tick_def
    by (force split: if_split_asm)+
  then have eq: "scaleUp spawn wall now current target p a w =
      (((DecisionScaleUp, map_option SpawnFailed err),
        if added > 0 then a\<lparr>as_set := s', as_lastScaleUpAt := Some now, as_lastDecision := DecisionScaleUp\<rparr> else a\<lparr>as_set := s'\<rparr>), w1)"
    using sp by (auto simp: scaleUp_def Let_def)
  show thesis
  proof (rule spawned)
    show "spawn_loop spawn wall (nat (target - current)) (as_set a) w = (added, err, as_set a', w')"
      using assms eq sp by (auto split: if_splits)
    show "current < p_min p + p_warmPool p \<or>
        ((\<forall>t. as_lastScaleUpAt a = Some t \<longrightarrow> p_scaleUpAfter p \<le> now - t)
         \<and> of_int (p_targetInFlight p) \<le> sampleMedian (as_window a) (now - p_scaleUpAfter p))"
      using g by (auto simp: not_less)
  qed (use assms eq in \<open>auto split: if_splits\<close>)
qed

lemma computeTarget_bounds:
  "scale_policy_ok p \<Longrightarrow> computeTarget current median p \<le> p_max p \<and> min (p_min p + p_warmPool p) (p_max p) \<le> computeTarget current median p"
  by (auto simp: computeTarget_def scale_policy_ok_def Let_def)

lemma spawned_healthy:
  assumes "scale_policy_ok p" and "target = computeTarget current median p" and "target > current"
    and "spawn_loop spawn wall (nat (target - current)) (as_set a) w = (added, err, s', w')"
    and "HealthyCount (as_set a) = current"
  shows "HealthyCount s' \<le> p_max p \<and> current \<le> HealthyCount s'"
proof -
  have "HealthyCount s' = current + int added" "int added \<le> target - current"
    using spawn_loop_spec [OF assms(4)] assms(3,5) by auto
  moreover have "target \<le> p_max p" using computeTarget_bounds [OF assms(1)] assms(2) by blast
  ultimately show ?thesis by simp
qed

lemma HealthyCount_Remove:
  assumes "RemoveReplica s i = (Inr r, s')"
  shows "HealthyCount s - 1 \<le> HealthyCount s' \<and> HealthyCount s' \<le> HealthyCount s"
  using assms by (rule RemoveReplica_InrE) (simp add: HealthyCount_def)

subsection \<open>Properties\<close>

definition demo_policy :: autoscale_policy where
  "demo_policy = \<lparr>p_min = 0, p_max = 3, p_targetInFlight = 4, p_scaleUpAfter = 30 * second,
     p_scaleDownAfter = 300 * second, p_warmPool = 0, p_idleToZero = True\<rparr>"

definition demo_spawn :: "nat \<Rightarrow> (string + agent_client) \<times> nat" where
  "demo_spawn k = (Inr demo_client, Suc k)"

definition demo_reap :: "replica \<Rightarrow> nat \<Rightarrow> string option \<times> nat" where
  "demo_reap r k = (None, Suc k)"

definition demo_scaler :: autoscaler where
  "demo_scaler = NewAutoscaler ''s'' (NewReplicaSet ''s'' [] [demo_client] 0) demo_policy"

text \<open>A scaler under load: two replicas, six requests in flight on each.\<close>

definition demo_loaded :: autoscaler where
  "demo_loaded = NewAutoscaler ''s''
     ((NewReplicaSet ''s'' [] [demo_client, demo_client] 0)\<lparr>rs_replicas :=
        map (\<lambda>r. r\<lparr>r_inFlight := 6\<rparr>) (new_replicas 0 [demo_client, demo_client] 0)\<rparr>) demo_policy"

text \<open>The part of a tick's result that the witnesses look at.\<close>

definition tick_view :: "((((decision \<times> 'e scale_error option) \<times> autoscaler) \<times> 'w) option)
    \<Rightarrow> (decision \<times> bool \<times> int list \<times> int) option" where
  "tick_view r = map_option (\<lambda>(((d, e), a), w). (d, e = None, map r_id (rs_replicas (as_set a)), HealthyCount (as_set a))) r"

lemma tick_viewD:
  assumes "tick_view r = Some (d, ok, ids, h)"
  obtains e a w where "r = Some (((d, e), a), w)" "ok = (e = None)" "ids = map r_id (rs_replicas (as_set a))" "h = HealthyCount (as_set a)"
  using assms by (auto simp: tick_view_def)

lemma demo_ticks:
  "tick_view (Tick demo_spawn demo_reap 0 [Poll 0 1] 10 demo_scaler 0) = Some (DecisionScaleDown, True, [], 0)"
  "tick_view (Tick demo_spawn demo_reap 0 [PollDone] 10 demo_scaler 0) = Some (DecisionScaleDown, False, [0], 1)"
  "tick_view (Tick demo_spawn demo_reap 0 [] 10 demo_loaded 0) = Some (DecisionScaleUp, True, [0, 1, 2], 3)"
  by code_simp+

lemma demo_scalers:
  "scale_policy_ok (as_policy demo_scaler)" "scale_policy_ok (as_policy demo_loaded)"
  "pool_ok (as_set demo_scaler, [])" "pool_ok (as_set demo_loaded, [])"
  "map r_id (rs_replicas (as_set demo_scaler)) = [0]" "map r_id (rs_replicas (as_set demo_loaded)) = [0, 1]"
  "HealthyCount (as_set demo_scaler) = 1" "HealthyCount (as_set demo_loaded) = 2"
  by code_simp+

text \<open>A tick keeps the healthy replicas within the configured bounds: one that reports no error
  leaves at most \<^verbatim>\<open>max(current, Max)\<close> healthy replicas, so it never grows the set past
  \<^verbatim>\<open>Max\<close>, and it never takes away more than one.\<close>

theorem tick_within_bounds:
  assumes "scale_policy_ok (as_policy a)" and "Tick spawn reap wall polls now a w = Some (((d, None), a'), w')"
  shows "HealthyCount (as_set a') \<le> max (HealthyCount (as_set a)) (p_max (as_policy a))
    \<and> HealthyCount (as_set a) - 1 \<le> HealthyCount (as_set a')"
  using assms(2)
proof (cases rule: Tick_cases)
  case (down reason)
  from down(1) show ?thesis
  proof (cases rule: scaleDown_cases)
    case (acted v n r0 s')
    then show ?thesis using HealthyCount_Remove [OF acted(2)] by auto
  qed auto
next
  case (up target)
  from up(3) show ?thesis
  proof (cases rule: scaleUp_cases)
    case (spawned added err)
    from spawned_healthy [OF assms(1) up(1,2) spawned(1)] show ?thesis by simp
  qed auto
qed auto

theorem tick_within_bounds_witness:
  "\<exists>a' w'. Tick demo_spawn demo_reap 0 [] 10 demo_loaded 0 = Some (((DecisionScaleUp, None), a'), w')
     \<and> HealthyCount (as_set a') \<le> 3"
proof -
  from demo_ticks(3) obtain a' w' where tk: "Tick demo_spawn demo_reap 0 [] 10 demo_loaded 0 = Some (((DecisionScaleUp, None), a'), w')"
    by (auto elim!: tick_viewD)
  from tick_within_bounds [OF demo_scalers(2) tk] tk show ?thesis
    by (auto simp: demo_scalers) (simp add: demo_loaded_def NewAutoscaler_def demo_policy_def)
qed

text \<open>C37. A replica leaves the set only by a justified reap: the tick reports a scale-down without error,
  the replica had the fewest requests in flight, the cool-down since the last scale-down has passed, the
  healthy count was above the floor (or the idle-to-zero gate was open), it is the only replica removed,
  and the tick records the time.\<close>

theorem reap_is_justified:
  assumes "pool_ok (as_set a, [])" and "Tick spawn reap wall polls now a w = Some (((d, e), a'), w')"
    and "r \<in> set (rs_replicas (as_set a))" and "r_id r \<notin> r_id ` set (rs_replicas (as_set a'))"
  shows "d = DecisionScaleDown \<and> e = None \<and> (\<forall>q\<in>set (rs_replicas (as_set a)). r_inFlight r \<le> r_inFlight q)
    \<and> (\<forall>t. as_lastScaleDownAt a = Some t \<longrightarrow> p_scaleDownAfter (as_policy a) \<le> now - t)
    \<and> (HealthyCount (as_set a) > p_min (as_policy a) + p_warmPool (as_policy a)
       \<or> (p_idleToZero (as_policy a) \<and> p_min (as_policy a) = 0 \<and> idle_gate (sampled a now) now (as_policy a)))
    \<and> rs_replicas (as_set a') = filter (\<lambda>q. r_id q \<noteq> r_id r) (rs_replicas (as_set a))
    \<and> as_lastScaleDownAt a' = Some now"
  using assms(2)
proof (cases rule: Tick_cases)
  case (down reason)
  from down(1) show ?thesis
  proof (cases rule: scaleDown_cases)
    case (acted v n r0 s')
    have v: "v \<in> set (rs_replicas (as_set a))" "\<forall>q\<in>set (rs_replicas (as_set a)). r_inFlight v \<le> r_inFlight q"
      using pickReapTarget_spec [OF acted(1)] by auto
    have rem: "RemoveReplica (as_set a) (r_id v) = (Inr r0, s')" using acted(2) by simp
    have s': "rs_replicas s' = filter (\<lambda>q. r_id q \<noteq> r_id v) (rs_replicas (as_set a))"
      using remove_reinsert_facts [OF assms(1) rem] by blast
    have "r_id q \<in> r_id ` set (rs_replicas (ReinsertReplica s' (Some (v\<lparr>r_inFlight := n\<rparr>))))"
      if "q \<in> set (rs_replicas (as_set a))" for q
      using that s' by (cases "r_id q = r_id v") (auto simp: ReinsertReplica_def SetHealthy_def intro: rev_image_eqI)
    from this [OF assms(3)] have e: "e = None" using acted(7) assms(4) by (auto split: if_splits)
    then have rv: "r_id r = r_id v" using acted(7) s' assms(3,4) by auto
    have "r = v" using assms(1,3) v(1) rv by (auto simp: pool_ok_def pool_ids_def distinct_map dest: inj_onD)
    with acted v s' e down(2) show ?thesis by (auto split: if_splits)
  qed (use assms(3,4) in auto)
next
  case (up target)
  from up(3) show ?thesis
  proof (cases rule: scaleUp_cases)
    case (spawned added err)
    with spawn_loop_spec [OF spawned(1)] assms(3,4) show ?thesis by auto
  qed (use assms(3,4) in auto)
qed (use assms(3,4) in auto)

theorem reap_is_justified_witness:
  "\<exists>a' w'. Tick demo_spawn demo_reap 0 [Poll 0 1] 10 demo_scaler 0 = Some (((DecisionScaleDown, None), a'), w')
     \<and> as_lastScaleDownAt a' = Some 10 \<and> rs_replicas (as_set a') = []"
proof -
  from demo_ticks(1) obtain a' w' where tk: "Tick demo_spawn demo_reap 0 [Poll 0 1] 10 demo_scaler 0 = Some (((DecisionScaleDown, None), a'), w')"
    and gone: "rs_replicas (as_set a') = []" by (auto elim!: tick_viewD)
  from demo_scalers(5) obtain r where r: "r \<in> set (rs_replicas (as_set demo_scaler))" by (auto simp: map_eq_Cons_conv)
  from reap_is_justified [OF demo_scalers(3) tk r] gone tk show ?thesis by auto
qed

text \<open>A tick grows the set only when it may: the healthy count stays at or below \<^verbatim>\<open>Max\<close>, and
  either the healthy count was below \<^verbatim>\<open>Min + WarmPool\<close>, or the cool-down since the last scale-up has
  passed and the window median has reached the per-replica target.\<close>

theorem growth_is_justified:
  assumes "scale_policy_ok (as_policy a)" and "pool_ok (as_set a, [])"
    and "Tick spawn reap wall polls now a w = Some (((d, e), a'), w')"
    and "length (rs_replicas (as_set a')) > length (rs_replicas (as_set a))"
  shows "d = DecisionScaleUp \<and> HealthyCount (as_set a') \<le> p_max (as_policy a) \<and> as_lastScaleUpAt a' = Some now
    \<and> (HealthyCount (as_set a) < p_min (as_policy a) + p_warmPool (as_policy a)
       \<or> ((\<forall>t. as_lastScaleUpAt a = Some t \<longrightarrow> p_scaleUpAfter (as_policy a) \<le> now - t)
          \<and> of_int (p_targetInFlight (as_policy a))
              \<le> sampleMedian (as_window (sampled a now)) (now - p_scaleUpAfter (as_policy a))))"
  using assms(3)
proof (cases rule: Tick_cases)
  case (down reason)
  from down(1) show ?thesis
  proof (cases rule: scaleDown_cases)
    case (acted v n r0 s')
    have rem: "RemoveReplica (as_set a) (r_id v) = (Inr r0, s')" using acted(2) by simp
    have "length (rs_replicas s') < length (rs_replicas (as_set a))"
      using rem by (rule RemoveReplica_InrE) simp
    moreover have "length (rs_replicas (ReinsertReplica s' (Some x))) \<le> Suc (length (rs_replicas s'))" for x
      by (simp add: ReinsertReplica_def)
    ultimately have "length (rs_replicas (as_set a')) \<le> length (rs_replicas (as_set a))"
      using acted(7) by (metis Suc_leI less_imp_le_nat order_trans)
    with assms(4) show ?thesis by simp
  qed (use assms(4) in auto)
next
  case (up target)
  from up(3) show ?thesis
  proof (cases rule: scaleUp_cases)
    case (spawned added err)
    have "0 < added" using spawn_loop_spec [OF spawned(1)] assms(4) by auto
    with spawned spawned_healthy [OF assms(1) up(1,2) spawned(1)] show ?thesis by simp
  qed (use assms(4) in auto)
qed (use assms(4) in auto)

theorem growth_is_justified_witness:
  "\<exists>a' w'. Tick demo_spawn demo_reap 0 [] 10 demo_loaded 0 = Some (((DecisionScaleUp, None), a'), w')
     \<and> as_lastScaleUpAt a' = Some 10"
proof -
  from demo_ticks(3) obtain a' w' where tk: "Tick demo_spawn demo_reap 0 [] 10 demo_loaded 0 = Some (((DecisionScaleUp, None), a'), w')"
    and ids: "[0, 1, 2] = map r_id (rs_replicas (as_set a'))" by (auto elim!: tick_viewD)
  from ids demo_scalers(6) have "length (rs_replicas (as_set demo_loaded)) < length (rs_replicas (as_set a'))"
    by (metis length_map length_Cons lessI)
  from growth_is_justified [OF demo_scalers(2,4) tk this] tk show ?thesis by blast
qed

text \<open>A failed reap loses nothing: when a scale-down reports an error, the set has the same replica
  ids as before, and the time of the last scale-down is unchanged, so that the next tick may retry.\<close>

theorem failed_reap_restores:
  assumes "pool_ok (as_set a, [])"
    and "Tick spawn reap wall polls now a w = Some (((DecisionScaleDown, Some e), a'), w')"
  shows "mset (pool_ids (as_set a', [])) = mset (pool_ids (as_set a, []))
    \<and> as_lastScaleDownAt a' = as_lastScaleDownAt a"
  using assms(2)
proof (cases rule: Tick_cases)
  case (down reason)
  from down(1) show ?thesis
  proof (cases rule: scaleDown_cases)
    case (acted v n r0 s')
    have rem: "RemoveReplica (as_set a) (r_id v) = (Inr r0, s')" using acted(2) by simp
    then have "r_id r0 = r_id v" by (rule RemoveReplica_InrE)
    then have "pool_ids (ReinsertReplica s' (Some (v\<lparr>r_inFlight := n\<rparr>)), []) = pool_ids (ReinsertReplica s' (Some r0), [])"
      by (auto simp: ReinsertReplica_def pool_ids_def SetHealthy_def)
    with remove_reinsert_facts [OF assms(1) rem] acted(7) show ?thesis by simp
  qed auto
next
  case (up target)
  from up(3) show ?thesis by (cases rule: scaleUp_cases) auto
qed auto

theorem failed_reap_restores_witness:
  "\<exists>e a' w'. Tick demo_spawn demo_reap 0 [PollDone] 10 demo_scaler 0 = Some (((DecisionScaleDown, Some e), a'), w')
     \<and> mset (pool_ids (as_set a', [])) = {#0#}"
proof -
  from demo_ticks(2) obtain e a' w' where tk: "Tick demo_spawn demo_reap 0 [PollDone] 10 demo_scaler 0 = Some (((DecisionScaleDown, Some e), a'), w')"
    by (auto elim!: tick_viewD)
  from failed_reap_restores [OF demo_scalers(3) tk] tk demo_scalers(5) show ?thesis by (auto simp: pool_ids_def)
qed

lemma drain_loop_ends:
  assumes "\<And>k n t. k < length ps \<Longrightarrow> ps ! k = Poll n t \<Longrightarrow> base + (int k + 1) * drainPollInterval \<le> t"
    and "deadline < base + int (length ps) * drainPollInterval" and "ps \<noteq> []"
  shows "drain_loop deadline i ps \<noteq> None"
  using assms
proof (induction ps arbitrary: base i)
  case (Cons q ps)
  show ?case
  proof (cases q)
    case (Poll n t)
    have t: "base + drainPollInterval \<le> t" using Cons.prems(1) [of 0] Poll by simp
    show ?thesis
    proof (cases "ps = []")
      case True
      then show ?thesis using t Poll Cons.prems(2) by simp
    next
      case False
      have "drain_loop deadline n ps \<noteq> None"
      proof (rule Cons.IH [of "base + drainPollInterval"])
        fix k m u assume "k < length ps" "ps ! k = Poll m u"
        then show "base + drainPollInterval + (int k + 1) * drainPollInterval \<le> u"
          using Cons.prems(1) [of "Suc k" m u] by (simp add: algebra_simps)
      qed (use Cons.prems(2) False in \<open>simp_all add: algebra_simps\<close>)
      then show ?thesis using Poll by simp
    qed
  qed simp
qed simp

text \<open>C38. A tick returns: the drain loop reads the clock at least once per poll interval, so 301 polls
  pass the 30 second deadline and every tick comes to an end.\<close>

theorem tick_terminates:
  assumes "\<forall>k n t. k < length polls \<longrightarrow> polls ! k = Poll n t \<longrightarrow> wall + (int k + 1) * drainPollInterval \<le> t"
    and "301 \<le> length polls"
  shows "Tick spawn reap wall polls now a w \<noteq> None"
proof -
  have ends: "drain_loop (wall + drainTimeout) i polls \<noteq> None" for i
  proof (rule drain_loop_ends [of _ wall])
    have "301 * drainPollInterval \<le> int (length polls) * drainPollInterval"
      using assms(2) by (intro mult_right_mono) (simp_all add: drainPollInterval_def)
    then show "wall + drainTimeout < wall + int (length polls) * drainPollInterval"
      by (simp add: drainTimeout_def drainPollInterval_def)
  qed (use assms in auto)
  have dr: "drainAndReap reap wall polls r s w \<noteq> None" for r s
  proof -
    from ends [of "r_inFlight r"] obtain out n where "drain_loop (wall + drainTimeout) (r_inFlight r) polls = Some (out, n)" by auto
    then show ?thesis
      by (cases "RemoveReplica s (r_id r)"; cases "fst (RemoveReplica s (r_id r))"; cases out)
        (simp_all add: drainAndReap_def Let_def split_beta)
  qed
  have "scaleDown reap wall polls now c p reason b w \<noteq> None" for c p reason b
  proof (cases "pickReapTarget (as_set b)")
    case (Some v)
    from dr [of v "as_set b"] obtain e v' s' w' where "drainAndReap reap wall polls v (as_set b) w = Some (e, v', s', w')" by auto
    then show ?thesis by (cases e) (simp_all add: scaleDown_def recordDecision_def Let_def Some)
  qed (simp add: scaleDown_def recordDecision_def Let_def)
  then show ?thesis by (simp add: Tick_def Let_def del: not_None_eq)
qed

theorem tick_terminates_witness:
  "Tick demo_spawn demo_reap 0 (map (\<lambda>k. Poll 1 ((int k + 1) * drainPollInterval)) [0..<301]) 10 demo_scaler 0 \<noteq> None"
  by (rule tick_terminates) auto

text \<open>A cold start that reports success leaves at least one healthy replica, does nothing when there
  already was one, and on failure leaves the set as it was.\<close>

theorem cold_start_ensures_replica:
  "case TriggerColdStart spawn wall a w of
     ((None, a'), w') \<Rightarrow> HealthyCount (as_set a') > 0 \<and> (HealthyCount (as_set a) > 0 \<longrightarrow> a' = a \<and> w' = w)
   | ((Some e, a'), w') \<Rightarrow> a' = a \<and> HealthyCount (as_set a) \<le> 0"
proof -
  have "HealthyCount (snd (AddReplica (as_set a) c wall)) > 0" for c
    by (simp add: HealthyCount_def AddReplica_def new_replica_def Let_def)
  then show ?thesis
    by (cases "spawn w"; cases "fst (spawn w)") (auto simp: TriggerColdStart_def split_beta Let_def)
qed

subsection \<open>Idle to zero\<close>

lemma oldestAt_Add_sample: "oldestAt (Add_sample w now m) = Some t \<Longrightarrow> now - w_size w \<le> t"
proof -
  assume "oldestAt (Add_sample w now m) = Some t"
  then obtain v rest where "dropWhile (\<lambda>(t, m). t < now - w_size w) (w_samples w @ [(now, m)]) = (t, v) # rest"
    by (auto simp: oldestAt_def Add_sample_def Let_def split: list.splits)
  from dropWhile_eq_Cons_conv [THEN iffD1, OF this] show ?thesis by simp
qed

text \<open>C39. The idle-to-zero gate asks for samples older than \<^verbatim>\<open>ScaleDownAfter\<close>, but the window only keeps
  samples for \<^verbatim>\<open>max(30s, ScaleUpAfter/2)\<close>. When that is shorter, as with the default settings of 30
  seconds and 5 minutes, the gate is closed in every tick, and a tick that starts with at most
  \<^verbatim>\<open>Min + WarmPool\<close> healthy replicas does not scale down; the condition on the window holds again after the tick.\<close>

theorem idle_to_zero_unreachable:
  assumes "w_size (as_window a) = windowSizeFor (p_scaleUpAfter (as_policy a))"
    and "windowSizeFor (p_scaleUpAfter (as_policy a)) < p_scaleDownAfter (as_policy a)"
    and "Tick spawn reap wall polls now a w = Some (((d, e), a'), w')"
  shows "\<not> idle_gate (sampled a now) now (as_policy a)
    \<and> (HealthyCount (as_set a) \<le> p_min (as_policy a) + p_warmPool (as_policy a) \<longrightarrow> d \<noteq> DecisionScaleDown)
    \<and> w_size (as_window a') = windowSizeFor (p_scaleUpAfter (as_policy a')) \<and> as_policy a' = as_policy a"
proof -
  have closed: "\<not> idle_gate (sampled a now) now (as_policy a)"
    using assms(1,2) oldestAt_Add_sample [of "as_window a" now "MedianInFlight (as_set a)"]
    by (auto simp: idle_gate_def Let_def split: option.splits)
  moreover have "d \<noteq> DecisionScaleDown" if few: "HealthyCount (as_set a) \<le> p_min (as_policy a) + p_warmPool (as_policy a)"
    using assms(3)
  proof (cases rule: Tick_cases)
    case (down reason)
    with closed have "reason = ''load''" by blast
    from down(1) show ?thesis
      by (cases rule: scaleDown_cases) (use few \<open>reason = ''load''\<close> in auto)
  next
    case (up target)
    from up(3) show ?thesis by (cases rule: scaleUp_cases) auto
  qed auto
  moreover have "w_size (as_window a') = w_size (as_window a) \<and> as_policy a' = as_policy a"
    using assms(3) by (rule Tick_keeps)
  ultimately show ?thesis using assms(1) by simp
qed

text \<open>Without a warm pool the comment's concern comes true through the load path: the very first tick
  of a new scaler with \<^verbatim>\<open>Min = 0\<close> and one idle replica reaps that replica, whatever
  \<^verbatim>\<open>ScaleDownAfter\<close> is, because the sustained-load test accepts a window of one sample.\<close>

theorem first_tick_scales_to_zero:
  assumes "p_min p = 0" and "p_warmPool p = 0" and "1 \<le> p_targetInFlight p"
    and "reap (new_replica 0 c start) w = (None, w')"
  shows "\<exists>a'. Tick spawn reap wall [Poll 0 t] now (NewAutoscaler name (NewReplicaSet name pol [c] start) p) w
      = Some (((DecisionScaleDown, None), a'), w') \<and> rs_replicas (as_set a') = []"
proof -
  let ?s = "NewReplicaSet name pol [c] start"
  have s: "HealthyCount ?s = 1" "MedianInFlight ?s = 0" "pickReapTarget ?s = Some (new_replica 0 c start)"
    "RemoveReplica ?s 0 = (Inr (new_replica 0 c start), ?s\<lparr>rs_replicas := []\<rparr>)"
    by (simp_all add: HealthyCount_def MedianInFlight_def median_of_def pickReapTarget_def RemoveReplica_def new_replica_def Let_def)
  have tgt: "computeTarget 1 0 p \<le> 0" using assms(1,2) by (simp add: computeTarget_def Let_def)
  have "drainAndReap reap wall [Poll 0 t] (new_replica 0 c start) ?s w
      = Some (None, new_replica 0 c start, ?s\<lparr>rs_replicas := []\<rparr>, w')"
    using s(4) assms(4) by (simp add: drainAndReap_def new_replica_def)
  then have "\<exists>a'. scaleDown reap wall [Poll 0 t] now 1 p reason (sampled (NewAutoscaler name ?s p) now) w
      = Some (((DecisionScaleDown, None), a'), w') \<and> rs_replicas (as_set a') = []"
    if "reason = ''load'' \<longrightarrow> sampleMedian (as_window (sampled (NewAutoscaler name ?s p) now)) (now - p_scaleDownAfter p) = 0" for reason
    using s that assms(1-3) by (auto simp: scaleDown_def NewAutoscaler_def Let_def)
  moreover have "sampleMedian (as_window (sampled (NewAutoscaler name ?s p) now)) f = 0" for f
    by (simp add: s sampleMedian_def median_of_def NewAutoscaler_def newInFlightWindow_def Add_sample_def Let_def)
  ultimately show ?thesis using s tgt by (auto simp: Tick_def NewAutoscaler_def Let_def)
qed

theorem first_tick_scales_to_zero_witness:
  "\<exists>a'. Tick demo_spawn demo_reap 0 [Poll 0 1] 10 (NewAutoscaler ''s'' (NewReplicaSet ''s'' [] [demo_client] 0) demo_policy) 0
      = Some (((DecisionScaleDown, None), a'), 1) \<and> rs_replicas (as_set a') = []"
  by (rule first_tick_scales_to_zero) (simp_all add: demo_policy_def demo_reap_def)

theorem idle_to_zero_unreachable_witness:
  "\<not> idle_gate (sampled (demo_scaler\<lparr>as_policy := demo_policy\<lparr>p_warmPool := 1\<rparr>\<rparr>) 10) 10 (demo_policy\<lparr>p_warmPool := 1\<rparr>)"
proof -
  let ?a = "demo_scaler\<lparr>as_policy := demo_policy\<lparr>p_warmPool := 1\<rparr>\<rparr>"
  have v: "tick_view (Tick demo_spawn demo_reap 0 [] 10 ?a 0) = Some (DecisionNoop, True, [0], 1)" by code_simp
  then obtain e a' w' where tk: "Tick demo_spawn demo_reap 0 [] 10 ?a 0 = Some (((DecisionNoop, e), a'), w')"
    by (auto elim!: tick_viewD)
  have h: "w_size (as_window ?a) = windowSizeFor (p_scaleUpAfter (as_policy ?a))"
    "windowSizeFor (p_scaleUpAfter (as_policy ?a)) < p_scaleDownAfter (as_policy ?a)"
    by code_simp+
  from idle_to_zero_unreachable [OF h tk] show ?thesis by simp
qed

end
