(* ===== verification/Router.thy ===== *)
theory Router
  imports Tool_Names Replica_Set
begin

text \<open>
  The tool router (\<^verbatim>\<open>pkg/mcp/router.go\<close>): replica sets by server name, the index of prefixed tool
  names, the aggregated tool list and the route of one call.

  A replica set is shared by pointer; the router's map is the one place the model keeps it, so an
  operation that changes a set (a pick moves the round-robin cursor, reading the tools of a live set
  refreshes its cache) returns the updated router.
\<close>

record router =
  rt_sets :: "(string, replica_set) gomap"
  rt_tools :: "(string, string) gomap"

definition NewRouter :: router where
  "NewRouter = \<lparr>rt_sets = [], rt_tools = []\<rparr>"

definition AddReplicaSet :: "router \<Rightarrow> replica_set \<Rightarrow> router" where
  "AddReplicaSet r st = r\<lparr>rt_sets := AList.update (rs_name st) st (rt_sets r)\<rparr>"

definition AddClient :: "router \<Rightarrow> agent_client \<Rightarrow> gotime \<Rightarrow> router" where
  "AddClient r client now =
     AddReplicaSet r (NewReplicaSet (ac_name client) ReplicaPolicyRoundRobin [client] now)"

definition RemoveClient :: "router \<Rightarrow> string \<Rightarrow> router" where
  "RemoveClient r name =
     r\<lparr>rt_sets := AList.delete name (rt_sets r),
       rt_tools := filter (\<lambda>(tool, server). server \<noteq> name) (rt_tools r)\<rparr>"

text \<open>A write through a replica-set pointer.\<close>

definition put_set :: "router \<Rightarrow> string \<Rightarrow> replica_set \<Rightarrow> router" where
  "put_set r name st = r\<lparr>rt_sets := AList.update name st (rt_sets r)\<rparr>"

definition GetClient :: "router \<Rightarrow> string \<Rightarrow> agent_client option \<times> router" where
  "GetClient r name =
     (case map_of (rt_sets r) name of
        None \<Rightarrow> (None, r)
      | Some st \<Rightarrow> let (c, st') = Client_of st in (c, put_set r name st'))"

definition GetReplicaSet :: "router \<Rightarrow> string \<Rightarrow> replica_set option" where
  "GetReplicaSet r name = map_of (rt_sets r) name"

definition sorted_names :: "router \<Rightarrow> string list" where
  "sorted_names r = sort_strings (map fst (rt_sets r))"

fun clients_loop :: "string list \<Rightarrow> router \<Rightarrow> agent_client list \<times> router" where
  "clients_loop [] r = ([], r)"
| "clients_loop (n # ns) r =
     (let (c, r') = GetClient r n; (cs, r'') = clients_loop ns r' in
      (case c of None \<Rightarrow> cs | Some x \<Rightarrow> x # cs, r''))"

definition Clients :: "router \<Rightarrow> agent_client list \<times> router" where
  "Clients r = clients_loop (sorted_names r) r"

definition ReplicaSets :: "router \<Rightarrow> replica_set list" where
  "ReplicaSets r = List.map_filter (map_of (rt_sets r)) (sorted_names r)"

subsection \<open>The tool surface\<close>

definition toolsOf :: "replica_set \<Rightarrow> tool list \<times> replica_set" where
  "toolsOf st =
     (case rs_replicas st of
        [] \<Rightarrow> (CachedTools st, st)
      | rep # _ \<Rightarrow>
          let tools = ac_tools (r_client rep) in
          (tools, if 0 < length tools then SetToolCache st tools else st))"

text \<open>Reading the tools of every set: what each set advertises, and its refreshed cache.\<close>

definition refresh_caches :: "router \<Rightarrow> router" where
  "refresh_caches r = r\<lparr>rt_sets := map (\<lambda>(n, st). (n, snd (toolsOf st))) (rt_sets r)\<rparr>"

definition index_tool :: "string \<Rightarrow> tool \<Rightarrow> (string, string) gomap \<Rightarrow> (string, string) gomap" where
  "index_tool name t m = AList.update (PrefixTool name (t_name t)) name m"

definition RefreshTools :: "router \<Rightarrow> router" where
  "RefreshTools r =
     (refresh_caches r)\<lparr>rt_tools :=
        fold (\<lambda>(name, st) m. fold (index_tool name) (fst (toolsOf st)) m) (rt_sets r) []\<rparr>"

definition HasTool :: "router \<Rightarrow> string \<Rightarrow> bool" where
  "HasTool r prefixedName = map_has (rt_tools r) prefixedName"

definition set_tools :: "(replica_set \<Rightarrow> tool list) \<Rightarrow> router \<Rightarrow> string \<Rightarrow> tool list" where
  "set_tools source r name = (case map_of (rt_sets r) name of None \<Rightarrow> [] | Some st \<Rightarrow> source st)"

definition aggregate_tool :: "string \<Rightarrow> tool \<Rightarrow> tool" where
  "aggregate_tool name t =
     (let prefixedName = PrefixTool name (t_name t) in
      \<lparr>t_name = prefixedName, t_title = prefixedName,
       t_description = ''MCP server: '' @ name @ ''. Call using the exact tool name '' @ go_quote prefixedName
         @ ''. '' @ t_description t,
       t_inputSchema = t_inputSchema t, t_outputSchema = t_outputSchema t, t_annotations = t_annotations t\<rparr>)"

definition AggregatedTools :: "router \<Rightarrow> tool list \<times> router" where
  "AggregatedTools r =
     (concat (map (\<lambda>n. map (aggregate_tool n) (set_tools (fst \<circ> toolsOf) r n)) (sorted_names r)),
      refresh_caches r)"

definition catalog_tool :: "string \<Rightarrow> tool \<Rightarrow> tool" where
  "catalog_tool name t =
     \<lparr>t_name = PrefixTool name (t_name t), t_title = t_title t, t_description = t_description t,
      t_inputSchema = t_inputSchema t, t_outputSchema = t_outputSchema t, t_annotations = t_annotations t\<rparr>"

definition catalogTools :: "(replica_set \<Rightarrow> tool list) \<Rightarrow> router \<Rightarrow> tool list" where
  "catalogTools source r =
     concat (map (\<lambda>n. map (catalog_tool n) (set_tools source r n)) (sorted_names r))"

definition CatalogTools :: "router \<Rightarrow> tool list \<times> router" where
  "CatalogTools r = (catalogTools (fst \<circ> toolsOf) r, refresh_caches r)"

definition allDownstreamToolsOf :: "replica_set \<Rightarrow> tool list" where
  "allDownstreamToolsOf st =
     (case rs_replicas st of [] \<Rightarrow> CachedTools st | rep # _ \<Rightarrow> ac_allTools (r_client rep))"

definition AllCatalogTools :: "router \<Rightarrow> tool list" where
  "AllCatalogTools r = catalogTools allDownstreamToolsOf r"

subsection \<open>Routing\<close>

datatype route_error =
    BadToolName tool_name_error
  | UnknownServer string
  | ServerUnavailable string pick_error

definition RouteToolCallReplica :: "router \<Rightarrow> string \<Rightarrow> (route_error + replica \<times> string) \<times> router" where
  "RouteToolCallReplica r prefixedName =
     (case ParsePrefixedTool prefixedName of
        Inl e \<Rightarrow> (Inl (BadToolName e), r)
      | Inr (serverName, toolName) \<Rightarrow>
          (case map_of (rt_sets r) serverName of
             None \<Rightarrow> (Inl (UnknownServer serverName), r)
           | Some st \<Rightarrow>
               (case Pick st of
                  (Inl e, st') \<Rightarrow> (Inl (ServerUnavailable serverName e), put_set r serverName st')
                | (Inr rep, st') \<Rightarrow> (Inr (rep, toolName), put_set r serverName st'))))"

definition RouteToolCall :: "router \<Rightarrow> string \<Rightarrow> (route_error + agent_client \<times> string) \<times> router" where
  "RouteToolCall r prefixedName =
     (case RouteToolCallReplica r prefixedName of
        (Inl e, r') \<Rightarrow> (Inl e, r')
      | (Inr (rep, toolName), r') \<Rightarrow> (Inr (r_client rep, toolName), r'))"

subsection \<open>Invariant\<close>

text \<open>Every set is stored under its own name, once.\<close>

definition router_ok :: "router \<Rightarrow> bool" where
  "router_ok r \<longleftrightarrow> map_keys_ok (rt_sets r) \<and> (\<forall>(n, st)\<in>set (rt_sets r). rs_name st = n)"

lemma router_ok_alt:
  "router_ok r \<longleftrightarrow> map_keys_ok (rt_sets r) \<and> (\<forall>n st. map_of (rt_sets r) n = Some st \<longrightarrow> rs_name st = n)"
  unfolding router_ok_def using map_keys_ok_mem [of "rt_sets r"] by blast

lemma router_ok_intros [intro]:
  "router_ok NewRouter"
  "router_ok r \<Longrightarrow> router_ok (AddReplicaSet r st)"
  "router_ok r \<Longrightarrow> router_ok (RemoveClient r n)"
proof -
  show "router_ok NewRouter" by (simp add: router_ok_def NewRouter_def)
  show "router_ok (AddReplicaSet r st)" if "router_ok r"
    using that by (auto simp: router_ok_alt AddReplicaSet_def map_of_update)
  show "router_ok (RemoveClient r n)" if "router_ok r"
    using that by (auto simp: router_ok_alt RemoveClient_def map_of_delete)
qed

lemma toolsOf_keeps [simp]:
  "rs_name (snd (toolsOf st)) = rs_name st" "rs_replicas (snd (toolsOf st)) = rs_replicas st"
  "fst (toolsOf (snd (toolsOf st))) = fst (toolsOf st)"
  by (simp_all add: toolsOf_def Let_def split: list.splits)

lemma refresh_caches_sets:
  "map fst (rt_sets (refresh_caches r)) = map fst (rt_sets r)"
  "map_of (rt_sets (refresh_caches r)) n = map_option (snd \<circ> toolsOf) (map_of (rt_sets r) n)"
proof -
  show "map fst (rt_sets (refresh_caches r)) = map fst (rt_sets r)"
    by (simp add: refresh_caches_def comp_def split_def)
  show "map_of (rt_sets (refresh_caches r)) n = map_option (snd \<circ> toolsOf) (map_of (rt_sets r) n)"
    by (simp add: refresh_caches_def map_of_map comp_def)
qed

lemma router_ok_refresh [intro]: "router_ok r \<Longrightarrow> router_ok (RefreshTools r)"
  by (auto simp: router_ok_def RefreshTools_def refresh_caches_def map_keys_ok_def split_def comp_def)

lemma set_tools_iff:
  "t \<in> set (set_tools src r n) \<longleftrightarrow> (\<exists>st. map_of (rt_sets r) n = Some st \<and> t \<in> set (src st))"
  by (cases "map_of (rt_sets r) n") (simp_all add: set_tools_def)

lemma AggregatedTools_names:
  "map t_name (fst (AggregatedTools r)) =
     concat (map (\<lambda>n. map (PrefixTool n) (map t_name (set_tools (fst \<circ> toolsOf) r n))) (sorted_names r))"
  by (simp add: AggregatedTools_def map_concat aggregate_tool_def Let_def comp_def)

lemma aggregated_iff:
  "p \<in> set (map t_name (fst (AggregatedTools r))) \<longleftrightarrow>
     (\<exists>n st t. map_of (rt_sets r) n = Some st \<and> t \<in> set (fst (toolsOf st)) \<and> p = PrefixTool n (t_name t))"
proof -
  have keys: "n \<in> set (sorted_names r)" if "map_of (rt_sets r) n = Some st" for n st
    using that by (force simp: sorted_names_def dest: map_of_SomeD)
  have "p \<in> set (map t_name (fst (AggregatedTools r))) \<longleftrightarrow>
      (\<exists>n\<in>set (sorted_names r). \<exists>t\<in>set (set_tools (fst \<circ> toolsOf) r n). p = PrefixTool n (t_name t))"
    unfolding AggregatedTools_names set_concat by auto
  then show ?thesis using keys by (simp add: set_tools_iff Bex_def) blast
qed

subsection \<open>The index\<close>

lemma dom_index_tools:
  "dom (map_of (fold (index_tool n) ts m)) = (\<lambda>t. PrefixTool n (t_name t)) ` set ts \<union> dom (map_of m)"
  by (induction ts arbitrary: m) (auto simp: index_tool_def update_conv')

lemma dom_index_sets:
  "dom (map_of (fold (\<lambda>(n, st) m. fold (index_tool n) (fst (toolsOf st)) m) sts m)) =
     (\<Union>(n, st)\<in>set sts. (\<lambda>t. PrefixTool n (t_name t)) ` set (fst (toolsOf st))) \<union> dom (map_of m)"
  by (induction sts arbitrary: m) (simp_all add: split_beta dom_index_tools Un_ac)

lemma HasTool_RefreshTools:
  assumes "router_ok r"
  shows "HasTool (RefreshTools r) p \<longleftrightarrow> p \<in> set (map t_name (fst (AggregatedTools r)))"
proof -
  have "HasTool (RefreshTools r) p \<longleftrightarrow>
      p \<in> (\<Union>(n, st)\<in>set (rt_sets r). (\<lambda>t. PrefixTool n (t_name t)) ` set (fst (toolsOf st)))"
    unfolding HasTool_def RefreshTools_def domIff [symmetric] by (simp add: dom_index_sets)
  also have "\<dots> \<longleftrightarrow> p \<in> set (map t_name (fst (AggregatedTools r)))"
    using assms unfolding aggregated_iff router_ok_def by (simp add: Bex_def map_keys_ok_mem) blast
  finally show ?thesis .
qed

lemma set_tools_RefreshTools: "set_tools (fst \<circ> toolsOf) (RefreshTools r) = set_tools (fst \<circ> toolsOf) r"
proof
  show "set_tools (fst \<circ> toolsOf) (RefreshTools r) n = set_tools (fst \<circ> toolsOf) r n" for n
    by (cases "map_of (rt_sets r) n") (simp_all add: set_tools_def RefreshTools_def refresh_caches_sets)
qed

lemma sorted_names_RefreshTools: "sorted_names (RefreshTools r) = sorted_names r"
  by (simp add: sorted_names_def RefreshTools_def refresh_caches_sets)

subsection \<open>Properties\<close>

definition demo_tool :: "string \<Rightarrow> tool" where
  "demo_tool n = \<lparr>t_name = n, t_title = [], t_description = [], t_inputSchema = [], t_outputSchema = [],
     t_annotations = None\<rparr>"

definition demo_server :: "string \<Rightarrow> string list \<Rightarrow> agent_client" where
  "demo_server n ts = \<lparr>ac_name = n, ac_tools = map demo_tool ts, ac_allTools = map demo_tool ts\<rparr>"

definition demo_router :: router where
  "demo_router = AddClient (AddClient NewRouter (demo_server ''web'' [''get'']) 0) (demo_server ''db'' [''put'', ''get'']) 0"

text \<open>Every advertised tool routes back to the server that offers it: the name of an aggregated
  tool was built from a registered server and one of its tools, and routing that name picks a healthy
  replica of that server with the tool's own name, or reports that the server has no healthy
  replica.\<close>

theorem aggregated_tool_routes:
  assumes "t \<in> set (fst (AggregatedTools r))"
    and "\<forall>(n, st)\<in>set (rt_sets r). server_name_ok n \<and> cursor_ok (rs_rrCursor st) (rs_replicas st)"
  shows "\<exists>n st u. map_of (rt_sets r) n = Some st \<and> u \<in> set (fst (toolsOf st)) \<and> t_name t = PrefixTool n (t_name u)
    \<and> (case fst (RouteToolCallReplica r (t_name t)) of
         Inr (rep, name) \<Rightarrow> name = t_name u \<and> rep \<in> set (rs_replicas st) \<and> r_healthy rep
       | Inl e \<Rightarrow> e = ServerUnavailable n ErrNoHealthyReplicas \<and> (\<forall>rep\<in>set (rs_replicas st). \<not> r_healthy rep))"
proof -
  have "t_name t \<in> set (map t_name (fst (AggregatedTools r)))" using assms(1) by simp
  then obtain n st u where *: "map_of (rt_sets r) n = Some st" "u \<in> set (fst (toolsOf st))"
    "t_name t = PrefixTool n (t_name u)"
    unfolding aggregated_iff by blast
  with assms(2) have ok: "server_name_ok n" "cursor_ok (rs_rrCursor st) (rs_replicas st)"
    by (auto dest!: map_of_SomeD)
  then have "ParsePrefixedTool (t_name t) = Inr (n, t_name u)"
    using * by (simp add: parsed_ParsePrefixedTool [symmetric])
  with * pick_contract [of st] ok(2) show ?thesis
    by (intro exI [of _ n] exI [of _ st] exI [of _ u])
      (auto simp: RouteToolCallReplica_def split: prod.splits sum.splits pick_error.splits)
qed

theorem aggregated_tool_routes_witness:
  "map t_name (fst (AggregatedTools demo_router)) = [''db__put'', ''db__get'', ''web__get'']
   \<and> map_sum id (\<lambda>(rep, name). (ac_name (r_client rep), name)) (fst (RouteToolCallReplica demo_router ''db__get''))
       = Inr (''db'', ''get'')
   \<and> (\<exists>n st u. map_of (rt_sets demo_router) n = Some st \<and> u \<in> set (fst (toolsOf st))
        \<and> t_name (aggregate_tool ''db'' (demo_tool ''get'')) = PrefixTool n (t_name u))"
proof (intro conjI)
  show names: "map t_name (fst (AggregatedTools demo_router)) = [''db__put'', ''db__get'', ''web__get'']" by code_simp
  show "map_sum id (\<lambda>(rep, name). (ac_name (r_client rep), name)) (fst (RouteToolCallReplica demo_router ''db__get''))
       = Inr (''db'', ''get'')" by code_simp
  have mem: "aggregate_tool ''db'' (demo_tool ''get'') \<in> set (fst (AggregatedTools demo_router))" by code_simp
  have c: "map (\<lambda>(n, st). rs_rrCursor st) (rt_sets demo_router) = [0, 0]"
    "map (\<lambda>(n, st). length (rs_replicas st)) (rt_sets demo_router) = [1, 1]"
    "map (server_name_ok \<circ> fst) (rt_sets demo_router) = [True, True]"
    by code_simp+
  have ok: "\<forall>(n, st)\<in>set (rt_sets demo_router). server_name_ok n \<and> cursor_ok (rs_rrCursor st) (rs_replicas st)"
    using c by (auto simp: map_eq_Cons_conv cursor_ok_def)
  from aggregated_tool_routes [OF mem ok] show
    "\<exists>n st u. map_of (rt_sets demo_router) n = Some st \<and> u \<in> set (fst (toolsOf st))
        \<and> t_name (aggregate_tool ''db'' (demo_tool ''get'')) = PrefixTool n (t_name u)"
    by blast
qed

text \<open>Advertised names are unambiguous: when server names are well formed and no server offers two
  tools of one name, no two aggregated tools share a name.\<close>

theorem aggregated_names_distinct:
  assumes "router_ok r" and "\<forall>(n, st)\<in>set (rt_sets r). server_name_ok n \<and> distinct (map t_name (fst (toolsOf st)))"
  shows "distinct (map t_name (fst (AggregatedTools r)))"
  unfolding AggregatedTools_names
proof (rule parse.distinct_encode_concat)
  show "distinct (sorted_names r)" using assms(1) by (simp add: sorted_names_def router_ok_def map_keys_ok_def)
  fix n assume "n \<in> set (sorted_names r)"
  then obtain st where st: "map_of (rt_sets r) n = Some st" "(n, st) \<in> set (rt_sets r)"
    using assms(1) by (auto simp: sorted_names_def router_ok_def map_keys_ok_mem)
  then show "distinct (map t_name (set_tools (fst \<circ> toolsOf) r n))"
    using assms(2) by (auto simp: set_tools_def)
  show "server_name_ok n" if "b \<in> set (map t_name (set_tools (fst \<circ> toolsOf) r n))" for b
    using st assms(2) by auto
qed

theorem aggregated_names_distinct_witness: "distinct (map t_name (fst (AggregatedTools demo_router)))"
  by (rule aggregated_names_distinct) (code_simp, code_simp)

text \<open>After a refresh the index and the advertised list agree: the index has a prefixed name
  exactly when the aggregated list shows it.\<close>

theorem refreshed_index_matches_list:
  assumes "router_ok r"
  shows "HasTool (RefreshTools r) p \<longleftrightarrow> p \<in> t_name ` set (fst (AggregatedTools (RefreshTools r)))"
proof -
  have "map t_name (fst (AggregatedTools (RefreshTools r))) = map t_name (fst (AggregatedTools r))"
    unfolding AggregatedTools_names set_tools_RefreshTools sorted_names_RefreshTools ..
  with HasTool_RefreshTools [OF assms] show ?thesis by (metis list.set_map)
qed

theorem refreshed_index_matches_list_witness:
  "HasTool (RefreshTools demo_router) ''web__get'' \<and> \<not> HasTool (RefreshTools demo_router) ''web__put''"
proof -
  have ok: "router_ok demo_router" by code_simp
  show ?thesis unfolding refreshed_index_matches_list [OF ok] by code_simp
qed

text \<open>Removing a server makes its tools unroutable and unlisted and leaves every other server as it
  was.\<close>

theorem removed_server_unroutable:
  assumes "router_ok r" and "ParsePrefixedTool p = Inr (n, t)"
  shows "RouteToolCallReplica (RemoveClient r m) p =
      (if n = m then (Inl (UnknownServer m), RemoveClient r m)
       else (fst (RouteToolCallReplica r p), RemoveClient (snd (RouteToolCallReplica r p)) m))
    \<and> (m, s) \<notin> set (rt_sets (RemoveClient r m)) \<and> m \<notin> snd ` set (rt_tools (RemoveClient r m))"
proof -
  have "(m, s) \<notin> set (AList.delete m (rt_sets r))"
    using assms(1) by (simp add: router_ok_def map_keys_ok_mem map_of_delete)
  moreover have "AList.update n st (AList.delete m xs) = AList.delete m (AList.update n st xs)" if "n \<noteq> m" for st xs
    using that by (induction xs) auto
  ultimately show ?thesis using assms(2)
    by (cases r) (auto simp: RouteToolCallReplica_def RemoveClient_def put_set_def map_of_delete
        split: option.splits prod.splits sum.splits)
qed

theorem removed_server_unroutable_witness:
  "RouteToolCallReplica (RemoveClient demo_router ''db'') ''db__get'' = (Inl (UnknownServer ''db''), RemoveClient demo_router ''db'')"
proof -
  have "router_ok demo_router" "ParsePrefixedTool ''db__get'' = Inr (''db'', ''get'')" by code_simp+
  from removed_server_unroutable [OF this, of "''db''"] show ?thesis by simp
qed

text \<open>Scaling to zero keeps the tool surface: once the tools of a live set have been read, a set
  that loses all its replicas goes on advertising the same tools from its cache.\<close>

theorem scale_to_zero_keeps_surface:
  assumes "fst (toolsOf st) \<noteq> []"
  shows "fst (toolsOf ((snd (toolsOf st))\<lparr>rs_replicas := []\<rparr>)) = fst (toolsOf st)"
  using assms by (auto simp: toolsOf_def SetToolCache_def CachedTools_def Let_def split: list.splits)

theorem scale_to_zero_keeps_surface_witness:
  "map t_name (fst (toolsOf ((snd (toolsOf (NewReplicaSet ''db'' [] [demo_server ''db'' [''put'']] 0)))\<lparr>rs_replicas := []\<rparr>)))
     = [''put'']"
  by (subst scale_to_zero_keeps_surface) code_simp+

end
