(* ===== verification/Session.thy ===== *)
theory Session
  imports Client_Id
begin

text \<open>
  Client sessions (\<^verbatim>\<open>pkg/mcp/session.go\<close>): the table of handshake sessions, its bound and the
  eviction of the session seen least recently.

  The session id of \<^verbatim>\<open>generateSessionID\<close> (32 hexadecimal digits of \<^verbatim>\<open>crypto/rand\<close>) and the clock are
  arguments; the two readings of the clock in \<^verbatim>\<open>Create\<close> are one value. The iteration order of the
  Go map, which decides between sessions seen at the same instant, is the order of the list.
\<close>

definition maxSessions :: nat where
  "maxSessions = 1000"

record client_info =
  ci_name :: string
  ci_version :: string

record session =
  s_id :: string
  s_clientInfo :: client_info
  s_clientID :: string
  s_accessID :: string
  s_group :: string
  s_protocolVersion :: string
  s_initialized :: bool
  s_createdAt :: gotime
  s_lastSeen :: gotime

type_synonym sessions = "(string, session) gomap"

text \<open>The scan keeps the id and time of the oldest session so far; an empty id means none yet.\<close>

fun oldest_scan :: "string \<Rightarrow> gotime \<Rightarrow> sessions \<Rightarrow> string" where
  "oldest_scan oldestID oldestTime [] = oldestID"
| "oldest_scan oldestID oldestTime ((i, s) # rest) =
     (if oldestID = [] \<or> s_lastSeen s < oldestTime then oldest_scan i (s_lastSeen s) rest
      else oldest_scan oldestID oldestTime rest)"

definition evictOldest :: "sessions \<Rightarrow> sessions" where
  "evictOldest m = (let oldestID = oldest_scan [] 0 m in if oldestID \<noteq> [] then AList.delete oldestID m else m)"

definition Create :: "client_info \<Rightarrow> string \<Rightarrow> string \<Rightarrow> string \<Rightarrow> string \<Rightarrow> gotime \<Rightarrow> sessions \<Rightarrow> session \<times> sessions" where
  "Create clientInfo accessID grp protocolVersion i now m =
     (let m1 = (if length m \<ge> maxSessions then evictOldest m else m);
          normalized = NormalizeClientID (ci_name clientInfo);
          resolved = NormalizeClientID accessID;
          access = (if resolved = [] then normalized else resolved);
          s = \<lparr>s_id = i, s_clientInfo = clientInfo, s_clientID = normalized, s_accessID = access,
               s_group = grp, s_protocolVersion = protocolVersion, s_initialized = True,
               s_createdAt = now, s_lastSeen = now\<rparr>
      in (s, AList.update i s m1))"

definition Get_session :: "sessions \<Rightarrow> string \<Rightarrow> session option" where
  "Get_session m i = map_of m i"

definition Touch :: "string \<Rightarrow> gotime \<Rightarrow> sessions \<Rightarrow> sessions" where
  "Touch i now m = (case map_of m i of None \<Rightarrow> m | Some s \<Rightarrow> AList.update i (s\<lparr>s_lastSeen := now\<rparr>) m)"

definition Delete_session :: "string \<Rightarrow> sessions \<Rightarrow> sessions" where
  "Delete_session i m = AList.delete i m"

definition List_sessions :: "sessions \<Rightarrow> session list" where
  "List_sessions m = map snd m"

definition Count_sessions :: "sessions \<Rightarrow> nat" where
  "Count_sessions m = length m"

text \<open>Deleting the current key while ranging over a Go map is well defined: the loop visits every
  session once.\<close>

definition Cleanup :: "duration \<Rightarrow> gotime \<Rightarrow> sessions \<Rightarrow> nat \<times> sessions" where
  "Cleanup maxAge now m =
     (let cutoff = now - maxAge; stale = (\<lambda>(i, s). s_lastSeen s < cutoff) in
      (length (filter stale m), filter (\<lambda>e. \<not> stale e) m))"

subsection \<open>The table invariant\<close>

text \<open>Every session is stored once under its own non-empty id, and there are at most
  \<^const>\<open>maxSessions\<close> of them.\<close>

definition sessions_ok :: "sessions \<Rightarrow> bool" where
  "sessions_ok m \<longleftrightarrow> map_keys_ok m \<and> (\<forall>(i, s)\<in>set m. i \<noteq> [] \<and> s_id s = i) \<and> length m \<le> maxSessions"

datatype session_op =
    OpCreate client_info string string string string gotime
  | OpTouch string gotime
  | OpDelete string
  | OpCleanup duration gotime

fun run_op :: "session_op \<Rightarrow> sessions \<Rightarrow> sessions" where
  "run_op (OpCreate info access grp ver i now) m = snd (Create info access grp ver i now m)"
| "run_op (OpTouch i now) m = Touch i now m"
| "run_op (OpDelete i) m = Delete_session i m"
| "run_op (OpCleanup maxAge now) m = snd (Cleanup maxAge now m)"

definition op_ok :: "session_op \<Rightarrow> bool" where
  "op_ok op = (case op of OpCreate _ _ _ _ i _ \<Rightarrow> i \<noteq> [] | _ \<Rightarrow> True)"

subsection \<open>Eviction\<close>

lemma oldest_scan_spec:
  assumes "\<forall>e\<in>set m. fst e \<noteq> []" and "oid \<noteq> []"
  shows "\<exists>t. (oldest_scan oid ot m = oid \<and> t = ot \<or> (\<exists>s. (oldest_scan oid ot m, s) \<in> set m \<and> s_lastSeen s = t))
    \<and> t \<le> ot \<and> (\<forall>e\<in>set m. t \<le> s_lastSeen (snd e))"
  using assms
proof (induction m arbitrary: oid ot)
  case (Cons e m)
  obtain i s where e: "e = (i, s)" by (cases e)
  have ids: "i \<noteq> []" "\<forall>e\<in>set m. fst e \<noteq> []" using Cons.prems e by auto
  show ?case
  proof (cases "s_lastSeen s < ot")
    case True
    from Cons.IH [OF ids(2,1)] obtain t where
      "oldest_scan i (s_lastSeen s) m = i \<and> t = s_lastSeen s \<or> (\<exists>q. (oldest_scan i (s_lastSeen s) m, q) \<in> set m \<and> s_lastSeen q = t)"
      "t \<le> s_lastSeen s" "\<forall>e\<in>set m. t \<le> s_lastSeen (snd e)" by blast
    with True show ?thesis unfolding e by (intro exI [of _ t]) auto
  next
    case False
    from Cons.IH [OF ids(2) Cons.prems(2)] obtain t where
      "oldest_scan oid ot m = oid \<and> t = ot \<or> (\<exists>q. (oldest_scan oid ot m, q) \<in> set m \<and> s_lastSeen q = t)"
      "t \<le> ot" "\<forall>e\<in>set m. t \<le> s_lastSeen (snd e)" by blast
    with False Cons.prems(2) show ?thesis unfolding e by (intro exI [of _ t]) auto
  qed
qed simp

lemma oldest_scan_minimal:
  assumes "\<forall>e\<in>set m. fst e \<noteq> []" and "m \<noteq> []"
  shows "\<exists>s. (oldest_scan [] 0 m, s) \<in> set m \<and> (\<forall>e\<in>set m. s_lastSeen s \<le> s_lastSeen (snd e))"
proof -
  from assms obtain i s rest where m: "m = (i, s) # rest" "i \<noteq> []" "\<forall>e\<in>set rest. fst e \<noteq> []" by (cases m) auto
  from oldest_scan_spec [OF m(3,2)] obtain t where
    t: "oldest_scan i (s_lastSeen s) rest = i \<and> t = s_lastSeen s \<or> (\<exists>q. (oldest_scan i (s_lastSeen s) rest, q) \<in> set rest \<and> s_lastSeen q = t)"
    "t \<le> s_lastSeen s" "\<forall>e\<in>set rest. t \<le> s_lastSeen (snd e)" by blast
  from t(1) obtain q where "(oldest_scan i (s_lastSeen s) rest, q) \<in> set m" "s_lastSeen q = t"
    unfolding m(1) by auto
  with t(2,3) show ?thesis unfolding m(1) by (intro exI [of _ q]) auto
qed

lemma length_delete_mem: "map_keys_ok m \<Longrightarrow> (k, v) \<in> set m \<Longrightarrow> Suc (length (AList.delete k m)) = length m"
proof (induction m)
  case (Cons e m)
  show ?case
  proof (cases "fst e = k")
    case True
    then have "k \<notin> fst ` set m" using Cons.prems by (auto simp: map_keys_ok_def)
    then have "AList.delete k m = m" by (induction m) auto
    with True show ?thesis by (cases e) simp
  next
    case False
    with Cons show ?thesis by (cases e) (auto simp: map_keys_ok_def)
  qed
qed simp

lemma length_update_le: "length (AList.update k v m) \<le> Suc (length m)"
  by (induction m) auto

lemma length_update_new: "map_of m k = None \<Longrightarrow> length (AList.update k v m) = Suc (length m)"
  by (induction m) (auto split: if_splits)

lemma sessions_ok_alt:
  "sessions_ok m \<longleftrightarrow> map_keys_ok m \<and> (\<forall>i s. map_of m i = Some s \<longrightarrow> i \<noteq> [] \<and> s_id s = i) \<and> length m \<le> maxSessions"
  unfolding sessions_ok_def using map_keys_ok_mem [of m] by blast

lemma evictOldest_spec:
  assumes "sessions_ok m" and "m \<noteq> []"
  obtains i s where "map_of m i = Some s" "evictOldest m = AList.delete i m"
    "\<And>j q. map_of m j = Some q \<Longrightarrow> s_lastSeen s \<le> s_lastSeen q"
proof -
  have ids: "\<forall>e\<in>set m. fst e \<noteq> []" using assms(1) by (auto simp: sessions_ok_def)
  from oldest_scan_minimal [OF ids assms(2)] obtain s where
    s: "(oldest_scan [] 0 m, s) \<in> set m" "\<forall>e\<in>set m. s_lastSeen s \<le> s_lastSeen (snd e)" by blast
  show thesis
  proof (rule that)
    show "map_of m (oldest_scan [] 0 m) = Some s" using s(1) assms(1) by (simp add: sessions_ok_def map_keys_ok_mem)
    show "evictOldest m = AList.delete (oldest_scan [] 0 m) m" using s(1) ids by (auto simp: evictOldest_def Let_def)
    show "s_lastSeen s \<le> s_lastSeen q" if "map_of m j = Some q" for j q using s(2) that by (auto dest!: map_of_SomeD)
  qed
qed

lemma sessions_ok_evict:
  assumes "sessions_ok m"
  shows "sessions_ok (evictOldest m) \<and> (m \<noteq> [] \<longrightarrow> length (evictOldest m) < length m)"
proof (cases "m = []")
  case True
  then show ?thesis using assms by (simp add: evictOldest_def)
next
  case False
  from assms False obtain i s where old: "map_of m i = Some s" "evictOldest m = AList.delete i m"
    by (rule evictOldest_spec)
  have "Suc (length (AList.delete i m)) = length m"
    using old(1) assms by (intro length_delete_mem [of _ _ s]) (auto simp: sessions_ok_def dest: map_of_SomeD)
  with assms old show ?thesis by (auto simp: sessions_ok_alt map_of_delete)
qed

lemma sessions_ok_Create:
  assumes "sessions_ok m" and "i \<noteq> []"
  shows "sessions_ok (snd (Create info access grp ver i now m))"
proof -
  define m1 where "m1 = (if length m \<ge> maxSessions then evictOldest m else m)"
  define s where "s = fst (Create info access grp ver i now m)"
  have c: "snd (Create info access grp ver i now m) = AList.update i s m1" "s_id s = i"
    by (simp_all add: Create_def Let_def m1_def s_def)
  have m1: "sessions_ok m1" "Suc (length m1) \<le> maxSessions"
    using sessions_ok_evict [OF assms(1)] assms(1) by (auto simp: m1_def maxSessions_def sessions_ok_def)
  then show ?thesis using assms(2) c(2) length_update_le [of i s m1] unfolding c(1)
    by (auto simp: sessions_ok_alt map_of_update)
qed

lemma map_keys_ok_filter [simp]: "map_keys_ok m \<Longrightarrow> map_keys_ok (filter P m)"
  by (simp add: map_keys_ok_def distinct_map_filter)

lemma sessions_ok_run: "sessions_ok m \<Longrightarrow> op_ok op \<Longrightarrow> sessions_ok (run_op op m)"
proof (cases op)
  case (OpTouch i now)
  assume "sessions_ok m"
  moreover have "length (AList.update i s m) = length m" if "map_of m i = Some q" for s q
    using that by (induction m) (auto split: if_splits)
  ultimately show ?thesis using OpTouch
    by (auto simp: Touch_def sessions_ok_alt map_of_update split: option.splits)
next
  case (OpDelete i)
  assume "sessions_ok m"
  moreover have "length (AList.delete i m) \<le> length m" by (rule length_delete_le)
  ultimately show ?thesis using OpDelete
    by (auto simp: Delete_session_def sessions_ok_alt map_of_delete)
next
  case (OpCleanup maxAge now)
  assume "sessions_ok m"
  moreover have "length (filter P m) \<le> length m" for P by (rule length_filter_le)
  ultimately show ?thesis using OpCleanup
    by (auto simp: Cleanup_def sessions_ok_def Let_def intro: order_trans [OF length_filter_le])
qed (auto simp: op_ok_def intro: sessions_ok_Create)

subsection \<open>Properties\<close>

text \<open>The session table never grows past \<^const>\<open>maxSessions\<close>: after any sequence of
  creations, touches, deletions and clean-ups it holds at most 1000 sessions, each once and under its
  own id.\<close>

theorem session_table_bounded:
  assumes "\<forall>op\<in>set ops. op_ok op"
  shows "sessions_ok (fold run_op ops []) \<and> Count_sessions (fold run_op ops []) \<le> 1000"
proof -
  have "sessions_ok m \<Longrightarrow> sessions_ok (fold run_op ops m)" for m
    using assms by (induction ops arbitrary: m) (auto intro: sessions_ok_run)
  moreover have "sessions_ok []" by (simp add: sessions_ok_def)
  ultimately have "sessions_ok (fold run_op ops [])" by blast
  then show ?thesis by (simp add: sessions_ok_def Count_sessions_def maxSessions_def)
qed

definition demo_info :: client_info where
  "demo_info = \<lparr>ci_name = ''Cursor IDE'', ci_version = ''1''\<rparr>"

theorem session_table_bounded_witness:
  "sessions_ok (fold run_op [OpCreate demo_info [] [] [] ''a'' 1, OpTouch ''a'' 2, OpCleanup 1 9] [])"
  using session_table_bounded [of "[OpCreate demo_info [] [] [] ''a'' 1, OpTouch ''a'' 2, OpCleanup 1 9]"]
  by (simp add: op_ok_def)

text \<open>Creating a session in a full table evicts one session that was seen no later than any other,
  and nothing else: every other session is still there, the new one is found under its id, and the
  table is full again.\<close>

theorem create_evicts_least_recent:
  assumes "sessions_ok m" and "length m = maxSessions" and "map_of m i = None"
  shows "\<exists>v s. map_of m v = Some s \<and> (\<forall>j q. map_of m j = Some q \<longrightarrow> s_lastSeen s \<le> s_lastSeen q)
    \<and> (\<forall>j. Get_session (snd (Create info access grp ver i now m)) j =
         (if j = i then Some (fst (Create info access grp ver i now m)) else if j = v then None else map_of m j))
    \<and> Count_sessions (snd (Create info access grp ver i now m)) = maxSessions"
proof -
  have "m \<noteq> []" using assms(2) by (auto simp: maxSessions_def)
  with assms(1) obtain v s where v: "map_of m v = Some s" "evictOldest m = AList.delete v m"
    "\<And>j q. map_of m j = Some q \<Longrightarrow> s_lastSeen s \<le> s_lastSeen q" by (rule evictOldest_spec) blast
  have c: "snd (Create info access grp ver i now m) = AList.update i (fst (Create info access grp ver i now m)) (AList.delete v m)"
    using assms(2) v(2) by (simp add: Create_def Let_def)
  have "Suc (length (AList.delete v m)) = length m"
    using v(1) assms(1) by (intro length_delete_mem [of _ _ s]) (auto simp: sessions_ok_def dest: map_of_SomeD)
  moreover have "length (AList.update i x (AList.delete v m)) = Suc (length (AList.delete v m))" for x
  proof -
    have "map_of (AList.delete v m) i = None" using assms(3) by (simp add: map_of_delete)
    then show ?thesis by (induction "AList.delete v m") (auto simp: length_update_new)
  qed
  ultimately show ?thesis using v(1,3) assms(2)
    by (intro exI [of _ v] exI [of _ s]) (auto simp: c Get_session_def Count_sessions_def map_of_update map_of_delete)
qed

definition demo_session :: "nat \<Rightarrow> session" where
  "demo_session k = \<lparr>s_id = replicate (Suc k) (CHR ''a''), s_clientInfo = demo_info, s_clientID = [], s_accessID = [],
     s_group = [], s_protocolVersion = [], s_initialized = True, s_createdAt = 0, s_lastSeen = int k\<rparr>"

definition full_table :: sessions where
  "full_table = map (\<lambda>k. (s_id (demo_session k), demo_session k)) [0..<1000]"

lemma full_table_ok: "sessions_ok full_table" "length full_table = maxSessions" "map_of full_table ''b'' = None"
proof -
  have "inj (\<lambda>k. s_id (demo_session k))"
    by (auto simp: inj_def demo_session_def dest: arg_cong [where f = length])
  then have "distinct (map fst full_table)"
    by (simp add: full_table_def distinct_map comp_def inj_on_subset [OF _ subset_UNIV])
  then show "sessions_ok full_table"
    by (auto simp: sessions_ok_def map_keys_ok_def maxSessions_def) (auto simp: full_table_def demo_session_def)
  show "length full_table = maxSessions" by (simp add: full_table_def maxSessions_def)
  show "map_of full_table ''b'' = None"
    by (auto simp: full_table_def demo_session_def map_of_eq_None_iff)
qed

theorem create_evicts_least_recent_witness:
  "\<exists>v s. map_of full_table v = Some s \<and> Get_session (snd (Create demo_info [] [] [] ''b'' 5 full_table)) v = None
     \<and> Count_sessions (snd (Create demo_info [] [] [] ''b'' 5 full_table)) = 1000"
proof -
  let ?m = "snd (Create demo_info [] [] [] ''b'' 5 full_table)"
  from create_evicts_least_recent [OF full_table_ok, of demo_info "[]" "[]" "[]" 5] obtain v s where
    v: "map_of full_table v = Some s" "Count_sessions ?m = maxSessions"
    and g: "\<forall>j. Get_session ?m j = (if j = ''b'' then Some (fst (Create demo_info [] [] [] ''b'' 5 full_table))
         else if j = v then None else map_of full_table j)" by blast
  from v(1) full_table_ok(3) have "v \<noteq> ''b''" by auto
  with v g show ?thesis by (intro exI [of _ v] exI [of _ s]) (simp add: maxSessions_def)
qed

text \<open>The access identity of a session is the normalised identifier the connection declared, or the
  normalised client name when that is empty; it is a slug.\<close>

theorem session_access_identity:
  "s_accessID (fst (Create info access grp ver i now m)) =
      (if NormalizeClientID access = [] then NormalizeClientID (ci_name info) else NormalizeClientID access)
   \<and> is_slug (s_accessID (fst (Create info access grp ver i now m)))"
  by (simp add: Create_def Let_def normalize_is_slug)

text \<open>Clean-up removes exactly the sessions last seen before the cut-off and reports their number.\<close>

theorem cleanup_exact:
  assumes "map_keys_ok m"
  shows "Get_session (snd (Cleanup maxAge now m)) i =
      (case Get_session m i of Some s \<Rightarrow> if s_lastSeen s < now - maxAge then None else Some s | None \<Rightarrow> None)
    \<and> fst (Cleanup maxAge now m) + Count_sessions (snd (Cleanup maxAge now m)) = Count_sessions m"
proof
  have "map_of (filter (\<lambda>(i, s). \<not> s_lastSeen s < now - maxAge) m) i = 
      (case map_of m i of Some s \<Rightarrow> if s_lastSeen s < now - maxAge then None else Some s | None \<Rightarrow> None)"
    using assms by (induction m) (auto simp: map_keys_ok_def map_of_eq_None_iff split: option.splits)
  then show "Get_session (snd (Cleanup maxAge now m)) i =
      (case Get_session m i of Some s \<Rightarrow> if s_lastSeen s < now - maxAge then None else Some s | None \<Rightarrow> None)"
    by (simp add: Get_session_def Cleanup_def Let_def split_def)
  show "fst (Cleanup maxAge now m) + Count_sessions (snd (Cleanup maxAge now m)) = Count_sessions m"
    by (simp add: Cleanup_def Count_sessions_def Let_def sum_length_filter_compl)
qed

theorem cleanup_exact_witness:
  "fst (Cleanup 10 1005 full_table) + Count_sessions (snd (Cleanup 10 1005 full_table)) = 1000"
  using cleanup_exact [of full_table 10 1005] full_table_ok(1,2)
  by (simp add: sessions_ok_def Count_sessions_def maxSessions_def)

end
