(* ===== verification/Text_Util.thy ===== *)
theory Text_Util
  imports Prelude
begin

text \<open>
  Text helpers: the truncation of an oversized result (\<^verbatim>\<open>pkg/format/truncate.go\<close>) and the edit distance
  behind command suggestions (\<^verbatim>\<open>levenshtein\<close> in \<^verbatim>\<open>pkg/output/suggest.go\<close>).
\<close>

subsection \<open>Truncation\<close>

text \<open>\<^verbatim>\<open>utf8.RuneStart\<close>: a byte that is not a continuation byte \<^verbatim>\<open>10xxxxxx\<close>.\<close>

definition rune_start :: "char \<Rightarrow> bool" where
  "rune_start c \<longleftrightarrow> \<not> in_range (CHR 0x80) (CHR 0xBF) c"

text \<open>The loop that backs up from index \<open>i\<close>, which is inside the string.\<close>

fun back_up :: "string \<Rightarrow> nat \<Rightarrow> nat" where
  "back_up s 0 = 0"
| "back_up s (Suc i) = (if \<not> rune_start (s ! Suc i) then back_up s i else Suc i)"

definition truncate_suffix :: "nat \<Rightarrow> int \<Rightarrow> string" where
  "truncate_suffix len maxBytes =
     '' [truncated: '' @ itoa (int len) @ '' bytes, showing first '' @ itoa maxBytes @ '' bytes]''"

definition TruncateResult :: "string \<Rightarrow> int \<Rightarrow> string \<times> bool" where
  "TruncateResult result maxBytes =
     (if maxBytes \<le> 0 \<or> int (length result) \<le> maxBytes then (result, False)
      else (take (back_up result (nat maxBytes)) result @ truncate_suffix (length result) maxBytes, True))"

lemma back_up_le: "back_up s i \<le> i"
  by (induction i) (auto intro: le_SucI)

text \<open>A rune as bytes: one start byte, then continuation bytes only.\<close>

definition rune_block :: "string \<Rightarrow> bool" where
  "rune_block r \<longleftrightarrow> (case r of [] \<Rightarrow> False | c # cs \<Rightarrow> rune_start c \<and> list_all (\<lambda>x. \<not> rune_start x) cs)"

lemma back_up_eq:
  "p \<le> i \<Longrightarrow> rune_start (s ! p) \<Longrightarrow> (\<And>j. p < j \<Longrightarrow> j \<le> i \<Longrightarrow> \<not> rune_start (s ! j)) \<Longrightarrow> back_up s i = p"
proof (induction i)
  case (Suc i)
  then show ?case by (cases "p = Suc i") auto
qed simp

lemma back_up_blocks:
  assumes "s = concat (pre @ r # post)" and "rune_block r"
    and "length (concat pre) \<le> i" and "i < length (concat pre) + length r"
  shows "back_up s i = length (concat pre)"
proof (rule back_up_eq)
  obtain c cs where r: "r = c # cs" "rune_start c" "\<And>x. x \<in> set cs \<Longrightarrow> \<not> rune_start x"
    using assms(2) by (auto simp: rune_block_def list_all_iff split: list.splits)
  show "rune_start (s ! length (concat pre))" using r by (simp add: assms(1) nth_append)
  fix j assume "length (concat pre) < j" "j \<le> i"
  then have "s ! j = cs ! (j - length (concat pre) - 1)" "j - length (concat pre) - 1 < length cs"
    using r assms(4) by (auto simp: assms(1) nth_append nth_Cons')
  then show "\<not> rune_start (s ! j)" using r(3) by simp
qed (rule assms(3))

text \<open>The block that holds a position.\<close>

lemma block_at:
  "i < length (concat rs) \<Longrightarrow> \<exists>pre r post. rs = pre @ r # post \<and> length (concat pre) \<le> i \<and> i < length (concat pre) + length r"
proof (induction rs arbitrary: i)
  case (Cons r rs)
  show ?case
  proof (cases "i < length r")
    case True
    then show ?thesis by (intro exI [of _ "[]"] exI [of _ r] exI [of _ rs]) auto
  next
    case False
    with Cons.prems have "i - length r < length (concat rs)" by auto
    from Cons.IH [OF this] obtain pre q post where
      "rs = pre @ q # post" "length (concat pre) \<le> i - length r" "i - length r < length (concat pre) + length q" by blast
    with False show ?thesis by (intro exI [of _ "r # pre"] exI [of _ q] exI [of _ post]) auto
  qed
qed simp

text \<open>Truncation never splits a rune: a result within the limit is unchanged, and a longer one, read as
  a sequence of runes, is cut to the longest prefix of whole runes that fits the limit, followed by the
  notice.\<close>

theorem truncate_keeps_runes:
  assumes "\<forall>r\<in>set rs. rune_block r"
  shows "if m \<le> 0 \<or> int (length (concat rs)) \<le> m then TruncateResult (concat rs) m = (concat rs, False)
    else \<exists>pre r post. rs = pre @ r # post \<and> int (length (concat pre)) \<le> m \<and> m < int (length (concat (pre @ [r])))
       \<and> TruncateResult (concat rs) m = (concat pre @ truncate_suffix (length (concat rs)) m, True)"
proof (cases "m \<le> 0 \<or> int (length (concat rs)) \<le> m")
  case False
  then have "nat m < length (concat rs)" by linarith
  from block_at [OF this] obtain pre r post where
    b: "rs = pre @ r # post" "length (concat pre) \<le> nat m" "nat m < length (concat pre) + length r" by blast
  with assms have "back_up (concat rs) (nat m) = length (concat pre)" by (intro back_up_blocks) auto
  with False b have "rs = pre @ r # post \<and> int (length (concat pre)) \<le> m \<and> m < int (length (concat (pre @ [r])))
       \<and> TruncateResult (concat rs) m = (concat pre @ truncate_suffix (length (concat rs)) m, True)"
    by (auto simp: TruncateResult_def)
  then show ?thesis using False by (simp only: if_False) blast
qed (auto simp: TruncateResult_def)

theorem truncate_keeps_runes_witness:
  "TruncateResult (concat [''a'', [CHR 0xC3, CHR 0xA9], ''b'']) 2 = (''a [truncated: 4 bytes, showing first 2 bytes]'', True)"
proof -
  have blocks: "\<forall>r\<in>set [''a'', [CHR 0xC3, CHR 0xA9], ''b'']. rune_block r" by code_simp
  have long: "\<not> ((2::int) \<le> 0 \<or> int (length (concat [''a'', [CHR 0xC3, CHR 0xA9], ''b''])) \<le> 2)" by simp
  from truncate_keeps_runes [OF blocks, of 2, unfolded if_not_P [OF long]] obtain pre r post where
    p: "[''a'', [CHR 0xC3, CHR 0xA9], ''b''] = pre @ r # post" "int (length (concat pre)) \<le> 2"
      "2 < int (length (concat (pre @ [r])))"
    and tr: "TruncateResult (concat [''a'', [CHR 0xC3, CHR 0xA9], ''b'']) 2 = (concat pre @ truncate_suffix (length (concat [''a'', [CHR 0xC3, CHR 0xA9], ''b''])) 2, True)"
    by blast
  from p have "pre = [''a'']" by (auto simp: Cons_eq_append_conv)
  moreover have "truncate_suffix (length (concat [''a'', [CHR 0xC3, CHR 0xA9], ''b''])) 2 = '' [truncated: 4 bytes, showing first 2 bytes]''" by code_simp
  ultimately show ?thesis using tr by (simp only:) simp
qed

subsection \<open>Edit distance\<close>

text \<open>A string as its runes; the distance is computed on any list. \<open>lev_row\<close> is the inner loop: \<open>left\<close> is
  \<^verbatim>\<open>curr[j-1]\<close>, the list holds \<^verbatim>\<open>prev[j-1], prev[j], ...\<close>.\<close>

fun lev_row :: "'a \<Rightarrow> nat \<Rightarrow> 'a list \<Rightarrow> nat list \<Rightarrow> nat list" where
  "lev_row x left (b # bs) (p # q # ps) =
     (let cost = (if x = b then 0 else 1); v = min (min (q + 1) (left + 1)) (p + cost)
      in v # lev_row x v bs (q # ps))"
| "lev_row x left bs ps = []"

fun lev_rows :: "nat \<Rightarrow> 'a list \<Rightarrow> 'a list \<Rightarrow> nat list \<Rightarrow> nat list" where
  "lev_rows i [] rb prev = prev"
| "lev_rows i (x # ra) rb prev = lev_rows (Suc i) ra rb (i # lev_row x i rb prev)"

definition levenshtein :: "'a list \<Rightarrow> 'a list \<Rightarrow> nat" where
  "levenshtein ra rb =
     (if ra = [] then length rb else if rb = [] then length ra
      else last (lev_rows 1 ra rb [0..<length rb + 1]))"

text \<open>The recursive specification, on reversed prefixes.\<close>

fun edit :: "'a list \<Rightarrow> 'a list \<Rightarrow> nat" where
  "edit [] bs = length bs"
| "edit as [] = length as"
| "edit (a # as) (b # bs) =
     min (min (edit as (b # bs) + 1) (edit (a # as) bs + 1)) (edit as bs + (if a = b then 0 else 1))"

lemma edit_Nil2 [simp]: "edit as [] = length as"
  by (cases as) auto

lemma lev_row_step:
  "lev_row x (edit (x # as) ds) (b # bs) (edit as ds # edit as (b # ds) # ps) =
     edit (x # as) (b # ds) # lev_row x (edit (x # as) (b # ds)) bs (edit as (b # ds) # ps)"
  by (simp add: Let_def)

lemma lev_row_spec:
  "lev_row x (edit (x # as) ds) bs (map (\<lambda>k. edit as (rev (take k bs) @ ds)) [0..<length bs + 1])
     = map (\<lambda>k. edit (x # as) (rev (take (Suc k) bs) @ ds)) [0..<length bs]"
proof (induction bs arbitrary: ds)
  case (Cons b bs)
  have shift: "map (\<lambda>k. edit as (rev (take k (b # bs)) @ ds)) [0..<length (b # bs) + 1] =
      edit as ds # edit as (b # ds) # map (\<lambda>k. edit as (rev (take (Suc k) bs) @ b # ds)) [0..<length bs]"
    by (simp add: upt_conv_Cons map_Suc_upt [symmetric] del: upt_Suc)
  have rest: "edit as (b # ds) # map (\<lambda>k. edit as (rev (take (Suc k) bs) @ b # ds)) [0..<length bs] =
      map (\<lambda>k. edit as (rev (take k bs) @ b # ds)) [0..<length bs + 1]"
    by (simp add: upt_conv_Cons map_Suc_upt [symmetric] del: upt_Suc)
  let ?R = "map (\<lambda>k. edit as (rev (take (Suc k) bs) @ b # ds)) [0..<length bs]"
  have "lev_row x (edit (x # as) ds) (b # bs) (edit as ds # edit as (b # ds) # ?R)
      = edit (x # as) (b # ds) # lev_row x (edit (x # as) (b # ds)) bs (edit as (b # ds) # ?R)"
    by (rule lev_row_step)
  also have "\<dots> = edit (x # as) (b # ds) # map (\<lambda>k. edit (x # as) (rev (take (Suc k) bs) @ b # ds)) [0..<length bs]"
    by (simp only: rest Cons.IH)
  also have "\<dots> = map (\<lambda>k. edit (x # as) (rev (take (Suc k) (b # bs)) @ ds)) [0..<length (b # bs)]"
    by (simp add: upt_conv_Cons map_Suc_upt [symmetric] del: upt_Suc edit.simps)
  finally show ?case by (simp only: shift)
qed simp

lemma lev_rows_spec:
  "lev_rows (Suc (length as)) ra rb (map (\<lambda>k. edit as (rev (take k rb))) [0..<length rb + 1])
     = map (\<lambda>k. edit (rev ra @ as) (rev (take k rb))) [0..<length rb + 1]"
proof (induction ra arbitrary: as)
  case (Cons x ra)
  have "Suc (length as) # lev_row x (Suc (length as)) rb (map (\<lambda>k. edit as (rev (take k rb))) [0..<length rb + 1])
      = map (\<lambda>k. edit (x # as) (rev (take k rb))) [0..<length rb + 1]"
    using lev_row_spec [of x as "[]" rb]
    by (simp add: upt_conv_Cons map_Suc_upt [symmetric] del: upt_Suc)
  then show ?case using Cons.IH [of "x # as"] by simp
qed simp

text \<open>The two-row dynamic program computes the edit distance: the length of a string against the empty
  one, and otherwise the least of deleting, inserting and substituting the last rune.\<close>

theorem levenshtein_correct: "levenshtein ra rb = edit (rev ra) (rev rb)"
proof -
  have "map (\<lambda>k. edit [] (rev (take k rb))) [0..<length rb + 1] = [0..<length rb + 1]"
    by (rule nth_equalityI) (auto simp: min_def nth_append)
  then have "lev_rows 1 ra rb [0..<length rb + 1] = map (\<lambda>k. edit (rev ra) (rev (take k rb))) [0..<length rb + 1]"
    using lev_rows_spec [of "[]" ra rb] by simp
  then show ?thesis by (auto simp: levenshtein_def)
qed

end
