(* ===== verification/Code_Mode.thy ===== *)
theory Code_Mode
  imports Tool_Names Mcp_Types
begin

text \<open>
  Code mode (\<^verbatim>\<open>pkg/mcp/codemode.go\<close>, \<^verbatim>\<open>codemode_sandbox.go\<close>, \<^verbatim>\<open>codemode_search.go\<close>, \<^verbatim>\<open>codemode_tools.go\<close>): two
  meta tools stand for all tools. \<^verbatim>\<open>search\<close> lists tools, \<^verbatim>\<open>execute\<close> runs JavaScript that calls tools back through
  the gateway.

  The JavaScript engine, the transpiler, JSON, and \<^verbatim>\<open>strings.ToLower\<close> on Unicode are the parameter record \<open>sandbox\<close>. A run of the engine is a
  \<open>script\<close>: it ends, or calls a tool and goes on with the reply. The checks around a call, the translation of its result
  into a reply, and the texts of both meta tools are modelled. The state that calls change is \<open>'s\<close>.
\<close>

subsection \<open>Results\<close>

record content =
  c_type :: string
  c_text :: string

record tool_result =
  tr_content :: "content list"
  tr_isError :: bool
  tr_structuredContent :: string
  tr_requestState :: string
  tr_resultType :: string
  tr_unknownTool :: bool

definition NewTextContent :: "string \<Rightarrow> content" where
  "NewTextContent text' = \<lparr>c_type = ''text'', c_text = text'\<rparr>"

definition error_result :: "string \<Rightarrow> tool_result" where
  "error_result msg =
     \<lparr>tr_content = [NewTextContent msg], tr_isError = True, tr_structuredContent = [], tr_requestState = [],
      tr_resultType = [], tr_unknownTool = False\<rparr>"

text \<open>The first content that has a text.\<close>

fun first_text :: "content list \<Rightarrow> string option" where
  "first_text [] = None"
| "first_text (c # cs) = (if c_text c \<noteq> [] then Some (c_text c) else first_text cs)"

subsection \<open>The meta tools\<close>

definition MetaToolSearch :: string where "MetaToolSearch = ''search''"
definition MetaToolExecute :: string where "MetaToolExecute = ''execute''"

definition IsMetaTool :: "string \<Rightarrow> bool" where
  "IsMetaTool name \<longleftrightarrow> name = MetaToolSearch \<or> name = MetaToolExecute"

text \<open>The JSON of a schema with one required string property.\<close>

definition one_string_schema :: "string \<Rightarrow> string \<Rightarrow> string" where
  "one_string_schema key description =
     (let q = [CHR 0x22] in
      ''{'' @ q @ ''type'' @ q @ '':'' @ q @ ''object'' @ q @ '','' @ q @ ''properties'' @ q @ '':{'' @ q @ key @ q @ '':{''
      @ q @ ''type'' @ q @ '':'' @ q @ ''string'' @ q @ '','' @ q @ ''description'' @ q @ '':'' @ q @ description @ q
      @ ''}},'' @ q @ ''required'' @ q @ '':['' @ q @ key @ q @ '']}'')"

definition meta_tool :: "string \<Rightarrow> string \<Rightarrow> string \<Rightarrow> tool" where
  "meta_tool name description schema =
     \<lparr>t_name = name, t_title = [], t_description = description, t_inputSchema = schema, t_outputSchema = [], t_annotations = None\<rparr>"

definition SearchTool :: tool where
  "SearchTool = meta_tool MetaToolSearch
     ''Search available MCP tools by name, description, or parameter names. Returns matching tool signatures with their input schemas. Use this to discover what tools are available before writing code to call them.''
     (one_string_schema ''query''
       ''Search query to find tools by name, description, or parameter names. Leave empty to list all available tools.'')"

definition ExecuteTool :: tool where
  "ExecuteTool = meta_tool MetaToolExecute
     ''Execute JavaScript code in a sandboxed environment with access to MCP tools via mcp.callTool(serverName, toolName, args). The code can call multiple tools, process results, and return computed values. Console output is captured. Modern JavaScript syntax (arrow functions, destructuring, template literals) is supported.''
     (one_string_schema ''code''
       ''JavaScript code to execute. Use mcp.callTool(serverName, toolName, args) to call MCP tools. The binding is synchronous and returns parsed objects directly. Console output (console.log/warn/error) is captured and included in the response.'')"

definition ToolsList :: "tool list" where
  "ToolsList = [SearchTool, ExecuteTool]"

subsection \<open>The engine\<close>

text \<open>What the script sees of a call: an exception, a parsed JSON text, a text, or nothing.\<close>

datatype js_reply = JsError string | JsJSON string | JsText string | JsUndefined

text \<open>How a run goes on: it fails with an error, ends with the JSON of its value and the console lines, or calls a tool
  at some time.\<close>

datatype 'a script =
    ScriptError string
  | ScriptDone string "string list"
  | CallTool gotime string string 'a "js_reply \<Rightarrow> 'a script"

record ('a, 's) sandbox =
  sb_query :: "'a \<Rightarrow> string"
  sb_code :: "'a \<Rightarrow> string"
  sb_transpile :: "string \<Rightarrow> string + string"
  sb_run :: "string \<Rightarrow> 's \<Rightarrow> 'a script"
  sb_lower :: "string \<Rightarrow> string"
  sb_isJSON :: "string \<Rightarrow> bool"
  sb_properties :: "string \<Rightarrow> string list"
  sb_indent :: "(string \<times> string \<times> string) list \<Rightarrow> string + string"
  sb_timeout :: string

definition MaxCodeSize :: int where "MaxCodeSize = 64 * 1024"

definition ResultTypeInputRequired :: string where
  "ResultTypeInputRequired = ''input_required''"

text \<open>The last part of the binding \<^verbatim>\<open>mcp.callTool\<close>: the result of the call as a reply.\<close>

definition js_reply :: "('a, 's) sandbox \<Rightarrow> string \<Rightarrow> tool_result \<Rightarrow> js_reply" where
  "js_reply sb toolName result =
     (if tr_resultType result = ResultTypeInputRequired
      then JsError (''tool '' @ sq toolName @ '' requires additional input via MRTR, which code mode cannot relay; call it directly instead'')
      else if tr_isError result
      then JsError (''tool error: '' @ (case first_text (tr_content result) of None \<Rightarrow> [] | Some t \<Rightarrow> t))
      else if tr_structuredContent result \<noteq> [] \<and> sb_isJSON sb (tr_structuredContent result)
      then JsJSON (tr_structuredContent result)
      else case first_text (tr_content result) of
          None \<Rightarrow> JsUndefined
        | Some t \<Rightarrow> if sb_isJSON sb t then JsJSON t else JsText t)"

text \<open>A run against the gateway, whose \<^verbatim>\<open>CallTool\<close> is the argument \<open>caller\<close>: a name outside the tools the run was given
  is refused before the gateway is asked.\<close>

primrec run_script :: "('a, 's) sandbox \<Rightarrow> (gotime \<Rightarrow> string \<Rightarrow> 'a \<Rightarrow> 's \<Rightarrow> tool_result \<times> 's) \<Rightarrow> string list \<Rightarrow> 'a script
    \<Rightarrow> 's \<Rightarrow> (string + string \<times> string list) \<times> 's" where
  "run_script sb caller toolSet (ScriptError e) s = (Inl e, s)"
| "run_script sb caller toolSet (ScriptDone v console) s = (Inr (v, console), s)"
| "run_script sb caller toolSet (CallTool now serverName toolName args k) s =
     (let prefixedName = serverName @ ToolNameDelimiter @ toolName in
      if prefixedName \<notin> set toolSet
      then run_script sb caller toolSet (k (JsError (''access denied: tool '' @ sq toolName @ '' from server '' @ sq serverName
             @ '' is not available''))) s
      else case caller now prefixedName args s of
          (result, s1) \<Rightarrow> run_script sb caller toolSet (k (js_reply sb toolName result)) s1)"

definition Execute :: "('a, 's) sandbox \<Rightarrow> (gotime \<Rightarrow> string \<Rightarrow> 'a \<Rightarrow> 's \<Rightarrow> tool_result \<times> 's) \<Rightarrow> tool list \<Rightarrow> string \<Rightarrow> 's
    \<Rightarrow> (string + string \<times> string list) \<times> 's" where
  "Execute sb caller allowedTools code s =
     (if int (length code) > MaxCodeSize
      then (Inl (''code too large: '' @ itoa (int (length code)) @ '' bytes (maximum is '' @ itoa MaxCodeSize @ '' bytes)''), s)
      else case sb_transpile sb code of
          Inl e \<Rightarrow> (Inl (''transpilation failed: '' @ e), s)
        | Inr transpiled \<Rightarrow> run_script sb caller (map t_name allowedTools) (sb_run sb transpiled s) s)"

subsection \<open>Searching\<close>

definition matchTool :: "('a, 's) sandbox \<Rightarrow> string \<Rightarrow> tool \<Rightarrow> bool" where
  "matchTool sb query t \<longleftrightarrow>
     contains (sb_lower sb (t_name t)) query \<or> contains (sb_lower sb (t_description t)) query
     \<or> (t_inputSchema t \<noteq> [] \<and> list_ex (\<lambda>p. contains (sb_lower sb p) query) (sb_properties sb (t_inputSchema t)))"

definition Search :: "('a, 's) sandbox \<Rightarrow> tool list \<Rightarrow> string \<Rightarrow> tool list" where
  "Search sb tools query = (if query = [] then tools else filter (matchTool sb (sb_lower sb query)) tools)"

definition text_result :: "string \<Rightarrow> tool_result" where
  "text_result msg = (error_result msg)\<lparr>tr_isError := False\<rparr>"

definition handleSearch :: "('a, 's) sandbox \<Rightarrow> 'a \<Rightarrow> tool list \<Rightarrow> tool_result" where
  "handleSearch sb args tools =
     (let query = sb_query sb args; matches = Search sb tools query in
      case sb_indent sb (map (\<lambda>t. (t_name t, t_description t, t_inputSchema t)) matches) of
        Inl e \<Rightarrow> error_result (''Failed to format results: '' @ e)
      | Inr json \<Rightarrow>
          text_result (''Found '' @ itoa (int (length matches)) @ '' tool(s)''
            @ (if query \<noteq> [] then '' matching '' @ sq query else [])
            @ '' (out of '' @ itoa (int (length tools)) @ '' total):'' @ [CHR 0x0A, CHR 0x0A] @ json))"

subsection \<open>Executing\<close>

definition execute_hint :: "('a, 's) sandbox \<Rightarrow> string \<Rightarrow> string" where
  "execute_hint sb errMsg =
     (if contains errMsg ''syntax error'' then ''Fix the syntax and retry.''
      else if contains errMsg ''access denied'' then ''Use search() to discover available tools.''
      else if contains errMsg ''timeout'' then ''Execution exceeded '' @ sb_timeout sb @ '' timeout. Simplify the operation.''
      else if contains errMsg ''code too large'' then ''Maximum code size is '' @ itoa MaxCodeSize @ '' bytes.''
      else ''Check the error message and retry.'')"

definition handleExecute :: "('a, 's) sandbox \<Rightarrow> (gotime \<Rightarrow> string \<Rightarrow> 'a \<Rightarrow> 's \<Rightarrow> tool_result \<times> 's) \<Rightarrow> 'a \<Rightarrow> tool list \<Rightarrow> 's
    \<Rightarrow> tool_result \<times> 's" where
  "handleExecute sb caller args allowedTools s =
     (let code = sb_code sb args in
      if code = [] then (error_result (sq ''code'' @ '' parameter is required and must be a non-empty string''), s)
      else case Execute sb caller allowedTools code s of
          (Inl e, s1) \<Rightarrow> (error_result (''Error: '' @ e @ [CHR 0x0A, CHR 0x0A] @ ''Hint: '' @ execute_hint sb e), s1)
        | (Inr (v, console), s1) \<Rightarrow>
            let parts = (if v \<noteq> [] then [v] else [])
                  @ (if console \<noteq> [] then [''--- Console Output ---'' @ [CHR 0x0A] @ join_with [CHR 0x0A] console] else []);
                msg = join_with [CHR 0x0A, CHR 0x0A] parts
            in (text_result (if msg = [] then ''(no output)'' else msg), s1))"

definition HandleCall :: "('a, 's) sandbox \<Rightarrow> (gotime \<Rightarrow> string \<Rightarrow> 'a \<Rightarrow> 's \<Rightarrow> tool_result \<times> 's) \<Rightarrow> string \<Rightarrow> 'a \<Rightarrow> tool list \<Rightarrow> 's
    \<Rightarrow> tool_result \<times> 's" where
  "HandleCall sb caller name args allowedTools s =
     (if name = MetaToolSearch then (handleSearch sb args allowedTools, s)
      else if name = MetaToolExecute then handleExecute sb caller args allowedTools s
      else (error_result (''Unknown code mode tool: '' @ name), s))"

subsection \<open>What a run may do\<close>

text \<open>A run makes calls of the gateway with names of its tools, and nothing else changes the state: a relation that holds
  of every such call, and is reflexive and transitive, holds of the whole run.\<close>

lemma run_script_rel:
  assumes refl: "\<And>s. R s s" and trans: "\<And>s t u. R s t \<Longrightarrow> R t u \<Longrightarrow> R s u"
    and step: "\<And>now server tool args s. server @ ToolNameDelimiter @ tool \<in> set toolSet
      \<Longrightarrow> R s (snd (caller now (server @ ToolNameDelimiter @ tool) args s))"
  shows "R s (snd (run_script sb caller toolSet sc s))"
proof (induction sc arbitrary: s)
  case (CallTool now server tool args k)
  let ?p = "server @ ToolNameDelimiter @ tool"
  obtain r s1 where c: "caller now ?p args s = (r, s1)" by (cases "caller now ?p args s")
  show ?case
  proof (cases "?p \<in> set toolSet")
    case True
    have "R s s1" using step [OF True, of s now args] c by simp
    moreover have "R s1 (snd (run_script sb caller toolSet (k (js_reply sb tool r)) s1))" by (rule CallTool) (rule rangeI)
    ultimately show ?thesis using True c trans by (simp add: Let_def)
  next
    case False
    then show ?thesis using CallTool [OF rangeI] by (simp add: Let_def)
  qed
qed (simp_all add: refl)

lemma HandleCall_rel:
  assumes "\<And>s. R s s" and "\<And>s t u. R s t \<Longrightarrow> R t u \<Longrightarrow> R s u"
    and "\<And>now server tool args s. server @ ToolNameDelimiter @ tool \<in> t_name ` set allowedTools
      \<Longrightarrow> R s (snd (caller now (server @ ToolNameDelimiter @ tool) args s))"
  shows "R s (snd (HandleCall sb caller name args allowedTools s))"
proof -
  have run: "R u (snd (run_script sb caller (map t_name allowedTools) sc u))" for sc u
    by (rule run_script_rel [of R]) (use assms in auto)
  have "R s (snd (Execute sb caller allowedTools code s))" for code
    using run assms(1) by (simp add: Execute_def split: sum.split)
  then have "R s (snd (handleExecute sb caller args allowedTools s))"
    using assms(1) by (auto simp: handleExecute_def Let_def split: prod.split sum.split) (metis snd_conv)+
  then show ?thesis using assms(1) by (simp add: HandleCall_def)
qed

lemma run_script_cong:
  assumes inv: "I s"
    and step: "\<And>now server tool args s. I s \<Longrightarrow> caller now (server @ ToolNameDelimiter @ tool) args s
        = caller' now (server @ ToolNameDelimiter @ tool) args s
        \<and> I (snd (caller now (server @ ToolNameDelimiter @ tool) args s))"
  shows "run_script sb caller toolSet sc s = run_script sb caller' toolSet sc s"
  using inv
proof (induction sc arbitrary: s)
  case (CallTool now server tool args k)
  let ?p = "server @ ToolNameDelimiter @ tool"
  obtain r s1 where c: "caller now ?p args s = (r, s1)" by (cases "caller now ?p args s")
  then have "caller' now ?p args s = (r, s1)" "I s1" using step [OF CallTool.prems, of now server tool args] by auto
  then show ?case using c CallTool.IH [OF rangeI] CallTool.prems by (simp add: Let_def)
qed simp_all

lemma HandleCall_cong:
  assumes "I s"
    and "\<And>now server tool args s. I s \<Longrightarrow> caller now (server @ ToolNameDelimiter @ tool) args s
        = caller' now (server @ ToolNameDelimiter @ tool) args s
        \<and> I (snd (caller now (server @ ToolNameDelimiter @ tool) args s))"
  shows "HandleCall sb caller name args tools s = HandleCall sb caller' name args tools s"
proof -
  have "run_script sb caller ts sc s = run_script sb caller' ts sc s" for ts sc
    by (rule run_script_cong [of I, OF assms(1)]) (rule assms(2))
  then show ?thesis by (simp add: HandleCall_def handleExecute_def Execute_def Let_def cong: if_cong split: sum.split)
qed

end
