(* ===== verification/Gateway.thy ===== *)
theory Gateway
  imports Client_Scope Tool_Groups Rate_Limits Autoscaler Router Session Text_Util Code_Mode
begin

text \<open>
  The tool path of the gateway (\<^verbatim>\<open>pkg/mcp/gateway.go\<close>): what a client is shown by \<^verbatim>\<open>tools/list\<close> and
  what happens to a \<^verbatim>\<open>tools/call\<close>.

  The state holds the router, the installed policies, the blocked servers and the autoscalers. A scaler
  and the router share a replica set by pointer; the router's copy is the current one. What lies outside
  the gateway is the parameter record \<open>env\<close>, acting on a world \<open>'w\<close>: the downstream call
  (\<^verbatim>\<open>AgentClient.CallTool\<close>), the spawner, the engine of code mode (\<open>sandbox\<close> of \<open>Code_Mode\<close>), the
  envelope of \<^verbatim>\<open>mrtr.go\<close>, the output formatter, and the rate limiter. Call arguments are \<open>'a\<close>. Tracing, logging
  and observers do not change the state and are left out.
\<close>

subsection \<open>Messages\<close>

text \<open>\<^verbatim>\<open>time.Duration.String\<close> of a positive whole number of seconds.\<close>

definition whole_seconds :: "duration \<Rightarrow> string" where
  "whole_seconds d =
     (let s = d div second; h = s div 3600; m = s div 60 in
      (if h > 0 then itoa h @ ''h'' else []) @ (if m > 0 then itoa (m mod 60) @ ''m'' else []) @ itoa (s mod 60) @ ''s'')"

definition rate_message :: "rate_denial \<Rightarrow> string" where
  "rate_message r =
     (case r of RateLimitExceeded scope rawKey perMinute retry \<Rightarrow>
        ''Rate limit exceeded for '' @ scope @ '' '' @ go_quote rawKey @ '': '' @ itoa perMinute
        @ '' calls/min. Retry after ~'' @ whole_seconds retry @ ''.'')"

definition route_message :: "route_error \<Rightarrow> string" where
  "route_message e =
     (case e of
        BadToolName (InvalidToolNameFormat p) \<Rightarrow> ''invalid tool name format: '' @ p @ '' (expected server__tool)''
      | UnknownServer s \<Rightarrow> ''unknown server: '' @ s
      | ServerUnavailable s ErrNoHealthyReplicas \<Rightarrow> ''server '' @ s @ '': no healthy replicas'')"

subsection \<open>State\<close>

record 'l gateway =
  gw_router :: router
  gw_codeMode :: bool
  gw_clientPolicy :: "client_access_policy option"
  gw_groupPolicy :: "group_policy option"
  gw_limits :: "'l policy"
  gw_blockedServers :: "string list"
  gw_autoscalers :: "(string, autoscaler) gomap"
  gw_maxToolResultBytes :: int
  gw_outputFormats :: "(string, string) gomap"
  gw_defaultOutputFormat :: string

record ('l, 'a, 'w) env =
  env_limiter :: "'l limiter_ops"
  env_call :: "agent_client \<Rightarrow> string \<Rightarrow> 'a \<Rightarrow> 'w \<Rightarrow> (string + tool_result) \<times> 'w"
  env_spawn :: "string \<Rightarrow> 'w \<Rightarrow> (string + agent_client) \<times> 'w"
  env_sandbox :: "('a, 'l gateway \<times> 'w) sandbox"
  env_wrap :: "string \<Rightarrow> string \<Rightarrow> string"
  env_format :: "string \<Rightarrow> string \<Rightarrow> string option"

subsection \<open>Listing\<close>

definition scopeToolsForContext :: "'l gateway \<Rightarrow> call_ctx \<Rightarrow> tool list \<Rightarrow> tool list" where
  "scopeToolsForContext g ctx tools =
     (case gw_clientPolicy g of
        None \<Rightarrow> tools
      | Some p \<Rightarrow> Filter_tools (Some p) (ClientAccessIDFromContext ctx) tools)"

definition clientAllowsToolCall :: "'l gateway \<Rightarrow> call_ctx \<Rightarrow> string \<Rightarrow> bool" where
  "clientAllowsToolCall g ctx prefixedName =
     (case gw_clientPolicy g of
        None \<Rightarrow> True
      | Some p \<Rightarrow> Allows (Some p) (ClientAccessIDFromContext ctx) prefixedName)"

definition HandleToolsList :: "('l, 'a, 'w) env \<Rightarrow> 'l gateway \<Rightarrow> call_ctx \<Rightarrow> tool list \<times> 'l gateway" where
  "HandleToolsList env g ctx =
     (if gw_codeMode g then (ToolsList, g)
      else let (aggregated, r') = AggregatedTools (gw_router g);
               tools = scopeToolsForContext g ctx aggregated;
               grp = GroupFromContext ctx
           in (if grp \<noteq> [] then FilterAndRewrite (gw_groupPolicy g) grp tools else tools, g\<lparr>gw_router := r'\<rparr>))"

subsection \<open>Calling\<close>

definition groupDenialMessage :: "'l gateway \<Rightarrow> call_ctx \<Rightarrow> string \<Rightarrow> string \<Rightarrow> string \<times> 'l gateway" where
  "groupDenialMessage g ctx grp toolName =
     (if \<not> Has_group (gw_groupPolicy g) grp
      then (''Group '' @ go_quote grp @ '' no longer exists on this gateway. Reconnect or ask the operator which endpoint to use.'', g)
      else let (aggregated, r') = AggregatedTools (gw_router g);
               exposed = FilterAndRewrite (gw_groupPolicy g) grp (scopeToolsForContext g ctx aggregated)
           in (''Tool '' @ go_quote toolName @ '' is not in group '' @ go_quote grp @ ''. The group exposes ''
               @ itoa (int (length exposed)) @ '' tools; list them with tools/list.'', g\<lparr>gw_router := r'\<rparr>))"

text \<open>The only gate there is is the rate-limit gate: \<^verbatim>\<open>Policy.Gates\<close> returns it or nothing, and \<^verbatim>\<open>gateway_builder.go\<close>
  installs nothing else.\<close>

definition checkCallGates :: "('l, 'a, 'w) env \<Rightarrow> gotime \<Rightarrow> 'l gateway \<Rightarrow> call_ctx \<Rightarrow> string
    \<Rightarrow> rate_denial gate_decision \<times> 'l gateway" where
  "checkCallGates env now g ctx prefixedName =
     (case gw_limits g of
        None \<Rightarrow> (GateAllow, g)
      | Some rates \<Rightarrow>
          let serverName = (case ParsePrefixedTool prefixedName of Inl _ \<Rightarrow> [] | Inr (s, _) \<Rightarrow> s);
              call = \<lparr>gc_prefixedTool = prefixedName, gc_serverName = serverName,
                      gc_clientAccessID = ClientAccessIDFromContext ctx\<rparr>;
              (d, rates') = CheckToolCall (env_limiter env) now rates call
          in (d, g\<lparr>gw_limits := Some rates'\<rparr>))"

text \<open>The cold start of an autoscaled server, on the replica set that the router holds.\<close>

definition cold_start :: "('l, 'a, 'w) env \<Rightarrow> gotime \<Rightarrow> string \<Rightarrow> 'l gateway \<Rightarrow> 'w \<Rightarrow> bool \<times> 'l gateway \<times> 'w" where
  "cold_start env now serverName g w =
     (case map_of (gw_autoscalers g) serverName of
        None \<Rightarrow> (False, g, w)
      | Some scaler \<Rightarrow>
          let st = map_of (rt_sets (gw_router g)) serverName;
              a = (case st of None \<Rightarrow> scaler | Some s \<Rightarrow> scaler\<lparr>as_set := s\<rparr>);
              ((err, a'), w') = TriggerColdStart (env_spawn env serverName) now a w;
              g1 = g\<lparr>gw_autoscalers := AList.update serverName a' (gw_autoscalers g)\<rparr>;
              g2 = (case st of None \<Rightarrow> g1 | Some _ \<Rightarrow> g1\<lparr>gw_router := put_set (gw_router g1) serverName (as_set a')\<rparr>)
          in (err = None, g2, w'))"

text \<open>Routing with the cold-start retry. When the cold start itself fails, the routing error is kept.\<close>

definition route_call :: "('l, 'a, 'w) env \<Rightarrow> gotime \<Rightarrow> string \<Rightarrow> 'l gateway \<Rightarrow> 'w
    \<Rightarrow> (route_error + replica \<times> string) \<times> 'l gateway \<times> 'w" where
  "route_call env now name g w =
     (let (res, r') = RouteToolCallReplica (gw_router g) name; g1 = g\<lparr>gw_router := r'\<rparr> in
      case res of
        Inr ok \<Rightarrow> (Inr ok, g1, w)
      | Inl e \<Rightarrow>
          (case ParsePrefixedTool name of
             Inl _ \<Rightarrow> (Inl e, g1, w)
           | Inr (serverName, _) \<Rightarrow>
               let (started, g2, w2) = cold_start env now serverName g1 w in
               if started
               then let (res', r'') = RouteToolCallReplica (gw_router g2) name in (res', g2\<lparr>gw_router := r''\<rparr>, w2)
               else (Inl e, g2, w2)))"

definition defaultMaxToolResultBytes :: int where
  "defaultMaxToolResultBytes = 65536"

definition truncate_content :: "int \<Rightarrow> content \<Rightarrow> content" where
  "truncate_content limit c =
     (if c_type c \<noteq> ''text'' \<or> c_text c = [] then c
      else let (truncated, was) = TruncateResult (c_text c) limit in if was then c\<lparr>c_text := truncated\<rparr> else c)"

definition applyTruncation :: "'l gateway \<Rightarrow> tool_result \<Rightarrow> tool_result" where
  "applyTruncation g result =
     (let limit = (if gw_maxToolResultBytes g = 0 then defaultMaxToolResultBytes else gw_maxToolResultBytes g);
          r1 = result\<lparr>tr_content := map (truncate_content limit) (tr_content result)\<rparr>;
          len = int (length (tr_structuredContent r1))
      in if limit > 0 \<and> len > limit
         then r1\<lparr>tr_content := tr_content r1 @ [NewTextContent (''[structuredContent dropped: '' @ itoa len
                   @ '' bytes exceeds the '' @ itoa limit @ ''-byte result limit]'')],
                 tr_structuredContent := []\<rparr>
         else r1)"

definition resolveOutputFormat :: "'l gateway \<Rightarrow> string \<Rightarrow> string" where
  "resolveOutputFormat g serverName =
     (case map_of (gw_outputFormats g) serverName of
        Some f \<Rightarrow> if f \<noteq> [] then f else if gw_defaultOutputFormat g \<noteq> [] then gw_defaultOutputFormat g else ''json''
      | None \<Rightarrow> if gw_defaultOutputFormat g \<noteq> [] then gw_defaultOutputFormat g else ''json'')"

definition maxFormatPayloadSize :: nat where
  "maxFormatPayloadSize = 1048576"

definition format_content :: "('l, 'a, 'w) env \<Rightarrow> string \<Rightarrow> content \<Rightarrow> content" where
  "format_content env outputFormat c =
     (if c_type c \<noteq> ''text'' \<or> c_text c = [] then c
      else if length (c_text c) > maxFormatPayloadSize then c
      else case env_format env outputFormat (c_text c) of None \<Rightarrow> c | Some formatted \<Rightarrow> c\<lparr>c_text := formatted\<rparr>)"

definition applyFormatConversion :: "('l, 'a, 'w) env \<Rightarrow> 'l gateway \<Rightarrow> string \<Rightarrow> tool_result \<Rightarrow> tool_result" where
  "applyFormatConversion env g serverName result =
     (if tr_isError result then result
      else let f = resolveOutputFormat g serverName in
        if f = [] \<or> f = ''json'' \<or> f = ''text'' then result
        else result\<lparr>tr_content := map (format_content env f) (tr_content result)\<rparr>)"

text \<open>A write through the pointer of a replica of a server.\<close>

definition bump :: "string \<Rightarrow> int \<Rightarrow> (replica \<Rightarrow> replica) \<Rightarrow> 'l gateway \<Rightarrow> 'l gateway" where
  "bump server i f g =
     (case map_of (rt_sets (gw_router g)) server of
        None \<Rightarrow> g
      | Some st \<Rightarrow> g\<lparr>gw_router := put_set (gw_router g) server (update_replica i f st)\<rparr>)"

text \<open>The part of the handler after routing: the block list, the retry cross-check (\<open>expected\<close> is the server
  recorded in the retry envelope, empty for none), and the downstream call between the two updates of the
  in-flight counter.\<close>

definition dispatch :: "('l, 'a, 'w) env \<Rightarrow> string \<Rightarrow> string \<Rightarrow> 'a \<Rightarrow> replica \<Rightarrow> string \<Rightarrow> 'l gateway \<Rightarrow> 'w
    \<Rightarrow> tool_result \<times> 'l gateway \<times> 'w" where
  "dispatch env expected server args rep toolName g w =
     (let client = r_client rep; name = ac_name client in
      if name \<in> set (gw_blockedServers g)
      then (error_result (''server '' @ go_quote name @ '' is blocked pending schema approval; run 'gridctl pins approve ''
              @ name @ [CHR 0x27] @ '' to resume''), g, w)
      else if expected \<noteq> [] \<and> expected \<noteq> name
      then (error_result (''MRTR retry routed to server '' @ go_quote name @ '' but its requestState originates from ''
              @ go_quote expected @ ''; re-issue the original call''), g, w)
      else
        let g1 = bump server (r_id rep) IncInFlight g;
            (res, w') = env_call env client toolName args w;
            g2 = bump server (r_id rep) DecInFlight g1
        in case res of
          Inl e \<Rightarrow> (error_result (''Error calling tool: '' @ e), g2, w')
        | Inr result \<Rightarrow>
            let r1 = (if tr_requestState result \<noteq> [] then result\<lparr>tr_requestState := env_wrap env name (tr_requestState result)\<rparr> else result)
            in (applyFormatConversion env g2 name (applyTruncation g2 r1), g2, w'))"

definition unknown_tool :: "'l gateway \<Rightarrow> string \<Rightarrow> bool" where
  "unknown_tool g name =
     (case ParsePrefixedTool name of Inl _ \<Rightarrow> True | Inr (s, _) \<Rightarrow> GetReplicaSet (gw_router g) s = None)"

text \<open>The handler from the access scope on, for a canonical name.\<close>

definition call_canonical :: "('l, 'a, 'w) env \<Rightarrow> gotime \<Rightarrow> string \<Rightarrow> call_ctx \<Rightarrow> string \<Rightarrow> 'a \<Rightarrow> 'l gateway \<Rightarrow> 'w
    \<Rightarrow> tool_result \<times> 'l gateway \<times> 'w" where
  "call_canonical env now expected ctx name args g w =
     (if \<not> clientAllowsToolCall g ctx name
      then (error_result (''Error: tool '' @ go_quote name @ '' is not in this client's access scope''), g, w)
      else let (d, g1) = checkCallGates env now g ctx name in
        (case d of
           GateDeny msg \<Rightarrow> (error_result (rate_message msg), g1, w)
         | GateAllow \<Rightarrow>
             (case route_call env now name g1 w of
                (Inl e, g2, w2) \<Rightarrow>
                  ((error_result (''Error: '' @ route_message e))\<lparr>tr_unknownTool := unknown_tool g2 name\<rparr>, g2, w2)
              | (Inr (rep, toolName), g2, w2) \<Rightarrow>
                  let server = (case ParsePrefixedTool name of Inl _ \<Rightarrow> [] | Inr (s, _) \<Rightarrow> s) in
                  dispatch env expected server args rep toolName g2 w2)))"

text \<open>The whole handler. In code mode a script calls \<^verbatim>\<open>Gateway.CallTool\<close>, which enters the handler again, with the same
  context and without a retry envelope: this is the argument \<open>inner\<close>.\<close>

definition handle_call :: "(gotime \<Rightarrow> string \<Rightarrow> 'a \<Rightarrow> 'l gateway \<times> 'w \<Rightarrow> tool_result \<times> 'l gateway \<times> 'w) \<Rightarrow> ('l, 'a, 'w) env \<Rightarrow> gotime
    \<Rightarrow> string \<Rightarrow> call_ctx \<Rightarrow> string \<Rightarrow> 'a \<Rightarrow> 'l gateway \<Rightarrow> 'w \<Rightarrow> tool_result \<times> 'l gateway \<times> 'w" where
  "handle_call inner env now expected ctx name0 args g w =
     (let grp = GroupFromContext ctx;
          meta = (gw_codeMode g \<and> IsMetaTool name0);
          resolved = (if grp \<noteq> [] \<and> \<not> meta
                      then ResolveAlias (gw_groupPolicy g) grp name0 (Some (HasTool (gw_router g)))
                      else Some name0)
      in case resolved of
        None \<Rightarrow> let (msg, g') = groupDenialMessage g ctx grp name0 in (error_result msg, g', w)
      | Some name \<Rightarrow>
          if gw_codeMode g \<and> IsMetaTool name
          then let (aggregated, r') = AggregatedTools (gw_router g);
                   scoped = scopeToolsForContext g ctx aggregated;
                   allTools = (if grp \<noteq> [] then FilterAndRewritePrefixed (gw_groupPolicy g) grp scoped else scoped)
               in HandleCall (env_sandbox env) inner name args allTools (g\<lparr>gw_router := r'\<rparr>, w)
          else call_canonical env now expected ctx name args g w)"

text \<open>The handler with scripts nested at most as deep as the first argument says. One level is all there is
  (\<open>tools_call_stable\<close>): the name of an inner call has a server prefix, and so resolves to no meta tool.\<close>

primrec tools_call :: "nat \<Rightarrow> ('l, 'a, 'w) env \<Rightarrow> gotime \<Rightarrow> string \<Rightarrow> call_ctx \<Rightarrow> string \<Rightarrow> 'a \<Rightarrow> 'l gateway \<Rightarrow> 'w
    \<Rightarrow> tool_result \<times> 'l gateway \<times> 'w" where
  "tools_call 0 env = handle_call (\<lambda>_ _ _ s. (error_result [], s)) env"
| "tools_call (Suc n) env = (\<lambda>now expected ctx.
     handle_call (\<lambda>now' name args (g, w). tools_call n env now' [] ctx name args g w) env now expected ctx)"

definition HandleToolsCall :: "('l, 'a, 'w) env \<Rightarrow> gotime \<Rightarrow> string \<Rightarrow> call_ctx \<Rightarrow> string \<Rightarrow> 'a \<Rightarrow> 'l gateway \<Rightarrow> 'w
    \<Rightarrow> tool_result \<times> 'l gateway \<times> 'w" where
  "HandleToolsCall = tools_call 1"

subsection \<open>Facts about the steps\<close>

text \<open>The name a call is decided on: the canonical name a group session's name resolves to.\<close>

definition canonical_name :: "'l gateway \<Rightarrow> call_ctx \<Rightarrow> string \<Rightarrow> string option" where
  "canonical_name g ctx name0 =
     (if GroupFromContext ctx \<noteq> [] \<and> \<not> (gw_codeMode g \<and> IsMetaTool name0)
      then ResolveAlias (gw_groupPolicy g) (GroupFromContext ctx) name0 (Some (HasTool (gw_router g)))
      else Some name0)"

text \<open>A call that code mode answers itself.\<close>

definition meta_call :: "'l gateway \<Rightarrow> call_ctx \<Rightarrow> string \<Rightarrow> bool" where
  "meta_call g ctx name0 \<longleftrightarrow> gw_codeMode g \<and> (\<exists>c. canonical_name g ctx name0 = Some c \<and> IsMetaTool c)"

text \<open>The tools a script may call.\<close>

definition code_mode_tools :: "'l gateway \<Rightarrow> call_ctx \<Rightarrow> tool list" where
  "code_mode_tools g ctx =
     (let scoped = scopeToolsForContext g ctx (fst (AggregatedTools (gw_router g))) in
      if GroupFromContext ctx \<noteq> [] then FilterAndRewritePrefixed (gw_groupPolicy g) (GroupFromContext ctx) scoped else scoped)"

lemma handle_call_eq:
  "handle_call inner env now expected ctx name0 args g w =
     (case canonical_name g ctx name0 of
        None \<Rightarrow> (error_result (fst (groupDenialMessage g ctx (GroupFromContext ctx) name0)),
                 snd (groupDenialMessage g ctx (GroupFromContext ctx) name0), w)
      | Some name \<Rightarrow>
          if gw_codeMode g \<and> IsMetaTool name
          then HandleCall (env_sandbox env) inner name args (code_mode_tools g ctx)
                 (g\<lparr>gw_router := snd (AggregatedTools (gw_router g))\<rparr>, w)
          else call_canonical env now expected ctx name args g w)"
  by (simp add: handle_call_def canonical_name_def code_mode_tools_def Let_def split_beta split: option.split)

lemma handle_call_plain:
  "\<not> meta_call g ctx name \<Longrightarrow> handle_call inner env now expected ctx name args g w = handle_call inner' env now expected ctx name args g w"
  by (auto simp: handle_call_eq meta_call_def split: option.split)

lemma tools_call_plain:
  "\<not> meta_call g ctx name \<Longrightarrow> tools_call m env now expected ctx name args g w = tools_call n env now expected ctx name args g w"
  by (cases m; cases n) (simp_all add: handle_call_plain)

text \<open>The groups a session can be in, as validation accepts them.\<close>

definition group_ok :: "'l gateway \<Rightarrow> call_ctx \<Rightarrow> bool" where
  "group_ok g ctx \<longleftrightarrow>
     (\<forall>gs d. gw_groupPolicy g = Some gs \<longrightarrow> map_of gs (GroupFromContext ctx) = Some d \<longrightarrow> group_def_ok d)"

lemma prefixed_not_meta: "\<not> IsMetaTool (server @ ToolNameDelimiter @ tool)"
proof -
  have "CHR ''_'' \<notin> set MetaToolSearch \<union> set MetaToolExecute" by (simp add: MetaToolSearch_def MetaToolExecute_def)
  moreover have "CHR ''_'' \<in> set (server @ ToolNameDelimiter @ tool)" by (simp add: ToolNameDelimiter_def)
  ultimately show ?thesis unfolding IsMetaTool_def by (metis UnI1 UnI2)
qed

lemma meta_not_parsed: "IsMetaTool c \<Longrightarrow> parsed c = None"
  by (auto simp: IsMetaTool_def MetaToolSearch_def MetaToolExecute_def parsed_None_iff contains_def)

lemma inner_call_plain:
  assumes "group_ok g ctx"
  shows "\<not> meta_call g ctx (server @ ToolNameDelimiter @ tool)"
proof
  let ?p = "server @ ToolNameDelimiter @ tool"
  assume "meta_call g ctx ?p"
  then obtain c where c: "canonical_name g ctx ?p = Some c" "IsMetaTool c" unfolding meta_call_def by blast
  with prefixed_not_meta [of server tool] obtain gs d where "gw_groupPolicy g = Some gs" "map_of gs (GroupFromContext ctx) = Some d"
      "resolve_in d (Some (HasTool (gw_router g))) ?p = Some c"
    by (auto simp: canonical_name_def ResolveAlias_def split: if_splits option.splits)
  with assms have "isMember d c" "group_def_ok d" using resolve_in_member by (auto simp: group_ok_def)
  with group_def_okD(4) meta_not_parsed [OF c(2)] show False by blast
qed

lemma HandleToolsCall_plain:
  "\<not> meta_call g ctx name0 \<Longrightarrow> HandleToolsCall env now expected ctx name0 args g w =
     (case canonical_name g ctx name0 of
        None \<Rightarrow> (error_result (fst (groupDenialMessage g ctx (GroupFromContext ctx) name0)),
                 snd (groupDenialMessage g ctx (GroupFromContext ctx) name0), w)
      | Some name \<Rightarrow> call_canonical env now expected ctx name args g w)"
  by (auto simp: HandleToolsCall_def handle_call_eq meta_call_def split: option.split)

lemma checkCallGates_keeps [simp]:
  "gw_router (snd (checkCallGates env now g ctx n)) = gw_router g"
  "gw_blockedServers (snd (checkCallGates env now g ctx n)) = gw_blockedServers g"
  "gw_autoscalers (snd (checkCallGates env now g ctx n)) = gw_autoscalers g"
  "gw_codeMode (snd (checkCallGates env now g ctx n)) = gw_codeMode g"
  by (simp_all add: checkCallGates_def Let_def split_beta split: option.splits)

lemma cold_start_keeps [simp]:
  "gw_blockedServers (fst (snd (cold_start env now s g w))) = gw_blockedServers g"
  by (simp add: cold_start_def Let_def split_beta split: option.splits)

lemma Pick_sound: "fst (Pick st) = Inr r \<Longrightarrow> r \<in> set (rs_replicas st) \<and> r_healthy r"
  using lc_scan_spec [of None "rs_replicas st"]
  by (auto simp: Pick_def pickLeastConnectionsLocked_def dest: round_robin.pick_sound split: if_splits option.splits)

lemma RouteToolCallReplica_eq:
  "ParsePrefixedTool p = Inr (s, t) \<Longrightarrow> map_of (rt_sets r) s = Some st \<Longrightarrow>
     RouteToolCallReplica r p =
       (map_sum (ServerUnavailable s) (\<lambda>rep. (rep, t)) (fst (Pick st)), put_set r s (snd (Pick st)))"
  by (cases "fst (Pick st)") (simp_all add: RouteToolCallReplica_def split_beta)

lemma RouteToolCallReplica_Inr:
  assumes "RouteToolCallReplica r p = (Inr (rep, t), r')"
  obtains s st where "ParsePrefixedTool p = Inr (s, t)" "map_of (rt_sets r) s = Some st" "rep \<in> set (rs_replicas st)"
    "r_healthy rep" "r' = put_set r s (snd (Pick st))"
proof -
  from assms obtain s u where p: "ParsePrefixedTool p = Inr (s, u)"
    by (cases "ParsePrefixedTool p") (auto simp: RouteToolCallReplica_def)
  with assms obtain st where st: "map_of (rt_sets r) s = Some st"
    by (cases "map_of (rt_sets r) s") (auto simp: RouteToolCallReplica_def)
  from assms have "fst (Pick st) = Inr rep" "u = t" "r' = put_set r s (snd (Pick st))"
    unfolding RouteToolCallReplica_eq [OF p st] by (cases "fst (Pick st)"; auto)+
  with p st Pick_sound [of st rep] that show thesis by blast
qed

lemma route_call_from:
  assumes "route_call env now p g w = (Inr ok, g', w')"
  obtains g0 where "fst (RouteToolCallReplica (gw_router g0) p) = Inr ok"
    "g' = g0\<lparr>gw_router := snd (RouteToolCallReplica (gw_router g0) p)\<rparr>" "gw_blockedServers g0 = gw_blockedServers g"
    "w' = w \<or> (\<exists>s. w' = snd (snd (cold_start env now s (g\<lparr>gw_router := snd (RouteToolCallReplica (gw_router g) p)\<rparr>) w)))"
proof (cases "fst (RouteToolCallReplica (gw_router g) p)")
  case (Inr x)
  with assms show thesis by (intro that [of g]) (auto simp: route_call_def Let_def split_beta)
next
  case (Inl e)
  let ?g1 = "g\<lparr>gw_router := snd (RouteToolCallReplica (gw_router g) p)\<rparr>"
  from Inl assms obtain s u where s: "ParsePrefixedTool p = Inr (s, u)"
    by (cases "ParsePrefixedTool p") (auto simp: route_call_def Let_def split_beta)
  let ?c = "cold_start env now s ?g1 w"
  from Inl assms s have "fst ?c" by (cases "fst ?c") (auto simp: route_call_def Let_def split_beta)
  with Inl assms s show thesis
    by (intro that [of "fst (snd ?c)"]) (auto simp: route_call_def Let_def split_beta)
qed

lemma route_call_Inr:
  assumes "route_call env now p g w = (Inr (rep, t), g', w')"
  obtains s st where "ParsePrefixedTool p = Inr (s, t)" "map_of (rt_sets (gw_router g')) s = Some st"
    "rep \<in> set (rs_replicas st)" "r_healthy rep" "gw_blockedServers g' = gw_blockedServers g"
  using assms
proof (rule route_call_from)
  fix g0 assume g0: "fst (RouteToolCallReplica (gw_router g0) p) = Inr (rep, t)"
    "g' = g0\<lparr>gw_router := snd (RouteToolCallReplica (gw_router g0) p)\<rparr>" "gw_blockedServers g0 = gw_blockedServers g"
  then have "RouteToolCallReplica (gw_router g0) p = (Inr (rep, t), gw_router g')" by (simp add: prod_eq_iff)
  then show thesis
  proof (rule RouteToolCallReplica_Inr)
    fix s st assume *: "ParsePrefixedTool p = Inr (s, t)" "map_of (rt_sets (gw_router g0)) s = Some st"
      "rep \<in> set (rs_replicas st)" "r_healthy rep" "gw_router g' = put_set (gw_router g0) s (snd (Pick st))"
    then have "map_of (rt_sets (gw_router g')) s = Some (snd (Pick st))" by (simp add: put_set_def map_of_update)
    with * g0 show thesis by (intro that [of s "snd (Pick st)"]) auto
  qed
qed

lemma bump_keeps [simp]: "gw_blockedServers (bump s i f g) = gw_blockedServers g"
  by (simp add: bump_def split: option.splits)

lemma bump_inverse:
  assumes "map_of (rt_sets (gw_router g)) s = Some st"
  shows "bump s i DecInFlight (bump s i IncInFlight g) = g"
proof -
  have "update_replica i DecInFlight (update_replica i IncInFlight st) = st"
    by (cases st) (simp add: update_replica_def IncInFlight_def DecInFlight_def comp_def if_distrib cong: if_cong)
  moreover have "AList.update s st (AList.update s x (rt_sets (gw_router g))) = rt_sets (gw_router g)" for x
  proof -
    have "map_of m s = Some st \<Longrightarrow> AList.update s st (AList.update s x m) = m" for m by (induction m) (auto split: if_splits)
    with assms show ?thesis by blast
  qed
  ultimately show ?thesis using assms
    by (cases g; cases "gw_router g") (simp add: bump_def put_set_def map_of_update)
qed

text \<open>What no call changes.\<close>

definition settings :: "'l gateway \<Rightarrow> bool \<times> client_access_policy option \<times> group_policy option \<times> string list" where
  "settings g = (gw_codeMode g, gw_clientPolicy g, gw_groupPolicy g, gw_blockedServers g)"

lemma settings_router [simp]: "settings (g\<lparr>gw_router := r\<rparr>) = settings g"
  by (simp add: settings_def)

lemma settings_group_ok: "settings g = settings g' \<Longrightarrow> group_ok g ctx = group_ok g' ctx"
  by (simp add: settings_def group_ok_def)

lemma settings_steps [simp]:
  "settings (snd (checkCallGates env now g ctx n)) = settings g"
  "settings (fst (snd (cold_start env now s g w))) = settings g"
  "settings (bump s i f g) = settings g"
  "settings (snd (groupDenialMessage g ctx grp n)) = settings g"
  by (simp_all add: settings_def checkCallGates_def cold_start_def bump_def groupDenialMessage_def Let_def split_beta split: option.splits)

lemma settings_route [simp]: "settings (fst (snd (route_call env now n g w))) = settings g"
  by (simp add: route_call_def Let_def split_beta split: sum.split)

lemma settings_dispatch [simp]: "settings (fst (snd (dispatch env e s args rep t g w))) = settings g"
  by (simp add: dispatch_def Let_def split_beta split: sum.split)

lemma settings_canonical: "settings (fst (snd (call_canonical env now e ctx n args g w))) = settings g"
proof -
  obtain d g1 where d: "checkCallGates env now g ctx n = (d, g1)" by fastforce
  obtain r g2 w2 where r: "route_call env now n g1 w = (r, g2, w2)" by (metis prod_cases3)
  have "settings g1 = settings g" "settings g2 = settings g1"
    using d r settings_steps(1) [of env now g ctx n] settings_route [of env now n g1 w] by simp_all
  then show ?thesis
    by (auto simp: call_canonical_def d r Let_def split: gate_decision.split sum.split prod.split)
qed

text \<open>A relation between the states before and after a call, reflexive and transitive, that the refreshing of the tool
  index and every canonical call satisfy, holds of every call, with all that its script does.\<close>

lemma tools_call_rel:
  assumes refl: "\<And>s. R s s" and trans: "\<And>s t u. R s t \<Longrightarrow> R t u \<Longrightarrow> R s u"
    and router: "\<And>g r w. R (g, w) (g\<lparr>gw_router := r\<rparr>, w)"
    and step: "\<And>now e c args g w. R (g, w) (snd (call_canonical env now e ctx c args g w))"
  shows "R (g, w) (snd (tools_call n env now expected ctx name args g w))"
proof -
  have handle: "R (g, w) (snd (handle_call inner env now expected ctx name args g w))"
    if inner: "\<And>now name args s. R s (snd (inner now name args s))" for inner now expected name args g w
  proof -
    have "R (g\<lparr>gw_router := snd (AggregatedTools (gw_router g))\<rparr>, w)
        (snd (HandleCall (env_sandbox env) inner c args ts (g\<lparr>gw_router := snd (AggregatedTools (gw_router g))\<rparr>, w)))" for c ts
      by (rule HandleCall_rel [of R]) (use refl trans inner in blast)+
    moreover have "R (g, w) (snd (groupDenialMessage g ctx (GroupFromContext ctx) name), w)"
      using refl router by (simp add: groupDenialMessage_def Let_def split_beta)
    ultimately show ?thesis
      using trans [OF router [of g w "snd (AggregatedTools (gw_router g))"]] step by (simp add: handle_call_eq split: option.split)
  qed
  show ?thesis
  proof (induction n arbitrary: now expected name args g w)
    case 0
    show ?case using handle [of "\<lambda>_ _ _ s. (error_result [], s)"] refl by simp
  next
    case (Suc n)
    have "R s (snd (case s of (g, w) \<Rightarrow> tools_call n env now [] ctx name args g w))" for now name args s
      using Suc by (cases s) simp
    then show ?case using handle [of "\<lambda>now' name args (g, w). tools_call n env now' [] ctx name args g w"] by simp
  qed
qed

lemma settings_tools_call: "settings (fst (snd (tools_call n env now e ctx name args g w))) = settings g"
  using tools_call_rel [of "\<lambda>(g, _) (g', _). settings g' = settings g" env ctx g w n now e name args]
  by (simp add: case_prod_unfold settings_canonical)

lemma tools_call_stable:
  fixes g :: "'l gateway" and w :: 'w
  assumes "group_ok g ctx"
  shows "tools_call (Suc m) env now e ctx name args g w = tools_call (Suc n) env now e ctx name args g w"
proof (cases "meta_call g ctx name")
  case True
  then obtain c where c: "canonical_name g ctx name = Some c" "gw_codeMode g" "IsMetaTool c" unfolding meta_call_def by blast
  have "HandleCall sb (\<lambda>now' name args (g, w). tools_call m env now' [] ctx name args g w) c args ts s
      = HandleCall sb (\<lambda>now' name args (g, w). tools_call n env now' [] ctx name args g w) c args ts s"
    if "group_ok (fst s) ctx" for sb ts s
  proof (rule HandleCall_cong [of "\<lambda>s. group_ok (fst s) ctx"])
    fix now server tool args and s :: "'l gateway \<times> 'w"
    assume ok: "group_ok (fst s) ctx"
    obtain g w where s: "s = (g, w)" by (cases s)
    show "(case s of (g, w) \<Rightarrow> tools_call m env now [] ctx (server @ ToolNameDelimiter @ tool) args g w)
        = (case s of (g, w) \<Rightarrow> tools_call n env now [] ctx (server @ ToolNameDelimiter @ tool) args g w)
      \<and> group_ok (fst (snd (case s of (g, w) \<Rightarrow> tools_call m env now [] ctx (server @ ToolNameDelimiter @ tool) args g w))) ctx"
      using ok tools_call_plain [OF inner_call_plain, of g ctx m env now "[]" server tool args w n]
        settings_group_ok [OF settings_tools_call, of m env now "[]" ctx "server @ ToolNameDelimiter @ tool" args g w ctx]
      by (simp add: s)
  qed (rule that)
  moreover have "group_ok (g\<lparr>gw_router := r\<rparr>) ctx" for r using assms by (simp add: group_ok_def)
  ultimately show ?thesis using c by (simp add: handle_call_eq)
qed (simp add: handle_call_plain)

subsection \<open>Properties\<close>

text \<open>An environment and a gateway to exhibit: two servers, a client scoped to \<^verbatim>\<open>db\<close>, a group that
  renames one of its tools, a limit of two calls, and a world that is the log of downstream calls.\<close>

definition ok_result :: tool_result where
  "ok_result = \<lparr>tr_content = [NewTextContent ''ok''], tr_isError = False, tr_structuredContent = [],
     tr_requestState = [], tr_resultType = [], tr_unknownTool = False\<rparr>"

definition demo_sandbox :: "(unit, bucket gateway \<times> (string \<times> string) list) sandbox" where
  "demo_sandbox = \<lparr>sb_query = (\<lambda>_. []), sb_code = (\<lambda>_. ''code''), sb_transpile = Inr,
     sb_run = (\<lambda>_ _. CallTool 0 ''db'' ''shout'' () (\<lambda>_. CallTool 0 ''web'' ''get'' () (\<lambda>_. ScriptDone ''1'' []))),
     sb_lower = id, sb_isJSON = (\<lambda>_. False), sb_properties = (\<lambda>_. []), sb_indent = (\<lambda>_. Inr []), sb_timeout = ''30s''\<rparr>"

definition demo_env :: "(bucket, unit, (string \<times> string) list) env" where
  "demo_env = \<lparr>env_limiter = bucket_ops,
     env_call = (\<lambda>c t a w. (Inr ok_result, w @ [(ac_name c, t)])),
     env_spawn = (\<lambda>s w. (Inr (demo_server s [''get'']), w)),
     env_sandbox = demo_sandbox, env_wrap = (\<lambda>s st. st), env_format = (\<lambda>f s. None)\<rparr>"

definition demo_group_spec :: group_spec where
  "demo_group_spec = \<lparr>gs_description = [], gs_servers = [''db''], gs_tools = [], gs_exclude = [],
     gs_overrides = [(''db__get'', demo_override)]\<rparr>"

definition demo_gateway :: "bucket gateway" where
  "demo_gateway = \<lparr>gw_router = RefreshTools demo_router, gw_codeMode = False,
     gw_clientPolicy = NewClientAccessPolicy (Some \<lparr>cas_default = ''deny'',
        cas_profiles = [(''zed'', \<lparr>ps_aliases = [], ps_servers = [''db''], ps_tools = []\<rparr>)]\<rparr>),
     gw_groupPolicy = NewGroupPolicy [(''g'', demo_group_spec)], gw_limits = Some demo_rates,
     gw_blockedServers = [], gw_autoscalers = [], gw_maxToolResultBytes = 0, gw_outputFormats = [],
     gw_defaultOutputFormat = []\<rparr>"

definition demo_ctx :: call_ctx where
  "demo_ctx = WithGroup (WithClientAccessID background ''zed'') ''g''"

text \<open>C2. A denied call reaches nothing: when a group session's name does not resolve, or resolves to a name that the
  client's scope does not allow or a gate refuses, the result is an error, no downstream server is called and no replica
  is spawned. The two meta tools of code mode are not subject to scope and gates; the calls their scripts make are, since
  they are calls of the same kind.\<close>

theorem denied_call_reaches_nothing:
  assumes "HandleToolsCall env now expected ctx name args g w = (res, g', w')"
    and "case canonical_name g ctx name of None \<Rightarrow> True
      | Some c \<Rightarrow> \<not> (gw_codeMode g \<and> IsMetaTool c)
          \<and> (\<not> clientAllowsToolCall g ctx c \<or> fst (checkCallGates env now g ctx c) \<noteq> GateAllow)"
  shows "tr_isError res \<and> w' = w"
proof -
  have "\<not> meta_call g ctx name" using assms(2) by (auto simp: meta_call_def)
  from assms show ?thesis unfolding HandleToolsCall_plain [OF \<open>\<not> meta_call g ctx name\<close>]
    by (auto simp: call_canonical_def error_result_def Let_def split_beta split: option.splits if_splits gate_decision.splits)
qed

theorem denied_call_reaches_nothing_witness:
  "snd (snd (HandleToolsCall demo_env 0 [] (WithClientAccessID background ''zed'') ''web__get'' () demo_gateway [])) = []"
proof -
  let ?ctx = "WithClientAccessID background ''zed''"
  obtain res g' w' where h: "HandleToolsCall demo_env 0 [] ?ctx ''web__get'' () demo_gateway [] = (res, g', w')"
    by (metis prod_cases3)
  have "canonical_name demo_gateway ?ctx ''web__get'' = Some ''web__get''" "\<not> clientAllowsToolCall demo_gateway ?ctx ''web__get''"
    by code_simp+
  moreover have "\<not> gw_codeMode demo_gateway" by (simp add: demo_gateway_def)
  ultimately show ?thesis using denied_call_reaches_nothing [OF h] h by simp
qed

text \<open>Routing and dispatching against a world that logs the downstream calls.\<close>

lemma route_call_quiet:
  assumes "\<And>s v. snd (env_spawn env s v) = v"
  shows "snd (snd (route_call env now n g w)) = w"
proof -
  have "snd (snd (cold_start env now s g0 v)) = v" for s g0 v
    using assms by (auto simp: cold_start_def TriggerColdStart_def Let_def split_beta split: option.splits sum.splits)
  then show ?thesis by (auto simp: route_call_def Let_def split_beta split: sum.splits)
qed

lemma dispatch_logged:
  assumes "\<And>c t a v. snd (env_call env c t a v) = v @ [(ac_name c, t)]"
    and "dispatch env expected server args rep tool g w = (res, g', w')" and "map_of (rt_sets (gw_router g)) server = Some st"
  shows "w' = w \<or> ac_name (r_client rep) \<notin> set (gw_blockedServers g) \<and> (expected = [] \<or> expected = ac_name (r_client rep))
    \<and> g' = g \<and> w' = w @ [(ac_name (r_client rep), tool)]"
proof (cases "ac_name (r_client rep) \<in> set (gw_blockedServers g) \<or> (expected \<noteq> [] \<and> expected \<noteq> ac_name (r_client rep))")
  case True
  with assms(2) show ?thesis by (auto simp: dispatch_def Let_def split: if_splits)
next
  case False
  with assms(1) [of "r_client rep" tool args w] assms(2) bump_inverse [OF assms(3)] show ?thesis
    by (auto simp: dispatch_def Let_def split_beta split: sum.splits)
qed

lemma call_canonical_cases:
  assumes "call_canonical env now expected ctx c args g w = (res, g', w')"
  obtains (refused) "w' = w"
    | (unrouted) "w' = snd (snd (route_call env now c (snd (checkCallGates env now g ctx c)) w))"
    | (routed) rep tool server st g2 w2 where "clientAllowsToolCall g ctx c"
        "fst (checkCallGates env now g ctx c) = GateAllow"
        "route_call env now c (snd (checkCallGates env now g ctx c)) w = (Inr (rep, tool), g2, w2)"
        "ParsePrefixedTool c = Inr (server, tool)" "map_of (rt_sets (gw_router g2)) server = Some st"
        "rep \<in> set (rs_replicas st)" "r_healthy rep" "gw_blockedServers g2 = gw_blockedServers g"
        "dispatch env expected server args rep tool g2 w2 = (res, g', w')"
proof (cases "clientAllowsToolCall g ctx c \<and> fst (checkCallGates env now g ctx c) = GateAllow")
  case False
  then have "w' = w" using assms
    by (auto simp: call_canonical_def Let_def split_beta split: if_splits gate_decision.splits)
  then show ?thesis by (rule refused)
next
  case True
  obtain d g1 where d: "checkCallGates env now g ctx c = (d, g1)" by fastforce
  obtain r g2 w2 where rt: "route_call env now c g1 w = (r, g2, w2)" by (metis prod_cases3)
  show ?thesis
  proof (cases r)
    case (Inl e)
    with assms True d rt show ?thesis by (intro unrouted) (simp add: call_canonical_def)
  next
    case (Inr ok)
    obtain rep tool where ok: "ok = (rep, tool)" by (cases ok)
    with Inr rt have rt': "route_call env now c g1 w = (Inr (rep, tool), g2, w2)" by simp
    then show ?thesis
    proof (rule route_call_Inr)
      fix s st
      assume s: "ParsePrefixedTool c = Inr (s, tool)" "map_of (rt_sets (gw_router g2)) s = Some st" "rep \<in> set (rs_replicas st)"
        "r_healthy rep" "gw_blockedServers g2 = gw_blockedServers g1"
      have "gw_blockedServers g1 = gw_blockedServers g" using d checkCallGates_keeps(2) [of env now g ctx c] by simp
      moreover have "dispatch env expected s args rep tool g2 w2 = (res, g', w')"
        using assms True d rt' s(1) by (simp add: call_canonical_def)
      ultimately show ?thesis using True d rt' s by (intro routed [of rep tool g2 w2 s st]) simp_all
    qed
  qed
qed

text \<open>What one ordinary call does to the log \<open>w\<close> of downstream calls: nothing, or one entry, for a canonical name that the
  client's scope allows and the gates admit, to a healthy replica of the server that the name says, which is not blocked,
  with the tool that the name says; a retry state came from that server.\<close>

definition authorised :: "('l, 'a, (string \<times> string) list) env \<Rightarrow> gotime \<Rightarrow> string \<Rightarrow> call_ctx \<Rightarrow> string \<Rightarrow> 'l gateway
    \<Rightarrow> (string \<times> string) list \<Rightarrow> 'l gateway \<Rightarrow> (string \<times> string) list \<Rightarrow> bool" where
  "authorised env now expected ctx name g w g' w' \<longleftrightarrow> w' = w \<or> (\<exists>c server tool st rep.
      canonical_name g ctx name = Some c \<and> clientAllowsToolCall g ctx c
      \<and> fst (checkCallGates env now g ctx c) = GateAllow
      \<and> ParsePrefixedTool c = Inr (server, tool)
      \<and> map_of (rt_sets (gw_router g')) server = Some st \<and> rep \<in> set (rs_replicas st) \<and> r_healthy rep
      \<and> ac_name (r_client rep) \<notin> set (gw_blockedServers g)
      \<and> (expected = [] \<or> expected = ac_name (r_client rep))
      \<and> w' = w @ [(ac_name (r_client rep), tool)])"

text \<open>One ordinary call as a step between states.\<close>

definition ordinary_call :: "('l, 'a, (string \<times> string) list) env \<Rightarrow> call_ctx \<Rightarrow> 'l gateway \<times> (string \<times> string) list
    \<Rightarrow> 'l gateway \<times> (string \<times> string) list \<Rightarrow> bool" where
  "ordinary_call env ctx s s' \<longleftrightarrow> (\<exists>now name args. \<not> meta_call (fst s) ctx name
      \<and> snd (HandleToolsCall env now [] ctx name args (fst s) (snd s)) = s'
      \<and> authorised env now [] ctx name (fst s) (snd s) (fst s') (snd s'))"

lemma plain_call_authorised:
  assumes log: "\<forall>c t a v. snd (env_call env c t a v) = v @ [(ac_name c, t)]"
    and quiet: "\<forall>s v. snd (env_spawn env s v) = v"
    and plain: "\<not> meta_call g ctx name"
    and h: "HandleToolsCall env now expected ctx name args g w = (res, g', w')"
  shows "authorised env now expected ctx name g w g' w'"
proof (cases "canonical_name g ctx name")
  case None
  then show ?thesis using h by (simp add: HandleToolsCall_plain [OF plain] authorised_def)
next
  case (Some c)
  then have "call_canonical env now expected ctx c args g w = (res, g', w')"
    using h by (simp add: HandleToolsCall_plain [OF plain])
  then show ?thesis
  proof (cases rule: call_canonical_cases)
    case unrouted
    then show ?thesis using quiet by (simp add: route_call_quiet authorised_def)
  next
    case (routed rep tool server st g2 w2)
    have "w2 = w" using route_call_quiet [of env now c _ w] quiet routed(3) by (metis snd_conv)
    with dispatch_logged [OF _ routed(9,5)] log routed Some show ?thesis by (auto simp: authorised_def)
  qed (simp add: authorised_def)
qed

lemma script_calls_ordinary:
  fixes g :: "'l gateway"
  assumes log: "\<forall>c t a v. snd (env_call env c t a v) = v @ [(ac_name c, t)]"
    and quiet: "\<forall>s v. snd (env_spawn env s v) = v" and ok: "group_ok g ctx"
  shows "(ordinary_call env ctx)\<^sup>*\<^sup>* (g, w) (snd (HandleCall (env_sandbox env)
      (\<lambda>now name args (g, w). tools_call 0 env now [] ctx name args g w) c args ts (g, w)))"
proof -
  let ?R = "\<lambda>s s'. group_ok (fst s) ctx \<longrightarrow> (ordinary_call env ctx)\<^sup>*\<^sup>* s s' \<and> group_ok (fst s') ctx"
  have "?R (g, w) (snd (HandleCall (env_sandbox env) (\<lambda>now name args (g, w). tools_call 0 env now [] ctx name args g w) c args ts (g, w)))"
  proof (rule HandleCall_rel [of ?R])
    fix now server tool args and s :: "'l gateway \<times> (string \<times> string) list"
    obtain g w where s: "s = (g, w)" by (cases s)
    let ?p = "server @ ToolNameDelimiter @ tool"
    obtain res g' w' where h: "tools_call 0 env now [] ctx ?p args g w = (res, g', w')" by (metis prod_cases3)
    show "?R s (snd (case s of (g, w) \<Rightarrow> tools_call 0 env now [] ctx ?p args g w))"
    proof (intro impI conjI)
      assume ok: "group_ok (fst s) ctx"
      then have plain: "\<not> meta_call g ctx ?p" using inner_call_plain by (simp add: s)
      then have h': "HandleToolsCall env now [] ctx ?p args g w = (res, g', w')"
        using h tools_call_plain [of g ctx ?p 0 env now "[]" args w 1] by (simp add: HandleToolsCall_def)
      then have "ordinary_call env ctx (g, w) (g', w')"
        using plain plain_call_authorised [OF log quiet plain h'] by (auto simp: ordinary_call_def) (metis snd_conv)
      then show "(ordinary_call env ctx)\<^sup>*\<^sup>* s (snd (case s of (g, w) \<Rightarrow> tools_call 0 env now [] ctx ?p args g w))"
        by (simp add: s h del: tools_call.simps)
      show "group_ok (fst (snd (case s of (g, w) \<Rightarrow> tools_call 0 env now [] ctx ?p args g w))) ctx"
        using ok settings_group_ok [OF settings_tools_call, of 0 env now "[]" ctx ?p args g w ctx] by (simp add: s)
    qed
  qed (auto intro: rtranclp_trans)
  with ok show ?thesis by simp
qed

text \<open>C1. Every downstream call is authorised. Let the world be the log of downstream calls. An ordinary call leaves the
  log as it was, or adds exactly one entry, which is authorised: the session's name resolved to a canonical name that the
  client's scope allows and the gates admitted, the call went to a healthy replica of the server that name says, with the
  tool that name says, the server is not blocked, and a retry state came from that server. A call of a meta tool in code
  mode, whatever its script does, is a sequence of ordinary calls under the same context, each of them authorised in the
  state it is made in, after the tool list was read; there a session's group is one that validation accepts.\<close>

theorem downstream_call_is_authorised:
  assumes log: "\<forall>c t a v. snd (env_call env c t a v) = v @ [(ac_name c, t)]"
    and quiet: "\<forall>s v. snd (env_spawn env s v) = v"
    and h: "HandleToolsCall env now expected ctx name args g w = (res, g', w')"
  shows "if meta_call g ctx name
    then group_ok g ctx \<longrightarrow> (ordinary_call env ctx)\<^sup>*\<^sup>* (g\<lparr>gw_router := snd (AggregatedTools (gw_router g))\<rparr>, w) (g', w')
    else authorised env now expected ctx name g w g' w'"
proof (cases "meta_call g ctx name")
  case False
  then show ?thesis using plain_call_authorised [OF log quiet False h] by simp
next
  case True
  let ?g1 = "g\<lparr>gw_router := snd (AggregatedTools (gw_router g))\<rparr>"
  have "(ordinary_call env ctx)\<^sup>*\<^sup>* (?g1, w) (g', w')" if "group_ok g ctx"
  proof -
    from True obtain c where c: "canonical_name g ctx name = Some c" "gw_codeMode g" "IsMetaTool c" unfolding meta_call_def by blast
    have "group_ok ?g1 ctx" using that by (simp add: group_ok_def)
    from script_calls_ordinary [OF log quiet this, of w c args "code_mode_tools g ctx"] h c
    show ?thesis by (simp add: HandleToolsCall_def handle_call_eq)
  qed
  with True show ?thesis by simp
qed

theorem downstream_call_is_authorised_witness:
  "snd (snd (HandleToolsCall demo_env 0 [] demo_ctx ''shout'' () demo_gateway [])) = [(''db'', ''get'')]
   \<and> clientAllowsToolCall demo_gateway demo_ctx ''db__get''
   \<and> snd (snd (HandleToolsCall demo_env 0 [] demo_ctx ''execute'' () (demo_gateway\<lparr>gw_codeMode := True\<rparr>) [])) = [(''db'', ''get'')]"
proof -
  obtain res g' w' where h: "HandleToolsCall demo_env 0 [] demo_ctx ''shout'' () demo_gateway [] = (res, g', w')"
    by (metis prod_cases3)
  have log: "snd (snd (HandleToolsCall demo_env 0 [] demo_ctx ''shout'' () demo_gateway [])) = [(''db'', ''get'')]" by code_simp
  have "snd (snd (HandleToolsCall demo_env 0 [] demo_ctx ''execute'' () (demo_gateway\<lparr>gw_codeMode := True\<rparr>) [])) = [(''db'', ''get'')]"
    by code_simp
  moreover have cn: "canonical_name demo_gateway demo_ctx ''shout'' = Some ''db__get''" by code_simp
  moreover have "\<not> meta_call demo_gateway demo_ctx ''shout''" by (simp add: meta_call_def demo_gateway_def)
  ultimately show ?thesis
    using downstream_call_is_authorised [OF _ _ h] log h by (auto simp: demo_env_def authorised_def)
qed

text \<open>A blocked server gets no call, not even from a script.\<close>

lemma blocked_server_uncalled:
  assumes log: "\<forall>c t a v. snd (env_call env c t a v) = v @ [(ac_name c, t)]"
    and quiet: "\<forall>s v. snd (env_spawn env s v) = v" and n: "n \<in> set (gw_blockedServers g)"
  shows "\<exists>calls. snd (snd (HandleToolsCall env now e ctx name args g w)) = w @ calls \<and> (\<forall>(server, tool)\<in>set calls. server \<noteq> n)"
proof -
  let ?R = "\<lambda>(g, w) (g', w'). n \<in> set (gw_blockedServers g) \<longrightarrow> n \<in> set (gw_blockedServers g')
      \<and> (\<exists>calls. w' = w @ calls \<and> (\<forall>(server, tool)\<in>set calls. server \<noteq> n))"
  have step: "?R (g, w) (snd (call_canonical env now e ctx c args g w))" for now e c args g w
  proof -
    obtain res g' w' where h: "call_canonical env now e ctx c args g w = (res, g', w')" by (metis prod_cases3)
    have b: "gw_blockedServers g' = gw_blockedServers g"
      using settings_canonical [of env now e ctx c args g w] by (simp add: h settings_def)
    from h have "n \<in> set (gw_blockedServers g) \<Longrightarrow> \<exists>calls. w' = w @ calls \<and> (\<forall>(server, tool)\<in>set calls. server \<noteq> n)"
    proof (cases rule: call_canonical_cases)
      case unrouted
      then show ?thesis using quiet by (simp add: route_call_quiet)
    next
      case (routed rep tool server st g2 w2)
      assume "n \<in> set (gw_blockedServers g)"
      moreover have "w2 = w" using route_call_quiet [of env now c _ w] quiet routed(3) by (metis snd_conv)
      ultimately show ?thesis using dispatch_logged [OF _ routed(9,5)] log routed(8) by fastforce
    qed simp
    with b show ?thesis by (simp add: h)
  qed
  have "?R (g, w) (snd (tools_call 1 env now e ctx name args g w))"
  proof (rule tools_call_rel [of ?R])
    show "?R s t \<Longrightarrow> ?R t u \<Longrightarrow> ?R s u" for s t u by (auto simp: case_prod_unfold)
  qed (use step in auto)
  with n show ?thesis by (simp add: HandleToolsCall_def case_prod_unfold)
qed

text \<open>What a session is shown, it may call: with the tool index up to date and the group validated, the
  name of every tool that \<^verbatim>\<open>tools/list\<close> returns resolves to an aggregated tool that the same client's
  scope allows, so neither the group check nor the scope check of \<^verbatim>\<open>tools/call\<close> rejects it.\<close>

theorem listed_tool_is_callable:
  assumes "\<not> gw_codeMode g"
    and "\<forall>u\<in>set (fst (AggregatedTools (gw_router g))). HasTool (gw_router g) (t_name u)"
    and "\<forall>gs d. gw_groupPolicy g = Some gs \<longrightarrow> map_of gs (GroupFromContext ctx) = Some d \<longrightarrow> group_def_ok d"
    and "t \<in> set (fst (HandleToolsList env g ctx))"
  shows "\<exists>c. canonical_name g ctx (t_name t) = Some c \<and> clientAllowsToolCall g ctx c
    \<and> c \<in> t_name ` set (fst (AggregatedTools (gw_router g)))"
proof -
  let ?agg = "fst (AggregatedTools (gw_router g))"
  have scoped: "u \<in> set (scopeToolsForContext g ctx ?agg) \<longleftrightarrow> u \<in> set ?agg \<and> clientAllowsToolCall g ctx (t_name u)" for u
    by (cases "gw_clientPolicy g") (simp_all add: scopeToolsForContext_def clientAllowsToolCall_def scope.listed_iff_callable)
  show ?thesis
  proof (cases "GroupFromContext ctx = []")
    case True
    with assms(1,4) have "t \<in> set (scopeToolsForContext g ctx ?agg)"
      by (simp add: HandleToolsList_def Let_def split_beta)
    with scoped True show ?thesis by (auto simp: canonical_name_def)
  next
    case False
    with assms(1,4) have t: "t \<in> set (FilterAndRewrite (gw_groupPolicy g) (GroupFromContext ctx) (scopeToolsForContext g ctx ?agg))"
      by (simp add: HandleToolsList_def Let_def split_beta)
    then obtain gs d where gs: "gw_groupPolicy g = Some gs" "map_of gs (GroupFromContext ctx) = Some d"
      by (auto simp: FilterAndRewrite_def filterAndRewrite_def split: option.splits) metis
    with assms(3) have ok: "group_def_ok d" by blast
    from t gs obtain u where u: "u \<in> set (scopeToolsForContext g ctx ?agg)" "isMember d (t_name u)" "t = rewrite_tool d False u"
      by (auto simp: FilterAndRewrite_Some)
    then have "HasTool (gw_router g) (t_name u)" using scoped assms(2) by blast
    with u ok gs have "ResolveAlias (gw_groupPolicy g) (GroupFromContext ctx) (t_name t) (Some (HasTool (gw_router g))) = Some (t_name u)"
      by (simp add: ResolveAlias_def t_name_rewrite_tool surface.resolve_expose)
    with False assms(1) scoped u(1) show ?thesis by (auto simp: canonical_name_def)
  qed
qed

theorem listed_tool_is_callable_witness:
  "map t_name (fst (HandleToolsList demo_env demo_gateway demo_ctx)) = [''db__put'', ''shout'']
   \<and> (\<exists>c. canonical_name demo_gateway demo_ctx ''shout'' = Some c \<and> clientAllowsToolCall demo_gateway demo_ctx c)"
proof -
  have names: "map t_name (fst (HandleToolsList demo_env demo_gateway demo_ctx)) = [''db__put'', ''shout'']" by code_simp
  then have "''shout'' \<in> t_name ` set (fst (HandleToolsList demo_env demo_gateway demo_ctx))"
    by (metis list.set_intros list.set_map)
  then obtain t where t: "t \<in> set (fst (HandleToolsList demo_env demo_gateway demo_ctx))" "t_name t = ''shout''" by force
  have "\<not> gw_codeMode demo_gateway" by (simp add: demo_gateway_def)
  moreover have "\<forall>u\<in>set (fst (AggregatedTools (gw_router demo_gateway))). HasTool (gw_router demo_gateway) (t_name u)" by code_simp
  moreover have "group_spec_ok demo_group_spec" by code_simp
  then have "\<forall>gs d. gw_groupPolicy demo_gateway = Some gs \<longrightarrow> map_of gs (GroupFromContext demo_ctx) = Some d \<longrightarrow> group_def_ok d"
    using NewGroupPolicy_at [of "[(''g'', demo_group_spec)]"] compile_group_ok by (fastforce simp: demo_gateway_def)
  ultimately show ?thesis using listed_tool_is_callable [OF _ _ _ t(1)] t(2) names by auto
qed

text \<open>C33. A call to a scaled-to-zero server starts it: when the addressed server has no healthy replica but an
  autoscaler that may hold one, and the spawner succeeds, routing answers with the new replica.\<close>

theorem cold_start_serves_call:
  assumes "ParsePrefixedTool name = Inr (s, t)" and "map_of (rt_sets (gw_router g)) s = Some st"
    and "\<forall>r\<in>set (rs_replicas st). \<not> r_healthy r" and "map_of (gw_autoscalers g) s = Some a" and "1 \<le> p_max (as_policy a)"
    and "env_spawn env s w = (Inr client, w')"
    and "sint (rs_rrCursor st) + int (length (rs_replicas st)) + 2 \<le> 2 ^ 63"
  shows "\<exists>rep g'. route_call env now name g w = (Inr (rep, t), g', w') \<and> r_client rep = client \<and> r_id rep = rs_nextID st"
proof -
  let ?st1 = "snd (Pick st)"
  let ?st2 = "snd (AddReplica ?st1 client now)"
  have c0: "cursor_ok (rs_rrCursor st) (rs_replicas st)" using assms(7) by (simp add: cursor_ok_def)
  have none: "fst (Pick st) = Inl ErrNoHealthyReplicas"
    using pick_contract [of st] c0 assms(3) by (cases "fst (Pick st)") (auto split: pick_error.splits)
  let ?g1 = "g\<lparr>gw_router := put_set (gw_router g) s ?st1\<rparr>"
  have h0: "HealthyCount ?st1 = 0" using assms(3) by (simp add: HealthyCount_def)
  have at1: "map_of (rt_sets (gw_router ?g1)) s = Some ?st1" by (simp add: put_set_def map_of_update)
  obtain g2 where cs: "cold_start env now s ?g1 w = (True, g2, w')" "map_of (rt_sets (gw_router g2)) s = Some ?st2"
    using h0 assms(4-6) by (auto simp: cold_start_def TriggerColdStart_def Let_def split_beta put_set_def map_of_update)
  have reps: "rs_replicas ?st2 = rs_replicas st @ [new_replica (rs_nextID st) client now]"
    by (simp add: AddReplica_def Let_def)
  have cur: "sint (rs_rrCursor ?st2) \<le> sint (rs_rrCursor st) + 1"
    using sint_plus_of_nat [of "rs_rrCursor st" 1] assms(7) by (simp add: AddReplica_def Let_def SetToolCache_def Pick_def)
  then have "cursor_ok (rs_rrCursor ?st2) (rs_replicas ?st2)" using assms(7) by (simp add: cursor_ok_def reps)
  then have pc: "case fst (Pick ?st2) of Inl ErrNoHealthyReplicas \<Rightarrow> \<forall>r\<in>set (rs_replicas ?st2). \<not> r_healthy r
    | Inr r \<Rightarrow> r \<in> set (rs_replicas ?st2) \<and> r_healthy r
        \<and> (rs_policy ?st2 = ReplicaPolicyLeastConnections \<longrightarrow> (\<forall>q\<in>set (rs_replicas ?st2). r_healthy q \<longrightarrow> lc_le r q))"
    by (intro pick_contract) simp
  have new: "r_healthy (new_replica (rs_nextID st) client now)" by (simp add: new_replica_def)
  obtain rep where rep: "fst (Pick ?st2) = Inr rep" "rep \<in> set (rs_replicas ?st2)" "r_healthy rep"
    using pc reps new by (cases "fst (Pick ?st2)") (auto split: pick_error.splits)
  with assms(3) reps have "rep = new_replica (rs_nextID st) client now" by auto
  moreover have "route_call env now name g w = (Inr (rep, t), g2\<lparr>gw_router := put_set (gw_router g2) s (snd (Pick ?st2))\<rparr>, w')"
    using assms(1,2) cs rep(1) none
    by (simp add: route_call_def RouteToolCallReplica_eq [OF assms(1)] Let_def split_beta)
  ultimately show ?thesis by (auto simp: new_replica_def)
qed

definition idle_gateway :: "bucket gateway" where
  "idle_gateway = demo_gateway\<lparr>gw_router := AddReplicaSet NewRouter (NewReplicaSet ''db'' [] [] 0),
     gw_autoscalers := [(''db'', NewAutoscaler ''db'' (NewReplicaSet ''db'' [] [] 0) demo_policy)]\<rparr>"

theorem cold_start_serves_call_witness:
  "\<exists>rep g'. route_call demo_env 7 ''db__get'' idle_gateway [] = (Inr (rep, ''get''), g', []) \<and> r_client rep = demo_server ''db'' [''get'']"
proof -
  have "ParsePrefixedTool ''db__get'' = Inr (''db'', ''get'')" by code_simp
  moreover have "map_of (rt_sets (gw_router idle_gateway)) ''db'' = Some (NewReplicaSet ''db'' [] [] 0)"
    by (simp add: idle_gateway_def AddReplicaSet_def NewRouter_def)
  moreover have "rs_rrCursor (NewReplicaSet ''db'' [] [] 0) = 0" by (simp add: NewReplicaSet_def)
  moreover have "1 \<le> p_max (as_policy (NewAutoscaler ''db'' (NewReplicaSet ''db'' [] [] 0) demo_policy))"
    by (simp add: NewAutoscaler_def demo_policy_def)
  moreover have "env_spawn demo_env ''db'' [] = (Inr (demo_server ''db'' [''get'']), [])" by (simp add: demo_env_def)
  ultimately show ?thesis
    using cold_start_serves_call [of "''db__get''" "''db''" "''get''" idle_gateway "NewReplicaSet ''db'' [] [] 0"
        "NewAutoscaler ''db'' (NewReplicaSet ''db'' [] [] 0) demo_policy" demo_env "[]" "demo_server ''db'' [''get'']" "[]" 7]
    by (auto simp: idle_gateway_def)
qed

end
