(* ===== verification/Dep_Graph.thy ===== *)
theory Dep_Graph
  imports Prelude
begin

text \<open>
  The dependency graph of a stack (\<^verbatim>\<open>pkg/runtime/depgraph.go\<close>): nodes, dependency edges in both
  directions, and the start order by Kahn's algorithm. The graph is used by the orchestrator to start
  servers after what they depend on. Iteration over the node map and the in-degree map is in the order of
  the lists, which stands for any order.
\<close>

record dep_graph =
  dg_nodes :: "string list"
  dg_edges :: "(string, string list) gomap"
  dg_reversed :: "(string, string list) gomap"

definition NewDependencyGraph :: dep_graph where
  "NewDependencyGraph = \<lparr>dg_nodes = [], dg_edges = [], dg_reversed = []\<rparr>"

text \<open>Reading a missing key gives the nil slice, or zero.\<close>

definition slice_at :: "(string, string list) gomap \<Rightarrow> string \<Rightarrow> string list" where
  "slice_at m k = (case map_of m k of None \<Rightarrow> [] | Some xs \<Rightarrow> xs)"

definition deg :: "(string, int) gomap \<Rightarrow> string \<Rightarrow> int" where
  "deg m k = (case map_of m k of None \<Rightarrow> 0 | Some d \<Rightarrow> d)"

definition AddNode :: "dep_graph \<Rightarrow> string \<Rightarrow> dep_graph" where
  "AddNode g name = g\<lparr>dg_nodes := set_put name (dg_nodes g)\<rparr>"

definition AddEdge :: "dep_graph \<Rightarrow> string \<Rightarrow> string \<Rightarrow> dep_graph" where
  "AddEdge g from to =
     g\<lparr>dg_nodes := set_put to (set_put from (dg_nodes g)),
       dg_edges := AList.update from (slice_at (dg_edges g) from @ [to]) (dg_edges g),
       dg_reversed := AList.update to (slice_at (dg_reversed g) to @ [from]) (dg_reversed g)\<rparr>"

fun relax :: "string list \<Rightarrow> (string, int) gomap \<Rightarrow> string list \<Rightarrow> (string, int) gomap \<times> string list" where
  "relax [] inDegree queue = (inDegree, queue)"
| "relax (d # ds) inDegree queue =
     (let m = AList.update d (deg inDegree d - 1) inDegree in
      relax ds m (if deg m d = 0 then queue @ [d] else queue))"

definition positive :: "(string, int) gomap \<Rightarrow> string set" where
  "positive m = {k. 0 < deg m k}"

lemma deg_update: "deg (AList.update k v m) n = (if n = k then v else deg m n)"
  by (simp add: deg_def map_of_update)

lemma finite_positive: "finite (positive m)"
proof (rule finite_subset)
  show "positive m \<subseteq> fst ` set m"
    by (auto simp: positive_def deg_def split: option.splits) (metis fst_conv image_eqI map_of_SomeD)
qed simp

text \<open>A push turns a positive in-degree into zero, so pushes and positive in-degrees balance.\<close>

lemma relax_measure:
  "length (snd (relax ds m q)) + card (positive (fst (relax ds m q))) \<le> length q + card (positive m)"
proof (induction ds arbitrary: m q)
  case (Cons d ds)
  let ?m = "AList.update d (deg m d - 1) m"
  have sub: "positive ?m \<subseteq> positive m" by (auto simp: positive_def deg_update split: if_splits)
  have "length (if deg ?m d = 0 then q @ [d] else q) + card (positive ?m) \<le> length q + card (positive m)"
  proof (cases "deg ?m d = 0")
    case True
    then have "d \<in> positive m" "d \<notin> positive ?m" by (simp_all add: positive_def deg_update)
    with sub have "card (positive ?m) < card (positive m)" by (intro psubset_card_mono finite_positive) auto
    with True show ?thesis by simp
  next
    case False
    with card_mono [OF finite_positive sub] show ?thesis by simp
  qed
  with Cons.IH [of ?m "if deg ?m d = 0 then q @ [d] else q"] show ?case by (simp add: Let_def)
qed simp

function kahn :: "dep_graph \<Rightarrow> (string, int) gomap \<Rightarrow> string list \<Rightarrow> string list \<Rightarrow> string list" where
  "kahn g inDegree [] out = out"
| "kahn g inDegree (node # queue) out =
     kahn g (fst (relax (slice_at (dg_reversed g) node) inDegree queue))
       (snd (relax (slice_at (dg_reversed g) node) inDegree queue)) (out @ [node])"
  by pat_completeness auto
termination
proof (relation "measure (\<lambda>(g, m, q, s). length q + card (positive m))", goal_cases)
  case (2 g m node q s)
  show ?case using relax_measure [of "slice_at (dg_reversed g) node" m q] by simp
qed simp

datatype sort_error = CircularDependency "string list"

definition Sort :: "dep_graph \<Rightarrow> sort_error + string list" where
  "Sort g =
     (let inDegree = map (\<lambda>n. (n, int (length (slice_at (dg_edges g) n)))) (dg_nodes g);
          queue = map fst (filter (\<lambda>(n, d). d = 0) inDegree);
          out = kahn g inDegree queue []
      in if length out \<noteq> length (dg_nodes g)
         then Inl (CircularDependency (filter (\<lambda>n. n \<notin> set out) (dg_nodes g)))
         else Inr out)"

definition GetDependencies :: "dep_graph \<Rightarrow> string \<Rightarrow> string list" where
  "GetDependencies g name = slice_at (dg_edges g) name"

definition HasNode :: "dep_graph \<Rightarrow> string \<Rightarrow> bool" where
  "HasNode g name \<longleftrightarrow> name \<in> set (dg_nodes g)"

subsection \<open>The graph invariant\<close>

text \<open>Every edge is between nodes, and the reversed edges count the same pairs.\<close>

definition graph_ok :: "dep_graph \<Rightarrow> bool" where
  "graph_ok g \<longleftrightarrow> distinct (dg_nodes g)
     \<and> (\<forall>n d. d \<in> set (GetDependencies g n) \<longrightarrow> n \<in> set (dg_nodes g) \<and> d \<in> set (dg_nodes g))
     \<and> (\<forall>n d. count_list (slice_at (dg_reversed g) d) n = count_list (GetDependencies g n) d)"

lemma slice_at_update: "slice_at (AList.update k v m) n = (if n = k then v else slice_at m n)"
  by (simp add: slice_at_def map_of_update)

lemma graph_ok_new: "graph_ok NewDependencyGraph"
  by (simp add: graph_ok_def NewDependencyGraph_def GetDependencies_def slice_at_def)

lemma graph_ok_AddNode: "graph_ok g \<Longrightarrow> graph_ok (AddNode g n)"
  by (auto simp: graph_ok_def AddNode_def GetDependencies_def)

lemma graph_ok_AddEdge: "graph_ok g \<Longrightarrow> graph_ok (AddEdge g a b)"
  by (auto simp: graph_ok_def AddEdge_def GetDependencies_def slice_at_update)

lemma relax_spec:
  assumes "\<And>n. int (count_list ds n) \<le> deg m n"
  shows "deg (fst (relax ds m q)) n = deg m n - int (count_list ds n)"
    and "\<exists>new. snd (relax ds m q) = q @ new \<and> distinct new
           \<and> set new = {n. 0 < deg m n \<and> deg m n = int (count_list ds n)}"
proof -
  have "deg (fst (relax ds m q)) n = deg m n - int (count_list ds n)" for n
    by (induction ds arbitrary: m q) (auto simp: Let_def deg_update)
  then show "deg (fst (relax ds m q)) n = deg m n - int (count_list ds n)" .
  show "\<exists>new. snd (relax ds m q) = q @ new \<and> distinct new
           \<and> set new = {n. 0 < deg m n \<and> deg m n = int (count_list ds n)}"
    using assms
  proof (induction ds arbitrary: m q)
    case Nil
    then show ?case by auto
  next
    case (Cons d ds)
    let ?m = "AList.update d (deg m d - 1) m"
    let ?q = "if deg ?m d = 0 then q @ [d] else q"
    have pos: "int (count_list ds d) + 1 \<le> deg m d" using Cons.prems [of d] by simp
    have "int (count_list ds n) \<le> deg ?m n" for n
      using Cons.prems [of n] by (auto simp: deg_update split: if_splits)
    from Cons.IH [of ?m ?q, OF this] obtain new where
      new: "snd (relax ds ?m ?q) = ?q @ new" "distinct new" "set new = {n. 0 < deg ?m n \<and> deg ?m n = int (count_list ds n)}"
      by blast
    show ?case
    proof (cases "deg ?m d = 0")
      case True
      then have d: "deg m d = 1" "count_list ds d = 0" using pos by (simp_all add: deg_update)
      have "set (d # new) = {n. 0 < deg m n \<and> deg m n = int (count_list (d # ds) n)}"
        unfolding list.set(2) new(3) using d by (auto simp: deg_update split: if_splits)
      moreover have "d \<notin> set new" using True by (simp add: new(3))
      ultimately show ?thesis using new(1,2) True by (intro exI [of _ "d # new"]) (simp add: Let_def)
    next
      case False
      have "set new = {n. 0 < deg m n \<and> deg m n = int (count_list (d # ds) n)}"
        unfolding new(3) using False pos by (auto simp: deg_update split: if_splits)
      with new(1,2) False show ?thesis by (intro exI [of _ new]) (simp add: Let_def)
    qed
  qed
qed

subsection \<open>The loop invariant\<close>

abbreviation pending :: "dep_graph \<Rightarrow> string list \<Rightarrow> string \<Rightarrow> string list" where
  "pending g out n \<equiv> filter (\<lambda>d. d \<notin> set out) (GetDependencies g n)"

definition kahn_inv :: "dep_graph \<Rightarrow> (string, int) gomap \<Rightarrow> string list \<Rightarrow> string list \<Rightarrow> bool" where
  "kahn_inv g m q out \<longleftrightarrow> distinct (out @ q) \<and> set (out @ q) \<subseteq> set (dg_nodes g)
     \<and> (\<forall>n. deg m n = int (length (pending g out n)))
     \<and> (\<forall>n\<in>set (dg_nodes g). deg m n = 0 \<longleftrightarrow> n \<in> set (out @ q))
     \<and> (\<forall>i<length out. set (GetDependencies g (out ! i)) \<subseteq> set (take i out))"

lemma length_filter_out:
  "x \<notin> set out \<Longrightarrow> length (filter (\<lambda>d. d \<notin> set out) xs) = length (filter (\<lambda>d. d \<notin> set (out @ [x])) xs) + count_list xs x"
  by (induction xs) auto

lemma kahn_inv_step:
  assumes ok: "graph_ok g" and inv: "kahn_inv g m (x # q) out"
  shows "kahn_inv g (fst (relax (slice_at (dg_reversed g) x) m q)) (snd (relax (slice_at (dg_reversed g) x) m q)) (out @ [x])"
proof -
  let ?ds = "slice_at (dg_reversed g) x"
  have x: "x \<notin> set out" "x \<in> set (dg_nodes g)" "x \<notin> set q" using inv by (auto simp: kahn_inv_def)
  have degm: "deg m n = int (length (pending g out n))" for n using inv by (simp add: kahn_inv_def)
  have cnt: "count_list ?ds n = count_list (GetDependencies g n) x" for n using ok by (simp add: graph_ok_def)
  have split: "length (pending g out n) = length (pending g (out @ [x]) n) + count_list ?ds n" for n
    using length_filter_out [OF x(1)] by (simp add: cnt)
  have le: "int (count_list ?ds n) \<le> deg m n" for n using split [of n] by (simp add: degm)
  note relaxed = relax_spec(1) [OF le] and pushed = relax_spec(2) [OF le, of q]
  from pushed obtain new where new: "snd (relax ?ds m q) = q @ new" "distinct new"
    "set new = {n. 0 < deg m n \<and> deg m n = int (count_list ?ds n)}" by blast
  have deg': "deg (fst (relax ?ds m q)) n = int (length (pending g (out @ [x]) n))" for n
    using split [of n] by (simp add: relaxed degm)
  have nodes: "n \<in> set (dg_nodes g)" if "n \<in> set new" for n
  proof -
    from that have "GetDependencies g n \<noteq> []" by (auto simp: new(3) degm)
    with ok show ?thesis unfolding graph_ok_def by (metis list.set_intros(1) neq_Nil_conv)
  qed
  have old: "deg m n = 0 \<longleftrightarrow> n \<in> set (out @ x # q)" if "n \<in> set (dg_nodes g)" for n
    using inv that unfolding kahn_inv_def by blast
  have disj: "n \<notin> set (out @ x # q)" if "n \<in> set new" for n
    using that nodes [OF that] old [of n] by (auto simp: new(3))
  have zero: "deg (fst (relax ?ds m q)) n = 0 \<longleftrightarrow> n \<in> set ((out @ [x]) @ q @ new)" if "n \<in> set (dg_nodes g)" for n
  proof -
    have "0 \<le> deg m n" by (simp add: degm)
    then show ?thesis using old [OF that] le [of n] by (auto simp: relaxed new(3))
  qed
  have "set (GetDependencies g x) \<subseteq> set out"
    using old [OF x(2)] by (auto simp: degm filter_empty_conv)
  then have topo: "\<forall>i<length (out @ [x]). set (GetDependencies g ((out @ [x]) ! i)) \<subseteq> set (take i (out @ [x]))"
    using inv by (auto simp: kahn_inv_def nth_append less_Suc_eq)
  show ?thesis unfolding kahn_inv_def new(1)
  proof (intro conjI)
    show "distinct ((out @ [x]) @ q @ new)" using inv new(2) disj by (auto simp: kahn_inv_def)
    show "set ((out @ [x]) @ q @ new) \<subseteq> set (dg_nodes g)" using inv nodes by (auto simp: kahn_inv_def)
  qed (use deg' zero topo in auto)
qed

lemma kahn_inv_end: "graph_ok g \<Longrightarrow> kahn_inv g m q out \<Longrightarrow> \<exists>m'. kahn_inv g m' [] (kahn g m q out)"
  by (induction g m q out rule: kahn.induct) (auto dest: kahn_inv_step)

lemma kahn_inv_start:
  assumes "graph_ok g"
  defines "m \<equiv> map (\<lambda>n. (n, int (length (slice_at (dg_edges g) n)))) (dg_nodes g)"
  shows "kahn_inv g m (map fst (filter (\<lambda>(n, d). d = 0) m)) []"
proof -
  have at: "map_of m n = (if n \<in> set (dg_nodes g) then Some (int (length (GetDependencies g n))) else None)" for n
    by (simp add: m_def GetDependencies_def map_of_map_restrict restrict_map_def)
  have none: "GetDependencies g n = []" if "n \<notin> set (dg_nodes g)" for n
    using assms(1) that unfolding graph_ok_def by (metis list.set_intros(1) neq_Nil_conv)
  have q: "map fst (filter (\<lambda>(n, d). d = 0) m) = filter (\<lambda>n. GetDependencies g n = []) (dg_nodes g)"
    by (simp add: m_def GetDependencies_def filter_map comp_def)
  have dm: "deg m n = int (length (GetDependencies g n))" for n using none [of n] by (simp add: deg_def at)
  show ?thesis unfolding kahn_inv_def q dm using assms(1) by (simp add: graph_ok_def)
qed

subsection \<open>Properties\<close>

datatype graph_op = OpNode string | OpEdge string string

fun apply_op :: "graph_op \<Rightarrow> dep_graph \<Rightarrow> dep_graph" where
  "apply_op (OpNode n) g = AddNode g n"
| "apply_op (OpEdge a b) g = AddEdge g a b"

definition built :: "graph_op list \<Rightarrow> dep_graph" where
  "built ops = fold apply_op ops NewDependencyGraph"

lemma graph_ok_built: "graph_ok (built ops)"
proof -
  have "graph_ok g \<Longrightarrow> graph_ok (fold apply_op ops g)" for g
  proof (induction ops arbitrary: g)
    case (Cons op ops)
    then show ?case by (cases op) (auto intro: graph_ok_AddNode graph_ok_AddEdge)
  qed simp
  then show ?thesis using graph_ok_new by (simp add: built_def)
qed

definition depends :: "dep_graph \<Rightarrow> (string \<times> string) set" where
  "depends g = {(n, d). d \<in> set (GetDependencies g n)}"

lemma finite_depends: "graph_ok g \<Longrightarrow> finite (depends g)"
  by (rule finite_subset [of _ "set (dg_nodes g) \<times> set (dg_nodes g)"]) (auto simp: depends_def graph_ok_def)

lemma order_acyclic:
  assumes "distinct out" "\<And>n d. (n, d) \<in> depends g \<Longrightarrow> n \<in> set out"
    and topo: "\<And>i. i < length out \<Longrightarrow> set (GetDependencies g (out ! i)) \<subseteq> set (take i out)"
  shows "acyclic (depends g)"
proof (rule acyclicI, intro allI notI)
  fix x assume cyc: "(x, x) \<in> (depends g)\<^sup>+"
  have step: "y \<in> set (take i out)" if "(out ! i, y) \<in> (depends g)\<^sup>+" "i < length out" for i y
    using that(1)
  proof (induction rule: trancl_induct)
    case (base y)
    then show ?case using topo [OF that(2)] by (auto simp: depends_def)
  next
    case (step y z)
    then obtain j where j: "j < i" "y = out ! j" "j < length out" by (auto simp: in_set_conv_nth)
    with step(2) topo [of j] have "z \<in> set (take j out)" by (auto simp: depends_def)
    with j show ?case using set_take_subset_set_take [of j i out] by auto
  qed
  from cyc obtain y where "(x, y) \<in> depends g" by (auto elim: converse_tranclE)
  with assms(2) obtain i where i: "i < length out" "x = out ! i" by (metis in_set_conv_nth)
  from step [of i x] cyc i have "out ! i \<in> set (take i out)" by simp
  with assms(1) i(1) show False by (auto simp: in_set_conv_nth nth_eq_iff_index_eq)
qed

lemma stuck_cyclic:
  assumes "graph_ok g" "acyclic (depends g)" and "\<forall>n\<in>R. \<exists>d\<in>R. (n, d) \<in> depends g"
  shows "R = {}"
proof (rule ccontr)
  assume "R \<noteq> {}"
  have "wf ((depends g)\<inverse>)" using assms(1,2) finite_depends by (intro finite_acyclic_wf) auto
  then obtain z where "z \<in> R" "\<And>y. (y, z) \<in> (depends g)\<inverse> \<Longrightarrow> y \<notin> R" using \<open>R \<noteq> {}\<close> by (metis wfE_min ex_in_conv)
  with assms(3) show False by blast
qed

text \<open>C26. The start order is right: for any graph built by adding nodes and edges, \<^verbatim>\<open>Sort\<close> returns an order
  exactly when the dependencies have no cycle; the order lists every node once, each after everything it
  depends on; and a reported cycle names a non-empty set of nodes each of which depends on another node of
  the set.\<close>

theorem sort_orders_or_finds_cycle:
  "case Sort (built ops) of
     Inr out \<Rightarrow> acyclic (depends (built ops)) \<and> distinct out \<and> set out = set (dg_nodes (built ops))
       \<and> (\<forall>i<length out. set (GetDependencies (built ops) (out ! i)) \<subseteq> set (take i out))
   | Inl (CircularDependency R) \<Rightarrow> \<not> acyclic (depends (built ops)) \<and> R \<noteq> []
       \<and> (\<forall>n\<in>set R. \<exists>d\<in>set R. d \<in> set (GetDependencies (built ops) n))"
proof -
  let ?g = "built ops"
  let ?m = "map (\<lambda>n. (n, int (length (slice_at (dg_edges ?g) n)))) (dg_nodes ?g)"
  define out where "out = kahn ?g ?m (map fst (filter (\<lambda>(n, d). d = 0) ?m)) []"
  have S: "Sort ?g = (if length out \<noteq> length (dg_nodes ?g)
      then Inl (CircularDependency (filter (\<lambda>n. n \<notin> set out) (dg_nodes ?g))) else Inr out)"
    by (simp add: Sort_def out_def Let_def)
  have ok: "graph_ok ?g" by (rule graph_ok_built)
  from kahn_inv_end [OF ok kahn_inv_start [OF ok]] obtain m' where inv: "kahn_inv ?g m' [] out"
    unfolding out_def by blast
  have out: "distinct out" "set out \<subseteq> set (dg_nodes ?g)"
    "\<And>i. i < length out \<Longrightarrow> set (GetDependencies ?g (out ! i)) \<subseteq> set (take i out)"
    using inv by (auto simp: kahn_inv_def)
  have dn: "distinct (dg_nodes ?g)" using ok by (simp add: graph_ok_def)
  have full: "length out = length (dg_nodes ?g) \<longleftrightarrow> set out = set (dg_nodes ?g)"
    using distinct_card [OF out(1)] distinct_card [OF dn] card_subset_eq [OF finite_set out(2)] by auto
  show ?thesis
  proof (cases "length out = length (dg_nodes ?g)")
    case True
    have "n \<in> set out" if "(n, d) \<in> depends ?g" for n d
      using that ok True full by (auto simp: depends_def graph_ok_def)
    then have "acyclic (depends ?g)" by (rule order_acyclic [OF out(1) _ out(3)])
    then show ?thesis using True full out by (simp add: S)
  next
    case False
    let ?R = "filter (\<lambda>n. n \<notin> set out) (dg_nodes ?g)"
    have stuck: "\<exists>d\<in>set ?R. d \<in> set (GetDependencies ?g n)" if n: "n \<in> set ?R" for n
    proof -
      have "deg m' n \<noteq> 0" "deg m' n = int (length (pending ?g out n))" using inv n by (auto simp: kahn_inv_def)
      then have "pending ?g out n \<noteq> []" by auto
      then obtain d where "d \<in> set (pending ?g out n)" by (meson list.set_sel(1))
      with ok show ?thesis by (auto simp: graph_ok_def)
    qed
    have ne: "?R \<noteq> []" using False full out(2) by (auto simp: filter_empty_conv)
    have "\<not> acyclic (depends ?g)"
      using stuck_cyclic [OF ok, of "set ?R"] stuck ne by (auto simp: depends_def)
    with stuck ne False show ?thesis by (simp add: S)
  qed
qed

theorem sort_orders_or_finds_cycle_witness:
  "Sort (built [OpEdge ''web'' ''db'', OpEdge ''web'' ''cache'', OpEdge ''cache'' ''db'', OpNode ''cron''])
     = Inr [''db'', ''cron'', ''cache'', ''web'']
   \<and> acyclic (depends (built [OpEdge ''web'' ''db'', OpEdge ''web'' ''cache'', OpEdge ''cache'' ''db'', OpNode ''cron'']))"
proof -
  have s: "Sort (built [OpEdge ''web'' ''db'', OpEdge ''web'' ''cache'', OpEdge ''cache'' ''db'', OpNode ''cron''])
     = Inr [''db'', ''cron'', ''cache'', ''web'']" by code_simp
  with sort_orders_or_finds_cycle [of "[OpEdge ''web'' ''db'', OpEdge ''web'' ''cache'', OpEdge ''cache'' ''db'', OpNode ''cron'']"]
  show ?thesis by simp
qed

end
