(* ===== verification/Vault.thy ===== *)
theory Vault
  imports Prelude
begin

text \<open>
  The variable store (\<^verbatim>\<open>pkg/vault\<close>): variables and sets in memory, backed by one of two files, a
  plaintext \<^verbatim>\<open>secrets.json\<close> or an envelope-encrypted \<^verbatim>\<open>secrets.enc\<close>, which wins when both exist.

  Bytes are represented by what the program's decoders can tell of them: the JSON text of a store
  document, the JSON text of an encrypted envelope, or other bytes. A base64 field is the bytes it stands
  for, or \<open>None\<close> when it does not decode. The parts of \<^verbatim>\<open>golang.org/x/crypto\<close> are a parameter of type
  \<open>crypto\<close>. What the operating system decides (whether the lock is acquired, a file is readable, a
  directory can be made, a temporary file written and renamed, the plaintext file removed), the clock and the random bytes are the
  argument of type \<open>io\<close>; a file that exists can be stat'ed. The texts a store
  holds are taken to be valid UTF-8, which \<^verbatim>\<open>encoding/json\<close> gives back unchanged (it replaces other bytes). The state of an operation is the store and
  the disk.
\<close>

subsection \<open>Reserved keys and types\<close>

definition internalCredentialKeys :: "string list" where
  "internalCredentialKeys =
     [''GRIDCTL_SSH_KEY_PASSPHRASE'', ''GRIDCTL_VAULT_PASSPHRASE'', ''OP_CONNECT_TOKEN'', ''OP_SERVICE_ACCOUNT_TOKEN'']"

definition IsInternalCredential :: "string \<Rightarrow> bool" where
  "IsInternalCredential key \<longleftrightarrow> prefix ''GRIDCTL_'' key \<or> key \<in> set internalCredentialKeys"

abbreviation TypeString :: string where "TypeString \<equiv> ''string''"

definition IsValidType :: "string \<Rightarrow> bool" where
  "IsValidType t \<longleftrightarrow> t \<in> {''string'', ''json'', ''list'', ''number'', ''bool''}"

record variable =
  v_key :: string
  v_value :: string
  v_type :: string
  v_isSecret :: bool
  v_set :: string
  v_description :: string
  v_docs :: string
  v_example :: string
  v_deprecated :: string
  v_lastRotated :: string

record vset =
  vs_name :: string
  vs_description :: string

record set_summary =
  ss_name :: string
  ss_description :: string
  ss_count :: int

record import_result =
  ir_imported :: int
  ir_skipped :: "string list"

record legacy_secret =
  ls_key :: string
  ls_value :: string
  ls_set :: string

abbreviation CurrentStoreVersion :: int where "CurrentStoreVersion \<equiv> 3"

record store_data =
  sd_version :: int
  sd_variables :: "variable list"
  sd_sets :: "vset list"

text \<open>A literal \<^verbatim>\<open>Variable\<close> or \<^verbatim>\<open>Set\<close> of the source leaves the other fields at their zero value.\<close>

definition mk_variable :: "string \<Rightarrow> string \<Rightarrow> string \<Rightarrow> string \<Rightarrow> variable" where
  "mk_variable key val setName stamp =
     \<lparr>v_key = key, v_value = val, v_type = TypeString, v_isSecret = True, v_set = setName, v_description = [],
      v_docs = [], v_example = [], v_deprecated = [], v_lastRotated = stamp\<rparr>"

definition mk_set :: "string \<Rightarrow> vset" where
  "mk_set name = \<lparr>vs_name = name, vs_description = []\<rparr>"

subsection \<open>Bytes and files\<close>

text \<open>What decoding a store file shows: nothing but white space, an array (decoded as legacy secrets), an
  object (whether it has a version or a list of variables, and its decoding as a current or as a version 1
  document), or something else. \<open>None\<close> stands for a document that does not decode.\<close>

record object_view =
  ov_versioned :: bool
  ov_store :: "store_data option"
  ov_legacy :: "(legacy_secret list \<times> vset list) option"

datatype vault_doc = DocEmpty | DocArray "legacy_secret list option" | DocObject "object_view option" | DocOther

datatype 'b blob = Blob (bl_nonce: "'b option") (bl_ciphertext: "'b option")

datatype 'b kdf_params = KDFParams (kd_algorithm: string) (kd_salt: "'b option") (kd_time: int) (kd_memory: int) (kd_threads: int)

datatype 'b encrypted_vault =
  EncryptedVault (ev_version: int) (ev_encrypted: bool) (ev_kdf: "'b kdf_params") (ev_dek: "'b blob") (ev_data: "'b blob")

datatype bytes = Raw string | StoreJson vault_doc | VaultJson "bytes encrypted_vault"

definition store_view :: "bytes \<Rightarrow> vault_doc" where
  "store_view b = (case b of StoreJson doc \<Rightarrow> doc
     | VaultJson ev \<Rightarrow> DocObject (Some \<lparr>ov_versioned = True,
         ov_store = Some \<lparr>sd_version = ev_version ev, sd_variables = [], sd_sets = []\<rparr>, ov_legacy = Some ([], [])\<rparr>)
     | Raw s \<Rightarrow> if s = [] then DocEmpty else DocOther)"

record crypto =
  cr_idKey :: "string \<Rightarrow> bytes \<Rightarrow> bytes"
  cr_keyOk :: "bytes \<Rightarrow> bool"
  cr_seal :: "bytes \<Rightarrow> bytes \<Rightarrow> bytes \<Rightarrow> bytes"
  cr_open :: "bytes \<Rightarrow> bytes \<Rightarrow> bytes \<Rightarrow> bytes option"
  cr_size :: "bytes \<Rightarrow> int"

record io =
  io_now :: gotime
  io_stamp :: string
  io_lock :: bool
  io_readable :: bool
  io_mkdir :: bool
  io_write :: bool
  io_rename :: bool
  io_remove :: bool
  io_salt :: "string option"
  io_dek :: "string option"
  io_nonce1 :: "string option"
  io_nonce2 :: "string option"

record vfile =
  f_data :: bytes
  f_mtime :: gotime
  f_size :: int

record disk =
  d_enc :: "vfile option"
  d_plain :: "vfile option"

datatype vault_error =
    ErrInternalCredential string | ErrEmptyKey | ErrInvalidType string | ErrInvalidTypeFor string string
  | ErrVariableNotFound string | ErrSetExists string | ErrSetNotFound string | ErrNotEncrypted
  | ErrLockTimeout | ErrReading | ErrReadingEncrypted | ErrParsingEncrypted | ErrParsingV0 | ErrParsing | ErrParsingV1
  | ErrNewerVersion int | ErrUnexpectedShape | ErrDecoding string | ErrCreatingCipher | ErrWrongPassphrase | ErrRandom
  | ErrMkdir | ErrWritingTemp | ErrRenamingTemp

record store =
  st_variables :: "(string, variable) gomap"
  st_sets :: "(string, vset) gomap"
  st_locked :: bool
  st_encrypted :: bool
  st_passphrase :: string
  st_mtime :: "gotime option"
  st_size :: int

definition NewStore :: store where
  "NewStore = \<lparr>st_variables = [], st_sets = [], st_locked = False, st_encrypted = False, st_passphrase = [],
     st_mtime = None, st_size = 0\<rparr>"

subsection \<open>Envelope encryption\<close>

definition DeriveKey :: "crypto \<Rightarrow> string \<Rightarrow> bytes \<Rightarrow> bytes" where
  "DeriveKey cr passphrase salt = cr_idKey cr passphrase salt"

definition random_bytes :: "string option \<Rightarrow> vault_error + bytes" where
  "random_bytes r = (case r of None \<Rightarrow> Inl ErrRandom | Some s \<Rightarrow> Inr (Raw s))"

definition GenerateSalt :: "io \<Rightarrow> vault_error + bytes" where
  "GenerateSalt x = random_bytes (io_salt x)"

definition GenerateDEK :: "io \<Rightarrow> vault_error + bytes" where
  "GenerateDEK x = random_bytes (io_dek x)"

definition Encrypt :: "crypto \<Rightarrow> string option \<Rightarrow> bytes \<Rightarrow> bytes \<Rightarrow> vault_error + (bytes \<times> bytes)" where
  "Encrypt cr rnd key plaintext =
     (if \<not> cr_keyOk cr key then Inl ErrCreatingCipher
      else case random_bytes rnd of Inl e \<Rightarrow> Inl e | Inr nonce \<Rightarrow> Inr (nonce, cr_seal cr key nonce plaintext))"

definition Decrypt :: "crypto \<Rightarrow> bytes \<Rightarrow> bytes \<Rightarrow> bytes \<Rightarrow> vault_error + bytes" where
  "Decrypt cr key nonce ciphertext =
     (if \<not> cr_keyOk cr key then Inl ErrCreatingCipher
      else case cr_open cr key nonce ciphertext of None \<Rightarrow> Inl ErrWrongPassphrase | Some p \<Rightarrow> Inr p)"

definition LockVault :: "crypto \<Rightarrow> io \<Rightarrow> bytes \<Rightarrow> string \<Rightarrow> vault_error + bytes encrypted_vault" where
  "LockVault cr x secretsJSON passphrase =
     (case GenerateSalt x of Inl e \<Rightarrow> Inl e
      | Inr salt \<Rightarrow> (case GenerateDEK x of Inl e \<Rightarrow> Inl e
      | Inr dek \<Rightarrow> (case Encrypt cr (io_nonce1 x) (DeriveKey cr passphrase salt) dek of Inl e \<Rightarrow> Inl e
      | Inr (dekNonce, dekCiphertext) \<Rightarrow> (case Encrypt cr (io_nonce2 x) dek secretsJSON of Inl e \<Rightarrow> Inl e
      | Inr (dataNonce, dataCiphertext) \<Rightarrow>
          Inr (EncryptedVault 1 True (KDFParams ''argon2id'' (Some salt) 1 65536 4)
            (Blob (Some dekNonce) (Some dekCiphertext)) (Blob (Some dataNonce) (Some dataCiphertext)))))))"

definition decode :: "string \<Rightarrow> bytes option \<Rightarrow> vault_error + bytes" where
  "decode what b = (case b of None \<Rightarrow> Inl (ErrDecoding what) | Some x \<Rightarrow> Inr x)"

definition openDEK :: "crypto \<Rightarrow> bytes encrypted_vault \<Rightarrow> string \<Rightarrow> vault_error + bytes" where
  "openDEK cr ev passphrase =
     (case decode ''salt'' (kd_salt (ev_kdf ev)) of Inl e \<Rightarrow> Inl e
      | Inr salt \<Rightarrow> (case decode ''DEK nonce'' (bl_nonce (ev_dek ev)) of Inl e \<Rightarrow> Inl e
      | Inr dekNonce \<Rightarrow> (case decode ''DEK ciphertext'' (bl_ciphertext (ev_dek ev)) of Inl e \<Rightarrow> Inl e
      | Inr dekCiphertext \<Rightarrow> Decrypt cr (DeriveKey cr passphrase salt) dekNonce dekCiphertext)))"

definition UnlockVault :: "crypto \<Rightarrow> bytes encrypted_vault \<Rightarrow> string \<Rightarrow> vault_error + bytes" where
  "UnlockVault cr ev passphrase =
     (case openDEK cr ev passphrase of Inl e \<Rightarrow> Inl e
      | Inr dek \<Rightarrow> (case decode ''data nonce'' (bl_nonce (ev_data ev)) of Inl e \<Rightarrow> Inl e
      | Inr dataNonce \<Rightarrow> (case decode ''data ciphertext'' (bl_ciphertext (ev_data ev)) of Inl e \<Rightarrow> Inl e
      | Inr dataCiphertext \<Rightarrow> Decrypt cr dek dataNonce dataCiphertext)))"

definition ChangePassphrase :: "crypto \<Rightarrow> io \<Rightarrow> bytes encrypted_vault \<Rightarrow> string \<Rightarrow> string \<Rightarrow> vault_error + bytes encrypted_vault" where
  "ChangePassphrase cr x ev oldPass newPass =
     (case openDEK cr ev oldPass of Inl e \<Rightarrow> Inl e
      | Inr dek \<Rightarrow> (case GenerateSalt x of Inl e \<Rightarrow> Inl e
      | Inr newSalt \<Rightarrow> (case Encrypt cr (io_nonce1 x) (DeriveKey cr newPass newSalt) dek of Inl e \<Rightarrow> Inl e
      | Inr (newNonce, newCiphertext) \<Rightarrow>
          Inr (EncryptedVault (ev_version ev) (ev_encrypted ev)
            (KDFParams (kd_algorithm (ev_kdf ev)) (Some newSalt) (kd_time (ev_kdf ev)) (kd_memory (ev_kdf ev)) (kd_threads (ev_kdf ev)))
            (Blob (Some newNonce) (Some newCiphertext)) (ev_data ev)))))"

text \<open>An object that is no envelope decodes to an envelope with zero fields.\<close>

definition zero_vault :: "bytes encrypted_vault" where
  "zero_vault = EncryptedVault 0 False (KDFParams [] (Some (Raw [])) 0 0 0)
     (Blob (Some (Raw [])) (Some (Raw []))) (Blob (Some (Raw [])) (Some (Raw [])))"

definition unmarshalEncryptedVault :: "bytes \<Rightarrow> vault_error + bytes encrypted_vault" where
  "unmarshalEncryptedVault b =
     (case b of VaultJson ev \<Rightarrow> Inr ev
      | StoreJson (DocObject (Some _)) \<Rightarrow> Inr zero_vault
      | _ \<Rightarrow> Inl ErrParsingEncrypted)"

subsection \<open>Parsing and loading\<close>

definition put_variables :: "variable list \<Rightarrow> (string, variable) gomap \<Rightarrow> (string, variable) gomap" where
  "put_variables vs m = fold (\<lambda>v. AList.update (v_key v) v) vs m"

definition put_sets :: "vset list \<Rightarrow> (string, vset) gomap \<Rightarrow> (string, vset) gomap" where
  "put_sets ss m = fold (\<lambda>s. AList.update (vs_name s) s) ss m"

definition legacy_variable :: "legacy_secret \<Rightarrow> variable" where
  "legacy_variable sec = mk_variable (ls_key sec) (ls_value sec) (ls_set sec) []"

definition default_type :: "variable \<Rightarrow> variable" where
  "default_type v = (if v_type v = [] then v\<lparr>v_type := TypeString\<rparr> else v)"

definition parseSecretsData :: "bytes \<Rightarrow> vault_error + (string, variable) gomap \<times> (string, vset) gomap" where
  "parseSecretsData data =
     (case store_view data of
        DocEmpty \<Rightarrow> Inr ([], [])
      | DocArray None \<Rightarrow> Inl ErrParsingV0
      | DocArray (Some legacy) \<Rightarrow> Inr (put_variables (map legacy_variable legacy) [], [])
      | DocObject None \<Rightarrow> Inl ErrParsing
      | DocObject (Some ob) \<Rightarrow>
          if ov_versioned ob then
            (case ov_store ob of
               None \<Rightarrow> Inl ErrParsing
             | Some sd \<Rightarrow>
                 if sd_version sd > CurrentStoreVersion then Inl (ErrNewerVersion (sd_version sd))
                 else Inr (put_variables (map default_type (sd_variables sd)) [], put_sets (sd_sets sd) []))
          else
            (case ov_legacy ob of
               None \<Rightarrow> Inl ErrParsingV1
             | Some (secrets, sets) \<Rightarrow> Inr (put_variables (map legacy_variable secrets) [], put_sets sets []))
      | DocOther \<Rightarrow> Inl ErrUnexpectedShape)"

definition activePathLocked :: "store \<Rightarrow> disk \<Rightarrow> vfile option" where
  "activePathLocked s d = (if st_encrypted s then d_enc d else d_plain d)"

definition stampMtimeLocked :: "disk \<Rightarrow> store \<Rightarrow> store" where
  "stampMtimeLocked d s =
     (case activePathLocked s d of
        None \<Rightarrow> s\<lparr>st_mtime := None, st_size := 0\<rparr>
      | Some f \<Rightarrow> s\<lparr>st_mtime := Some (f_mtime f), st_size := f_size f\<rparr>)"

definition adopt :: "disk \<Rightarrow> bytes \<Rightarrow> store \<Rightarrow> vault_error + store" where
  "adopt d data s =
     (case parseSecretsData data of Inl e \<Rightarrow> Inl e
      | Inr (variables, sets) \<Rightarrow> Inr (stampMtimeLocked d (s\<lparr>st_variables := variables, st_sets := sets\<rparr>)))"

definition open_file :: "crypto \<Rightarrow> vfile \<Rightarrow> string \<Rightarrow> vault_error + bytes" where
  "open_file cr f passphrase =
     (case unmarshalEncryptedVault (f_data f) of Inl e \<Rightarrow> Inl e | Inr ev \<Rightarrow> UnlockVault cr ev passphrase)"

definition Load_store :: "io \<Rightarrow> store \<Rightarrow> disk \<Rightarrow> vault_error option \<times> store" where
  "Load_store x s d =
     (let s0 = s\<lparr>st_variables := [], st_sets := [], st_locked := False, st_encrypted := False, st_mtime := None, st_size := 0\<rparr>
      in case d_enc d of
           Some f \<Rightarrow> (None, s0\<lparr>st_locked := True, st_encrypted := True, st_mtime := Some (f_mtime f), st_size := f_size f\<rparr>)
         | None \<Rightarrow>
             (case d_plain d of
                None \<Rightarrow> (None, s0)
              | Some f \<Rightarrow>
                  if \<not> io_readable x then (Some ErrReading, s0)
                  else case adopt d (f_data f) s0 of Inl e \<Rightarrow> (Some e, s0) | Inr s1 \<Rightarrow> (None, s1)))"

definition loadLocked :: "crypto \<Rightarrow> io \<Rightarrow> disk \<Rightarrow> store \<Rightarrow> vault_error + store" where
  "loadLocked cr x d s =
     (if st_encrypted s \<and> \<not> st_locked s \<and> st_passphrase s \<noteq> []
      then case d_enc d of
          None \<Rightarrow> Inr s
        | Some f \<Rightarrow>
            if \<not> io_readable x then Inl ErrReadingEncrypted
            else case open_file cr f (st_passphrase s) of Inl e \<Rightarrow> Inl e | Inr plaintext \<Rightarrow> adopt d plaintext s
      else case d_plain d of
          None \<Rightarrow> Inr s
        | Some f \<Rightarrow> if \<not> io_readable x then Inl ErrReading else adopt d (f_data f) s)"

definition unchanged :: "vfile \<Rightarrow> store \<Rightarrow> bool" where
  "unchanged f s \<longleftrightarrow> (case st_mtime s of None \<Rightarrow> False | Some t \<Rightarrow> \<not> f_mtime f > t) \<and> f_size f = st_size s"

definition reloadIfChanged :: "crypto \<Rightarrow> io \<Rightarrow> disk \<Rightarrow> store \<Rightarrow> vault_error option \<times> store" where
  "reloadIfChanged cr x d s =
     (let reload = (\<lambda>q. case loadLocked cr x d q of Inl e \<Rightarrow> (Some e, q) | Inr q' \<Rightarrow> (None, q')) in
      case d_enc d of
        Some f \<Rightarrow>
          if \<not> st_encrypted s then
            (None, s\<lparr>st_encrypted := True, st_locked := True, st_passphrase := [], st_variables := [], st_sets := [],
                     st_mtime := Some (f_mtime f), st_size := f_size f\<rparr>)
          else if st_locked s then (None, s)
          else if unchanged f s then (None, s)
          else reload s
      | None \<Rightarrow>
          (case d_plain d of
             Some f \<Rightarrow>
               if st_encrypted s then reload (s\<lparr>st_encrypted := False, st_locked := False, st_passphrase := []\<rparr>)
               else if unchanged f s then (None, s)
               else reload s
           | None \<Rightarrow> (None, s)))"

definition reloadOrWarn :: "crypto \<Rightarrow> io \<Rightarrow> disk \<Rightarrow> store \<Rightarrow> store" where
  "reloadOrWarn cr x d s = snd (reloadIfChanged cr x d s)"

subsection \<open>Saving\<close>

definition serializeVariables :: "store \<Rightarrow> bytes" where
  "serializeVariables s =
     (let sd = \<lparr>sd_version = CurrentStoreVersion,
                sd_variables = sort_key v_key (map (default_type \<circ> snd) (st_variables s)),
                sd_sets = sort_key vs_name (map snd (st_sets s))\<rparr>
      in StoreJson (DocObject (Some \<lparr>ov_versioned = True, ov_store = Some sd, ov_legacy = Some ([], sd_sets sd)\<rparr>)))"

definition atomicWrite :: "crypto \<Rightarrow> io \<Rightarrow> bytes \<Rightarrow> vault_error + vfile" where
  "atomicWrite cr x data =
     (if \<not> io_write x then Inl ErrWritingTemp
      else if \<not> io_rename x then Inl ErrRenamingTemp
      else Inr \<lparr>f_data = data, f_mtime = io_now x, f_size = cr_size cr data\<rparr>)"

definition saveLocked :: "crypto \<Rightarrow> io \<Rightarrow> store \<Rightarrow> disk \<Rightarrow> vault_error option \<times> store \<times> disk" where
  "saveLocked cr x s d =
     (if \<not> io_mkdir x then (Some ErrMkdir, s, d)
      else if st_encrypted s \<and> st_passphrase s \<noteq> [] then
        (case LockVault cr x (serializeVariables s) (st_passphrase s) of
           Inl e \<Rightarrow> (Some e, s, d)
         | Inr ev \<Rightarrow>
             (case atomicWrite cr x (VaultJson ev) of
                Inl e \<Rightarrow> (Some e, s, d)
              | Inr f \<Rightarrow> (let d' = d\<lparr>d_enc := Some f\<rparr> in (None, stampMtimeLocked d' s, d'))))
      else
        (case atomicWrite cr x (serializeVariables s) of
           Inl e \<Rightarrow> (Some e, s, d)
         | Inr f \<Rightarrow> (let d' = d\<lparr>d_plain := Some f\<rparr> in (None, stampMtimeLocked d' s, d'))))"

text \<open>The frame every mutating method has: take the file lock, read the disk, change the maps, write.\<close>

definition locked_update ::
  "crypto \<Rightarrow> io \<Rightarrow> (store \<Rightarrow> vault_error + store) \<Rightarrow> store \<Rightarrow> disk \<Rightarrow> vault_error option \<times> store \<times> disk" where
  "locked_update cr x f s d =
     (if \<not> io_lock x then (Some ErrLockTimeout, s, d)
      else case loadLocked cr x d s of
          Inl e \<Rightarrow> (Some e, s, d)
        | Inr s1 \<Rightarrow> (case f s1 of Inl e \<Rightarrow> (Some e, s1, d) | Inr s2 \<Rightarrow> saveLocked cr x s2 d))"

subsection \<open>Changes to the maps\<close>

definition withRotationStamp :: "string \<Rightarrow> variable \<Rightarrow> string \<Rightarrow> variable" where
  "withRotationStamp stamp existing val =
     (if v_value existing \<noteq> val then existing\<lparr>v_lastRotated := stamp, v_value := val\<rparr> else existing\<lparr>v_value := val\<rparr>)"

definition stampAgainstStored :: "string \<Rightarrow> variable \<Rightarrow> (string, variable) gomap \<Rightarrow> variable" where
  "stampAgainstStored stamp v stored =
     (case map_of stored (v_key v) of
        Some existing \<Rightarrow> if v_value existing = v_value v then v\<lparr>v_lastRotated := v_lastRotated existing\<rparr>
                        else v\<lparr>v_lastRotated := stamp\<rparr>
      | None \<Rightarrow> v\<lparr>v_lastRotated := stamp\<rparr>)"

definition ensure_set :: "string \<Rightarrow> (string, vset) gomap \<Rightarrow> (string, vset) gomap" where
  "ensure_set name sets =
     (if name \<noteq> [] \<and> map_of sets name = None then AList.update name (mk_set name) sets else sets)"

definition set_step :: "string \<Rightarrow> string \<Rightarrow> string \<Rightarrow> store \<Rightarrow> vault_error + store" where
  "set_step stamp key val s = Inr (s\<lparr>st_variables := AList.update key
     (case map_of (st_variables s) key of
        Some existing \<Rightarrow> withRotationStamp stamp existing val
      | None \<Rightarrow> mk_variable key val [] stamp) (st_variables s)\<rparr>)"

definition Set_var :: "crypto \<Rightarrow> io \<Rightarrow> string \<Rightarrow> string \<Rightarrow> store \<Rightarrow> disk \<Rightarrow> vault_error option \<times> store \<times> disk" where
  "Set_var cr x key val s d =
     (if IsInternalCredential key then (Some (ErrInternalCredential key), s, d)
      else locked_update cr x (set_step (io_stamp x) key val) s d)"

definition set_with_set_step :: "string \<Rightarrow> string \<Rightarrow> string \<Rightarrow> string \<Rightarrow> store \<Rightarrow> vault_error + store" where
  "set_with_set_step stamp key val setName s = Inr (s\<lparr>st_variables := AList.update key
     (case map_of (st_variables s) key of
        Some existing \<Rightarrow> (withRotationStamp stamp existing val)\<lparr>v_set := setName\<rparr>
      | None \<Rightarrow> mk_variable key val setName stamp) (st_variables s),
     st_sets := ensure_set setName (st_sets s)\<rparr>)"

definition SetWithSet :: "crypto \<Rightarrow> io \<Rightarrow> string \<Rightarrow> string \<Rightarrow> string \<Rightarrow> store \<Rightarrow> disk \<Rightarrow> vault_error option \<times> store \<times> disk" where
  "SetWithSet cr x key val setName s d =
     (if IsInternalCredential key then (Some (ErrInternalCredential key), s, d)
      else locked_update cr x (set_with_set_step (io_stamp x) key val setName) s d)"

definition set_variable_step :: "string \<Rightarrow> variable \<Rightarrow> store \<Rightarrow> vault_error + store" where
  "set_variable_step stamp v s = Inr (s\<lparr>
     st_variables := AList.update (v_key v) (stampAgainstStored stamp v (st_variables s)) (st_variables s),
     st_sets := ensure_set (v_set v) (st_sets s)\<rparr>)"

definition SetVariable :: "crypto \<Rightarrow> io \<Rightarrow> variable \<Rightarrow> store \<Rightarrow> disk \<Rightarrow> vault_error option \<times> store \<times> disk" where
  "SetVariable cr x v0 s d =
     (let v = default_type v0 in
      if v_key v = [] then (Some ErrEmptyKey, s, d)
      else if \<not> IsValidType (v_type v) then (Some (ErrInvalidType (v_type v)), s, d)
      else if IsInternalCredential (v_key v) then (Some (ErrInternalCredential (v_key v)), s, d)
      else locked_update cr x (set_variable_step (io_stamp x) v) s d)"

definition delete_step :: "string \<Rightarrow> store \<Rightarrow> vault_error + store" where
  "delete_step key s =
     (if map_of (st_variables s) key = None then Inl (ErrVariableNotFound key)
      else Inr (s\<lparr>st_variables := AList.delete key (st_variables s)\<rparr>))"

definition Delete_var :: "crypto \<Rightarrow> io \<Rightarrow> string \<Rightarrow> store \<Rightarrow> disk \<Rightarrow> vault_error option \<times> store \<times> disk" where
  "Delete_var cr x key s d = locked_update cr x (delete_step key) s d"

definition secret_set_step :: "string \<Rightarrow> string \<Rightarrow> store \<Rightarrow> vault_error + store" where
  "secret_set_step key setName s =
     (case map_of (st_variables s) key of
        None \<Rightarrow> Inl (ErrVariableNotFound key)
      | Some v \<Rightarrow> Inr (s\<lparr>st_variables := AList.update key (v\<lparr>v_set := setName\<rparr>) (st_variables s),
                         st_sets := ensure_set setName (st_sets s)\<rparr>))"

definition SetSecretSet :: "crypto \<Rightarrow> io \<Rightarrow> string \<Rightarrow> string \<Rightarrow> store \<Rightarrow> disk \<Rightarrow> vault_error option \<times> store \<times> disk" where
  "SetSecretSet cr x key setName s d = locked_update cr x (secret_set_step key setName) s d"

definition create_set_step :: "string \<Rightarrow> store \<Rightarrow> vault_error + store" where
  "create_set_step name s =
     (if map_of (st_sets s) name \<noteq> None then Inl (ErrSetExists name)
      else Inr (s\<lparr>st_sets := AList.update name (mk_set name) (st_sets s)\<rparr>))"

definition CreateSet :: "crypto \<Rightarrow> io \<Rightarrow> string \<Rightarrow> store \<Rightarrow> disk \<Rightarrow> vault_error option \<times> store \<times> disk" where
  "CreateSet cr x name s d = locked_update cr x (create_set_step name) s d"

definition delete_set_step :: "string \<Rightarrow> store \<Rightarrow> vault_error + store" where
  "delete_set_step name s =
     (if map_of (st_sets s) name = None then Inl (ErrSetNotFound name)
      else Inr (s\<lparr>st_variables := map (\<lambda>(k, v). (k, if v_set v = name then v\<lparr>v_set := []\<rparr> else v)) (st_variables s),
                  st_sets := AList.delete name (st_sets s)\<rparr>))"

definition DeleteSet :: "crypto \<Rightarrow> io \<Rightarrow> string \<Rightarrow> store \<Rightarrow> disk \<Rightarrow> vault_error option \<times> store \<times> disk" where
  "DeleteSet cr x name s d = locked_update cr x (delete_set_step name) s d"

fun check_import :: "variable list \<Rightarrow> vault_error + (variable list \<times> string list)" where
  "check_import [] = Inr ([], [])"
| "check_import (v # vs) =
     (if v_key v = [] then check_import vs
      else if IsInternalCredential (v_key v) then map_sum id (\<lambda>(valid, skipped). (valid, v_key v # skipped)) (check_import vs)
      else if \<not> IsValidType (v_type (default_type v)) then Inl (ErrInvalidTypeFor (v_type (default_type v)) (v_key v))
      else map_sum id (\<lambda>(valid, skipped). (default_type v # valid, skipped)) (check_import vs))"

definition import_one :: "string \<Rightarrow> variable \<Rightarrow> (string, variable) gomap \<times> (string, vset) gomap \<Rightarrow> (string, variable) gomap \<times> (string, vset) gomap" where
  "import_one stamp v m =
     (AList.update (v_key v) (stampAgainstStored stamp v (fst m)) (fst m), ensure_set (v_set v) (snd m))"

definition import_step :: "string \<Rightarrow> variable list \<Rightarrow> store \<Rightarrow> vault_error + store" where
  "import_step stamp valid s =
     (let m = fold (import_one stamp) valid (st_variables s, st_sets s)
      in Inr (s\<lparr>st_variables := fst m, st_sets := snd m\<rparr>))"

definition ImportVariables ::
  "crypto \<Rightarrow> io \<Rightarrow> variable list \<Rightarrow> store \<Rightarrow> disk \<Rightarrow> (import_result \<times> vault_error option) \<times> store \<times> disk" where
  "ImportVariables cr x vars s d =
     (case check_import vars of
        Inl e \<Rightarrow> ((\<lparr>ir_imported = 0, ir_skipped = []\<rparr>, Some e), s, d)
      | Inr (valid, skipped) \<Rightarrow>
          (let res = (\<lambda>n. \<lparr>ir_imported = n, ir_skipped = sort_strings skipped\<rparr>) in
           if \<not> io_lock x then ((res 0, Some ErrLockTimeout), s, d)
           else case loadLocked cr x d s of
               Inl e \<Rightarrow> ((res 0, Some e), s, d)
             | Inr s1 \<Rightarrow>
                 (case import_step (io_stamp x) valid s1 of
                    Inl e \<Rightarrow> ((res 0, Some e), s1, d)
                  | Inr s2 \<Rightarrow>
                      (case saveLocked cr x s2 d of
                         (Some e, s3, d') \<Rightarrow>
                           ((res 0, Some e), s3\<lparr>st_variables := st_variables s1, st_sets := st_sets s1\<rparr>, d')
                       | (None, s3, d') \<Rightarrow> ((res (int (length valid)), None), s3, d')))))"

definition Import_map ::
  "crypto \<Rightarrow> io \<Rightarrow> (string, string) gomap \<Rightarrow> store \<Rightarrow> disk \<Rightarrow> (import_result \<times> vault_error option) \<times> store \<times> disk" where
  "Import_map cr x secrets s d = ImportVariables cr x (map (\<lambda>(k, v). mk_variable k v [] []) secrets) s d"

subsection \<open>Locking and unlocking\<close>

definition Lock_store :: "crypto \<Rightarrow> io \<Rightarrow> string \<Rightarrow> store \<Rightarrow> disk \<Rightarrow> vault_error option \<times> store \<times> disk" where
  "Lock_store cr x passphrase s d =
     (if \<not> io_lock x then (Some ErrLockTimeout, s, d)
      else case loadLocked cr x d s of
          Inl e \<Rightarrow> (Some e, s, d)
        | Inr s1 \<Rightarrow>
            (case LockVault cr x (serializeVariables s1) passphrase of
               Inl e \<Rightarrow> (Some e, s1, d)
             | Inr ev \<Rightarrow>
                 if \<not> io_mkdir x then (Some ErrMkdir, s1, d)
                 else case atomicWrite cr x (VaultJson ev) of
                     Inl e \<Rightarrow> (Some e, s1, d)
                   | Inr f \<Rightarrow>
                       (let d' = d\<lparr>d_enc := Some f, d_plain := (if io_remove x then None else d_plain d)\<rparr> in
                        (None, stampMtimeLocked d' (s1\<lparr>st_encrypted := True, st_locked := False, st_passphrase := passphrase\<rparr>), d'))))"

definition Unlock_store :: "crypto \<Rightarrow> io \<Rightarrow> string \<Rightarrow> store \<Rightarrow> disk \<Rightarrow> vault_error option \<times> store" where
  "Unlock_store cr x passphrase s d =
     (if \<not> io_lock x then (Some ErrLockTimeout, s)
      else if \<not> st_locked s then (None, s)
      else case d_enc d of
          None \<Rightarrow> (Some ErrReadingEncrypted, s)
        | Some f \<Rightarrow>
            if \<not> io_readable x then (Some ErrReadingEncrypted, s)
            else case open_file cr f passphrase of
                Inl e \<Rightarrow> (Some e, s)
              | Inr plaintext \<Rightarrow>
                  (case parseSecretsData plaintext of
                     Inl e \<Rightarrow> (Some e, s)
                   | Inr (variables, sets) \<Rightarrow>
                       (None, stampMtimeLocked d (s\<lparr>st_variables := variables, st_sets := sets, st_locked := False,
                                                     st_passphrase := passphrase\<rparr>))))"

definition ChangePassphrase_store ::
  "crypto \<Rightarrow> io \<Rightarrow> string \<Rightarrow> string \<Rightarrow> store \<Rightarrow> disk \<Rightarrow> vault_error option \<times> store \<times> disk" where
  "ChangePassphrase_store cr x oldPass newPass s d =
     (if \<not> st_encrypted s then (Some ErrNotEncrypted, s, d)
      else if \<not> io_lock x then (Some ErrLockTimeout, s, d)
      else case d_enc d of
          None \<Rightarrow> (Some ErrReadingEncrypted, s, d)
        | Some f \<Rightarrow>
            if \<not> io_readable x then (Some ErrReadingEncrypted, s, d)
            else case unmarshalEncryptedVault (f_data f) of
                Inl e \<Rightarrow> (Some e, s, d)
              | Inr ev \<Rightarrow>
                  (case ChangePassphrase cr x ev oldPass newPass of
                     Inl e \<Rightarrow> (Some e, s, d)
                   | Inr changed \<Rightarrow>
                       (case atomicWrite cr x (VaultJson changed) of
                          Inl e \<Rightarrow> (Some e, s, d)
                        | Inr g \<Rightarrow> (let d' = d\<lparr>d_enc := Some g\<rparr> in
                            (None, stampMtimeLocked d' (s\<lparr>st_passphrase := newPass\<rparr>), d')))))"

subsection \<open>Reading\<close>

definition Get_var :: "crypto \<Rightarrow> io \<Rightarrow> string \<Rightarrow> disk \<Rightarrow> store \<Rightarrow> string option \<times> store" where
  "Get_var cr x key d s = (let s1 = reloadOrWarn cr x d s in (map_option v_value (map_of (st_variables s1) key), s1))"

definition GetVariable :: "crypto \<Rightarrow> io \<Rightarrow> string \<Rightarrow> disk \<Rightarrow> store \<Rightarrow> variable option \<times> store" where
  "GetVariable cr x key d s = (let s1 = reloadOrWarn cr x d s in (map_of (st_variables s1) key, s1))"

definition List_vars :: "crypto \<Rightarrow> io \<Rightarrow> disk \<Rightarrow> store \<Rightarrow> variable list \<times> store" where
  "List_vars cr x d s = (let s1 = reloadOrWarn cr x d s in (sort_key v_key (map snd (st_variables s1)), s1))"

definition Export :: "crypto \<Rightarrow> io \<Rightarrow> disk \<Rightarrow> store \<Rightarrow> ((string, string) gomap \<times> string list) \<times> store" where
  "Export cr x d s =
     (let s1 = reloadOrWarn cr x d s in
      ((map (\<lambda>(k, v). (k, v_value v)) (filter (\<lambda>(k, v). \<not> IsInternalCredential k) (st_variables s1)),
        sort_strings (filter IsInternalCredential (map fst (st_variables s1)))), s1))"

definition Keys_of :: "crypto \<Rightarrow> io \<Rightarrow> disk \<Rightarrow> store \<Rightarrow> string list \<times> store" where
  "Keys_of cr x d s = (let s1 = reloadOrWarn cr x d s in (sort_strings (map fst (st_variables s1)), s1))"

definition Has_var :: "crypto \<Rightarrow> io \<Rightarrow> string \<Rightarrow> disk \<Rightarrow> store \<Rightarrow> bool \<times> store" where
  "Has_var cr x key d s = (let s1 = reloadOrWarn cr x d s in (map_has (st_variables s1) key, s1))"

definition Values :: "crypto \<Rightarrow> io \<Rightarrow> disk \<Rightarrow> store \<Rightarrow> string list \<times> store" where
  "Values cr x d s =
     (let s1 = reloadOrWarn cr x d s in
      (map v_value (filter (\<lambda>v. v_isSecret v \<and> v_value v \<noteq> []) (map snd (st_variables s1))), s1))"

definition ListSets :: "crypto \<Rightarrow> io \<Rightarrow> disk \<Rightarrow> store \<Rightarrow> set_summary list \<times> store" where
  "ListSets cr x d s =
     (let s1 = reloadOrWarn cr x d s;
          count = (\<lambda>n. if n = [] then 0 else int (length (filter (\<lambda>(k, v). v_set v = n) (st_variables s1))))
      in (sort_key ss_name (map (\<lambda>(k, t). \<lparr>ss_name = vs_name t, ss_description = vs_description t, ss_count = count (vs_name t)\<rparr>)
            (st_sets s1)), s1))"

definition GetSetSecrets :: "crypto \<Rightarrow> io \<Rightarrow> string \<Rightarrow> disk \<Rightarrow> store \<Rightarrow> variable list \<times> store" where
  "GetSetSecrets cr x setName d s =
     (let s1 = reloadOrWarn cr x d s in
      (sort_key v_key (filter (\<lambda>v. v_set v = setName \<and> \<not> IsInternalCredential (v_key v)) (map snd (st_variables s1))), s1))"

definition IsLocked :: "crypto \<Rightarrow> io \<Rightarrow> disk \<Rightarrow> store \<Rightarrow> bool \<times> store" where
  "IsLocked cr x d s = (let s1 = reloadOrWarn cr x d s in (st_locked s1, s1))"

definition IsEncrypted :: "crypto \<Rightarrow> io \<Rightarrow> disk \<Rightarrow> store \<Rightarrow> bool \<times> store" where
  "IsEncrypted cr x d s = (let s1 = reloadOrWarn cr x d s in (st_encrypted s1, s1))"

end
