(* ===== verification/Vault_Laws.thy ===== *)
theory Vault_Laws
  imports Vault
begin

text \<open>
  What the variable store promises. The contents of the disk under a passphrase are two maps; every
  successful operation of a store that is attached to the disk changes them as an abstract operation on
  maps does, whichever process runs it and in whatever order; an operation that fails leaves the disk as it
  was; reserved keys are never written. Two theorems show what happens on a store that is still locked.
\<close>

subsection \<open>Contents and well-formed stores\<close>

text \<open>The law of the authenticated cipher: what was sealed with a valid key opens with it.\<close>

definition crypto_ok :: "crypto \<Rightarrow> bool" where
  "crypto_ok cr \<longleftrightarrow> (\<forall>k n p. cr_keyOk cr k \<longrightarrow> cr_open cr k n (cr_seal cr k n p) = Some p)"

definition maps_ok :: "(string, variable) gomap \<Rightarrow> (string, vset) gomap \<Rightarrow> bool" where
  "maps_ok vs ss \<longleftrightarrow> map_keys_ok vs \<and> (\<forall>(k, v)\<in>set vs. v_key v = k \<and> v_type v \<noteq> [])
     \<and> map_keys_ok ss \<and> (\<forall>(k, t)\<in>set ss. vs_name t = k)"

abbreviation store_ok :: "store \<Rightarrow> bool" where
  "store_ok s \<equiv> maps_ok (st_variables s) (st_sets s)"

definition contents :: "crypto \<Rightarrow> string \<Rightarrow> disk \<Rightarrow> vault_error + (string, variable) gomap \<times> (string, vset) gomap" where
  "contents cr pass d =
     (case d_enc d of
        Some f \<Rightarrow> (case open_file cr f pass of Inl e \<Rightarrow> Inl e | Inr p \<Rightarrow> parseSecretsData p)
      | None \<Rightarrow> (case d_plain d of None \<Rightarrow> Inr ([], []) | Some f \<Rightarrow> parseSecretsData (f_data f)))"

type_synonym vault_maps = "(string \<rightharpoonup> variable) \<times> (string \<rightharpoonup> vset)"

definition maps_of :: "(string, variable) gomap \<times> (string, vset) gomap \<Rightarrow> vault_maps" where
  "maps_of m = (map_of (fst m), map_of (snd m))"

definition memory :: "store \<Rightarrow> vault_maps" where
  "memory s = (map_of (st_variables s), map_of (st_sets s))"

lemma update_mem: "(k, v) \<in> set (AList.update a b m) \<Longrightarrow> (k, v) = (a, b) \<or> (k, v) \<in> set m"
  by (induction m) (auto split: if_splits)

lemma delete_mem: "(k, v) \<in> set (AList.delete a m) \<Longrightarrow> (k, v) \<in> set m"
  by (auto simp: AList.delete_eq)

lemma fold_update_keys:
  "map_keys_ok m \<Longrightarrow> map_keys_ok (fold (\<lambda>v. AList.update (f v) v) vs m)"
  by (induction vs arbitrary: m) simp_all

lemma fold_update_mem:
  "(k, v) \<in> set (fold (\<lambda>v. AList.update (f v) v) vs m) \<Longrightarrow> (k, v) \<in> set m \<or> v \<in> set vs \<and> f v = k"
proof (induction vs arbitrary: m)
  case (Cons a vs)
  then show ?case by (auto dest: update_mem)
qed simp

lemma map_of_fold_update:
  "map_of (fold (\<lambda>v. AList.update (f v) v) vs m) k
     = (case map_of (rev (map (\<lambda>v. (f v, v)) vs)) k of Some v \<Rightarrow> Some v | None \<Rightarrow> map_of m k)"
  by (induction vs arbitrary: m) (auto simp: map_of_update map_of_append map_add_def split: option.splits)

text \<open>Writing a map out as its values, in any order, and reading it back gives the same map.\<close>

lemma map_of_reinsert:
  assumes "map_keys_ok m" and "\<forall>(k, v)\<in>set m. f (g v) = k" and "mset vs = mset (map (g \<circ> snd) m)"
  shows "map_of (fold (\<lambda>v. AList.update (f v) v) vs []) = map_of (map (\<lambda>(k, v). (k, g v)) m)"
proof -
  let ?xs = "map (\<lambda>v. (f v, v)) vs" and ?ys = "map (\<lambda>(k, v). (k, g v)) m"
  have "map (\<lambda>v. (f v, v)) (map (g \<circ> snd) m) = ?ys" using assms(2) by (induction m) auto
  then have ms: "mset ?xs = mset ?ys" using assms(3) by (metis mset_map)
  have xy: "mset (map fst ?xs) = mset (map fst ?ys)" unfolding mset_map ms [unfolded mset_map] ..
  have ys: "map fst ?ys = map fst m" by (simp only: map_map) (auto simp: split_beta)
  from xy ys have k: "mset (map fst ?xs) = mset (map fst m)" by (simp only:)
  from ys assms(1) have d2: "distinct (map fst ?ys)" by (simp only: map_keys_ok_def)
  from mset_eq_imp_distinct_iff [OF k] assms(1) have d1: "distinct (map fst ?xs)" by (simp add: map_keys_ok_def)
  have "set ?xs = set ?ys" using mset_eq_setD [OF ms] .
  then have "map_of (rev ?xs) = map_of ?ys"
    using d1 d2 by (subst map_of_inject_set) (simp_all add: rev_map [symmetric])
  moreover have "map_of (fold (\<lambda>v. AList.update (f v) v) vs []) k = map_of (rev ?xs) k" for k
    unfolding map_of_fold_update by (simp split: option.split)
  ultimately show ?thesis by (intro ext) simp
qed

lemma default_type_simps [simp]: "v_key (default_type v) = v_key v" "v_type (default_type v) \<noteq> []"
  by (simp_all add: default_type_def)

lemma parse_ok: "parseSecretsData b = Inr (vs, ss) \<Longrightarrow> maps_ok vs ss"
  by (auto simp: parseSecretsData_def maps_ok_def put_variables_def put_sets_def fold_update_keys legacy_variable_def mk_variable_def
      dest!: fold_update_mem split: vault_doc.splits option.splits if_splits)

lemma mset_sort_key: "mset (sort_key f xs) = mset xs"
  by simp

lemma serialize_roundtrip:
  assumes "store_ok s"
  shows "\<exists>vs ss. parseSecretsData (serializeVariables s) = Inr (vs, ss) \<and> maps_of (vs, ss) = memory s"
proof -
  have "default_type v = v" if "(k, v) \<in> set (st_variables s)" for k v
    using assms that by (auto simp: maps_ok_def default_type_def)
  then have e: "map (\<lambda>(k, v). (k, default_type v)) (st_variables s) = st_variables s" by (intro map_idI) auto
  let ?vs = "map default_type (sort_key v_key (map (default_type \<circ> snd) (st_variables s)))"
  have i: "default_type (default_type v) = default_type v" for v by (simp add: default_type_def)
  have k: "\<forall>(k, v)\<in>set (st_variables s). v_key (default_type v) = k" using assms by (auto simp: maps_ok_def)
  have v: "map_of (put_variables ?vs []) = map_of (st_variables s)"
    unfolding put_variables_def using map_of_reinsert [of "st_variables s" v_key default_type ?vs, OF _ k] assms e
    by (simp add: maps_ok_def mset_map multiset.map_comp comp_def i)
  have t: "map_of (put_sets (sort_key vs_name (map snd (st_sets s))) []) = map_of (st_sets s)"
    unfolding put_sets_def using map_of_reinsert [of "st_sets s" vs_name id "sort_key vs_name (map snd (st_sets s))"] assms
    by (simp add: maps_ok_def split_beta)
  show ?thesis by (simp add: serializeVariables_def Let_def parseSecretsData_def store_view_def maps_of_def memory_def v t)
qed

lemma EncryptD: "Encrypt cr r k p = Inr (n, c) \<Longrightarrow> cr_keyOk cr k \<and> c = cr_seal cr k n p"
  by (auto simp: Encrypt_def split: if_splits sum.splits)

lemma Decrypt_sealed: "crypto_ok cr \<Longrightarrow> cr_keyOk cr k \<Longrightarrow> Decrypt cr k n (cr_seal cr k n p) = Inr p"
  by (simp add: Decrypt_def crypto_ok_def)

lemma lock_roundtrip:
  assumes "crypto_ok cr" and "LockVault cr x data pass = Inr ev"
  shows "UnlockVault cr ev pass = Inr data"
proof -
  from assms(2) obtain salt dek n1 c1 n2 c2 where
    "Encrypt cr (io_nonce1 x) (DeriveKey cr pass salt) dek = Inr (n1, c1)" "Encrypt cr (io_nonce2 x) dek data = Inr (n2, c2)"
    "ev = EncryptedVault 1 True (KDFParams ''argon2id'' (Some salt) 1 65536 4) (Blob (Some n1) (Some c1)) (Blob (Some n2) (Some c2))"
    unfolding LockVault_def by (auto split: sum.splits)
  then show ?thesis using Decrypt_sealed [OF assms(1)]
    by (auto simp: UnlockVault_def openDEK_def decode_def dest!: EncryptD)
qed

lemma change_roundtrip:
  assumes "crypto_ok cr" and "ChangePassphrase cr x ev old new = Inr ev'"
  shows "UnlockVault cr ev' new = UnlockVault cr ev old"
proof -
  from assms(2) obtain dek salt n c where
    dek: "openDEK cr ev old = Inr dek" and "Encrypt cr (io_nonce1 x) (DeriveKey cr new salt) dek = Inr (n, c)"
    and ev: "kd_salt (ev_kdf ev') = Some salt" "ev_dek ev' = Blob (Some n) (Some c)" "ev_data ev' = ev_data ev"
    unfolding ChangePassphrase_def by (auto split: sum.splits)
  then have "openDEK cr ev' new = Inr dek"
    using Decrypt_sealed [OF assms(1)] by (auto simp: openDEK_def decode_def dest!: EncryptD)
  with dek show ?thesis unfolding UnlockVault_def ev(3) by simp
qed

subsection \<open>A store attached to the disk\<close>

text \<open>A store that knows how the disk is encrypted: unencrypted with a plaintext disk (and empty when there
  is no file yet), or unlocked with the passphrase of an encrypted one.\<close>

definition attached :: "string \<Rightarrow> disk \<Rightarrow> store \<Rightarrow> bool" where
  "attached pass d s \<longleftrightarrow> store_ok s \<and>
     (if d_enc d = None then \<not> st_encrypted s \<and> (d_plain d = None \<longrightarrow> st_variables s = [] \<and> st_sets s = [])
      else st_encrypted s \<and> \<not> st_locked s \<and> st_passphrase s = pass \<and> pass \<noteq> [])"

definition has_file :: "disk \<Rightarrow> bool" where
  "has_file d \<longleftrightarrow> d_enc d \<noteq> None \<or> d_plain d \<noteq> None"

lemma stamp_simps [simp]:
  "st_variables (stampMtimeLocked d s) = st_variables s" "st_sets (stampMtimeLocked d s) = st_sets s"
  "st_locked (stampMtimeLocked d s) = st_locked s" "st_encrypted (stampMtimeLocked d s) = st_encrypted s"
  "st_passphrase (stampMtimeLocked d s) = st_passphrase s"
  by (simp_all add: stampMtimeLocked_def split: option.splits)

lemma adoptD:
  assumes "adopt d b s = Inr s'"
  shows "\<exists>vs ss. parseSecretsData b = Inr (vs, ss) \<and> st_variables s' = vs \<and> st_sets s' = ss \<and> maps_ok vs ss
    \<and> st_encrypted s' = st_encrypted s \<and> st_locked s' = st_locked s \<and> st_passphrase s' = st_passphrase s"
  using assms by (auto simp: adopt_def parse_ok split: sum.splits)

lemma load_attached:
  assumes "attached pass d s" and "loadLocked cr x d s = Inr s1"
  shows "attached pass d s1 \<and> (\<exists>m. contents cr pass d = Inr m \<and> maps_of m = memory s1)"
proof (cases "d_enc d")
  case None
  with assms show ?thesis
    by (auto simp: loadLocked_def attached_def contents_def maps_of_def memory_def dest!: adoptD split: option.splits if_splits)
next
  case (Some f)
  with assms show ?thesis
    by (auto simp: loadLocked_def attached_def contents_def maps_of_def memory_def dest!: adoptD split: sum.splits if_splits)
qed

lemma save_attached:
  assumes "crypto_ok cr" and "store_ok s" and "saveLocked cr x s d = (None, s', d')"
    and "if d_enc d = None then \<not> st_encrypted s else st_encrypted s \<and> \<not> st_locked s \<and> st_passphrase s = pass \<and> pass \<noteq> []"
  shows "attached pass d' s' \<and> memory s' = memory s \<and> (d_enc d' = None \<longleftrightarrow> d_enc d = None)
    \<and> (\<exists>m. contents cr pass d' = Inr m \<and> maps_of m = memory s)"
proof (cases "d_enc d")
  case None
  with assms(3,4) have "s' = stampMtimeLocked d' s" "d_enc d' = None" "\<exists>f. d_plain d' = Some f \<and> f_data f = serializeVariables s"
    by (auto simp: saveLocked_def atomicWrite_def Let_def split: if_splits)
  with None assms(2,4) serialize_roundtrip [OF assms(2)] show ?thesis
    by (auto simp: attached_def memory_def contents_def)
next
  case (Some f)
  with assms(3,4) obtain ev g where l: "LockVault cr x (serializeVariables s) pass = Inr ev" "d_enc d' = Some g" "f_data g = VaultJson ev"
    "s' = stampMtimeLocked d' s"
    by (auto simp: saveLocked_def atomicWrite_def Let_def split: if_splits sum.splits)
  from l(2,3) lock_roundtrip [OF assms(1) l(1)] have "contents cr pass d' = parseSecretsData (serializeVariables s)"
    by (simp add: contents_def open_file_def unmarshalEncryptedVault_def)
  with Some l assms(2,4) serialize_roundtrip [OF assms(2)] show ?thesis
    by (auto simp: attached_def memory_def)
qed

lemma save_error: "saveLocked cr x s d = (Some e, s', d') \<Longrightarrow> s' = s \<and> d' = d"
  by (auto simp: saveLocked_def atomicWrite_def Let_def split: if_splits sum.splits)

subsection \<open>The abstract vault\<close>

datatype vop =
    OpSet string string | OpSetWithSet string string string | OpSetVariable variable | OpDelete string
  | OpSetSecretSet string string | OpCreateSet string | OpDeleteSet string | OpImport "variable list"

definition with_set :: "string \<Rightarrow> (string \<rightharpoonup> vset) \<Rightarrow> (string \<rightharpoonup> vset)" where
  "with_set name S = (if name = [] \<or> S name \<noteq> None then S else S(name \<mapsto> mk_set name))"

definition put_value :: "string \<Rightarrow> string \<Rightarrow> string \<Rightarrow> string \<Rightarrow> (string \<rightharpoonup> variable) \<Rightarrow> variable" where
  "put_value stamp key val newSet V =
     (case V key of Some e \<Rightarrow> withRotationStamp stamp e val | None \<Rightarrow> mk_variable key val newSet stamp)"

definition put_record :: "string \<Rightarrow> variable \<Rightarrow> vault_maps \<Rightarrow> vault_maps" where
  "put_record stamp v m =
     ((fst m)(v_key v \<mapsto> v\<lparr>v_lastRotated :=
        (case fst m (v_key v) of Some e \<Rightarrow> if v_value e = v_value v then v_lastRotated e else stamp | None \<Rightarrow> stamp)\<rparr>),
      with_set (v_set v) (snd m))"

fun rejected :: "vop \<Rightarrow> bool" where
  "rejected (OpSet k v) \<longleftrightarrow> IsInternalCredential k"
| "rejected (OpSetWithSet k v t) \<longleftrightarrow> IsInternalCredential k"
| "rejected (OpSetVariable v) \<longleftrightarrow> v_key v = [] \<or> \<not> IsValidType (v_type (default_type v)) \<or> IsInternalCredential (v_key v)"
| "rejected (OpImport vs) \<longleftrightarrow>
     (\<exists>v\<in>set vs. v_key v \<noteq> [] \<and> \<not> IsInternalCredential (v_key v) \<and> \<not> IsValidType (v_type (default_type v)))"
| "rejected _ \<longleftrightarrow> False"

definition importable :: "variable list \<Rightarrow> variable list" where
  "importable vs = map default_type (filter (\<lambda>v. v_key v \<noteq> [] \<and> \<not> IsInternalCredential (v_key v)) vs)"

fun vault_step :: "string \<Rightarrow> vop \<Rightarrow> vault_maps \<Rightarrow> vault_maps option" where
  "vault_step stamp (OpSet k v) (V, S) = Some (V(k \<mapsto> put_value stamp k v [] V), S)"
| "vault_step stamp (OpSetWithSet k v t) (V, S) = Some (V(k \<mapsto> (put_value stamp k v t V)\<lparr>v_set := t\<rparr>), with_set t S)"
| "vault_step stamp (OpSetVariable v) m = Some (put_record stamp (default_type v) m)"
| "vault_step stamp (OpDelete k) (V, S) = (if V k = None then None else Some (V(k := None), S))"
| "vault_step stamp (OpSetSecretSet k t) (V, S) =
     (case V k of None \<Rightarrow> None | Some v \<Rightarrow> Some (V(k \<mapsto> v\<lparr>v_set := t\<rparr>), with_set t S))"
| "vault_step stamp (OpCreateSet n) (V, S) = (if S n \<noteq> None then None else Some (V, S(n \<mapsto> mk_set n)))"
| "vault_step stamp (OpDeleteSet n) (V, S) =
     (if S n = None then None
      else Some (\<lambda>k. map_option (\<lambda>v. if v_set v = n then v\<lparr>v_set := []\<rparr> else v) (V k), S(n := None)))"
| "vault_step stamp (OpImport vs) m = Some (fold (put_record stamp) (importable vs) m)"

definition vault_spec :: "string \<Rightarrow> vop \<Rightarrow> vault_maps \<Rightarrow> vault_maps option" where
  "vault_spec stamp op m = (if rejected op then None else vault_step stamp op m)"

fun run_vop :: "crypto \<Rightarrow> io \<Rightarrow> vop \<Rightarrow> store \<Rightarrow> disk \<Rightarrow> vault_error option \<times> store \<times> disk" where
  "run_vop cr x (OpSet k v) s d = Set_var cr x k v s d"
| "run_vop cr x (OpSetWithSet k v t) s d = SetWithSet cr x k v t s d"
| "run_vop cr x (OpSetVariable v) s d = SetVariable cr x v s d"
| "run_vop cr x (OpDelete k) s d = Delete_var cr x k s d"
| "run_vop cr x (OpSetSecretSet k t) s d = SetSecretSet cr x k t s d"
| "run_vop cr x (OpCreateSet n) s d = CreateSet cr x n s d"
| "run_vop cr x (OpDeleteSet n) s d = DeleteSet cr x n s d"
| "run_vop cr x (OpImport vs) s d = (case ImportVariables cr x vs s d of ((_, e), s', d') \<Rightarrow> (e, s', d'))"

text \<open>The contract of a change to the maps: it keeps them well formed, leaves the mode of the store alone
  and does what an abstract step does.\<close>

locale store_change =
  fixes change :: "store \<Rightarrow> vault_error + store" and step :: "vault_maps \<Rightarrow> vault_maps option"
  assumes change_ok: "store_ok s \<Longrightarrow> change s = Inr s' \<Longrightarrow> store_ok s'"
    and change_mode: "change s = Inr s' \<Longrightarrow>
          st_encrypted s' = st_encrypted s \<and> st_locked s' = st_locked s \<and> st_passphrase s' = st_passphrase s"
    and change_step: "store_ok s \<Longrightarrow> change s = Inr s' \<Longrightarrow> step (memory s) = Some (memory s')"
begin

lemma refines:
  assumes "crypto_ok cr" and "attached pass d s" and "loadLocked cr x d s = Inr s1" and "change s1 = Inr s2"
    and "saveLocked cr x s2 d = (None, s', d')"
  shows "attached pass d' s' \<and> (d_enc d' = None \<longleftrightarrow> d_enc d = None)
    \<and> (\<exists>m m'. contents cr pass d = Inr m \<and> contents cr pass d' = Inr m' \<and> step (maps_of m) = Some (maps_of m')
         \<and> memory s' = maps_of m')"
proof -
  from load_attached [OF assms(2,3)] obtain m where m: "attached pass d s1" "contents cr pass d = Inr m" "maps_of m = memory s1"
    by blast
  have ok: "store_ok s2" using change_ok [OF _ assms(4)] m(1) by (simp add: attached_def)
  have mode: "if d_enc d = None then \<not> st_encrypted s2 else st_encrypted s2 \<and> \<not> st_locked s2 \<and> st_passphrase s2 = pass \<and> pass \<noteq> []"
    using change_mode [OF assms(4)] m(1) by (auto simp: attached_def split: if_splits)
  from change_step [OF _ assms(4)] m(1,3) have "step (maps_of m) = Some (memory s2)" by (simp add: attached_def)
  with save_attached [OF assms(1) ok assms(5) mode] m(2) show ?thesis by auto
qed

lemma update_refines:
  assumes "crypto_ok cr" and "attached pass d s" and "locked_update cr x change s d = (None, s', d')"
  shows "attached pass d' s' \<and> (d_enc d' = None \<longleftrightarrow> d_enc d = None)
    \<and> (\<exists>m m'. contents cr pass d = Inr m \<and> contents cr pass d' = Inr m' \<and> step (maps_of m) = Some (maps_of m')
         \<and> memory s' = maps_of m')"
proof -
  from assms(3) obtain s1 s2 where "loadLocked cr x d s = Inr s1" "change s1 = Inr s2" "saveLocked cr x s2 d = (None, s', d')"
    by (auto simp: locked_update_def split: if_splits sum.splits)
  from refines [OF assms(1,2) this] show ?thesis .
qed

lemma update_fails:
  assumes "attached pass d s" and "has_file d" and "locked_update cr x change s d = (Some e, s', d')"
  shows "attached pass d s'"
proof (cases "loadLocked cr x d s")
  case (Inr s1)
  with load_attached [OF assms(1)] have 1: "attached pass d s1" by blast
  have "attached pass d s2" if "change s1 = Inr s2" for s2
    using change_ok [OF _ that] change_mode [OF that] 1 assms(2) by (auto simp: attached_def has_file_def split: if_splits)
  with assms Inr 1 show ?thesis by (auto simp: locked_update_def dest: save_error split: if_splits sum.splits)
qed (use assms in \<open>auto simp: locked_update_def split: if_splits\<close>)

end

lemma maps_ok_put_variable:
  "maps_ok vs ss \<Longrightarrow> v_key v = k \<Longrightarrow> v_type v \<noteq> [] \<Longrightarrow> maps_ok (AList.update k v vs) ss"
  by (auto simp: maps_ok_def dest!: update_mem)

lemma maps_ok_ensure_set: "maps_ok vs ss \<Longrightarrow> maps_ok vs (ensure_set n ss)"
  by (auto simp: maps_ok_def ensure_set_def mk_set_def dest!: update_mem)

lemma map_of_ensure_set: "map_of (ensure_set n ss) = with_set n (map_of ss)"
  by (auto simp: ensure_set_def with_set_def fun_eq_iff map_of_update)

lemma maps_okD: "maps_ok vs ss \<Longrightarrow> map_of vs k = Some v \<Longrightarrow> v_key v = k \<and> v_type v \<noteq> []"
  by (fastforce simp: maps_ok_def dest: map_of_SomeD)

lemma maps_ok_lookup:
  "maps_ok vs ss \<Longrightarrow> map_of vs k = Some v \<Longrightarrow> v_key w = v_key v \<Longrightarrow> v_type w = v_type v \<Longrightarrow>
     maps_ok (AList.update k w vs) ss"
  using maps_okD [of vs ss k v] by (intro maps_ok_put_variable) simp_all

lemma maps_ok_upsert:
  assumes "maps_ok vs ss" and "\<And>e. v_key (F e) = v_key e" "\<And>e. v_type (F e) = v_type e" and "v_key N = k" "v_type N \<noteq> []"
  shows "maps_ok (AList.update k (case map_of vs k of Some e \<Rightarrow> F e | None \<Rightarrow> N) vs) ss"
  using assms maps_ok_lookup [OF assms(1)] maps_ok_put_variable [OF assms(1)] by (cases "map_of vs k") auto

lemma mk_variable_simps [simp]:
  "v_key (mk_variable k v t z) = k" "v_type (mk_variable k v t z) = TypeString"
  by (simp_all add: mk_variable_def)

lemma withRotationStamp_simps [simp]:
  "v_key (withRotationStamp z e v) = v_key e" "v_type (withRotationStamp z e v) = v_type e"
  by (simp_all add: withRotationStamp_def)

lemma stampAgainstStored_simps [simp]:
  "v_key (stampAgainstStored z v m) = v_key v" "v_type (stampAgainstStored z v m) = v_type v"
  by (simp_all add: stampAgainstStored_def split: option.splits)

lemma stamp_put_record:
  "((map_of m)(v_key v \<mapsto> stampAgainstStored z v m), with_set (v_set v) S) = put_record z v (map_of m, S)"
  by (auto simp: put_record_def stampAgainstStored_def split: option.splits)

lemmas change_simps = memory_def map_of_update map_of_delete map_of_ensure_set fun_eq_iff

interpretation set_change: store_change "set_step z k v" "vault_step z (OpSet k v)" for z k v
proof (unfold_locales, goal_cases)
  case (1 s s')
  then show ?case unfolding set_step_def by (auto intro!: maps_ok_upsert)
next
  case (3 s s')
  then show ?case by (auto simp: set_step_def change_simps put_value_def split: option.splits)
qed (auto simp: set_step_def)

interpretation set_with_set_change: store_change "set_with_set_step z k v t" "vault_step z (OpSetWithSet k v t)" for z k v t
proof (unfold_locales, goal_cases)
  case (1 s s')
  then show ?case unfolding set_with_set_step_def by (auto intro!: maps_ok_upsert maps_ok_ensure_set)
next
  case (3 s s')
  then show ?case
    by (auto simp: set_with_set_step_def change_simps put_value_def mk_variable_def split: option.splits)
qed (auto simp: set_with_set_step_def)

interpretation set_variable_change: store_change "set_variable_step z (default_type v)" "vault_step z (OpSetVariable v)" for z v
proof (unfold_locales, goal_cases)
  case (1 s s')
  then show ?case by (auto simp: set_variable_step_def intro!: maps_ok_put_variable maps_ok_ensure_set)
next
  case (3 s s')
  then show ?case using stamp_put_record [of "st_variables s" "default_type v" z]
    by (auto simp: set_variable_step_def memory_def update_conv' map_of_ensure_set)
qed (auto simp: set_variable_step_def)

interpretation delete_change: store_change "delete_step k" "vault_step z (OpDelete k)" for z k
  by unfold_locales (auto simp: delete_step_def maps_ok_def change_simps dest!: delete_mem split: if_splits)

interpretation secret_set_change: store_change "secret_set_step k t" "vault_step z (OpSetSecretSet k t)" for z k t
proof (unfold_locales, goal_cases)
  case (1 s s')
  then show ?case unfolding secret_set_step_def
    by (cases "map_of (st_variables s) k") (auto intro!: maps_ok_ensure_set maps_ok_lookup simp del: update.simps)
next
  case (3 s s')
  then show ?case by (auto simp: secret_set_step_def change_simps split: option.splits)
qed (auto simp: secret_set_step_def split: option.splits)

interpretation create_set_change: store_change "create_set_step n" "vault_step z (OpCreateSet n)" for z n
  by unfold_locales (auto simp: create_set_step_def maps_ok_def mk_set_def change_simps dest!: update_mem split: if_splits)

lemma maps_ok_map_variables:
  assumes "maps_ok vs ss" and "\<And>v. v_key (g v) = v_key v" "\<And>v. v_type (g v) = v_type v"
  shows "maps_ok (map (\<lambda>(k, v). (k, g v)) vs) ss"
proof -
  have e: "map fst (map (\<lambda>(k, v). (k, g v)) vs) = map fst vs" by (simp only: map_map) (auto simp: split_beta)
  show ?thesis unfolding maps_ok_def map_keys_ok_def e using assms by (auto simp: maps_ok_def map_keys_ok_def)
qed

interpretation delete_set_change: store_change "delete_set_step n" "vault_step z (OpDeleteSet n)" for z n
proof (unfold_locales, goal_cases)
  case (1 s s')
  let ?g = "\<lambda>v. if v_set v = n then v\<lparr>v_set := []\<rparr> else v"
  from 1(1) have "maps_ok (map (\<lambda>(k, v). (k, ?g v)) (st_variables s)) (st_sets s)" by (rule maps_ok_map_variables) simp_all
  then have "maps_ok (map (\<lambda>(k, v). (k, ?g v)) (st_variables s)) (AList.delete n (st_sets s))"
    by (auto simp: maps_ok_def dest!: delete_mem)
  with 1(2) show ?case by (auto simp: delete_set_step_def split: if_splits)
next
  case (3 s s')
  then show ?case by (auto simp: delete_set_step_def change_simps map_of_map split_beta split: if_splits)
qed (auto simp: delete_set_step_def split: if_splits)

lemma import_fold:
  "maps_ok vs ss \<Longrightarrow> \<forall>v\<in>set xs. v_type v \<noteq> [] \<Longrightarrow>
     maps_ok (fst (fold (import_one z) xs (vs, ss))) (snd (fold (import_one z) xs (vs, ss)))
     \<and> maps_of (fold (import_one z) xs (vs, ss)) = fold (put_record z) xs (map_of vs, map_of ss)"
proof (induction xs arbitrary: vs ss)
  case (Cons v xs)
  let ?vs = "AList.update (v_key v) (stampAgainstStored z v vs) vs" and ?ss = "ensure_set (v_set v) ss"
  have "maps_ok ?vs ?ss" using Cons.prems by (intro maps_ok_ensure_set maps_ok_put_variable) auto
  from Cons.IH [OF this] Cons.prems(2) show ?case
    by (simp add: import_one_def stamp_put_record [symmetric] map_of_ensure_set update_conv' fun_upd_def)
qed (simp add: maps_of_def)

interpretation import_change: store_change "import_step z (importable xs)" "vault_step z (OpImport xs)" for z xs
proof (unfold_locales, goal_cases)
  case (1 s s')
  with import_fold [OF 1(1), of "importable xs" z] show ?case by (auto simp: import_step_def importable_def Let_def)
next
  case (3 s s')
  with import_fold [OF 3(1), of "importable xs" z] show ?case
    by (auto simp: import_step_def importable_def Let_def memory_def maps_of_def)
qed (auto simp: import_step_def Let_def)

lemma check_import_spec:
  "check_import vs = (case check_import vs of Inl e \<Rightarrow> Inl e | Inr _ \<Rightarrow>
     Inr (importable vs, map v_key (filter (\<lambda>v. v_key v \<noteq> [] \<and> IsInternalCredential (v_key v)) vs)))
   \<and> ((\<exists>e. check_import vs = Inl e) \<longleftrightarrow> rejected (OpImport vs))"
proof (induction vs)
  case (Cons v vs)
  then show ?case by (auto simp: importable_def split: sum.splits prod.splits)
qed (simp add: importable_def)

lemma check_importD: "check_import vs = Inr (valid, sk) \<Longrightarrow> valid = importable vs \<and> \<not> rejected (OpImport vs)"
  using check_import_spec [of vs] by auto

text \<open>One successful operation of an attached store.\<close>

lemma run_vop_refines:
  assumes "crypto_ok cr" and "attached pass d s" and "run_vop cr x op s d = (None, s', d')"
  shows "attached pass d' s' \<and> (d_enc d' = None \<longleftrightarrow> d_enc d = None)
    \<and> (\<exists>m m'. contents cr pass d = Inr m \<and> contents cr pass d' = Inr m'
         \<and> vault_spec (io_stamp x) op (maps_of m) = Some (maps_of m') \<and> memory s' = maps_of m')"
proof (cases op)
  case (OpSet k v)
  with assms set_change.update_refines [OF assms(1,2)] show ?thesis
    by (auto simp: Set_var_def vault_spec_def split: if_splits)
next
  case (OpSetWithSet k v t)
  with assms set_with_set_change.update_refines [OF assms(1,2)] show ?thesis
    by (auto simp: SetWithSet_def vault_spec_def split: if_splits)
next
  case (OpSetVariable v)
  with assms set_variable_change.update_refines [OF assms(1,2)] show ?thesis
    by (auto simp: SetVariable_def vault_spec_def Let_def split: if_splits)
next
  case (OpDelete k)
  with assms delete_change.update_refines [OF assms(1,2)] show ?thesis by (auto simp: Delete_var_def vault_spec_def)
next
  case (OpSetSecretSet k t)
  with assms secret_set_change.update_refines [OF assms(1,2)] show ?thesis by (auto simp: SetSecretSet_def vault_spec_def)
next
  case (OpCreateSet n)
  with assms create_set_change.update_refines [OF assms(1,2)] show ?thesis by (auto simp: CreateSet_def vault_spec_def)
next
  case (OpDeleteSet n)
  with assms delete_set_change.update_refines [OF assms(1,2)] show ?thesis by (auto simp: DeleteSet_def vault_spec_def)
next
  case (OpImport vs)
  with assms(3) obtain valid sk s1 s2 where c: "check_import vs = Inr (valid, sk)" "loadLocked cr x d s = Inr s1"
    "import_step (io_stamp x) valid s1 = Inr s2" "saveLocked cr x s2 d = (None, s', d')"
    by (auto simp: ImportVariables_def Let_def split: sum.splits if_splits prod.splits option.splits)
  with check_importD [OF c(1)] import_change.refines [OF assms(1,2) c(2), of "io_stamp x" vs] OpImport show ?thesis
    by (simp add: vault_spec_def)
qed

subsection \<open>Failures\<close>

lemma locked_update_error: "locked_update cr x f s d = (Some e, s', d') \<Longrightarrow> d' = d"
  by (auto simp: locked_update_def dest: save_error split: if_splits sum.splits)

lemma ImportVariables_error:
  assumes "ImportVariables cr x vs s d = ((r, Some e), s', d')"
  shows "d' = d \<and> ir_imported r = 0 \<and> (s' = s \<or> (\<exists>s1. loadLocked cr x d s = Inr s1 \<and> s' = s1))"
proof -
  have "(s2\<lparr>st_variables := V, st_sets := S\<rparr>)\<lparr>st_variables := st_variables s2, st_sets := st_sets s2\<rparr> = s2" for s2 :: store and V S
    by simp
  with assms show ?thesis
    by (auto simp: ImportVariables_def import_step_def Let_def dest!: save_error
        split: sum.splits if_splits prod.splits option.splits)
qed

lemma run_vop_error:
  assumes "run_vop cr x op s d = (Some e, s', d')"
  shows "d' = d"
  using assms
  by (cases op) (auto simp: Set_var_def SetWithSet_def SetVariable_def Delete_var_def SetSecretSet_def CreateSet_def DeleteSet_def Let_def
      dest: locked_update_error ImportVariables_error split: if_splits prod.splits)

lemma run_vop_fails:
  assumes "attached pass d s" and "has_file d" and "run_vop cr x op s d = (Some e, s', d')"
  shows "attached pass d s'"
proof (cases op)
  case (OpSet k v)
  with assms set_change.update_fails [OF assms(1,2)] show ?thesis by (auto simp: Set_var_def split: if_splits)
next
  case (OpSetWithSet k v t)
  with assms set_with_set_change.update_fails [OF assms(1,2)] show ?thesis by (auto simp: SetWithSet_def split: if_splits)
next
  case (OpSetVariable v)
  with assms set_variable_change.update_fails [OF assms(1,2)] show ?thesis by (auto simp: SetVariable_def Let_def split: if_splits)
next
  case (OpDelete k)
  with assms delete_change.update_fails [OF assms(1,2)] show ?thesis by (auto simp: Delete_var_def)
next
  case (OpSetSecretSet k t)
  with assms secret_set_change.update_fails [OF assms(1,2)] show ?thesis by (auto simp: SetSecretSet_def)
next
  case (OpCreateSet n)
  with assms create_set_change.update_fails [OF assms(1,2)] show ?thesis by (auto simp: CreateSet_def)
next
  case (OpDeleteSet n)
  with assms delete_set_change.update_fails [OF assms(1,2)] show ?thesis by (auto simp: DeleteSet_def)
next
  case (OpImport vs)
  with assms(3) obtain r where "ImportVariables cr x vs s d = ((r, Some e), s', d')" by (auto split: prod.splits)
  from ImportVariables_error [OF this] assms(1) load_attached [OF assms(1)] show ?thesis by blast
qed

subsection \<open>Several processes\<close>

text \<open>Processes with a store each work on one disk. The file lock makes every operation one step; the log
  holds the operations that reported success, with their time stamps.\<close>

fun run_procs ::
  "crypto \<Rightarrow> (nat \<times> io \<times> vop) list \<Rightarrow> (nat \<Rightarrow> store) \<Rightarrow> disk \<Rightarrow> (nat \<Rightarrow> store) \<times> disk \<times> (string \<times> vop) list" where
  "run_procs cr [] S d = (S, d, [])"
| "run_procs cr ((p, x, op) # es) S d =
     (let (e, s', d') = run_vop cr x op (S p) d;
          (S2, d2, log) = run_procs cr es (S(p := s')) d'
      in (S2, d2, if e = None then (io_stamp x, op) # log else log))"

fun spec_run :: "(string \<times> vop) list \<Rightarrow> vault_maps \<Rightarrow> vault_maps option" where
  "spec_run [] m = Some m"
| "spec_run ((stamp, op) # log) m = Option.bind (vault_spec stamp op m) (spec_run log)"

lemma attached_other:
  "attached pass d s \<Longrightarrow> has_file d \<Longrightarrow> d_enc d' = None \<longleftrightarrow> d_enc d = None \<Longrightarrow> has_file d' \<Longrightarrow> attached pass d' s"
  by (auto simp: attached_def has_file_def split: if_splits)

lemma save_has_file: "saveLocked cr x s d = (None, s', d') \<Longrightarrow> has_file d'"
  by (auto simp: saveLocked_def has_file_def Let_def split: if_splits sum.splits)

lemma contents_has_file:
  "run_vop cr x op s d = (None, s', d') \<Longrightarrow> has_file d'"
  by (cases op) (auto simp: Set_var_def SetWithSet_def SetVariable_def Delete_var_def SetSecretSet_def CreateSet_def DeleteSet_def
      ImportVariables_def locked_update_def Let_def dest: save_has_file split: if_splits prod.splits sum.splits option.splits)

lemma run_procs_refines:
  assumes "crypto_ok cr" and "has_file d" and "\<And>p. attached pass d (S p)" and "contents cr pass d = Inr m"
    and "run_procs cr es S d = (S', d', log)"
  shows "(\<forall>p. attached pass d' (S' p)) \<and> (\<exists>m'. contents cr pass d' = Inr m' \<and> spec_run log (maps_of m) = Some (maps_of m'))"
  using assms(2-)
proof (induction es arbitrary: S d m log)
  case (Cons ev es)
  obtain p x op where ev: "ev = (p, x, op)" by (cases ev) auto
  obtain e s1 d1 where r: "run_vop cr x op (S p) d = (e, s1, d1)" by (cases "run_vop cr x op (S p) d") auto
  obtain log1 where l: "run_procs cr es (S(p := s1)) d1 = (S', d', log1)" "log = (if e = None then (io_stamp x, op) # log1 else log1)"
    using Cons.prems(4) ev r by (auto split: prod.splits)
  show ?case
  proof (cases e)
    case None
    with r have r': "run_vop cr x op (S p) d = (None, s1, d1)" by simp
    from run_vop_refines [OF assms(1) Cons.prems(2) r'] Cons.prems(3) obtain m1 where
      m1: "attached pass d1 s1" "d_enc d1 = None \<longleftrightarrow> d_enc d = None" "contents cr pass d1 = Inr m1"
        "vault_spec (io_stamp x) op (maps_of m) = Some (maps_of m1)" by auto
    have f: "has_file d1" using r' by (rule contents_has_file)
    have "attached pass d1 ((S(p := s1)) q)" for q
      using m1(1) attached_other [OF Cons.prems(2) Cons.prems(1) m1(2) f] by simp
    from Cons.IH [OF f this m1(3) l(1)] m1(4) l(2) None show ?thesis by simp
  next
    case (Some err)
    with r have r': "run_vop cr x op (S p) d = (Some err, s1, d1)" by simp
    have "d1 = d" using r' by (rule run_vop_error)
    moreover have "attached pass d s1" using Cons.prems(2,1) r' by (rule run_vop_fails)
    ultimately have "attached pass d1 ((S(p := s1)) q)" for q using Cons.prems(2) by simp
    with Cons.IH [OF _ _ _ l(1)] Cons.prems(1,3) \<open>d1 = d\<close> l(2) Some show ?thesis by simp
  qed
qed auto

subsection \<open>What the store promises\<close>

lemma fresh_reader:
  assumes "contents cr pass d = Inr m" and "io_readable x" "io_lock x"
  shows "memory (snd (Unlock_store cr x pass (snd (Load_store x NewStore d)) d)) = maps_of m"
proof (cases "d_enc d")
  case None
  show ?thesis
  proof (cases "d_plain d")
    case (Some f)
    with None assms show ?thesis
      by (cases m) (simp add: contents_def Load_store_def Let_def adopt_def Unlock_store_def memory_def maps_of_def)
  qed (use None assms in \<open>auto simp: contents_def Load_store_def Let_def Unlock_store_def memory_def maps_of_def\<close>)
next
  case (Some f)
  with assms obtain b where "open_file cr f pass = Inr b" "parseSecretsData b = Inr m"
    by (auto simp: contents_def split: sum.splits)
  with Some assms show ?thesis
    by (cases m) (simp add: Load_store_def Let_def Unlock_store_def memory_def maps_of_def)
qed

text \<open>A cipher for the examples: the ciphertext carries the key and the plaintext, and opens with that key only.\<close>

definition demo_crypto :: crypto where
  "demo_crypto = \<lparr>cr_idKey = (\<lambda>p s. Raw p), cr_keyOk = (\<lambda>k. True),
     cr_seal = (\<lambda>k n p. VaultJson (EncryptedVault 0 True (KDFParams [] (Some k) 0 0 0) (Blob (Some n) (Some p)) (Blob None None))),
     cr_open = (\<lambda>k n c. case c of VaultJson ev \<Rightarrow> if kd_salt (ev_kdf ev) = Some k then bl_ciphertext (ev_dek ev) else None | _ \<Rightarrow> None),
     cr_size = (\<lambda>b. 0)\<rparr>"

definition demo_io :: "gotime \<Rightarrow> io" where
  "demo_io t = \<lparr>io_now = t, io_stamp = ''now'', io_lock = True, io_readable = True, io_mkdir = True, io_write = True,
     io_rename = True, io_remove = True, io_salt = Some ''s'', io_dek = Some ''k'', io_nonce1 = Some ''n'', io_nonce2 = Some ''m''\<rparr>"

definition demo_disk :: disk where
  "demo_disk = \<lparr>d_enc = None, d_plain = Some \<lparr>f_data = Raw [], f_mtime = 0, f_size = 0\<rparr>\<rparr>"

lemma demo_crypto_ok: "crypto_ok demo_crypto"
  by (simp add: crypto_ok_def demo_crypto_def)

lemma new_attached: "d_enc d = None \<Longrightarrow> attached pass d NewStore"
  by (simp add: attached_def NewStore_def maps_ok_def)

text \<open>C5. The store is a linearisable map for the processes that can read it. Let a vault file exist and decrypt under
  one passphrase, and let several processes, each attached to the disk (that is, where the vault is encrypted, unlocked with
  that passphrase), run any sequence of operations on variables and sets; then the contents of the disk are those of the abstract vault after
  the operations that reported success, in that order, and a process that starts afterwards, loads the disk
  and unlocks it sees exactly these. A process that is still locked is excluded: what it writes to an encrypted vault is
  the subject of \<^verbatim>\<open>locked_write_leaks\<close>.\<close>

theorem vault_linearizable:
  assumes "crypto_ok cr" and "has_file d" and "\<And>p. attached pass d (S p)" and "contents cr pass d = Inr m"
    and "run_procs cr es S d = (S', d', log)" and "io_readable x" "io_lock x"
  shows "\<exists>m'. contents cr pass d' = Inr m' \<and> spec_run log (maps_of m) = Some (maps_of m')
    \<and> memory (snd (Unlock_store cr x pass (snd (Load_store x NewStore d')) d')) = maps_of m'"
  using run_procs_refines [OF assms(1-5)] fresh_reader [of cr pass d' _ x] assms(6,7) by blast

theorem vault_linearizable_witness:
  "\<exists>S' d' m'. run_procs demo_crypto [(0, demo_io 1, OpSet ''A'' ''1''), (1, demo_io 2, OpSet ''A'' ''2'')] (\<lambda>_. NewStore) demo_disk
       = (S', d', [(''now'', OpSet ''A'' ''1''), (''now'', OpSet ''A'' ''2'')])
     \<and> contents demo_crypto [] d' = Inr m' \<and> map_option v_value (fst (maps_of m') ''A'') = Some ''2''"
proof -
  let ?es = "[(0, demo_io 1, OpSet ''A'' ''1''), (1, demo_io 2, OpSet ''A'' ''2'')]"
  let ?log = "[(''now'', OpSet ''A'' ''1''), (''now'', OpSet ''A'' ''2'')]"
  have log: "snd (snd (run_procs demo_crypto ?es (\<lambda>_. NewStore) demo_disk)) = ?log" by code_simp
  obtain S' d' where r: "run_procs demo_crypto ?es (\<lambda>_. NewStore) demo_disk = (S', d', ?log)"
    using log by (cases "run_procs demo_crypto ?es (\<lambda>_. NewStore) demo_disk") auto
  have c: "contents demo_crypto [] demo_disk = Inr ([], [])" by code_simp
  have f: "has_file demo_disk" by (simp add: has_file_def demo_disk_def)
  have a: "attached [] demo_disk NewStore" by (intro new_attached) (simp add: demo_disk_def)
  from vault_linearizable [OF demo_crypto_ok f a c r, of "demo_io 3"] obtain m' where
    m': "contents demo_crypto [] d' = Inr m'" "spec_run ?log (maps_of ([], [])) = Some (maps_of m')" by (auto simp: demo_io_def)
  have "\<not> IsInternalCredential ''A''" by code_simp
  with m'(2) have "fst (maps_of m') ''A'' = Some (withRotationStamp ''now'' (mk_variable ''A'' ''1'' [] ''now'') ''2'')"
    by (auto simp: maps_of_def vault_spec_def put_value_def) (metis fun_upd_same)
  then have "map_option v_value (fst (maps_of m') ''A'') = Some ''2''" by (simp add: withRotationStamp_def)
  with r m'(1) show ?thesis by blast
qed

lemma Lock_store_error: "Lock_store cr x pass s d = (Some e, s', d') \<Longrightarrow> d' = d"
  by (auto simp: Lock_store_def Let_def split: if_splits sum.splits)

lemma ChangePassphrase_store_error: "ChangePassphrase_store cr x old new s d = (Some e, s', d') \<Longrightarrow> d' = d"
  by (auto simp: ChangePassphrase_store_def Let_def split: if_splits sum.splits option.splits)

text \<open>C6. A failed operation never damages the disk: whatever an operation, a lock or a change of passphrase
  reports as an error, the files are as they were.\<close>

theorem failed_operation_keeps_disk:
  assumes "run_vop cr x op s d = (Some e, s', d') \<or> Lock_store cr x pass s d = (Some e, s', d')
    \<or> ChangePassphrase_store cr x old new s d = (Some e, s', d')"
  shows "d' = d"
  using assms by (auto dest: run_vop_error Lock_store_error ChangePassphrase_store_error)

theorem failed_operation_keeps_disk_witness:
  "snd (snd (Set_var demo_crypto ((demo_io 1)\<lparr>io_rename := False\<rparr>) ''A'' ''1'' NewStore demo_disk)) = demo_disk"
proof -
  let ?r = "Set_var demo_crypto ((demo_io 1)\<lparr>io_rename := False\<rparr>) ''A'' ''1'' NewStore demo_disk"
  have "fst ?r = Some ErrRenamingTemp" by code_simp
  then obtain s' d' where r: "?r = (Some ErrRenamingTemp, s', d')" by (cases ?r) auto
  then have "run_vop demo_crypto ((demo_io 1)\<lparr>io_rename := False\<rparr>) (OpSet ''A'' ''1'') NewStore demo_disk
      = (Some ErrRenamingTemp, s', d')" by simp
  from failed_operation_keeps_disk [OF disjI1 [OF this]] r show ?thesis by simp
qed

lemma put_record_dom: "dom (fst (put_record z v m)) = insert (v_key v) (dom (fst m))"
  by (auto simp: put_record_def)

lemma fold_put_record_dom: "dom (fst (fold (put_record z) vs m)) = v_key ` set vs \<union> dom (fst m)"
  by (induction vs arbitrary: m) (auto simp: put_record_dom)

lemma vault_step_dom:
  assumes "\<not> rejected op" and "vault_step z op m = Some m'" and "k \<in> dom (fst m')" "IsInternalCredential k"
  shows "k \<in> dom (fst m)"
proof (cases op)
  case (OpImport vs)
  with assms fold_put_record_dom [of z "importable vs" m] show ?thesis by (cases m) (auto simp: importable_def)
next
  case (OpSetVariable v)
  with assms put_record_dom [of z "default_type v" m] show ?thesis by (cases m) auto
qed (use assms in \<open>cases m; auto split: if_splits option.splits\<close>)+

text \<open>Reserved keys are never written: a successful operation adds no reserved key to the contents.\<close>

theorem reserved_keys_never_written:
  assumes "crypto_ok cr" and "attached pass d s" and "run_vop cr x op s d = (None, s', d')"
    and "contents cr pass d' = Inr m'" and "map_of (fst m') k \<noteq> None" and "IsInternalCredential k"
  shows "\<exists>m. contents cr pass d = Inr m \<and> map_of (fst m) k \<noteq> None"
proof -
  from run_vop_refines [OF assms(1-3)] assms(4) obtain m where
    m: "contents cr pass d = Inr m" "vault_spec (io_stamp x) op (maps_of m) = Some (maps_of m')" by auto
  then have s: "\<not> rejected op" "vault_step (io_stamp x) op (maps_of m) = Some (maps_of m')"
    by (auto simp: vault_spec_def split: if_splits)
  have "k \<in> dom (fst (maps_of m'))" using assms(5) by (simp add: maps_of_def domIff)
  from vault_step_dom [OF s this assms(6)] m(1) show ?thesis by (auto simp: maps_of_def)
qed

definition reserved_disk :: disk where
  "reserved_disk = demo_disk\<lparr>d_plain := Some \<lparr>f_data = StoreJson (DocArray (Some
     [\<lparr>ls_key = ''GRIDCTL_X'', ls_value = ''v'', ls_set = []\<rparr>])), f_mtime = 0, f_size = 0\<rparr>\<rparr>"

theorem reserved_keys_never_written_witness:
  "\<exists>m. contents demo_crypto [] reserved_disk = Inr m \<and> map_of (fst m) ''GRIDCTL_X'' \<noteq> None"
proof -
  let ?r = "run_vop demo_crypto (demo_io 1) (OpSet ''A'' ''1'') NewStore reserved_disk"
  have "fst ?r = None" by code_simp
  then obtain s' d' where r: "?r = (None, s', d')" by (cases ?r) auto
  have "map_sum id (\<lambda>m. map_has (fst m) ''GRIDCTL_X'') (contents demo_crypto [] (snd (snd ?r))) = Inr True" by code_simp
  with r obtain m' where m': "contents demo_crypto [] d' = Inr m'" "map_of (fst m') ''GRIDCTL_X'' \<noteq> None"
    by (cases "contents demo_crypto [] d'") auto
  have i: "IsInternalCredential ''GRIDCTL_X''" by code_simp
  have a: "attached [] reserved_disk NewStore" by (intro new_attached) (simp add: reserved_disk_def demo_disk_def)
  from reserved_keys_never_written [OF demo_crypto_ok a r m' i] show ?thesis .
qed

lemma fst_snd_maps_of: "maps_of m = maps_of m' \<longleftrightarrow> map_of (fst m) = map_of (fst m') \<and> map_of (snd m) = map_of (snd m')"
  by (simp add: maps_of_def)

lemma Lock_storeD:
  assumes "crypto_ok cr" and "loadLocked cr x d s = Inr s1" and "store_ok s1" and "Lock_store cr x pass s d = (None, s', d')"
  shows "d_plain d' = (if io_remove x then None else d_plain d) \<and> d_enc d' \<noteq> None \<and> memory s' = memory s1 \<and> st_encrypted s' \<and> \<not> st_locked s' \<and> st_passphrase s' = pass
    \<and> store_ok s' \<and> (\<exists>m. contents cr pass d' = Inr m \<and> maps_of m = memory s1)"
proof -
  from assms(2,4) obtain ev g where l: "LockVault cr x (serializeVariables s1) pass = Inr ev" "d_enc d' = Some g"
    "d_plain d' = (if io_remove x then None else d_plain d)"
    "f_data g = VaultJson ev" "s' = stampMtimeLocked d' (s1\<lparr>st_encrypted := True, st_locked := False, st_passphrase := pass\<rparr>)"
    by (auto simp: Lock_store_def atomicWrite_def Let_def split: if_splits sum.splits)
  from l(2,4) lock_roundtrip [OF assms(1) l(1)] have "contents cr pass d' = parseSecretsData (serializeVariables s1)"
    by (simp add: contents_def open_file_def unmarshalEncryptedVault_def)
  with serialize_roundtrip [OF assms(3)] l assms(3) show ?thesis by (auto simp: memory_def)
qed

lemma ChangePassphraseD:
  assumes "crypto_ok cr" and "attached old d s" and "ChangePassphrase_store cr x old new s d = (None, s', d')" and "new \<noteq> []"
  shows "attached new d' s' \<and> memory s' = memory s \<and> contents cr new d' = contents cr old d"
proof -
  from assms(3) obtain f ev ev' g where c: "d_enc d = Some f" "unmarshalEncryptedVault (f_data f) = Inr ev"
    "ChangePassphrase cr x ev old new = Inr ev'" "d_enc d' = Some g" "f_data g = VaultJson ev'"
    "s' = stampMtimeLocked d' (s\<lparr>st_passphrase := new\<rparr>)"
    by (auto simp: ChangePassphrase_store_def atomicWrite_def Let_def split: if_splits sum.splits option.splits)
  with change_roundtrip [OF assms(1) c(3)] assms(2,4) show ?thesis
    by (auto simp: attached_def memory_def contents_def open_file_def unmarshalEncryptedVault_def)
qed

text \<open>Encryption loses nothing: locking an attached store with a new passphrase leaves no plaintext file, unless its
  removal fails, which is not reported, and a disk whose contents, under that passphrase, are what they were; changing the passphrase afterwards keeps
  the contents under the newer one; and the store stays attached.\<close>

theorem lock_keeps_contents:
  assumes "crypto_ok cr" and "attached pass d s" and "Lock_store cr x p1 s d = (None, s1, d1)" and "p1 \<noteq> []"
    and "ChangePassphrase_store cr y p1 p2 s1 d1 = (None, s2, d2)" and "p2 \<noteq> []"
  shows "d_plain d1 = (if io_remove x then None else d_plain d) \<and> attached p1 d1 s1 \<and> attached p2 d2 s2
    \<and> (\<exists>m m'. contents cr pass d = Inr m \<and> contents cr p1 d1 = Inr m' \<and> contents cr p2 d2 = Inr m' \<and> maps_of m' = maps_of m)"
proof -
  from assms(3) obtain s0 where s0: "loadLocked cr x d s = Inr s0"
    by (auto simp: Lock_store_def split: if_splits sum.splits)
  from load_attached [OF assms(2) s0] obtain m where m: "attached pass d s0" "contents cr pass d = Inr m" "maps_of m = memory s0" by blast
  have ok: "store_ok s0" using m(1) by (simp add: attached_def)
  from Lock_storeD [OF assms(1) s0 ok assms(3)] assms(4) obtain m' where
    l: "d_plain d1 = (if io_remove x then None else d_plain d)" "attached p1 d1 s1" "contents cr p1 d1 = Inr m'" "maps_of m' = memory s0" by (auto simp: attached_def)
  with ChangePassphraseD [OF assms(1) l(2) assms(5,6)] m show ?thesis by auto
qed

theorem lock_keeps_contents_witness:
  "\<exists>s1 d1 s2 d2 m'. Lock_store demo_crypto (demo_io 1) ''p'' NewStore reserved_disk = (None, s1, d1)
     \<and> ChangePassphrase_store demo_crypto (demo_io 2) ''p'' ''q'' s1 d1 = (None, s2, d2)
     \<and> d_plain d1 = None \<and> contents demo_crypto ''q'' d2 = Inr m' \<and> fst (maps_of m') ''GRIDCTL_X'' \<noteq> None"
proof -
  let ?l = "Lock_store demo_crypto (demo_io 1) ''p'' NewStore reserved_disk"
  have "fst ?l = None" by code_simp
  then obtain s1 d1 where l: "?l = (None, s1, d1)" by (cases ?l) auto
  have "fst (ChangePassphrase_store demo_crypto (demo_io 2) ''p'' ''q'' (fst (snd ?l)) (snd (snd ?l))) = None" by code_simp
  then obtain s2 d2 where c: "ChangePassphrase_store demo_crypto (demo_io 2) ''p'' ''q'' s1 d1 = (None, s2, d2)"
    using l by (cases "ChangePassphrase_store demo_crypto (demo_io 2) ''p'' ''q'' s1 d1") auto
  have a: "attached [] reserved_disk NewStore" by (intro new_attached) (simp add: reserved_disk_def demo_disk_def)
  from lock_keeps_contents [OF demo_crypto_ok a l _ c] obtain m m' where
    m: "d_plain d1 = None" "contents demo_crypto [] reserved_disk = Inr m" "contents demo_crypto ''q'' d2 = Inr m'" "maps_of m' = maps_of m"
    by (auto simp: demo_io_def)
  have "map_sum id (\<lambda>m. map_has (fst m) ''GRIDCTL_X'') (contents demo_crypto [] reserved_disk) = Inr True" by code_simp
  with m(2,4) have "fst (maps_of m') ''GRIDCTL_X'' \<noteq> None" by (simp add: maps_of_def)
  with l c m show ?thesis by blast
qed

subsection \<open>A store that is still locked\<close>

text \<open>Locking twice destroys the vault. \<^verbatim>\<open>Lock\<close> does not refuse a locked store: it serialises the empty
  maps of memory and writes them over the encrypted file, under whatever passphrase the caller gives. The
  handler of \<^verbatim>\<open>POST /api/var/lock\<close> calls it without a check. After a successful call on a store that has
  just loaded an encrypted vault, the vault is empty under the new passphrase, whatever it held before.\<close>

theorem relock_empties_vault:
  assumes "crypto_ok cr" and "d_enc d = Some f" and "d_plain d = None" and "Load_store x NewStore d = (None, s)"
    and "Lock_store cr y pass s d = (None, s', d')"
  shows "contents cr pass d' = Inr ([], []) \<and> memory s' = (Map.empty, Map.empty)"
proof -
  from assms(2,4) have s: "st_locked s" "st_variables s = []" "st_sets s = []" by (auto simp: Load_store_def Let_def)
  with assms(3) have l: "loadLocked cr y d s = Inr s" by (simp add: loadLocked_def)
  have "store_ok s" using s by (simp add: maps_ok_def)
  from Lock_storeD [OF assms(1) l this assms(5)] s obtain m where
    "contents cr pass d' = Inr m" "maps_of m = (Map.empty, Map.empty)" "memory s' = (Map.empty, Map.empty)"
    by (auto simp: memory_def)
  then show ?thesis by (cases m) (auto simp: maps_of_def)
qed

definition locked_disk :: disk where
  "locked_disk = snd (snd (Lock_store demo_crypto (demo_io 1) ''p'' NewStore reserved_disk))"

theorem relock_empties_vault_witness:
  "map_sum id (map fst \<circ> fst) (contents demo_crypto ''p'' locked_disk) = Inr [''GRIDCTL_X'']
   \<and> contents demo_crypto ''x'' (snd (snd (Lock_store demo_crypto (demo_io 2) ''x'' (snd (Load_store (demo_io 2) NewStore locked_disk)) locked_disk)))
     = Inr ([], [])"
proof
  show "map_sum id (map fst \<circ> fst) (contents demo_crypto ''p'' locked_disk) = Inr [''GRIDCTL_X'']" by code_simp
  let ?s = "snd (Load_store (demo_io 2) NewStore locked_disk)"
  let ?l = "Lock_store demo_crypto (demo_io 2) ''x'' ?s locked_disk"
  have "fst (Load_store (demo_io 2) NewStore locked_disk) = None" by code_simp
  then have ld: "Load_store (demo_io 2) NewStore locked_disk = (None, ?s)" by (metis prod.collapse)
  have "fst ?l = None" by code_simp
  then have l: "?l = (None, fst (snd ?l), snd (snd ?l))" by (metis prod.collapse)
  have "d_enc locked_disk \<noteq> None" "d_plain locked_disk = None" by code_simp+
  with relock_empties_vault [OF demo_crypto_ok _ _ ld l] show "contents demo_crypto ''x'' (snd (snd ?l)) = Inr ([], [])" by auto
qed

text \<open>Writing to a locked store leaks the value: \<^verbatim>\<open>Set\<close> on a store that has loaded an encrypted vault
  without its passphrase reports success, leaves the encrypted file alone and writes the value into a
  plaintext file beside it, which a later load ignores.\<close>

theorem locked_write_leaks:
  assumes "d_enc d = Some f" and "d_plain d = None" and "Load_store x NewStore d = (None, s)"
    and "Set_var cr y key val s d = (None, s', d')"
  shows "d_enc d' = d_enc d \<and> (\<exists>g vs ss. d_plain d' = Some g \<and> parseSecretsData (f_data g) = Inr (vs, ss)
      \<and> map_option v_value (map_of vs key) = Some val)"
proof -
  let ?v = "mk_variable key val [] (io_stamp y)"
  from assms(1,3) have s: "st_locked s" "st_variables s = []" "st_sets s = []" "st_passphrase s = []"
    by (auto simp: Load_store_def Let_def NewStore_def)
  with assms(2) have l: "loadLocked cr y d s = Inr s" by (simp add: loadLocked_def)
  let ?s2 = "s\<lparr>st_variables := [(key, ?v)]\<rparr>"
  have s2: "st_variables ?s2 = [(key, ?v)]" "st_sets ?s2 = []" "st_passphrase ?s2 = []" using s by simp_all
  have sv: "saveLocked cr y ?s2 d = (None, s', d')"
    using assms(4) l s by (auto simp: Set_var_def locked_update_def set_step_def split: if_splits)
  have "store_ok ?s2" using s2 by (simp add: maps_ok_def map_keys_ok_def)
  from serialize_roundtrip [OF this] obtain vs ss where
    p: "parseSecretsData (serializeVariables ?s2) = Inr (vs, ss)" "map_of vs = map_of (st_variables ?s2)"
    by (auto simp: maps_of_def memory_def)
  from sv s2(3) have "d_enc d' = d_enc d" "\<exists>g. d_plain d' = Some g \<and> f_data g = serializeVariables ?s2"
    by (auto simp: saveLocked_def atomicWrite_def Let_def split: if_splits)
  with p s2(1) show ?thesis by (auto simp: mk_variable_def)
qed

theorem locked_write_leaks_witness:
  "\<exists>g vs ss. d_plain (snd (snd (Set_var demo_crypto (demo_io 2) ''TOKEN'' ''hunter2''
       (snd (Load_store (demo_io 2) NewStore locked_disk)) locked_disk))) = Some g
     \<and> parseSecretsData (f_data g) = Inr (vs, ss) \<and> map_option v_value (map_of vs ''TOKEN'') = Some ''hunter2''"
proof -
  let ?s = "snd (Load_store (demo_io 2) NewStore locked_disk)"
  let ?l = "Set_var demo_crypto (demo_io 2) ''TOKEN'' ''hunter2'' ?s locked_disk"
  have "fst (Load_store (demo_io 2) NewStore locked_disk) = None" by code_simp
  then have ld: "Load_store (demo_io 2) NewStore locked_disk = (None, ?s)" by (metis prod.collapse)
  have "fst ?l = None" by code_simp
  then have l: "?l = (None, fst (snd ?l), snd (snd ?l))" by (metis prod.collapse)
  have "d_enc locked_disk \<noteq> None" "d_plain locked_disk = None" by code_simp+
  with locked_write_leaks [OF _ _ ld l] show ?thesis by auto
qed

text \<open>A vault locked from outside is dropped from memory: once an encrypted file appears beside a store that
  was reading plaintext, the next read finds nothing, reports the store locked and leaves no variable and no
  passphrase in memory.\<close>

theorem external_lock_drops_plaintext:
  assumes "d_enc d = Some f" and "\<not> st_encrypted s"
  shows "fst (Get_var cr x key d s) = None \<and> fst (IsLocked cr x d s) \<and> fst (Values cr x d s) = []
    \<and> memory (snd (Get_var cr x key d s)) = (Map.empty, Map.empty) \<and> st_passphrase (snd (Get_var cr x key d s)) = []"
  using assms by (simp add: Get_var_def IsLocked_def Values_def reloadOrWarn_def reloadIfChanged_def Let_def memory_def)

theorem external_lock_drops_plaintext_witness:
  "fst (Get_var demo_crypto (demo_io 2) ''A'' locked_disk (fst (snd (Set_var demo_crypto (demo_io 1) ''A'' ''1'' NewStore demo_disk)))) = None"
proof -
  have "d_enc locked_disk \<noteq> None" "\<not> st_encrypted (fst (snd (Set_var demo_crypto (demo_io 1) ''A'' ''1'' NewStore demo_disk)))"
    by code_simp+
  then show ?thesis using external_lock_drops_plaintext by blast
qed

end
