(* ===== verification/Redactor.thy ===== *)
theory Redactor
  imports Prelude "HOL-Library.Product_Lexorder"
begin

text \<open>
  The streaming redactor of child-process output (\<^verbatim>\<open>pkg/varrun/redactor.go\<close>): a writer that
  replaces every secret by \<^verbatim>\<open>[REDACTED]\<close> on its way to a destination, with secrets that are split over
  several writes still recognised. The destination is an \<^verbatim>\<open>io.Writer\<close> the caller supplies: a function
  from its state and the bytes to the count it reports, its error and its next state. The scanning loop is
  a \<^emph>\<open>partial\<close> function: with an empty secret it would not end, and the constructor leaves those out.

  The reference is the whole-input function \<open>redact\<close>: at each position the longest secret that begins
  there is replaced, and a byte where none begins is copied.
\<close>

subsection \<open>The writer\<close>

datatype write_error = ErrShortWrite | WriteError string

type_synonym 'd dst_write = "'d \<Rightarrow> string \<Rightarrow> (int \<times> write_error option) \<times> 'd"

record 'd redactor =
  rd_dst :: 'd
  rd_secrets :: "string list"
  rd_max :: int
  rd_buf :: string
  rd_err :: "write_error option"

definition replacement :: string where
  "replacement = ''[REDACTED]''"

fun collect_secrets :: "string list \<Rightarrow> string list \<Rightarrow> int \<Rightarrow> string list \<times> int" where
  "collect_secrets [] secrets mx = (secrets, mx)"
| "collect_secrets (v # vs) secrets mx =
     (if v = [] \<or> v \<in> set secrets then collect_secrets vs secrets mx
      else collect_secrets vs (secrets @ [v]) (if int (length v) > mx then int (length v) else mx))"

definition NewRedactor :: "'d \<Rightarrow> string list \<Rightarrow> 'd redactor" where
  "NewRedactor dst values =
     (let (secrets, mx) = collect_secrets values [] 0
      in \<lparr>rd_dst = dst, rd_secrets = sort_key (\<lambda>s. (- int (length s), s)) secrets, rd_max = mx,
          rd_buf = [], rd_err = None\<rparr>)"

definition rd_write :: "'d dst_write \<Rightarrow> string \<Rightarrow> 'd redactor \<Rightarrow> 'd redactor" where
  "rd_write w p r =
     (if rd_err r \<noteq> None \<or> p = [] then r
      else case w (rd_dst r) p of
        ((n, e), d) \<Rightarrow> r\<lparr>rd_dst := d,
          rd_err := (if e = None \<and> n \<noteq> int (length p) then Some ErrShortWrite else e)\<rparr>)"

definition match_at :: "string list \<Rightarrow> string \<Rightarrow> nat \<Rightarrow> string option" where
  "match_at secrets buf i =
     find (\<lambda>s. int (length buf) - int i \<ge> int (length s) \<and> take (length s) (drop i buf) = s) secrets"

partial_function (option) process_loop ::
  "'d dst_write \<Rightarrow> int \<Rightarrow> bool \<Rightarrow> nat \<Rightarrow> 'd redactor \<Rightarrow> (nat \<times> 'd redactor) option" where
  "process_loop w limit final i r =
     (if int i < limit then
        (case match_at (rd_secrets r) (rd_buf r) i of
           Some m \<Rightarrow> process_loop w limit final (i + length m) (rd_write w replacement r)
         | None \<Rightarrow>
             if \<not> final \<and> int (length (rd_buf r)) - int i < rd_max r then Some (i, r)
             else process_loop w limit final (i + 1) (rd_write w (take 1 (drop i (rd_buf r))) r))
      else Some (i, r))"

definition process :: "'d dst_write \<Rightarrow> int \<Rightarrow> bool \<Rightarrow> 'd redactor \<Rightarrow> 'd redactor option" where
  "process w limit final r =
     (if rd_err r \<noteq> None \<or> limit \<le> 0 then Some r
      else if rd_secrets r = []
      then Some ((rd_write w (take (nat limit) (rd_buf r)) r)\<lparr>rd_buf := drop (nat limit) (rd_buf r)\<rparr>)
      else map_option (\<lambda>(i, r'). r'\<lparr>rd_buf := drop i (rd_buf r')\<rparr>) (process_loop w limit final 0 r))"

definition Write :: "'d dst_write \<Rightarrow> string \<Rightarrow> 'd redactor \<Rightarrow> ((int \<times> write_error option) \<times> 'd redactor) option" where
  "Write w p r =
     (if rd_err r \<noteq> None then Some ((0, rd_err r), r)
      else let r1 = r\<lparr>rd_buf := rd_buf r @ p\<rparr>;
               keep = (if rd_max r1 - 1 < 0 then 0 else rd_max r1 - 1)
           in map_option (\<lambda>r'. (if rd_err r' \<noteq> None then (0, rd_err r') else (int (length p), None), r'))
                (process w (int (length (rd_buf r1)) - keep) False r1))"

definition Close :: "'d dst_write \<Rightarrow> 'd redactor \<Rightarrow> (write_error option \<times> 'd redactor) option" where
  "Close w r = map_option (\<lambda>r'. (rd_err r', r')) (process w (int (length (rd_buf r))) True r)"

text \<open>A run: the child writes its chunks in order, then the stream is closed.\<close>

fun write_all :: "'d dst_write \<Rightarrow> string list \<Rightarrow> 'd redactor \<Rightarrow> 'd redactor option" where
  "write_all w [] r = Some r"
| "write_all w (p # ps) r = Option.bind (Write w p r) (\<lambda>(_, r'). write_all w ps r')"

definition stream :: "'d dst_write \<Rightarrow> 'd \<Rightarrow> string list \<Rightarrow> string list \<Rightarrow> (write_error option \<times> 'd redactor) option" where
  "stream w d values ps = Option.bind (write_all w ps (NewRedactor d values)) (Close w)"

subsection \<open>The reference\<close>

definition longest :: "string list \<Rightarrow> string \<Rightarrow> nat" where
  "longest V s = foldr max (map length (filter (\<lambda>v. prefix v s) V)) 0"

text \<open>The input as a sequence of copied bytes and of redactions.\<close>

function pieces :: "string list \<Rightarrow> string \<Rightarrow> char option list" where
  "pieces V [] = []"
| "pieces V (c # cs) =
     (if longest V (c # cs) = 0 then Some c # pieces V cs
      else None # pieces V (drop (longest V (c # cs)) (c # cs)))"
  by pat_completeness auto
termination by (relation "measure (\<lambda>(V, s). length s)") auto

definition render :: "char option list \<Rightarrow> string" where
  "render ps = concat (map (\<lambda>p. case p of Some c \<Rightarrow> [c] | None \<Rightarrow> replacement) ps)"

definition redact :: "string list \<Rightarrow> string \<Rightarrow> string" where
  "redact V s = render (pieces V s)"

subsection \<open>Longest matches\<close>

lemma foldr_max_ge: "x \<in> set xs \<Longrightarrow> x \<le> foldr max xs (0::nat)"
  by (induction xs) auto

lemma foldr_max_mem: "foldr max xs (0::nat) \<noteq> 0 \<Longrightarrow> foldr max xs 0 \<in> set xs"
  by (induction xs) (auto simp: max_def split: if_splits)

lemma longest_ge: "v \<in> set V \<Longrightarrow> prefix v s \<Longrightarrow> length v \<le> longest V s"
  unfolding longest_def by (rule foldr_max_ge) auto

lemma longest_mem: "longest V s \<noteq> 0 \<Longrightarrow> \<exists>v\<in>set V. prefix v s \<and> length v = longest V s"
  unfolding longest_def by (drule foldr_max_mem) auto

lemma longest_eqI:
  assumes "v \<in> set V" "prefix v s" "\<And>u. u \<in> set V \<Longrightarrow> prefix u s \<Longrightarrow> length u \<le> length v"
  shows "longest V s = length v"
  using longest_ge [OF assms(1,2)] longest_mem [of V s] assms(3) by (metis le_antisym le_zero_eq)

lemma longest_zeroI: "(\<And>u. u \<in> set V \<Longrightarrow> prefix u s \<Longrightarrow> u = []) \<Longrightarrow> longest V s = 0"
  using longest_mem [of V s] by fastforce

lemma longest_append:
  assumes "\<forall>v\<in>set V. length v \<le> length s"
  shows "longest V (s @ z) = longest V s"
proof -
  have "prefix v (s @ z) \<longleftrightarrow> prefix v s" if "v \<in> set V" for v
    using assms that by (metis prefixI prefix_length_prefix prefix_order.trans)
  then show ?thesis by (simp add: longest_def cong: filter_cong)
qed

lemma redact_Nil [simp]: "redact V [] = []"
  by (simp add: redact_def render_def)

lemma redact_copy: "longest V (c # s) = 0 \<Longrightarrow> redact V (c # s) = c # redact V s"
  by (simp add: redact_def render_def)

lemma longest_Nil: "longest V [] = 0"
  by (rule longest_zeroI) simp

lemma redact_match: "longest V s = n \<Longrightarrow> n \<noteq> 0 \<Longrightarrow> redact V s = replacement @ redact V (drop n s)"
  by (cases s) (auto simp: redact_def render_def longest_Nil)

lemma redact_none: "(\<And>v. v \<in> set V \<Longrightarrow> v = []) \<Longrightarrow> redact V s = s"
  by (induction s) (auto simp: redact_copy longest_zeroI)

subsection \<open>What the constructor sets up\<close>

definition shape_ok :: "string list \<Rightarrow> 'd redactor \<Rightarrow> bool" where
  "shape_ok V r \<longleftrightarrow> set (rd_secrets r) = {v \<in> set V. v \<noteq> []} \<and> 0 \<le> rd_max r
     \<and> sorted (map (\<lambda>s. (- int (length s), s)) (rd_secrets r)) \<and> (\<forall>v\<in>set V. int (length v) \<le> rd_max r)"

lemma collect_secrets_spec:
  "collect_secrets vs S m = (S', m') \<Longrightarrow> 0 \<le> m \<Longrightarrow> (\<forall>v\<in>set S. int (length v) \<le> m) \<Longrightarrow>
     set S' = set S \<union> {v \<in> set vs. v \<noteq> []} \<and> m \<le> m' \<and> (\<forall>v\<in>set S \<union> set vs. int (length v) \<le> m')"
proof (induction vs arbitrary: S m)
  case (Cons v vs)
  show ?case
  proof (cases "v = [] \<or> v \<in> set S")
    case True
    with Cons.prems have "collect_secrets vs S m = (S', m')" by auto
    from Cons.IH [OF this Cons.prems(2,3)] True Cons.prems(2) show ?thesis by auto
  next
    case False
    let ?m = "if int (length v) > m then int (length v) else m"
    from False Cons.prems have "collect_secrets vs (S @ [v]) ?m = (S', m')" by auto
    moreover have "0 \<le> ?m" "\<forall>x\<in>set (S @ [v]). int (length x) \<le> ?m" using Cons.prems by auto
    ultimately have "set S' = set (S @ [v]) \<union> {v \<in> set vs. v \<noteq> []} \<and> ?m \<le> m'
        \<and> (\<forall>x\<in>set (S @ [v]) \<union> set vs. int (length x) \<le> m')" by (rule Cons.IH)
    with False show ?thesis by (auto split: if_splits)
  qed
qed simp

lemma shape_ok_new: "shape_ok V (NewRedactor d V)"
proof -
  obtain S m where c: "collect_secrets V [] 0 = (S, m)" by fastforce
  from collect_secrets_spec [OF this] c show ?thesis by (simp add: shape_ok_def NewRedactor_def)
qed

lemma NewRedactor_simps [simp]:
  "rd_dst (NewRedactor d V) = d" "rd_buf (NewRedactor d V) = []" "rd_err (NewRedactor d V) = None"
  by (simp_all add: NewRedactor_def split_beta)

lemma shape_ok_update [simp]:
  "shape_ok V (r\<lparr>rd_dst := d\<rparr>) = shape_ok V r" "shape_ok V (r\<lparr>rd_buf := b\<rparr>) = shape_ok V r"
  "shape_ok V (r\<lparr>rd_err := e\<rparr>) = shape_ok V r"
  by (simp_all add: shape_ok_def)

lemma rd_write_keeps [simp]:
  "rd_secrets (rd_write w p r) = rd_secrets r" "rd_max (rd_write w p r) = rd_max r"
  "rd_buf (rd_write w p r) = rd_buf r" "shape_ok V (rd_write w p r) = shape_ok V r"
  by (simp_all add: rd_write_def split_beta)

text \<open>The first match in the sorted list is a longest one.\<close>

lemma match_at_longest:
  assumes "shape_ok V r"
  shows "case match_at (rd_secrets r) buf i of
      None \<Rightarrow> longest V (drop i buf) = 0
    | Some m \<Rightarrow> m \<noteq> [] \<and> i + length m \<le> length buf \<and> longest V (drop i buf) = length m"
proof -
  let ?P = "\<lambda>s. int (length buf) - int i \<ge> int (length s) \<and> take (length s) (drop i buf) = s"
  have P: "?P s \<longleftrightarrow> prefix s (drop i buf)" if "s \<noteq> []" for s
  proof
    assume "?P s"
    then show "prefix s (drop i buf)" by (metis take_is_prefix)
  next
    assume p: "prefix s (drop i buf)"
    from prefix_length_le [OF p] that have "int (length buf) - int i \<ge> int (length s)" by (cases s) auto
    with p show "?P s" by (auto simp: prefix_def)
  qed
  have ne: "s \<noteq> []" "s \<in> set V" if "s \<in> set (rd_secrets r)" for s using assms that by (auto simp: shape_ok_def)
  show ?thesis
  proof (cases "match_at (rd_secrets r) buf i")
    case None
    then have "\<not> prefix s (drop i buf)" if "s \<in> set (rd_secrets r)" for s
      using that P [OF ne(1) [OF that]] by (auto simp: match_at_def find_None_iff)
    with assms have "longest V (drop i buf) = 0" by (intro longest_zeroI) (auto simp: shape_ok_def)
    with None show ?thesis by simp
  next
    case (Some m)
    from Some obtain k where k: "k < length (rd_secrets r)" "m = rd_secrets r ! k" "?P m" "\<forall>j<k. \<not> ?P (rd_secrets r ! j)"
      unfolding match_at_def find_Some_iff by auto
    then have mem: "m \<in> set (rd_secrets r)" by simp
    have le: "length u \<le> length m" if u: "u \<in> set V" "prefix u (drop i buf)" for u
    proof (cases "u = []")
      case False
      with u(1) assms have "u \<in> set (rd_secrets r)" by (auto simp: shape_ok_def)
      then obtain j where j: "j < length (rd_secrets r)" "u = rd_secrets r ! j" by (metis in_set_conv_nth)
      with k(4) u(2) P [OF False] have "k \<le> j" by (meson not_le)
      then have "map (\<lambda>s. (- int (length s), s)) (rd_secrets r) ! k \<le> map (\<lambda>s. (- int (length s), s)) (rd_secrets r) ! j"
        using assms j by (intro sorted_nth_mono) (simp_all add: shape_ok_def)
      with j k(1,2) show ?thesis by auto
    qed simp
    have "longest V (drop i buf) = length m"
      using ne [OF mem] k(3) P le by (intro longest_eqI) auto
    with Some ne [OF mem] k(3) show ?thesis by auto
  qed
qed

subsection \<open>The scanning loop\<close>

text \<open>What the destination was handed, with the attempts logged: a prefix of \<open>S\<close>, all of it as long as
  no write failed.\<close>

definition accepts_all :: "string list dst_write \<Rightarrow> bool" where
  "accepts_all w \<longleftrightarrow> (\<forall>d p. fst (w d p) = (int (length p), None))"

definition delivered :: "string list dst_write \<Rightarrow> string list redactor \<Rightarrow> string \<Rightarrow> bool" where
  "delivered w r S \<longleftrightarrow> prefix (concat (rd_dst r)) S \<and> (rd_err r = None \<longrightarrow> concat (rd_dst r) = S)
     \<and> (accepts_all w \<longrightarrow> rd_err r = None)"

definition logs :: "string list dst_write \<Rightarrow> bool" where
  "logs w \<longleftrightarrow> (\<forall>d p. snd (w d p) = d @ [p])"

lemma delivered_write: "logs w \<Longrightarrow> delivered w r S \<Longrightarrow> delivered w (rd_write w p r) (S @ p)"
  by (auto simp: delivered_def rd_write_def logs_def accepts_all_def split_beta)

lemma delivered_buf [simp]: "delivered w (r\<lparr>rd_buf := b\<rparr>) S = delivered w r S"
  by (simp add: delivered_def)

lemma longest_lookahead:
  assumes "shape_ok V r" and "rd_max r \<le> int (length s) \<or> z = []"
  shows "longest V (s @ z) = longest V s"
  using assms longest_append [of V s z] by (fastforce simp: shape_ok_def)

lemma process_loop_correct:
  assumes "logs w" and "shape_ok V r" and "delivered w r S" and "i \<le> length (rd_buf r)"
    and "if final then limit = int (length (rd_buf r)) else limit \<le> int (length (rd_buf r)) - (rd_max r - 1)
            \<and> limit \<le> int (length (rd_buf r))"
  shows "\<exists>i' r' S'. process_loop w limit final i r = Some (i', r') \<and> i' \<le> length (rd_buf r) \<and> limit \<le> int i'
     \<and> rd_buf r' = rd_buf r \<and> rd_max r' = rd_max r \<and> shape_ok V r' \<and> delivered w r' S'
     \<and> (\<forall>z. (final \<longrightarrow> z = []) \<longrightarrow> S @ redact V (drop i (rd_buf r) @ z) = S' @ redact V (drop i' (rd_buf r) @ z))"
  using assms
proof (induction "nat (limit - int i)" arbitrary: i r S rule: less_induct)
  case less
  let ?buf = "rd_buf r"
  let ?goal = "\<lambda>i r S. \<exists>i' r' S'. process_loop w limit final i r = Some (i', r') \<and> i' \<le> length (rd_buf r) \<and> limit \<le> int i'
     \<and> rd_buf r' = rd_buf r \<and> rd_max r' = rd_max r \<and> shape_ok V r' \<and> delivered w r' S'
     \<and> (\<forall>z. (final \<longrightarrow> z = []) \<longrightarrow> S @ redact V (drop i (rd_buf r) @ z) = S' @ redact V (drop i' (rd_buf r) @ z))"
  show ?case
  proof (cases "int i < limit")
    case False
    then show ?thesis using less.prems by (subst process_loop.simps) auto
  next
    case True
    with less.prems(5) have room: "i < length ?buf" "final \<or> rd_max r \<le> int (length ?buf) - int i"
      by (auto split: if_splits)
    have look: "longest V (drop i ?buf @ z) = longest V (drop i ?buf)" if "final \<longrightarrow> z = []" for z
      using longest_lookahead [OF less.prems(2)] room that by auto
    show ?thesis
    proof (cases "match_at (rd_secrets r) ?buf i")
      case (Some m)
      with match_at_longest [OF less.prems(2), of i ?buf]
      have m: "m \<noteq> []" "i + length m \<le> length ?buf" "longest V (drop i ?buf) = length m" by auto
      have step: "redact V (drop i ?buf @ z) = replacement @ redact V (drop (i + length m) ?buf @ z)" if "final \<longrightarrow> z = []" for z
        using redact_match [of V "drop i ?buf @ z" "length m"] look [OF that] m by (simp add: add.commute)
      have "?goal (i + length m) (rd_write w replacement r) (S @ replacement)"
        using less.prems True m by (intro less.hyps delivered_write) simp_all
      moreover from True Some have "process_loop w limit final i r = process_loop w limit final (i + length m) (rd_write w replacement r)"
        by (subst process_loop.simps) simp
      ultimately show ?thesis using step by simp
    next
      case None
      with match_at_longest [OF less.prems(2), of i ?buf] have l0: "longest V (drop i ?buf) = 0" by simp
      have d: "drop i ?buf = ?buf ! i # drop (Suc i) ?buf" using room(1) by (simp add: Cons_nth_drop_Suc)
      have step: "redact V (drop i ?buf @ z) = take 1 (drop i ?buf) @ redact V (drop (i + 1) ?buf @ z)" if "final \<longrightarrow> z = []" for z
        using redact_copy [of V "?buf ! i" "drop (Suc i) ?buf @ z"] look [OF that] l0 d by simp
      have "?goal (i + 1) (rd_write w (take 1 (drop i ?buf)) r) (S @ take 1 (drop i ?buf))"
        using less.prems True room by (intro less.hyps delivered_write) simp_all
      moreover from True None room(2) have
        "process_loop w limit final i r = process_loop w limit final (i + 1) (rd_write w (take 1 (drop i ?buf)) r)"
        by (subst process_loop.simps) auto
      ultimately show ?thesis using step by simp
    qed
  qed
qed

lemma process_correct:
  assumes "logs w" and "shape_ok V r" and "delivered w r S" and "rd_err r = None"
    and "if final then limit = int (length (rd_buf r)) else limit \<le> int (length (rd_buf r)) - (rd_max r - 1)
            \<and> limit \<le> int (length (rd_buf r))"
  shows "\<exists>r' S'. process w limit final r = Some r' \<and> shape_ok V r' \<and> delivered w r' S' \<and> (final \<longrightarrow> rd_buf r' = [])
     \<and> (\<forall>z. (final \<longrightarrow> z = []) \<longrightarrow> S @ redact V (rd_buf r @ z) = S' @ redact V (rd_buf r' @ z))"
proof (cases "limit \<le> 0 \<or> rd_secrets r = []")
  case True
  have "redact V s = s" if "rd_secrets r = []" for s using assms(2) that by (intro redact_none) (auto simp: shape_ok_def)
  with True assms(2-5) delivered_write [OF assms(1,3), of "take (nat limit) (rd_buf r)"] show ?thesis
    by (cases "limit \<le> 0") (auto simp: process_def intro!: exI [of _ "S @ take (nat limit) (rd_buf r)"] split: if_splits)
next
  case False
  from process_loop_correct [OF assms(1-3) le0 assms(5)] obtain i r' S' where
    l: "process_loop w limit final 0 r = Some (i, r')" "i \<le> length (rd_buf r)" "limit \<le> int i" "rd_buf r' = rd_buf r"
      "shape_ok V r'" "delivered w r' S'"
      "\<forall>z. (final \<longrightarrow> z = []) \<longrightarrow> S @ redact V (rd_buf r @ z) = S' @ redact V (drop i (rd_buf r) @ z)" by auto
  with False assms(4,5) show ?thesis by (auto simp: process_def intro!: exI [of _ S'])
qed

subsection \<open>Writes and the whole stream\<close>

definition stream_inv :: "string list dst_write \<Rightarrow> string list \<Rightarrow> string \<Rightarrow> string list redactor \<Rightarrow> bool" where
  "stream_inv w V input r \<longleftrightarrow> shape_ok V r \<and> (accepts_all w \<longrightarrow> rd_err r = None) \<and> (\<forall>z. prefix (concat (rd_dst r)) (redact V (input @ z)))
     \<and> (rd_err r = None \<longrightarrow> (\<forall>z. concat (rd_dst r) @ redact V (rd_buf r @ z) = redact V (input @ z)))"

lemma stream_inv_new: "stream_inv w V [] (NewRedactor [] V)"
  by (simp add: stream_inv_def shape_ok_new)

lemma delivered_start: "rd_err r = None \<Longrightarrow> delivered w r (concat (rd_dst r))"
  by (simp add: delivered_def)

lemma Write_inv:
  assumes "logs w" and "stream_inv w V input r"
  shows "\<exists>x r'. Write w p r = Some (x, r') \<and> stream_inv w V (input @ p) r'"
proof (cases "rd_err r")
  case (Some e)
  with assms(2) show ?thesis by (auto simp: Write_def stream_inv_def)
next
  case None
  let ?r = "r\<lparr>rd_buf := rd_buf r @ p\<rparr>"
  let ?limit = "int (length (rd_buf ?r)) - (if rd_max ?r - 1 < 0 then 0 else rd_max ?r - 1)"
  from assms(2) None have inv: "shape_ok V ?r" "\<And>z. concat (rd_dst r) @ redact V (rd_buf r @ z) = redact V (input @ z)"
    by (auto simp: stream_inv_def)
  have lim: "if False then ?limit = int (length (rd_buf ?r)) else ?limit \<le> int (length (rd_buf ?r)) - (rd_max ?r - 1)
            \<and> ?limit \<le> int (length (rd_buf ?r))" by simp
  from None have "delivered w ?r (concat (rd_dst r))" by (simp add: delivered_def)
  from process_correct [OF assms(1) inv(1) this _ lim] None obtain r' S' where
    p: "process w ?limit False ?r = Some r'" "shape_ok V r'" "delivered w r' S'"
      "\<forall>z. concat (rd_dst r) @ redact V (rd_buf ?r @ z) = S' @ redact V (rd_buf r' @ z)" by auto
  have eq: "redact V ((input @ p) @ z) = S' @ redact V (rd_buf r' @ z)" for z
    using p(4) inv(2) [of "p @ z"] by simp
  have "prefix (concat (rd_dst r')) (redact V ((input @ p) @ z))" for z
    unfolding eq using p(3) by (simp add: delivered_def prefix_def) (metis append.assoc)
  with p(2,3) eq have "stream_inv w V (input @ p) r'" unfolding stream_inv_def delivered_def by metis
  with p(1) None show ?thesis by (auto simp: Write_def Let_def)
qed

lemma write_all_inv:
  "logs w \<Longrightarrow> stream_inv w V input r \<Longrightarrow> \<exists>r'. write_all w ps r = Some r' \<and> stream_inv w V (input @ concat ps) r'"
proof (induction ps arbitrary: input r)
  case (Cons p ps)
  from Write_inv [OF Cons.prems] obtain x r' where w: "Write w p r = Some (x, r')" "stream_inv w V (input @ p) r'" by blast
  from Cons.IH [OF Cons.prems(1) w(2)] w(1) show ?case by simp
qed simp

lemma Close_inv:
  assumes "logs w" and "stream_inv w V input r"
  shows "\<exists>r'. Close w r = Some (rd_err r', r') \<and> prefix (concat (rd_dst r')) (redact V input)
     \<and> (rd_err r' = None \<longrightarrow> concat (rd_dst r') = redact V input) \<and> (accepts_all w \<longrightarrow> rd_err r' = None)"
proof (cases "rd_err r")
  case (Some e)
  have "prefix (concat (rd_dst r)) (redact V input)" using assms(2) unfolding stream_inv_def by (metis append_Nil2)
  with Some assms(2) show ?thesis by (auto simp: Close_def process_def stream_inv_def)
next
  case None
  from assms(2) None have inv: "shape_ok V r" "concat (rd_dst r) @ redact V (rd_buf r) = redact V input"
    unfolding stream_inv_def by (auto, metis append_Nil2)
  from process_correct [OF assms(1) inv(1) delivered_start [OF None] None, where final = True] obtain r' S' where
    "process w (int (length (rd_buf r))) True r = Some r'" "delivered w r' S'" "rd_buf r' = []"
      "concat (rd_dst r) @ redact V (rd_buf r) = S' @ redact V (rd_buf r')" by auto
  with inv(2) show ?thesis by (auto simp: Close_def delivered_def)
qed

text \<open>A secret that lies in copied bytes would have been matched where it begins.\<close>

lemma pieces_copied: "prefix (map Some v) (pieces V s) \<Longrightarrow> prefix v s"
proof (induction v arbitrary: s)
  case (Cons a v)
  then obtain c cs where s: "s = c # cs" by (cases s) auto
  with Cons.prems have "longest V s = 0" "a = c" "prefix (map Some v) (pieces V cs)" by (auto split: if_splits)
  with Cons.IH s show ?case by simp
qed simp

lemma no_copied_secret:
  assumes "v \<in> set V" "v \<noteq> []"
  shows "\<not> sublist (map Some v) (pieces V s)"
  using assms
proof (induction V s rule: pieces.induct)
  case (2 V c cs)
  show ?case
  proof (cases "longest V (c # cs) = 0")
    case True
    with longest_ge [OF 2(3), of "c # cs"] 2(4) have "\<not> prefix (map Some v) (pieces V (c # cs))"
      using pieces_copied [of v V "c # cs"] by auto
    with 2(1) [OF True 2(3,4)] True show ?thesis by (simp add: sublist_Cons_right)
  next
    case False
    with 2(2) [OF False 2(3,4)] 2(4) show ?thesis by (cases v) (simp_all add: sublist_Cons_right)
  qed
qed simp

text \<open>C7. Redaction is independent of how the output is cut into writes. Against any destination, with its
  attempts logged, every write and the close return; what the destination was handed is a prefix of the
  redacted whole, and all of it when no write failed, as with a destination that takes everything; and in the redacted whole no secret lies within
  copied bytes.\<close>

theorem redacted_stream:
  assumes "logs w"
  shows "\<exists>e r. stream w [] V ps = Some (e, r) \<and> prefix (concat (rd_dst r)) (redact V (concat ps))
    \<and> (e = None \<longrightarrow> concat (rd_dst r) = redact V (concat ps)) \<and> (accepts_all w \<longrightarrow> e = None)
    \<and> (\<forall>v\<in>set V. v \<noteq> [] \<longrightarrow> \<not> sublist (map Some v) (pieces V (concat ps)))"
proof -
  from write_all_inv [OF assms stream_inv_new, of ps V] obtain r where
    r: "write_all w ps (NewRedactor [] V) = Some r" "stream_inv w V (concat ps) r" by auto
  from Close_inv [OF assms r(2)] r(1) no_copied_secret show ?thesis by (fastforce simp: stream_def)
qed

definition full_write :: "string list dst_write" where
  "full_write d p = ((int (length p), None), d @ [p])"

theorem redacted_stream_witness:
  "\<exists>r. stream full_write [] [''abc'', ''ab''] [''xa'', ''bd ab'', ''c''] = Some (None, r)
     \<and> concat (rd_dst r) = ''x[REDACTED]d [REDACTED]''"
proof -
  have "redact [''abc'', ''ab''] ''xabd abc'' = ''x[REDACTED]d [REDACTED]''" by code_simp
  then have e: "redact [''abc'', ''ab''] (concat [''xa'', ''bd ab'', ''c'']) = ''x[REDACTED]d [REDACTED]''" by simp
  have "logs full_write" "accepts_all full_write" by (simp_all add: logs_def full_write_def accepts_all_def)
  with redacted_stream [where V = "[''abc'', ''ab'']" and ps = "[''xa'', ''bd ab'', ''c'']"]
  show ?thesis unfolding e by metis
qed

text \<open>A write error is final: later writes report it and hand nothing on, and so does the close.\<close>

lemma write_error_sticky:
  "rd_err r = Some e \<Longrightarrow> write_all w ps r = Some r \<and> Close w r = Some (Some e, r)"
  by (induction ps) (simp_all add: Write_def Close_def process_def)

end
