(* ===== verification/Var_Run.thy ===== *)
theory Var_Run
  imports Redactor Vault
begin

text \<open>
  Delivering variables to a child process (\<^verbatim>\<open>pkg/varrun/run.go\<close>): the environment the child gets, the
  values that its output is redacted for and the choice of the output writer. Starting the process,
  forwarding signals and waiting for it are the operating system's part.
\<close>

record run_options =
  ro_command :: "string list"
  ro_variables :: "variable list"
  ro_environment :: "string list"
  ro_stdoutTTY :: bool
  ro_stderrTTY :: bool
  ro_noRedact :: bool
  ro_forceRedact :: bool

datatype run_error = ErrNoCommand | ErrRedactTTY

text \<open>The writer of one output stream: the destination itself, or a redactor in front of it.\<close>

datatype out_writer = Direct | Redacting "string list"

definition outputWriter :: "bool \<Rightarrow> string list \<Rightarrow> out_writer" where
  "outputWriter raw secrets = (if raw \<or> secrets = [] then Direct else Redacting secrets)"

definition put_ambient :: "string \<Rightarrow> (string, string) gomap \<Rightarrow> (string, string) gomap" where
  "put_ambient item m =
     (case cut ''='' item of
        None \<Rightarrow> m
      | Some (key, val) \<Rightarrow> if IsInternalCredential key then m else AList.update key val m)"

definition put_variable :: "variable \<Rightarrow> (string, string) gomap \<Rightarrow> (string, string) gomap" where
  "put_variable v m = (if IsInternalCredential (v_key v) then m else AList.update (v_key v) (v_value v) m)"

definition buildEnvironment :: "string list \<Rightarrow> variable list \<Rightarrow> string list" where
  "buildEnvironment ambient vars =
     (let m = fold put_variable vars (fold put_ambient ambient [])
      in map (\<lambda>key. key @ ''='' @ the (map_of m key)) (sort_strings (map fst m)))"

text \<open>What \<^verbatim>\<open>Run\<close> sets up before it starts the child: the environment and the two writers.\<close>

definition Run_setup :: "run_options \<Rightarrow> run_error + (string list \<times> out_writer \<times> out_writer)" where
  "Run_setup opts =
     (if ro_command opts = [] then Inl ErrNoCommand
      else if ro_forceRedact opts \<and> (ro_stdoutTTY opts \<or> ro_stderrTTY opts) then Inl ErrRedactTTY
      else let env = buildEnvironment (ro_environment opts) (ro_variables opts);
               secrets = map v_value (filter (\<lambda>v. v_isSecret v \<and> v_value v \<noteq> []) (ro_variables opts))
           in Inr (env,
                outputWriter (ro_noRedact opts \<or> (ro_stdoutTTY opts \<and> \<not> ro_forceRedact opts)) secrets,
                outputWriter (ro_noRedact opts \<or> (ro_stderrTTY opts \<and> \<not> ro_forceRedact opts)) secrets))"

subsection \<open>The environment of the child\<close>

text \<open>The value of a key: the last selected variable of that name, or else the last ambient assignment;
  reserved keys have none.\<close>

definition env_value :: "string list \<Rightarrow> variable list \<Rightarrow> string \<Rightarrow> string option" where
  "env_value ambient vars k =
     (if IsInternalCredential k then None
      else case find (\<lambda>v. v_key v = k) (rev vars) of
          Some v \<Rightarrow> Some (v_value v)
        | None \<Rightarrow> map_of (rev (List.map_filter (cut ''='') ambient)) k)"

lemma ambient_map:
  "map_of (fold put_ambient ambient m) k =
     (if IsInternalCredential k then map_of m k
      else case map_of (rev (List.map_filter (cut ''='') ambient)) k of Some v \<Rightarrow> Some v | None \<Rightarrow> map_of m k)"
proof (induction ambient arbitrary: m)
  case (Cons a as)
  then show ?case
    by (cases "cut ''='' a") (auto simp: put_ambient_def map_filter_simps map_of_update map_of_append map_add_def split: option.splits)
qed (simp add: map_filter_simps)

lemma variable_map:
  "map_of (fold put_variable vars m) k =
     (if IsInternalCredential k then map_of m k
      else case find (\<lambda>v. v_key v = k) (rev vars) of Some v \<Rightarrow> Some (v_value v) | None \<Rightarrow> map_of m k)"
  by (induction vars arbitrary: m) (auto simp: put_variable_def map_of_update find_append split: option.splits)

lemma put_ambient_keys: "map_keys_ok m \<Longrightarrow> map_keys_ok (fold put_ambient ambient m)"
  by (induction ambient arbitrary: m) (auto simp: put_ambient_def split: option.splits)

lemma put_variable_keys: "map_keys_ok m \<Longrightarrow> map_keys_ok (fold put_variable vars m)"
  by (induction vars arbitrary: m) (auto simp: put_variable_def)

text \<open>The child's environment is exact: it lists every key that has a value once, in order, with that value,
  and it never holds a reserved key, whether it came from the ambient environment or from the store.\<close>

theorem child_environment:
  "\<exists>ks. buildEnvironment ambient vars = map (\<lambda>k. k @ ''='' @ the (env_value ambient vars k)) ks
     \<and> sorted ks \<and> distinct ks \<and> set ks = {k. env_value ambient vars k \<noteq> None}
     \<and> (\<forall>k\<in>set ks. \<not> IsInternalCredential k)"
proof -
  let ?m = "fold put_variable vars (fold put_ambient ambient [])"
  have m: "map_of ?m = env_value ambient vars"
    by (auto simp: fun_eq_iff variable_map ambient_map env_value_def split: option.splits)
  have "map_keys_ok ?m" by (simp add: put_ambient_keys put_variable_keys)
  then have d: "distinct (sort_strings (map fst ?m))" by (simp add: map_keys_ok_def)
  have s: "set (sort_strings (map fst ?m)) = {k. env_value ambient vars k \<noteq> None}"
    using dom_map_of_conv_image_fst [of ?m] by (auto simp: m dom_def)
  then have "\<forall>k\<in>set (sort_strings (map fst ?m)). \<not> IsInternalCredential k"
    by (auto simp: env_value_def split: if_splits)
  with d s show ?thesis unfolding buildEnvironment_def Let_def m
    by (intro exI [of _ "sort_strings (map fst ?m)"]) simp
qed

theorem child_environment_witness:
  "\<not> IsInternalCredential ''A''
   \<and> buildEnvironment [''PATH=/bin'', ''GRIDCTL_VAULT_PASSPHRASE=p'', ''A=1''] [mk_variable ''A'' ''2'' [] []] = [''A=2'', ''PATH=/bin'']"
proof -
  let ?a = "[''PATH=/bin'', ''GRIDCTL_VAULT_PASSPHRASE=p'', ''A=1'']" and ?v = "[mk_variable ''A'' ''2'' [] []]"
  obtain ks where ks: "set ks = {k. env_value ?a ?v k \<noteq> None}" "\<forall>k\<in>set ks. \<not> IsInternalCredential k"
    using child_environment [of ?a ?v] by blast
  have "env_value ?a ?v ''A'' = Some ''2''" by code_simp
  with ks have "\<not> IsInternalCredential ''A''" by auto
  moreover have "buildEnvironment ?a ?v = [''A=2'', ''PATH=/bin'']" by code_simp
  ultimately show ?thesis by simp
qed

text \<open>Redaction is on unless switched off: in the set-up of a run, a stream is written raw only when
  redaction was disabled, the stream is a terminal, or no selected variable is a non-empty secret; otherwise
  its redactor knows every secret value the child was given.\<close>

theorem secrets_are_redacted:
  assumes "Run_setup opts = Inr (env, out, err)" and "\<not> ro_noRedact opts" and "\<not> ro_stdoutTTY opts"
    and "v \<in> set (ro_variables opts)" "v_isSecret v" "v_value v \<noteq> []"
  shows "\<exists>secrets. out = Redacting secrets \<and> v_value v \<in> set secrets
    \<and> (\<forall>s\<in>set secrets. \<exists>u\<in>set (ro_variables opts). v_isSecret u \<and> s = v_value u)"
proof -
  let ?ss = "map v_value (filter (\<lambda>v. v_isSecret v \<and> v_value v \<noteq> []) (ro_variables opts))"
  have v: "v_value v \<in> set ?ss" using assms(4-6) by auto
  then have "?ss \<noteq> []" by (metis empty_iff empty_set)
  with assms(1-3) have "out = Redacting ?ss" by (auto simp: Run_setup_def outputWriter_def Let_def split: if_splits)
  with v show ?thesis by auto
qed

end
