(* ===== verification/Config_Types.thy ===== *)
theory Config_Types
  imports Client_Scope Tool_Groups Rate_Limits Autoscaler
begin

text \<open>
  The stack configuration (\<^verbatim>\<open>pkg/config/types.go\<close>) as validation and the controller read it: the blocks
  of a stack as records, the kinds of server, the defaults, and the translation of its access, group and
  scaling blocks into what the gateway consumes (\<^verbatim>\<open>pkg/controller/gateway_builder.go\<close>,
  \<^verbatim>\<open>pkg/controller/server_registrar.go\<close>). \<^verbatim>\<open>time.ParseDuration\<close> is a parameter: a function from a text
  to the duration it denotes, if any. The tracing block of the gateway, which nothing here reads, is left
  out. A Go slice or map that is nil and one that is empty are one value here.
\<close>

subsection \<open>Blocks\<close>

type_synonym parse_duration = "string \<Rightarrow> duration option"

record source_auth =
  sa_method :: string
  sa_credentialRef :: string
  sa_sshUser :: string
  sa_sshKeyPath :: string

record source =
  so_type :: string
  so_url :: string
  so_ref :: string
  so_path :: string
  so_projectPath :: string
  so_dockerfile :: string
  so_runtime :: string
  so_package :: string
  so_python :: string
  so_extras :: "string list"
  so_with :: "string list"
  so_packages :: "string list"
  so_auth :: "source_auth option"

record ssh_config =
  sh_host :: string
  sh_user :: string
  sh_port :: int
  sh_identityFile :: string
  sh_knownHostsFile :: string
  sh_jumpHost :: string

record openapi_auth =
  oa_type :: string
  oa_tokenEnv :: string
  oa_header :: string
  oa_valueEnv :: string
  oa_paramName :: string
  oa_clientIdEnv :: string
  oa_clientSecretEnv :: string
  oa_tokenUrl :: string
  oa_scopes :: "string list"
  oa_usernameEnv :: string
  oa_passwordEnv :: string

record openapi_tls =
  ot_certFile :: string
  ot_keyFile :: string
  ot_caFile :: string
  ot_insecureSkipVerify :: bool

record operations_filter =
  of_include :: "string list"
  of_exclude :: "string list"

record openapi_config =
  op_spec :: string
  op_baseURL :: string
  op_auth :: "openapi_auth option"
  op_tls :: "openapi_tls option"
  op_operations :: "operations_filter option"

record server_auth =
  au_type :: string
  au_token :: string
  au_header :: string
  au_value :: string
  au_scopes :: "string list"
  au_clientID :: string
  au_clientSecret :: string

record autoscale_config =
  ac_min :: int
  ac_max :: int
  ac_targetInFlight :: int
  ac_scaleUpAfter :: string
  ac_scaleDownAfter :: string
  ac_warmPool :: int
  ac_idleToZero :: bool

record persistence =
  pe_logs :: "bool option"
  pe_metrics :: "bool option"
  pe_traces :: "bool option"

record mcp_server =
  sv_name :: string
  sv_image :: string
  sv_source :: "source option"
  sv_url :: string
  sv_port :: int
  sv_transport :: string
  sv_command :: "string list"
  sv_env :: "(string, string) gomap"
  sv_buildArgs :: "(string, string) gomap"
  sv_volumes :: "string list"
  sv_network :: string
  sv_ssh :: "ssh_config option"
  sv_openapi :: "openapi_config option"
  sv_tools :: "string list"
  sv_outputFormat :: string
  sv_pinSchemas :: "bool option"
  sv_readyTimeout :: string
  sv_pingTimeout :: string
  sv_protocolGeneration :: string
  sv_replicas :: int
  sv_replicaPolicy :: string
  sv_autoscale :: "autoscale_config option"
  sv_telemetry :: "persistence option"
  sv_auth :: "server_auth option"

record resource =
  rc_name :: string
  rc_image :: string
  rc_env :: "(string, string) gomap"
  rc_ports :: "string list"
  rc_volumes :: "string list"
  rc_network :: string

record network =
  nw_name :: string
  nw_driver :: string

record auth_config =
  gu_type :: string
  gu_token :: string
  gu_header :: string

record schema_pinning =
  sp_enabled :: "bool option"
  sp_action :: string
  sp_scan :: "bool option"
  sp_scanIgnore :: "string list"

record gateway_config =
  gc_name :: string
  gc_allowedOrigins :: "string list"
  gc_bind :: string
  gc_insecureAllowUnauthenticated :: bool
  gc_allowedHosts :: "string list"
  gc_auth :: "auth_config option"
  gc_codeMode :: string
  gc_codeModeTimeout :: int
  gc_outputFormat :: string
  gc_maxToolResultBytes :: int
  gc_schemaPinning :: "schema_pinning option"
  gc_tokenizer :: string
  gc_tokenizerAPIKey :: string

record retention_config =
  rt_maxSizeMB :: int
  rt_maxBackups :: int
  rt_maxAgeDays :: int

record telemetry_config =
  te_logs :: bool
  te_metrics :: bool
  te_traces :: bool
  te_retention :: "retention_config option"

record client_profile_config =
  cp_aliases :: "string list"
  cp_servers :: "string list"
  cp_tools :: "string list"

record clients_config =
  cl_default :: string
  cl_profiles :: "(string, client_profile_config) gomap"

record skills_config =
  sc_default :: string
  sc_allow :: "string list"
  sc_deny :: "string list"

record group_override =
  go_name :: string
  go_description :: string
  go_readOnlyHint :: "bool option"
  go_destructiveHint :: "bool option"
  go_idempotentHint :: "bool option"
  go_openWorldHint :: "bool option"

record group_config =
  gp_description :: string
  gp_servers :: "string list"
  gp_tools :: "string list"
  gp_exclude :: "string list"
  gp_overrides :: "(string, group_override) gomap"

record link_entry =
  le_client :: string
  le_group :: string
  le_clientID :: string
  le_name :: string

record secret_set_ref =
  sr_name :: string
  sr_servers :: "string list"
  sr_resources :: "string list"
  sr_scopeDeclared :: bool

record variable_declaration =
  vd_required :: "bool option"
  vd_secret :: "bool option"
  vd_type :: string
  vd_description :: string
  vd_docs :: string

record logging_config =
  lo_file :: string
  lo_maxSizeMB :: int
  lo_maxAgeDays :: int
  lo_maxBackups :: int

record model_preference_scope =
  mp_rewrite :: bool
  mp_default :: string
  mp_overrides :: "(string, string) gomap"

record model_preferences =
  mf_skills :: "model_preference_scope option"
  mf_agents :: "model_preference_scope option"

text \<open>A site that refers to a variable, and the index of such sites by key (\<^verbatim>\<open>references.go\<close>).\<close>

datatype reference_kind = RefKindMCPServer | RefKindResource | RefKindGateway | RefKindNetwork | RefKindStack | RefKindSecretsSet

record consumer =
  cn_kind :: reference_kind
  cn_name :: string
  cn_field :: string
  cn_source :: string
  cn_target :: string
  cn_targetKind :: "reference_kind option"

type_synonym reference_index = "(string, consumer list) gomap"

record stack =
  sk_version :: string
  sk_name :: string
  sk_extends :: string
  sk_gateway :: "gateway_config option"
  sk_logging :: "logging_config option"
  sk_telemetry :: "telemetry_config option"
  sk_secrets :: "secret_set_ref list option"
  sk_network :: network
  sk_networks :: "network list"
  sk_servers :: "mcp_server list"
  sk_resources :: "resource list"
  sk_clients :: "clients_config option"
  sk_limits :: "rate_limit list option"
  sk_groups :: "(string, group_config) gomap"
  sk_skills :: "skills_config option"
  sk_modelPreferences :: "model_preferences option"
  sk_link :: "link_entry list"
  sk_experimental :: "(string, bool) gomap"
  sk_variables :: "(string, variable_declaration) gomap"
  sk_references :: reference_index
  sk_unresolvedRefs :: "string list"

subsection \<open>Kinds of server\<close>

definition IsExternal :: "mcp_server \<Rightarrow> bool" where
  "IsExternal s \<longleftrightarrow> sv_url s \<noteq> [] \<and> sv_image s = [] \<and> sv_source s = None"

definition IsLocalProcess :: "mcp_server \<Rightarrow> bool" where
  "IsLocalProcess s \<longleftrightarrow> sv_command s \<noteq> [] \<and> sv_image s = [] \<and> sv_source s = None \<and> sv_url s = [] \<and> sv_ssh s = None"

definition IsSSH :: "mcp_server \<Rightarrow> bool" where
  "IsSSH s \<longleftrightarrow> sv_ssh s \<noteq> None \<and> sv_command s \<noteq> [] \<and> sv_image s = [] \<and> sv_source s = None \<and> sv_url s = []"

definition IsOpenAPI :: "mcp_server \<Rightarrow> bool" where
  "IsOpenAPI s \<longleftrightarrow> sv_openapi s \<noteq> None \<and> sv_image s = [] \<and> sv_source s = None \<and> sv_url s = [] \<and> sv_ssh s = None"

definition IsContainerBased :: "mcp_server \<Rightarrow> bool" where
  "IsContainerBased s \<longleftrightarrow> \<not> IsExternal s \<and> \<not> IsLocalProcess s \<and> \<not> IsSSH s \<and> \<not> IsOpenAPI s"

definition NeedsContainerRuntime :: "stack \<Rightarrow> bool" where
  "NeedsContainerRuntime s \<longleftrightarrow> sk_resources s \<noteq> [] \<or> (\<exists>srv\<in>set (sk_servers s). IsContainerBased srv)"

definition PersistLogs :: "mcp_server option \<Rightarrow> stack option \<Rightarrow> bool" where
  "PersistLogs s stk =
     (case Option.bind (Option.bind s sv_telemetry) pe_logs of
        Some b \<Rightarrow> b
      | None \<Rightarrow> (case Option.bind stk sk_telemetry of None \<Rightarrow> False | Some t \<Rightarrow> te_logs t))"

definition PersistMetrics :: "mcp_server option \<Rightarrow> stack option \<Rightarrow> bool" where
  "PersistMetrics s stk =
     (case Option.bind (Option.bind s sv_telemetry) pe_metrics of
        Some b \<Rightarrow> b
      | None \<Rightarrow> (case Option.bind stk sk_telemetry of None \<Rightarrow> False | Some t \<Rightarrow> te_metrics t))"

definition PersistTraces :: "mcp_server option \<Rightarrow> stack option \<Rightarrow> bool" where
  "PersistTraces s stk =
     (case Option.bind (Option.bind s sv_telemetry) pe_traces of
        Some b \<Rightarrow> b
      | None \<Rightarrow> (case Option.bind stk sk_telemetry of None \<Rightarrow> False | Some t \<Rightarrow> te_traces t))"

subsection \<open>Durations\<close>

definition ResolvedScaleUpAfter :: "parse_duration \<Rightarrow> autoscale_config option \<Rightarrow> duration" where
  "ResolvedScaleUpAfter pd a =
     (case a of None \<Rightarrow> 30 * second
      | Some c \<Rightarrow> if ac_scaleUpAfter c = [] then 30 * second
          else case pd (ac_scaleUpAfter c) of None \<Rightarrow> 30 * second | Some d \<Rightarrow> if d \<le> 0 then 30 * second else d)"

definition ResolvedScaleDownAfter :: "parse_duration \<Rightarrow> autoscale_config option \<Rightarrow> duration" where
  "ResolvedScaleDownAfter pd a =
     (case a of None \<Rightarrow> 300 * second
      | Some c \<Rightarrow> if ac_scaleDownAfter c = [] then 300 * second
          else case pd (ac_scaleDownAfter c) of None \<Rightarrow> 300 * second | Some d \<Rightarrow> if d \<le> 0 then 300 * second else d)"

definition ResolvedReadyTimeout :: "parse_duration \<Rightarrow> mcp_server \<Rightarrow> duration" where
  "ResolvedReadyTimeout pd s =
     (if sv_readyTimeout s = [] then 0
      else case pd (sv_readyTimeout s) of None \<Rightarrow> 0 | Some d \<Rightarrow> if d < 0 then 0 else d)"

definition ResolvedPingTimeout :: "parse_duration \<Rightarrow> mcp_server \<Rightarrow> duration" where
  "ResolvedPingTimeout pd s =
     (if sv_pingTimeout s = [] then 0
      else case pd (sv_pingTimeout s) of None \<Rightarrow> 0 | Some d \<Rightarrow> if d < 0 then 0 else d)"

subsection \<open>Defaults\<close>

definition isGeneratedPythonSource :: "source option \<Rightarrow> bool" where
  "isGeneratedPythonSource src =
     (case src of None \<Rightarrow> False
      | Some s \<Rightarrow> so_type s = ''pypi'' \<or> so_runtime s = ''python'' \<and> so_dockerfile s = [])"

definition source_defaults :: "source \<Rightarrow> source" where
  "source_defaults s =
     (let s1 = (if so_type s = ''git'' \<and> so_ref s = [] then s\<lparr>so_ref := ''main''\<rparr> else s)
      in if so_type s1 = ''pypi'' \<and> so_runtime s1 = [] then s1\<lparr>so_runtime := ''python''\<rparr> else s1)"

definition server_defaults :: "mcp_server \<Rightarrow> mcp_server" where
  "server_defaults s =
     (let src = map_option source_defaults (sv_source s)
      in s\<lparr>sv_source := src,
           sv_transport := (if isGeneratedPythonSource src \<and> sv_transport s = [] then ''stdio'' else sv_transport s),
           sv_replicas := (if sv_autoscale s = None \<and> sv_replicas s \<le> 0 then 1 else sv_replicas s),
           sv_replicaPolicy := (if sv_replicaPolicy s = [] then ''round-robin'' else sv_replicaPolicy s)\<rparr>)"

definition default_int :: "int \<Rightarrow> int \<Rightarrow> int" where
  "default_int d n = (if n = 0 then d else n)"

definition retention_defaults :: "retention_config option \<Rightarrow> retention_config" where
  "retention_defaults r =
     (let q = (case r of None \<Rightarrow> \<lparr>rt_maxSizeMB = 0, rt_maxBackups = 0, rt_maxAgeDays = 0\<rparr> | Some x \<Rightarrow> x)
      in \<lparr>rt_maxSizeMB = default_int 100 (rt_maxSizeMB q), rt_maxBackups = default_int 5 (rt_maxBackups q),
          rt_maxAgeDays = default_int 7 (rt_maxAgeDays q)\<rparr>)"

definition network_defaults :: "string \<Rightarrow> network \<Rightarrow> network" where
  "network_defaults name n =
     (let n1 = (if nw_driver n = [] then n\<lparr>nw_driver := ''bridge''\<rparr> else n)
      in if nw_name n1 = [] \<and> name \<noteq> [] then n1\<lparr>nw_name := name @ ''-net''\<rparr> else n1)"

definition gateway_defaults :: "gateway_config \<Rightarrow> gateway_config" where
  "gateway_defaults g = (if gc_tokenizer g = [] then g\<lparr>gc_tokenizer := ''embedded''\<rparr> else g)"

definition driver_default :: "network \<Rightarrow> network" where
  "driver_default n = (if nw_driver n = [] then n\<lparr>nw_driver := ''bridge''\<rparr> else n)"

definition telemetry_defaults :: "telemetry_config \<Rightarrow> telemetry_config" where
  "telemetry_defaults t = t\<lparr>te_retention := Some (retention_defaults (te_retention t))\<rparr>"

definition SetDefaults :: "stack \<Rightarrow> stack" where
  "SetDefaults s =
     s\<lparr>sk_version := (if sk_version s = [] then ''1'' else sk_version s),
       sk_gateway := map_option gateway_defaults (sk_gateway s),
       sk_network := (if sk_networks s = [] then network_defaults (sk_name s) (sk_network s) else sk_network s),
       sk_networks := map driver_default (sk_networks s),
       sk_servers := map server_defaults (sk_servers s),
       sk_telemetry := map_option telemetry_defaults (sk_telemetry s)\<rparr>"

subsection \<open>Translation for the gateway\<close>

definition clientAccessSpec :: "stack option \<Rightarrow> client_access_spec option" where
  "clientAccessSpec stk =
     (case Option.bind stk sk_clients of None \<Rightarrow> None
      | Some c \<Rightarrow> Some \<lparr>cas_default = cl_default c,
          cas_profiles = map (\<lambda>(n, p). (n, \<lparr>ps_aliases = cp_aliases p, ps_servers = cp_servers p, ps_tools = cp_tools p\<rparr>)) (cl_profiles c)\<rparr>)"

definition override_spec :: "group_override \<Rightarrow> group_override_spec" where
  "override_spec ov =
     \<lparr>ov_name = go_name ov, ov_description = go_description ov, ov_readOnlyHint = go_readOnlyHint ov,
      ov_destructiveHint = go_destructiveHint ov, ov_idempotentHint = go_idempotentHint ov, ov_openWorldHint = go_openWorldHint ov\<rparr>"

definition group_spec_of :: "group_config \<Rightarrow> group_spec" where
  "group_spec_of g =
     \<lparr>gs_description = gp_description g, gs_servers = gp_servers g, gs_tools = gp_tools g, gs_exclude = gp_exclude g,
      gs_overrides = map (\<lambda>(c, ov). (c, override_spec ov)) (gp_overrides g)\<rparr>"

definition groupsSpec :: "stack option \<Rightarrow> groups_spec" where
  "groupsSpec stk =
     (case stk of None \<Rightarrow> [] | Some s \<Rightarrow> map (\<lambda>(n, g). (n, group_spec_of g)) (sk_groups s))"

definition toAutoscalePolicy :: "parse_duration \<Rightarrow> autoscale_config \<Rightarrow> autoscale_policy" where
  "toAutoscalePolicy pd a =
     \<lparr>p_min = ac_min a, p_max = ac_max a, p_targetInFlight = ac_targetInFlight a,
      p_scaleUpAfter = ResolvedScaleUpAfter pd (Some a), p_scaleDownAfter = ResolvedScaleDownAfter pd (Some a),
      p_warmPool = ac_warmPool a, p_idleToZero = ac_idleToZero a\<rparr>"

subsection \<open>Defaulting\<close>

lemma defaults_idem:
  "source_defaults (source_defaults s) = source_defaults s" "gateway_defaults (gateway_defaults g) = gateway_defaults g"
  "driver_default (driver_default n) = driver_default n" "telemetry_defaults (telemetry_defaults t) = telemetry_defaults t"
  "network_defaults m (network_defaults m w) = network_defaults m w"
proof -
  show "source_defaults (source_defaults s) = source_defaults s"
    unfolding source_defaults_def Let_def by (cases "so_type s = ''git''"; cases "so_ref s = []"; cases "so_type s = ''pypi''"; cases "so_runtime s = []"; simp)
  show "gateway_defaults (gateway_defaults g) = gateway_defaults g" by (simp add: gateway_defaults_def)
  show "driver_default (driver_default n) = driver_default n" by (simp add: driver_default_def)
  show "telemetry_defaults (telemetry_defaults t) = telemetry_defaults t"
    by (simp add: telemetry_defaults_def retention_defaults_def default_int_def Let_def)
  show "network_defaults m (network_defaults m w) = network_defaults m w"
    unfolding network_defaults_def Let_def by (cases "nw_driver w = []"; cases "nw_name w = []"; cases "m = []"; simp)
qed

lemma server_defaults_idem: "server_defaults (server_defaults s) = server_defaults s"
  unfolding server_defaults_def Let_def by (simp add: option.map_comp comp_def defaults_idem)

lemma server_defaults_kind:
  "sv_name (server_defaults s) = sv_name s" "IsContainerBased (server_defaults s) = IsContainerBased s"
  "sv_autoscale (server_defaults s) \<noteq> None \<or> 1 \<le> sv_replicas (server_defaults s)"
  by (auto simp: server_defaults_def Let_def IsContainerBased_def IsExternal_def IsLocalProcess_def IsSSH_def IsOpenAPI_def)

text \<open>Applying the defaults is idempotent, so a stack that is loaded, written back and loaded again is the
  same; it changes neither which servers there are nor whether they need a container; and every server has at
  least one replica or an autoscaler.\<close>

theorem defaults_idempotent:
  "SetDefaults (SetDefaults s) = SetDefaults s
   \<and> map sv_name (sk_servers (SetDefaults s)) = map sv_name (sk_servers s)
   \<and> map IsContainerBased (sk_servers (SetDefaults s)) = map IsContainerBased (sk_servers s)
   \<and> list_all (\<lambda>v. sv_autoscale v \<noteq> None \<or> 1 \<le> sv_replicas v) (sk_servers (SetDefaults s))"
proof (intro conjI)
  show "SetDefaults (SetDefaults s) = SetDefaults s"
    unfolding SetDefaults_def by (simp add: option.map_comp comp_def server_defaults_idem defaults_idem)
  show "list_all (\<lambda>v. sv_autoscale v \<noteq> None \<or> 1 \<le> sv_replicas v) (sk_servers (SetDefaults s))"
    using server_defaults_kind(3) by (auto simp: SetDefaults_def list_all_iff)
qed (simp_all add: SetDefaults_def server_defaults_kind(1,2))

end
