(* ===== verification/Regex.thy ===== *)
theory Regex
  imports Prelude
begin

text \<open>
  The regular expressions that configuration validation compiles with \<^verbatim>\<open>regexp.MustCompile\<close>. Every
  pattern of the program is anchored at both ends, so \<^verbatim>\<open>MatchString\<close> is membership of the whole string
  in a regular language. The matcher works by derivatives and is proved to decide the language; a case
  insensitive letter also matches the runes that fold to it (U+017F for s, U+212A for k), as bytes.
\<close>

datatype regex =
    Never | Eps | Sym "char \<Rightarrow> bool" | Alt regex regex | Cat regex regex | Rep regex

inductive lang :: "regex \<Rightarrow> string \<Rightarrow> bool" where
  lang_Eps: "lang Eps []"
| lang_Sym: "p c \<Longrightarrow> lang (Sym p) [c]"
| lang_AltL: "lang r s \<Longrightarrow> lang (Alt r q) s"
| lang_AltR: "lang q s \<Longrightarrow> lang (Alt r q) s"
| lang_Cat: "lang r s \<Longrightarrow> lang q t \<Longrightarrow> lang (Cat r q) (s @ t)"
| lang_RepNil: "lang (Rep r) []"
| lang_RepCons: "lang r s \<Longrightarrow> lang (Rep r) t \<Longrightarrow> lang (Rep r) (s @ t)"

inductive_simps lang_simps: "lang Never s" "lang Eps s" "lang (Sym p) s" "lang (Alt r q) s"

fun nullable :: "regex \<Rightarrow> bool" where
  "nullable Never = False"
| "nullable Eps = True"
| "nullable (Sym p) = False"
| "nullable (Alt r q) = (nullable r \<or> nullable q)"
| "nullable (Cat r q) = (nullable r \<and> nullable q)"
| "nullable (Rep r) = True"

text \<open>Smart constructors keep derivatives small.\<close>

fun cat :: "regex \<Rightarrow> regex \<Rightarrow> regex" where
  "cat Never q = Never"
| "cat Eps q = q"
| "cat r q = Cat r q"

fun alt :: "regex \<Rightarrow> regex \<Rightarrow> regex" where
  "alt Never q = q"
| "alt r Never = r"
| "alt r q = Alt r q"

fun deriv :: "char \<Rightarrow> regex \<Rightarrow> regex" where
  "deriv c Never = Never"
| "deriv c Eps = Never"
| "deriv c (Sym p) = (if p c then Eps else Never)"
| "deriv c (Alt r q) = alt (deriv c r) (deriv c q)"
| "deriv c (Cat r q) = (if nullable r then alt (cat (deriv c r) q) (deriv c q) else cat (deriv c r) q)"
| "deriv c (Rep r) = cat (deriv c r) (Rep r)"

fun MatchString :: "regex \<Rightarrow> string \<Rightarrow> bool" where
  "MatchString r [] = nullable r"
| "MatchString r (c # s) = MatchString (deriv c r) s"

subsection \<open>The matcher decides the language\<close>

inductive_simps lang_Cat_iff: "lang (Cat r q) s"

lemma lang_Rep_Cons: "lang (Rep r) (c # s) \<longleftrightarrow> (\<exists>u v. s = u @ v \<and> lang r (c # u) \<and> lang (Rep r) v)"
proof
  assume "lang (Rep r) (c # s)"
  then show "\<exists>u v. s = u @ v \<and> lang r (c # u) \<and> lang (Rep r) v"
  proof (induction "Rep r" "c # s" arbitrary: s rule: lang.induct)
    case (lang_RepCons u v)
    then show ?case by (cases u) auto
  qed
next
  assume "\<exists>u v. s = u @ v \<and> lang r (c # u) \<and> lang (Rep r) v"
  then show "lang (Rep r) (c # s)" using lang.lang_RepCons by fastforce
qed

lemma lang_cat: "lang (cat r q) s \<longleftrightarrow> lang (Cat r q) s"
  by (cases r) (auto simp: lang_Cat_iff lang_simps)

lemma lang_alt: "lang (alt r q) s \<longleftrightarrow> lang r s \<or> lang q s"
  by (cases r; cases q) (auto simp: lang_simps)

lemma nullable_iff: "nullable r \<longleftrightarrow> lang r []"
  by (induction r) (auto simp: lang_simps lang_Cat_iff intro: lang.intros)

lemma deriv_iff: "lang (deriv c r) s \<longleftrightarrow> lang r (c # s)"
proof (induction r arbitrary: s)
  case (Cat r q)
  have split: "(\<exists>u v. c # s = u @ v \<and> lang r u \<and> lang q v)
      \<longleftrightarrow> lang r [] \<and> lang q (c # s) \<or> (\<exists>u v. s = u @ v \<and> lang r (c # u) \<and> lang q v)"
    by (auto simp: Cons_eq_append_conv)
  show ?case using Cat split by (auto simp: lang_alt lang_cat lang_Cat_iff nullable_iff)
next
  case (Rep r)
  then show ?case by (simp add: lang_cat lang_Cat_iff lang_Rep_Cons)
qed (auto simp: lang_simps lang_alt)

lemma MatchString_iff: "MatchString r s \<longleftrightarrow> lang r s"
  by (induction s arbitrary: r) (simp_all add: nullable_iff deriv_iff)

subsection \<open>Building patterns\<close>

abbreviation plus :: "regex \<Rightarrow> regex" where "plus r \<equiv> Cat r (Rep r)"
abbreviation opt :: "regex \<Rightarrow> regex" where "opt r \<equiv> Alt Eps r"

primrec upto_times :: "nat \<Rightarrow> regex \<Rightarrow> regex" where
  "upto_times 0 r = Eps"
| "upto_times (Suc n) r = Alt Eps (Cat r (upto_times n r))"

definition lit :: "string \<Rightarrow> regex" where
  "lit s = foldr (\<lambda>c r. Cat (Sym (\<lambda>x. x = c)) r) s Eps"

definition one_of :: "string \<Rightarrow> regex" where
  "one_of cs = Sym (\<lambda>x. x \<in> set cs)"

definition is_digit :: "char \<Rightarrow> bool" where "is_digit c \<longleftrightarrow> in_range (CHR ''0'') (CHR ''9'') c"
definition is_lower :: "char \<Rightarrow> bool" where "is_lower c \<longleftrightarrow> in_range (CHR ''a'') (CHR ''z'') c"
definition is_upper :: "char \<Rightarrow> bool" where "is_upper c \<longleftrightarrow> in_range (CHR ''A'') (CHR ''Z'') c"
definition is_alnum :: "char \<Rightarrow> bool" where "is_alnum c \<longleftrightarrow> is_digit c \<or> is_lower c \<or> is_upper c"

text \<open>A case insensitive letter, and the class \<^verbatim>\<open>(?i)[a-z0-9]\<close>.\<close>

definition ci :: "char \<Rightarrow> regex" where
  "ci c = (let r = Sym (\<lambda>x. lower_char x = c) in
     if c = CHR ''s'' then Alt r (lit [CHR 0xC5, CHR 0xBF])
     else if c = CHR ''k'' then Alt r (lit [CHR 0xE2, CHR 0x84, CHR 0xAA])
     else r)"

definition ci_lit :: "string \<Rightarrow> regex" where
  "ci_lit s = foldr (\<lambda>c r. Cat (ci c) r) s Eps"

definition ci_alnum :: regex where
  "ci_alnum = Alt (Sym is_alnum) (Alt (lit [CHR 0xC5, CHR 0xBF]) (lit [CHR 0xE2, CHR 0x84, CHR 0xAA]))"

end
