(* ===== verification/Config_Validate.thy ===== *)
theory Config_Validate
  imports Config_Types Regex
begin

text \<open>
  Validation of a stack (\<^verbatim>\<open>pkg/config/validate.go\<close>, \<^verbatim>\<open>links.go\<close>, \<^verbatim>\<open>secrets.go\<close>): every validator
  returns the list of its errors, each a field path and a message, in the order the code appends them. A
  stack is accepted when the list is empty. Iteration over a map is in the order of its list.

  The theorems state what acceptance buys: groups whose surface is unambiguous, autoscaling policies within
  their bounds, rate limits that bind, profiles that name declared servers, servers of exactly one kind.
\<close>

type_synonym verror = "string \<times> string"

definition fail_if :: "bool \<Rightarrow> string \<Rightarrow> string \<Rightarrow> verror list" where
  "fail_if b field msg = (if b then [(field, msg)] else [])"

lemma fail_if_Nil [simp]: "fail_if b f m = [] \<longleftrightarrow> \<not> b"
  by (simp add: fail_if_def)

text \<open>An indexed field.\<close>

definition idx :: "string \<Rightarrow> nat \<Rightarrow> string" where
  "idx field i = field @ ''['' @ itoa (int i) @ '']''"

definition keyed :: "string \<Rightarrow> string \<Rightarrow> string" where
  "keyed field k = field @ ''['' @ k @ '']''"

definition for_each :: "'a list \<Rightarrow> (nat \<Rightarrow> 'a \<Rightarrow> verror list) \<Rightarrow> verror list" where
  "for_each xs f = concat (map (\<lambda>(i, x). f i x) (enumerate 0 xs))"

lemma for_each_Nil [simp]: "for_each xs f = [] \<longleftrightarrow> (\<forall>i<length xs. f i (xs ! i) = [])"
proof -
  have "for_each xs f = [] \<longleftrightarrow> (\<forall>p\<in>set (enumerate 0 xs). f (fst p) (snd p) = [])"
    by (simp add: for_each_def split_beta)
  also have "\<dots> \<longleftrightarrow> (\<forall>i<length xs. f i (xs ! i) = [])"
    by (metis (no_types, lifting) add.right_neutral diff_zero fst_conv in_set_enumerate_eq le0 snd_conv)
  finally show ?thesis .
qed

subsection \<open>Downstream authentication\<close>

definition validateServerAuth :: "server_auth \<Rightarrow> string \<Rightarrow> verror list" where
  "validateServerAuth a pfx =
     (if au_type a = ''bearer'' then
        fail_if (au_token a = []) (pfx @ ''.token'') (''required when type is '' @ sq ''bearer'')
      else if au_type a = ''header'' then
        fail_if (au_header a = []) (pfx @ ''.header'') (''required when type is '' @ sq ''header'')
        @ fail_if (au_value a = []) (pfx @ ''.value'') (''required when type is '' @ sq ''header'')
      else if au_type a = ''oauth'' then
        fail_if (au_clientSecret a \<noteq> [] \<and> au_clientID a = []) (pfx @ ''.client_id'') ''required when client_secret is set''
      else if au_type a = [] then [(pfx @ ''.type'', ''is required'')]
      else [(pfx @ ''.type'', ''must be '' @ sq ''bearer'' @ '', '' @ sq ''header'' @ '', or '' @ sq ''oauth'')])
     @ fail_if (au_type a \<noteq> ''bearer'' \<and> au_token a \<noteq> []) (pfx @ ''.token'') (''only valid when type is '' @ sq ''bearer'')
     @ fail_if (au_type a \<noteq> ''header'' \<and> (au_header a \<noteq> [] \<or> au_value a \<noteq> [])) (pfx @ ''.header'')
         (''header/value only valid when type is '' @ sq ''header'')
     @ fail_if (au_type a \<noteq> ''oauth'' \<and> (au_scopes a \<noteq> [] \<or> au_clientID a \<noteq> [] \<or> au_clientSecret a \<noteq> [])) (pfx @ ''.scopes'')
         (''scopes/client_id/client_secret only valid when type is '' @ sq ''oauth'')"

subsection \<open>Autoscaling\<close>

abbreviation maxReplicas :: int where "maxReplicas \<equiv> 32"

definition httpTierMessage :: string where
  "httpTierMessage = ''not supported for external URL or OpenAPI servers (already external/stateless ''
     @ [CHR 0xE2, CHR 0x80, CHR 0x94] @ '' scale them at the HTTP tier)''"

definition check_duration :: "parse_duration \<Rightarrow> string \<Rightarrow> duration \<Rightarrow> string \<Rightarrow> string \<Rightarrow> string \<Rightarrow> verror list" where
  "check_duration pd txt least field example tooSmall =
     (if txt = [] then []
      else case pd txt of
          None \<Rightarrow> [(field, ''invalid duration '' @ go_quote txt @ '' (expected e.g. '' @ example @ '')'')]
        | Some d \<Rightarrow> fail_if (d < least) field tooSmall)"

definition validateAutoscale :: "parse_duration \<Rightarrow> mcp_server \<Rightarrow> autoscale_config \<Rightarrow> string \<Rightarrow> verror list" where
  "validateAutoscale pd server a pfx =
     (let as = pfx @ ''.autoscale'' in
      fail_if (sv_replicas server > 0) pfx (''cannot set both '' @ sq ''replicas'' @ '' and '' @ sq ''autoscale'' @ '' on the same server'')
      @ (if IsExternal server \<or> IsOpenAPI server then [(as, httpTierMessage)]
         else
           fail_if (ac_min a < 0) (as @ ''.min'') ''must be >= 0''
           @ fail_if (ac_max a < 1) (as @ ''.max'') ''must be >= 1''
           @ fail_if (ac_max a > maxReplicas) (as @ ''.max'') (''must be <= '' @ itoa maxReplicas)
           @ fail_if (ac_max a \<ge> 1 \<and> ac_max a < ac_min a) (as @ ''.max'') ''must be >= min''
           @ fail_if (\<not> ac_idleToZero a \<and> ac_min a < 1) (as @ ''.min'') ''must be >= 1 unless idle_to_zero is true''
           @ fail_if (ac_targetInFlight a < 1) (as @ ''.target_in_flight'') ''must be >= 1''
           @ check_duration pd (ac_scaleUpAfter a) (10 * second) (as @ ''.scale_up_after'') (go_quote ''30s'') ''must be >= 10s''
           @ check_duration pd (ac_scaleDownAfter a) (60 * second) (as @ ''.scale_down_after'') (go_quote ''5m'') ''must be >= 1m''
           @ fail_if (ac_warmPool a < 0) (as @ ''.warm_pool'') ''must be >= 0''
           @ fail_if (ac_max a \<ge> 1 \<and> ac_min a + ac_warmPool a > ac_max a) (as @ ''.warm_pool'') ''min + warm_pool must be <= max''))"

subsection \<open>Telemetry retention\<close>

definition check_bounds :: "int \<Rightarrow> int \<Rightarrow> string \<Rightarrow> verror list" where
  "check_bounds n cap field =
     (if n < 1 then [(field, ''must be >= 1'')]
      else if n > cap then [(field, ''must be <= '' @ itoa cap)] else [])"

definition validateTelemetryRetention :: "retention_config \<Rightarrow> verror list" where
  "validateTelemetryRetention r =
     check_bounds (rt_maxSizeMB r) 1048576 ''telemetry.retention.max_size_mb''
     @ check_bounds (rt_maxBackups r) 1024 ''telemetry.retention.max_backups''
     @ check_bounds (rt_maxAgeDays r) 3650 ''telemetry.retention.max_age_days''"

subsection \<open>Client profiles\<close>

definition unknown_server :: "string \<Rightarrow> string" where
  "unknown_server s = ''references unknown MCP server '' @ sq s"

definition not_prefixed :: "string \<Rightarrow> string" where
  "not_prefixed tool = ''tool '' @ sq tool @ '' must be a prefixed name (server__tool)''"

definition tool_of_unknown :: "string \<Rightarrow> string \<Rightarrow> string" where
  "tool_of_unknown tool s = ''tool '' @ sq tool @ '' references unknown MCP server '' @ sq s"

definition check_tool_ref :: "string list \<Rightarrow> string \<Rightarrow> string \<Rightarrow> verror list" where
  "check_tool_ref serverNames field tool =
     (case splitPrefixedToolName tool of
        None \<Rightarrow> [(field, not_prefixed tool)]
      | Some (server, _) \<Rightarrow> fail_if (server \<notin> set serverNames) field (tool_of_unknown tool server))"

definition validateClients :: "clients_config option \<Rightarrow> string list \<Rightarrow> verror list" where
  "validateClients clients serverNames =
     (case clients of None \<Rightarrow> []
      | Some c \<Rightarrow>
          fail_if (cl_default c \<notin> {[], ''deny'', ''allow''}) ''clients.default'' (''must be '' @ sq ''allow'' @ '' or '' @ sq ''deny'')
          @ concat (map (\<lambda>(name, p).
              let pfx = keyed ''clients.profiles'' name in
              fail_if (name = []) ''clients.profiles'' ''profile name must not be empty''
              @ for_each (cp_servers p) (\<lambda>i server. fail_if (server \<notin> set serverNames) (idx (pfx @ ''.servers'') i) (unknown_server server))
              @ for_each (cp_tools p) (\<lambda>i tool. check_tool_ref serverNames (idx (pfx @ ''.tools'') i) tool))
            (cl_profiles c)))"

subsection \<open>Rate limits\<close>

definition slugifyLimitClientKey :: "string \<Rightarrow> string" where
  "slugifyLimitClientKey key = trim_right_char (CHR ''-'') (slug_loop True (to_lower (trim_space key)))"

definition validateScope :: "string list \<Rightarrow> string \<Rightarrow> rate_limit \<Rightarrow> verror list \<times> string" where
  "validateScope serverNames pfx r =
     (case ScopeKey r of (kind, key, ok) \<Rightarrow>
        if \<not> ok then
          ([(pfx, ''must set exactly one of '' @ sq ''client'' @ '', '' @ sq ''server'' @ '', or '' @ sq ''tool'')], [])
        else if kind = ''client'' then ([], kind @ '':'' @ slugifyLimitClientKey key)
        else if kind = ''server'' then
          (fail_if (key \<notin> set serverNames) (pfx @ ''.server'') (unknown_server key), kind @ '':'' @ key)
        else (check_tool_ref serverNames (pfx @ ''.tool'') key, kind @ '':'' @ key))"

fun validate_rates :: "string list \<Rightarrow> nat \<Rightarrow> string list \<Rightarrow> rate_limit list \<Rightarrow> verror list" where
  "validate_rates serverNames i seen [] = []"
| "validate_rates serverNames i seen (r # rs) =
     (let pfx = idx ''limits.rate_limits'' i;
          (errs, scope) = validateScope serverNames pfx r
      in errs
         @ (if scope \<noteq> [] then fail_if (scope \<in> set seen) pfx (''duplicate rate limit for '' @ scope) else [])
         @ fail_if (rl_callsPerMinute r \<le> 0) (pfx @ ''.calls_per_minute'') ''must be positive''
         @ fail_if (rl_burst r < 0) (pfx @ ''.burst'') ''must not be negative''
         @ validate_rates serverNames (i + 1) (if scope \<noteq> [] then set_put scope seen else seen) rs)"

definition validateLimits :: "rate_limit list option \<Rightarrow> string list \<Rightarrow> verror list" where
  "validateLimits limits serverNames =
     (case limits of None \<Rightarrow> [] | Some rs \<Rightarrow> validate_rates serverNames 0 [] rs)"

subsection \<open>Tool groups\<close>

definition groupNameRe :: regex where
  "groupNameRe = (let tail = Sym (\<lambda>c. is_lower c \<or> is_digit c \<or> c = CHR ''_'' \<or> c = CHR ''-'')
     in Cat (Sym (\<lambda>c. is_lower c \<or> is_digit c)) (upto_times 31 tail))"

definition groupOverrideNameRe :: regex where
  "groupOverrideNameRe = plus (Sym (\<lambda>c. is_alnum c \<or> c = CHR ''_'' \<or> c = CHR ''-''))"

abbreviation clientToolNameBudget :: int where "clientToolNameBudget \<equiv> 64"

definition name_budget :: "string \<Rightarrow> string \<Rightarrow> int" where
  "name_budget name tool = int (length ''mcp__'' + length name + length ''__'' + length tool)"

definition budget_message :: "string \<Rightarrow> string \<Rightarrow> string \<Rightarrow> string" where
  "budget_message name tool hint =
     ''exposed name '' @ sq (''mcp__'' @ name @ ''__'' @ tool) @ '' is '' @ itoa (name_budget name tool)
     @ '' characters; clients cap tool names at '' @ itoa clientToolNameBudget @ hint"

definition tool_ref_ok :: "string list \<Rightarrow> string \<Rightarrow> bool" where
  "tool_ref_ok serverNames tool =
     (case splitPrefixedToolName tool of None \<Rightarrow> False | Some (server, _) \<Rightarrow> server \<in> set serverNames)"

lemma check_tool_ref_Nil [simp]: "check_tool_ref sn f tool = [] \<longleftrightarrow> tool_ref_ok sn tool"
  by (auto simp: check_tool_ref_def tool_ref_ok_def split: option.splits)

definition check_rename :: "string \<Rightarrow> string \<Rightarrow> (string, string) gomap \<Rightarrow> string \<Rightarrow> verror list" where
  "check_rename name field exposed n =
     fail_if (\<not> MatchString groupOverrideNameRe n \<or> contains n ''__'') (field @ ''.name'')
       (''rename must match ^[a-zA-Z0-9_-]+$ and contain no '' @ sq ''__'')
     @ fail_if (n = ''search'' \<or> n = ''execute'') (field @ ''.name'') (sq n @ '' is reserved for the code-mode meta-tools'')
     @ (case map_of exposed n of None \<Rightarrow> []
        | Some prev \<Rightarrow> [(field @ ''.name'', ''exposed name '' @ sq n @ '' collides with override for '' @ sq prev)])
     @ fail_if (name_budget name n > clientToolNameBudget) (field @ ''.name'') (budget_message name n [])"

fun validate_overrides ::
  "string list \<Rightarrow> string \<Rightarrow> string list \<Rightarrow> string list \<Rightarrow> string list \<Rightarrow> (string, group_override) gomap
    \<Rightarrow> (string, string) gomap \<Rightarrow> verror list \<times> (string, string) gomap" where
  "validate_overrides sn name memberServers memberTools excluded [] exposed = ([], exposed)"
| "validate_overrides sn name memberServers memberTools excluded ((key, ov) # ovs) exposed =
     (let field = keyed (keyed ''groups'' name @ ''.overrides'') key;
          more = validate_overrides sn name memberServers memberTools excluded ovs
      in case splitPrefixedToolName key of
           None \<Rightarrow> map_prod (\<lambda>es. (field, ''override key must be a prefixed name (server__tool)'') # es) id (more exposed)
         | Some (server, _) \<Rightarrow>
             if server \<notin> set sn then map_prod (\<lambda>es. (field, unknown_server server) # es) id (more exposed)
             else
               (let isMem = (key \<in> set memberTools \<or> server \<in> set memberServers) \<and> key \<notin> set excluded;
                    e1 = fail_if (\<not> isMem) field ''override key is not a member of the group''
                in if go_name ov \<noteq> []
                   then map_prod (\<lambda>es. e1 @ check_rename name field exposed (go_name ov) @ es) id
                          (more (AList.update (go_name ov) key exposed))
                   else map_prod (\<lambda>es. e1 @ es) id (more exposed)))"

definition check_siblings :: "string \<Rightarrow> string list \<Rightarrow> (string, string) gomap \<Rightarrow> verror list" where
  "check_siblings name memberTools exposed =
     concat (map (\<lambda>(n, key). concat (map (\<lambda>tool.
         if tool = key then []
         else case (splitPrefixedToolName key, splitPrefixedToolName tool) of
             (Some (renameServer, _), Some (srv, tail)) \<Rightarrow>
               fail_if (srv = renameServer \<and> tail = n) (keyed (keyed ''groups'' name @ ''.overrides'') key @ ''.name'')
                 (''exposed name '' @ sq n @ '' collides with member tool '' @ sq tool @ '' on the same server'')
           | _ \<Rightarrow> []) memberTools)) exposed)"

definition validate_group :: "string list \<Rightarrow> string \<Rightarrow> group_config \<Rightarrow> verror list" where
  "validate_group sn name g =
     (let pfx = keyed ''groups'' name;
          memberServers = fold set_put (gp_servers g) [];
          memberTools = fold set_put (filter (tool_ref_ok sn) (gp_tools g)) [];
          excluded = fold set_put (filter (tool_ref_ok sn) (gp_exclude g)) [];
          (ovErrs, exposed) = validate_overrides sn name memberServers memberTools excluded (gp_overrides g) []
      in fail_if (\<not> MatchString groupNameRe name) pfx ''group name must match ^[a-z0-9][a-z0-9_-]{0,31}$''
         @ fail_if (gp_servers g = [] \<and> gp_tools g = []) pfx ''must include at least one server or tool''
         @ for_each (gp_servers g) (\<lambda>i server. fail_if (server \<notin> set sn) (idx (pfx @ ''.servers'') i) (unknown_server server))
         @ for_each (gp_tools g) (\<lambda>i tool. check_tool_ref sn (idx (pfx @ ''.tools'') i) tool)
         @ for_each (gp_exclude g) (\<lambda>i tool. check_tool_ref sn (idx (pfx @ ''.exclude'') i) tool)
         @ fail_if (memberServers = [] \<and> memberTools \<noteq> [] \<and> filter (\<lambda>t. t \<notin> set excluded) memberTools = []) pfx
             ''exclude removes every included tool; the group would be empty''
         @ concat (map (\<lambda>tool. if map_has (gp_overrides g) tool then []
             else fail_if (name_budget name tool > clientToolNameBudget) (pfx @ ''.tools'')
                    (budget_message name tool '' (rename it via overrides)'')) memberTools)
         @ ovErrs
         @ check_siblings name memberTools exposed)"

definition validateGroups :: "(string, group_config) gomap \<Rightarrow> string list \<Rightarrow> verror list" where
  "validateGroups groups sn = concat (map (\<lambda>(name, g). validate_group sn name g) groups)"

subsection \<open>Accepted groups are well formed\<close>

lemma validate_overrides_ok:
  "fst (validate_overrides sn name ms mt ex ovs exposed) = [] \<Longrightarrow>
     (\<forall>(key, ov)\<in>set ovs. (\<exists>s t. splitPrefixedToolName key = Some (s, t) \<and> (key \<in> set mt \<or> s \<in> set ms)) \<and> key \<notin> set ex
        \<and> (go_name ov \<noteq> [] \<longrightarrow> \<not> contains (go_name ov) ''__'' \<and> map_of exposed (go_name ov) = None))
     \<and> distinct (filter (\<lambda>n. n \<noteq> []) (map (\<lambda>(c, ov). go_name ov) ovs))"
proof (induction ovs arbitrary: exposed)
  case (Cons kv ovs)
  obtain key ov where kv: "kv = (key, ov)" by (cases kv)
  show ?case
  proof (cases "go_name ov = []")
    case True
    with Cons.prems kv obtain s t where
      s: "splitPrefixedToolName key = Some (s, t)" "key \<in> set mt \<or> s \<in> set ms" "key \<notin> set ex"
        "fst (validate_overrides sn name ms mt ex ovs exposed) = []"
      by (auto simp: Let_def split: option.splits if_splits)
    with Cons.IH [OF s(4)] True kv show ?thesis by auto
  next
    case False
    let ?e = "AList.update (go_name ov) key exposed"
    from False Cons.prems kv obtain s t where
      s: "splitPrefixedToolName key = Some (s, t)" "key \<in> set mt \<or> s \<in> set ms" "key \<notin> set ex"
        "\<not> contains (go_name ov) ''__''" "map_of exposed (go_name ov) = None"
        "fst (validate_overrides sn name ms mt ex ovs ?e) = []"
      by (auto simp: Let_def check_rename_def split: option.splits if_splits)
    note ih = Cons.IH [OF s(6)]
    have new: "go_name ov' \<noteq> go_name ov \<and> map_of exposed (go_name ov') = None"
      if "(k, ov') \<in> set ovs" "go_name ov' \<noteq> []" for k ov'
      using ih that by (fastforce simp: map_of_update split: if_splits)
    then have "go_name ov \<notin> set (filter (\<lambda>n. n \<noteq> []) (map (\<lambda>(c, ov). go_name ov) ovs))" by fastforce
    with ih have "distinct (filter (\<lambda>n. n \<noteq> []) (map (\<lambda>(c, ov). go_name ov) (kv # ovs)))" using kv by auto
    moreover have "\<forall>(key, ov)\<in>set ovs. (\<exists>s t. splitPrefixedToolName key = Some (s, t) \<and> (key \<in> set mt \<or> s \<in> set ms)) \<and> key \<notin> set ex
        \<and> (go_name ov \<noteq> [] \<longrightarrow> \<not> contains (go_name ov) ''__'' \<and> map_of exposed (go_name ov) = None)"
      using ih new by fastforce
    ultimately show ?thesis using s(1-5) kv by auto
  qed
qed simp

lemma contains_Nil [simp]: "sub \<noteq> [] \<Longrightarrow> \<not> contains [] sub"
  by (simp add: contains_def)

lemma splitD: "splitPrefixedToolName p = Some (s, t) \<Longrightarrow> ParsePrefixedTool p = Inr (s, t)"
  by (auto simp: splitPrefixedToolName_def ParsePrefixedTool_Inr_iff split: option.splits if_splits)

lemma tool_ref_ok_parsed: "tool_ref_ok sn t \<Longrightarrow> parsed t \<noteq> None"
  by (auto simp: tool_ref_ok_def parsed_def dest!: splitD split: option.splits)

lemma all_nth_set: "(\<forall>i<length xs. P (xs ! i)) \<longleftrightarrow> (\<forall>x\<in>set xs. P x)"
  by (auto simp: all_set_conv_all_nth)

lemma validate_group_ok:
  assumes "validate_group sn name g = []" and "map_keys_ok (gp_overrides g)"
  shows "group_spec_ok (group_spec_of g)"
proof -
  let ?ms = "fold set_put (gp_servers g) []" and ?mt = "fold set_put (filter (tool_ref_ok sn) (gp_tools g)) []"
    and ?ex = "fold set_put (filter (tool_ref_ok sn) (gp_exclude g)) []"
  from assms(1) have v: "\<forall>t\<in>set (gp_tools g). tool_ref_ok sn t" "\<forall>t\<in>set (gp_exclude g). tool_ref_ok sn t"
    "fst (validate_overrides sn name ?ms ?mt ?ex (gp_overrides g) []) = []"
    unfolding validate_group_def Let_def split_beta append_is_Nil_conv for_each_Nil check_tool_ref_Nil all_nth_set by blast+
  note ovs = validate_overrides_ok [OF v(3)]
  have sets: "set ?mt = set (gp_tools g)" "set ?ex = set (gp_exclude g)" "set ?ms = set (gp_servers g)" using v(1,2) by auto
  have mem: "isMember (compile_group [] (group_spec_of g)) c \<and> \<not> contains (go_name ov) ''__''" if "(c, ov) \<in> set (gp_overrides g)" for c ov
  proof -
    from ovs that obtain s t where st: "splitPrefixedToolName c = Some (s, t)" "c \<in> set (gp_tools g) \<or> s \<in> set (gp_servers g)"
      "c \<notin> set (gp_exclude g)" "go_name ov \<noteq> [] \<longrightarrow> \<not> contains (go_name ov) ''__''" unfolding sets by blast
    from splitD [OF st(1)] st(2,3) have "isMember (compile_group [] (group_spec_of g)) c"
      by (auto simp: isMember_def compile_group_def group_spec_of_def Let_def)
    with st(4) show ?thesis by (cases "go_name ov = []") auto
  qed
  have names: "map (\<lambda>(c, ov). ov_name ov) (gs_overrides (group_spec_of g)) = map (\<lambda>(c, ov). go_name ov) (gp_overrides g)"
    by (simp add: group_spec_of_def override_spec_def split_beta)
  have keys: "map fst (gs_overrides (group_spec_of g)) = map fst (gp_overrides g)"
    by (simp add: group_spec_of_def split_beta)
  show ?thesis unfolding group_spec_ok_def names keys
  proof (intro conjI)
    show "\<forall>(c, ov)\<in>set (gs_overrides (group_spec_of g)). isMember (compile_group [] (group_spec_of g)) c \<and> \<not> contains (ov_name ov) ''__''"
      using mem by (auto simp: group_spec_of_def override_spec_def)
    show "\<forall>c\<in>set (gs_tools (group_spec_of g)). parsed c \<noteq> None"
      using v(1) tool_ref_ok_parsed by (auto simp: group_spec_of_def)
  qed (use assms(2) ovs in \<open>simp_all add: map_keys_ok_def\<close>)
qed

subsection \<open>Sources and volumes\<close>

text \<open>\<^verbatim>\<open>strings.Split\<close> at a character, and \<^verbatim>\<open>path.Clean\<close>: empty and \<^verbatim>\<open>.\<close> elements go, \<^verbatim>\<open>..\<close> takes the element
  before it along, at a root it goes, and what is left of nothing is \<^verbatim>\<open>.\<close>.\<close>

fun split_on :: "char \<Rightarrow> string \<Rightarrow> string list" where
  "split_on d [] = [[]]"
| "split_on d (c # cs) =
     (if c = d then [] # split_on d cs
      else case split_on d cs of [] \<Rightarrow> [[c]] | w # ws \<Rightarrow> (c # w) # ws)"

definition path_IsAbs :: "string \<Rightarrow> bool" where
  "path_IsAbs p \<longleftrightarrow> p \<noteq> [] \<and> hd p = CHR ''/''"

definition clean_step :: "bool \<Rightarrow> string \<Rightarrow> string list \<Rightarrow> string list" where
  "clean_step rooted e out =
     (if e = [] \<or> e = ''.'' then out
      else if e = ''..'' then
        (case out of [] \<Rightarrow> if rooted then [] else [e] | x # xs \<Rightarrow> if x = ''..'' then e # out else xs)
      else e # out)"

definition path_Clean :: "string \<Rightarrow> string" where
  "path_Clean p =
     (let out = rev (fold (clean_step (path_IsAbs p)) (split_on (CHR ''/'') p) [])
      in if path_IsAbs p then ''/'' @ join_with ''/'' out
         else if out = [] then ''.'' else join_with ''/'' out)"

definition isCleanRelativeSourcePath :: "string \<Rightarrow> bool" where
  "isCleanRelativeSourcePath v \<longleftrightarrow> v \<noteq> [] \<and> \<not> contains v [CHR 0x5C] \<and> \<not> path_IsAbs v \<and> path_Clean v = v
     \<and> v \<noteq> ''.'' \<and> \<not> prefix ''../'' v"

definition validateVolume :: "string \<Rightarrow> string option" where
  "validateVolume volume =
     (let parts = split_on (CHR '':'') volume in
      if length parts \<noteq> 2 \<and> length parts \<noteq> 3 then Some ''must use host:container[:mode] format''
      else if parts ! 0 = [] then Some ''host path or volume name is required''
      else if \<not> path_IsAbs (parts ! 1) then Some ''container path must be absolute''
      else if path_Clean (parts ! 1) \<noteq> parts ! 1 then Some ''container path must be clean and must not contain traversal''
      else if length parts = 3 \<and> parts ! 2 \<noteq> ''ro'' \<and> parts ! 2 \<noteq> ''rw''
      then Some (''mode must be '' @ sq ''ro'' @ '' or '' @ sq ''rw'')
      else None)"

definition scanIgnoreCodeRe :: regex where
  "scanIgnoreCodeRe = Cat (ci (CHR ''p'')) (Cat (Sym is_digit) (Cat (Sym is_digit) (Sym is_digit)))"

definition sourceDistributionNamePattern :: regex where
  "sourceDistributionNamePattern =
     Cat (Sym is_alnum) (opt (Cat (Rep (Sym (\<lambda>c. is_alnum c \<or> c \<in> set ''._-''))) (Sym is_alnum)))"

definition sourceExactPEP440Pattern :: regex where
  "sourceExactPEP440Pattern =
     (let num = plus (Sym is_digit); sep = opt (one_of ''._-'') in
      Cat (opt (ci (CHR ''v''))) (Cat (opt (Cat num (lit ''!''))) (Cat num (Cat (Rep (Cat (lit ''.'') num))
        (Cat (opt (Cat (Alt (ci_lit ''a'') (Alt (ci_lit ''b'') (ci_lit ''rc''))) num))
        (Cat (opt (Cat sep (Cat (ci_lit ''post'') num)))
        (Cat (opt (Cat sep (Cat (ci_lit ''dev'') num)))
             (opt (Cat (lit ''+'') (Cat (plus ci_alnum) (Rep (Cat (one_of ''._-'') (plus ci_alnum)))))))))))))"

definition sourceExtraPattern :: regex where
  "sourceExtraPattern =
     (let w = plus (Sym (\<lambda>c. is_lower c \<or> is_digit c)) in Cat w (Rep (Cat (one_of ''-_.'') w)))"

text \<open>\<^verbatim>\<open>\s\<close> is the Perl class: tab, newline, form feed, carriage return, space.\<close>

definition space_class :: regex where
  "space_class = Rep (one_of [CHR 0x09, CHR 0x0A, CHR 0x0C, CHR 0x0D, CHR 0x20])"

definition sourceDependencyPattern :: regex where
  "sourceDependencyPattern =
     (let quotes = one_of [CHR 0x22, CHR 0x27]; marker = plus (Sym (\<lambda>c. is_alnum c \<or> c \<in> set ''_. -''));
          cmp = foldr (\<lambda>s r. Alt (lit s) r) [''==='', ''=='', ''!='', ''~='', ''<='', ''>='', ''<'', ''>''] Never;
          mcmp = foldr (\<lambda>s r. Alt (lit s) r) [''=='', ''!='', ''<='', ''>='', ''<'', ''>''] Never
      in Cat (Sym is_alnum) (Cat (Rep (Sym (\<lambda>c. is_alnum c \<or> c \<in> set ''._-'')))
        (Cat (opt (Cat (lit ''['') (Cat (plus (Sym (\<lambda>c. is_alnum c \<or> c \<in> set '',._-''))) (lit '']''))))
        (Cat (opt (Cat space_class (Cat cmp (Cat space_class (plus (Sym (\<lambda>c. is_alnum c \<or> c \<in> set ''*+.!_-'')))))))
             (opt (Cat space_class (Cat (lit '';'') (Cat space_class (Cat marker (Cat mcmp (Cat space_class
                (Cat quotes (Cat marker quotes)))))))))))))"

definition sourceDebianPackagePattern :: regex where
  "sourceDebianPackagePattern =
     Cat (Sym (\<lambda>c. is_lower c \<or> is_digit c)) (Rep (Sym (\<lambda>c. is_lower c \<or> is_digit c \<or> c \<in> set ''+.-'')))"

definition validate_source_type :: "source \<Rightarrow> string \<Rightarrow> bool \<Rightarrow> verror list" where
  "validate_source_type s pfx pythonRuntime =
     (if so_type s = ''git'' then
        fail_if (so_url s = []) (pfx @ ''.url'') ''is required for git source''
        @ (if so_path s \<noteq> [] \<and> \<not> pythonRuntime
           then [(pfx @ ''.path'', ''should not be set for git source (use '' @ sq ''url'' @ '' instead)'')]
           else fail_if (so_path s \<noteq> [] \<and> \<not> isCleanRelativeSourcePath (so_path s)) (pfx @ ''.path'')
                  ''must be a clean relative path within the git checkout'')
        @ fail_if (so_projectPath s \<noteq> []) (pfx @ ''.project_path'') ''is only valid for a Python local source''
      else if so_type s = ''local'' then
        fail_if (so_path s = []) (pfx @ ''.path'') ''is required for local source''
        @ fail_if (so_url s \<noteq> []) (pfx @ ''.url'') (''should not be set for local source (use '' @ sq ''path'' @ '' instead)'')
        @ fail_if (so_projectPath s \<noteq> [] \<and> (\<not> pythonRuntime \<or> \<not> isCleanRelativeSourcePath (so_projectPath s))) (pfx @ ''.project_path'')
            ''must be a clean relative path for a Python local source''
      else if so_type s = ''pypi'' then
        fail_if (\<not> MatchString sourceDistributionNamePattern (so_package s)) (pfx @ ''.package'')
          ''is required and must be a valid public PyPI project name''
        @ fail_if (\<not> MatchString sourceExactPEP440Pattern (so_ref s) \<or> MatchString (ci_lit ''latest'') (so_ref s)) (pfx @ ''.ref'')
            ''must be an exact published PEP 440 version''
        @ fail_if (so_url s \<noteq> []) (pfx @ ''.url'') ''Private PyPI indexes are not supported. Vendor a custom Dockerfile.''
        @ fail_if (so_path s \<noteq> [] \<or> so_projectPath s \<noteq> [] \<or> so_dockerfile s \<noteq> [] \<or> so_auth s \<noteq> None) pfx
            ''pypi source does not accept path, project_path, dockerfile, or auth''
      else if so_type s = [] then
        [(pfx @ ''.type'', ''is required (must be '' @ sq ''git'' @ '', '' @ sq ''local'' @ '', or '' @ sq ''pypi'' @ '')'')]
      else [(pfx @ ''.type'', ''must be '' @ sq ''git'' @ '', '' @ sq ''local'' @ '', or '' @ sq ''pypi'')])"

definition validateSource :: "source \<Rightarrow> string \<Rightarrow> verror list" where
  "validateSource s pfx =
     (let pythonRuntime = (so_runtime s = ''python'' \<or> so_type s = ''pypi'') in
      fail_if (so_runtime s \<noteq> [] \<and> so_runtime s \<noteq> ''python'') (pfx @ ''.runtime'') (''must be '' @ sq ''python'')
      @ validate_source_type s pfx pythonRuntime
      @ fail_if (\<not> pythonRuntime \<and> (so_package s \<noteq> [] \<or> so_python s \<noteq> [] \<or> so_extras s \<noteq> [] \<or> so_with s \<noteq> [] \<or> so_packages s \<noteq> []))
          (pfx @ ''.runtime'') (''must be '' @ sq ''python'' @ '' when Python build fields are set'')
      @ fail_if (so_type s \<noteq> ''pypi'' \<and> so_package s \<noteq> []) (pfx @ ''.package'') ''is only valid for pypi source''
      @ fail_if (so_python s \<notin> {[], ''3.10'', ''3.11'', ''3.12'', ''3.13''}) (pfx @ ''.python'') ''must be one of 3.10, 3.11, 3.12, or 3.13''
      @ for_each (so_extras s) (\<lambda>i v. fail_if (v \<noteq> to_lower (trim_space v) \<or> \<not> MatchString sourceExtraPattern v)
          (idx (pfx @ ''.extras'') i) ''must be a normalized Python extra name'')
      @ for_each (so_with s) (\<lambda>i v. fail_if (length (trim_space v) > 256 \<or> \<not> MatchString sourceDependencyPattern (trim_space v))
          (idx (pfx @ ''.with'') i) ''must be a valid PEP 508 dependency specifier'')
      @ for_each (so_packages s) (\<lambda>i v. fail_if (v \<noteq> to_lower (trim_space v) \<or> \<not> MatchString sourceDebianPackagePattern v)
          (idx (pfx @ ''.packages'') i) ''must be a conservative Debian package name''))"

subsection \<open>Servers\<close>

text \<open>What validation asks of its surroundings: how a duration reads, whether a file exists, whether
  \<^verbatim>\<open>path.Match\<close> accepts a pattern.\<close>

record validation_env =
  ve_parseDuration :: parse_duration
  ve_fileExists :: "string \<Rightarrow> bool"
  ve_patternOk :: "string \<Rightarrow> bool"

definition validOutputFormats :: "string list" where
  "validOutputFormats = [''json'', ''toon'', ''csv'', ''text'']"

definition kind_count :: "mcp_server \<Rightarrow> nat" where
  "kind_count s =
     (let hasImage = sv_image s \<noteq> []; hasSource = sv_source s \<noteq> None; hasURL = sv_url s \<noteq> [];
          hasSSH = sv_ssh s \<noteq> None \<and> sv_command s \<noteq> [];
          hasCommand = sv_command s \<noteq> [] \<and> \<not> hasImage \<and> \<not> hasSource \<and> \<not> hasURL \<and> \<not> hasSSH;
          hasOpenAPI = sv_openapi s \<noteq> None
      in of_bool hasImage + of_bool hasSource + of_bool hasURL + of_bool hasCommand + of_bool hasSSH + of_bool hasOpenAPI)"

definition validate_external :: "mcp_server \<Rightarrow> string \<Rightarrow> verror list" where
  "validate_external s pfx =
     (case sv_auth s of None \<Rightarrow> [] | Some a \<Rightarrow> validateServerAuth a (pfx @ ''.auth''))
     @ fail_if (sv_transport s = ''stdio'') (pfx @ ''.transport'') ''stdio not valid for external URL servers''
     @ fail_if (sv_transport s \<noteq> [] \<and> sv_transport s \<noteq> ''http'' \<and> sv_transport s \<noteq> ''sse'') (pfx @ ''.transport'')
         (''must be '' @ sq ''http'' @ '' or '' @ sq ''sse'' @ '' for external servers'')
     @ fail_if (sv_port s \<noteq> 0) (pfx @ ''.port'') ''should not be set for external URL servers (use url instead)''
     @ fail_if (sv_network s \<noteq> []) (pfx @ ''.network'') ''not applicable for external URL servers''"

definition validate_local :: "mcp_server \<Rightarrow> string \<Rightarrow> verror list" where
  "validate_local s pfx =
     fail_if (sv_transport s \<noteq> [] \<and> sv_transport s \<noteq> ''stdio'') (pfx @ ''.transport'') (''must be '' @ sq ''stdio'' @ '' for local process servers'')
     @ fail_if (sv_port s \<noteq> 0) (pfx @ ''.port'') ''should not be set for local process servers (use stdio transport)''
     @ fail_if (sv_network s \<noteq> []) (pfx @ ''.network'') ''not applicable for local process servers''"

definition validate_ssh :: "validation_env \<Rightarrow> mcp_server \<Rightarrow> ssh_config \<Rightarrow> string \<Rightarrow> verror list" where
  "validate_ssh env s c pfx =
     fail_if (sh_host c = []) (pfx @ ''.ssh.host'') ''is required''
     @ fail_if (sh_user c = []) (pfx @ ''.ssh.user'') ''is required''
     @ fail_if (sh_port c < 0 \<or> sh_port c > 65535) (pfx @ ''.ssh.port'') ''must be between 0 and 65535''
     @ fail_if (sh_knownHostsFile c \<noteq> [] \<and> \<not> ve_fileExists env (sh_knownHostsFile c)) (pfx @ ''.ssh.knownHostsFile'')
         (''file not found or not readable: '' @ sh_knownHostsFile c)
     @ fail_if (\<exists>x\<in>set (sh_jumpHost c). x \<in> set ([CHR 0x20, CHR 0x09, CHR 0x0A, CHR 0x60] @ '';|&$'')) (pfx @ ''.ssh.jumpHost'') ''invalid format''
     @ fail_if (sv_transport s \<noteq> [] \<and> sv_transport s \<noteq> ''stdio'') (pfx @ ''.transport'') (''must be '' @ sq ''stdio'' @ '' for SSH servers'')
     @ fail_if (sv_port s \<noteq> 0) (pfx @ ''.port'') ''should not be set for SSH servers (use ssh.port for SSH port)''
     @ fail_if (sv_network s \<noteq> []) (pfx @ ''.network'') ''not applicable for SSH servers''"

definition required_when :: "string \<Rightarrow> string \<Rightarrow> string \<Rightarrow> string \<Rightarrow> verror list" where
  "required_when v pfx field ty = fail_if (v = []) (pfx @ field) (''required when type is '' @ sq ty)"

definition validate_openapi_auth :: "openapi_auth \<Rightarrow> string \<Rightarrow> verror list" where
  "validate_openapi_auth a pfx =
     fail_if (oa_type a \<notin> {[], ''bearer'', ''header'', ''query'', ''oauth2'', ''basic''}) (pfx @ ''.type'')
       (''must be '' @ sq ''bearer'' @ '', '' @ sq ''header'' @ '', '' @ sq ''query'' @ '', '' @ sq ''oauth2'' @ '', or '' @ sq ''basic'')
     @ (if oa_type a = ''bearer'' then required_when (oa_tokenEnv a) pfx ''.tokenEnv'' ''bearer''
        else if oa_type a = ''header'' then
          required_when (oa_header a) pfx ''.header'' ''header'' @ required_when (oa_valueEnv a) pfx ''.valueEnv'' ''header''
        else if oa_type a = ''query'' then
          required_when (oa_paramName a) pfx ''.paramName'' ''query'' @ required_when (oa_valueEnv a) pfx ''.valueEnv'' ''query''
        else if oa_type a = ''oauth2'' then
          required_when (oa_clientIdEnv a) pfx ''.clientIdEnv'' ''oauth2''
          @ required_when (oa_clientSecretEnv a) pfx ''.clientSecretEnv'' ''oauth2''
          @ required_when (oa_tokenUrl a) pfx ''.tokenUrl'' ''oauth2''
        else if oa_type a = ''basic'' then
          required_when (oa_usernameEnv a) pfx ''.usernameEnv'' ''basic'' @ required_when (oa_passwordEnv a) pfx ''.passwordEnv'' ''basic''
        else [])"

definition validate_openapi :: "mcp_server \<Rightarrow> openapi_config \<Rightarrow> string \<Rightarrow> verror list" where
  "validate_openapi s c pfx =
     fail_if (op_spec c = []) (pfx @ ''.openapi.spec'') ''is required''
     @ (case op_auth c of None \<Rightarrow> [] | Some a \<Rightarrow> validate_openapi_auth a (pfx @ ''.openapi.auth''))
     @ (case op_tls c of None \<Rightarrow> []
        | Some l \<Rightarrow>
            fail_if (ot_certFile l \<noteq> [] \<and> ot_keyFile l = []) (pfx @ ''.openapi.tls.keyFile'') ''required when certFile is set''
            @ fail_if (ot_keyFile l \<noteq> [] \<and> ot_certFile l = []) (pfx @ ''.openapi.tls.certFile'') ''required when keyFile is set'')
     @ (case op_operations c of None \<Rightarrow> []
        | Some f \<Rightarrow> fail_if (of_include f \<noteq> [] \<and> of_exclude f \<noteq> []) (pfx @ ''.openapi.operations'')
            (''cannot use both '' @ sq ''include'' @ '' and '' @ sq ''exclude''))
     @ fail_if (sv_transport s \<noteq> []) (pfx @ ''.transport'') ''not applicable for OpenAPI servers''
     @ fail_if (sv_port s \<noteq> 0) (pfx @ ''.port'') ''not applicable for OpenAPI servers''
     @ fail_if (sv_network s \<noteq> []) (pfx @ ''.network'') ''not applicable for OpenAPI servers''"

definition check_network :: "string list option \<Rightarrow> string \<Rightarrow> string \<Rightarrow> verror list" where
  "check_network networkNames net pfx =
     (case networkNames of None \<Rightarrow> []
      | Some names \<Rightarrow>
          if net = [] then [(pfx @ ''.network'', ''required when '' @ sq ''networks'' @ '' is defined'')]
          else fail_if (net \<notin> set names) (pfx @ ''.network'') (''network '' @ sq net @ '' not found in networks list''))"

definition validate_container :: "string list option \<Rightarrow> mcp_server \<Rightarrow> string \<Rightarrow> verror list" where
  "validate_container networkNames s pfx =
     (case sv_source s of None \<Rightarrow> [] | Some src \<Rightarrow> validateSource src (pfx @ ''.source''))
     @ fail_if (sv_transport s \<notin> {[], ''http'', ''sse'', ''stdio''}) (pfx @ ''.transport'')
         (''must be '' @ sq ''http'' @ '', '' @ sq ''sse'' @ '', or '' @ sq ''stdio'')
     @ (if sv_transport s \<noteq> ''stdio''
        then fail_if (sv_port s \<le> 0) (pfx @ ''.port'') ''must be a positive integer''
             @ fail_if (sv_port s > 65535) (pfx @ ''.port'') ''must be <= 65535''
        else [])
     @ check_network networkNames (sv_network s) pfx
     @ for_each (sv_volumes s) (\<lambda>i v. case validateVolume v of None \<Rightarrow> [] | Some m \<Rightarrow> [(idx (pfx @ ''.volumes'') i, m)])"

definition validate_kind :: "validation_env \<Rightarrow> string list option \<Rightarrow> mcp_server \<Rightarrow> string \<Rightarrow> verror list" where
  "validate_kind env networkNames s pfx =
     (if IsExternal s then validate_external s pfx
      else if IsLocalProcess s then validate_local s pfx
      else if IsSSH s then (case sv_ssh s of None \<Rightarrow> [] | Some c \<Rightarrow> validate_ssh env s c pfx)
      else if IsOpenAPI s then (case sv_openapi s of None \<Rightarrow> [] | Some c \<Rightarrow> validate_openapi s c pfx)
      else validate_container networkNames s pfx)"

definition validate_common :: "validation_env \<Rightarrow> mcp_server \<Rightarrow> string \<Rightarrow> verror list" where
  "validate_common env s pfx =
     fail_if (\<not> IsContainerBased s \<and> sv_volumes s \<noteq> []) (pfx @ ''.volumes'') ''only valid for container-based servers''
     @ fail_if (sv_outputFormat s \<noteq> [] \<and> sv_outputFormat s \<notin> set validOutputFormats) (pfx @ ''.output_format'')
         ''must be one of: json, toon, csv, text''
     @ fail_if (sv_protocolGeneration s \<notin> {[], ''auto'', ''handshake'', ''stateless''}) (pfx @ ''.protocol_generation'')
         ''must be one of: auto, handshake, stateless''
     @ check_duration (ve_parseDuration env) (sv_readyTimeout s) 0 (pfx @ ''.ready_timeout'')
         (go_quote ''60s'' @ '' or '' @ go_quote ''2m'') ''must be non-negative''
     @ check_duration (ve_parseDuration env) (sv_pingTimeout s) 0 (pfx @ ''.ping_timeout'') (go_quote ''10s'') ''must be non-negative''
     @ (if sv_replicas s < 0 then [(pfx @ ''.replicas'', ''must be >= 0'')]
        else fail_if (sv_replicas s > maxReplicas) (pfx @ ''.replicas'') (''must be <= '' @ itoa maxReplicas))
     @ fail_if (sv_replicaPolicy s \<notin> {[], ''round-robin'', ''least-connections''}) (pfx @ ''.replica_policy'')
         (''must be '' @ sq ''round-robin'' @ '' or '' @ sq ''least-connections'')
     @ fail_if (sv_replicas s > 1 \<and> (IsExternal s \<or> IsOpenAPI s)) (pfx @ ''.replicas'') httpTierMessage
     @ (case sv_autoscale s of None \<Rightarrow> [] | Some a \<Rightarrow> validateAutoscale (ve_parseDuration env) s a pfx)"

definition check_name :: "string \<Rightarrow> string list \<Rightarrow> string \<Rightarrow> string \<Rightarrow> verror list" where
  "check_name what seen name pfx =
     (if name = [] then [(pfx @ ''.name'', ''is required'')]
      else fail_if (name \<in> set seen) (pfx @ ''.name'') (''duplicate '' @ what @ '' name '' @ sq name))"

fun validate_servers :: "validation_env \<Rightarrow> string list option \<Rightarrow> nat \<Rightarrow> string list \<Rightarrow> mcp_server list \<Rightarrow> verror list \<times> string list" where
  "validate_servers env nets i seen [] = ([], seen)"
| "validate_servers env nets i seen (s # ss) =
     (let pfx = idx ''mcp-servers'' i;
          (es, names) = validate_servers env nets (i + 1) (if sv_name s = [] then seen else set_put (sv_name s) seen) ss
      in (check_name ''MCP server'' seen (sv_name s) pfx
          @ (if kind_count s = 0
             then [(pfx, ''must have '' @ sq ''image'' @ '', '' @ sq ''source'' @ '', '' @ sq ''url'' @ '', '' @ sq ''command'' @ '', ''
                    @ sq ''ssh'' @ '' with '' @ sq ''command'' @ '', or '' @ sq ''openapi'')]
             else fail_if (kind_count s > 1) pfx (''can only have one of '' @ sq ''image'' @ '', '' @ sq ''source'' @ '', '' @ sq ''url''
                    @ '', '' @ sq ''command'' @ '', '' @ sq ''ssh'' @ '', or '' @ sq ''openapi''))
          @ fail_if (sv_auth s \<noteq> None \<and> \<not> IsExternal s) (pfx @ ''.auth'') ''only valid for external URL servers''
          @ validate_kind env nets s pfx
          @ validate_common env s pfx
          @ es, names))"

subsection \<open>Links\<close>

definition linkClientSlugs :: "string list" where
  "linkClientSlugs =
     [''claude'', ''claude-code'', ''cursor'', ''windsurf'', ''vscode'', ''gemini'', ''antigravity'', ''opencode'', ''grok'',
      ''continue'', ''cline'', ''anythingllm'', ''lmstudio'', ''roo'', ''zed'', ''goose'']"

definition EffectiveName :: "link_entry \<Rightarrow> string" where
  "EffectiveName e = (if le_name e \<noteq> [] then le_name e else if le_group e \<noteq> [] then ''gridctl-'' @ le_group e else ''gridctl'')"

fun validate_links :: "(string, group_config) gomap \<Rightarrow> nat \<Rightarrow> (string, nat) gomap \<Rightarrow> link_entry list \<Rightarrow> verror list" where
  "validate_links groups i seen [] = []"
| "validate_links groups i seen (e # es) =
     (let pfx = idx ''link'' i in
      if le_client e = [] then (pfx, ''client is required'') # validate_links groups (i + 1) seen es
      else if le_client e \<notin> set linkClientSlugs
      then (pfx, ''unknown client '' @ go_quote (le_client e) @ '' (supported: '' @ join_with '', '' linkClientSlugs @ '')'')
           # validate_links groups (i + 1) seen es
      else case map_of seen (le_client e) of
          Some first \<Rightarrow>
            (pfx, ''client '' @ go_quote (le_client e) @ '' already declared at '' @ idx ''link'' first
                  @ ''; a client may be linked once per stack'') # validate_links groups (i + 1) seen es
        | None \<Rightarrow>
            fail_if (le_group e \<noteq> [] \<and> \<not> map_has groups (le_group e)) (pfx @ ''.group'') (''references unknown group '' @ sq (le_group e))
            @ validate_links groups (i + 1) (AList.update (le_client e) i seen) es)"

definition validateLinks :: "stack \<Rightarrow> verror list" where
  "validateLinks s = validate_links (sk_groups s) 0 [] (sk_link s)"

subsection \<open>Variable sets\<close>

definition Scoped :: "secret_set_ref \<Rightarrow> bool" where
  "Scoped r \<longleftrightarrow> sr_scopeDeclared r \<or> sr_servers r \<noteq> [] \<or> sr_resources r \<noteq> []"

definition InjectsIntoServer :: "secret_set_ref \<Rightarrow> string \<Rightarrow> bool" where
  "InjectsIntoServer r name \<longleftrightarrow> \<not> Scoped r \<or> name \<in> set (sr_servers r)"

definition InjectsIntoResource :: "secret_set_ref \<Rightarrow> string \<Rightarrow> bool" where
  "InjectsIntoResource r name \<longleftrightarrow> \<not> Scoped r \<or> name \<in> set (sr_resources r)"

fun repeated_sets ::
  "secret_set_ref list \<Rightarrow> nat \<Rightarrow> (string, nat) gomap \<Rightarrow> (string, nat) gomap \<Rightarrow> secret_set_ref list \<Rightarrow> verror list" where
  "repeated_sets all i firstScoped firstAny [] = []"
| "repeated_sets all i firstScoped firstAny (r # rs) =
     (if sr_name r = [] then repeated_sets all (i + 1) firstScoped firstAny rs
      else
        (case map_of firstAny (sr_name r) of
           None \<Rightarrow> []
         | Some prev \<Rightarrow>
             (let first = (case map_of firstScoped (sr_name r) of None \<Rightarrow> prev | Some k \<Rightarrow> k) in
              fail_if (Scoped r \<or> Scoped (all ! prev)) (idx ''secrets.sets'' i)
                (''set '' @ go_quote (sr_name r) @ '' is already listed at '' @ idx ''secrets.sets'' first
                 @ ''; a scoped set may be listed once, since repeated entries inject the union of their scopes'')))
        @ repeated_sets all (i + 1)
            (if Scoped r \<and> map_of firstScoped (sr_name r) = None then AList.update (sr_name r) i firstScoped else firstScoped)
            (if map_of firstAny (sr_name r) = None then AList.update (sr_name r) i firstAny else firstAny) rs)"

definition check_set_ref :: "string list \<Rightarrow> string list \<Rightarrow> nat \<Rightarrow> secret_set_ref \<Rightarrow> verror list" where
  "check_set_ref serverNames resourceNames i r =
     (let pfx = idx ''secrets.sets'' i in
      if \<not> Scoped r then []
      else if sr_name r = [] then [(pfx, ''set name is required'')]
      else for_each (sr_servers r) (\<lambda>j n. fail_if (n \<notin> set serverNames) (idx (pfx @ ''.servers'') j) (unknown_server n))
           @ for_each (sr_resources r) (\<lambda>j n. fail_if (n \<notin> set resourceNames) (idx (pfx @ ''.resources'') j)
               (''references unknown resource '' @ sq n))
           @ fail_if (sr_servers r = [] \<and> sr_resources r = []) pfx
               (''set '' @ go_quote (sr_name r)
                @ '' is scoped to no servers or resources, so it injects nowhere; remove the empty scope to inject everywhere''))"

definition validateSecrets :: "stack \<Rightarrow> verror list" where
  "validateSecrets s =
     (case sk_secrets s of None \<Rightarrow> []
      | Some sets \<Rightarrow>
          repeated_sets sets 0 [] [] sets
          @ for_each sets (check_set_ref (map sv_name (sk_servers s)) (map rc_name (sk_resources s))))"

subsection \<open>Skills\<close>

definition validateSkillsPolicy :: "validation_env \<Rightarrow> skills_config option \<Rightarrow> verror list" where
  "validateSkillsPolicy env skills =
     (case skills of None \<Rightarrow> []
      | Some c \<Rightarrow>
          (let checkPatterns = (\<lambda>field ps. for_each ps (\<lambda>i g.
                 if g = [] then [(idx field i, ''pattern must not be empty'')]
                 else fail_if (\<not> ve_patternOk env g) (idx field i) (''invalid glob pattern '' @ sq g)))
           in fail_if (sc_default c \<notin> {[], ''deny'', ''allow''}) ''skills.default'' (''must be '' @ sq ''allow'' @ '' or '' @ sq ''deny'')
              @ checkPatterns ''skills.allow'' (sc_allow c) @ checkPatterns ''skills.deny'' (sc_deny c)))"

subsection \<open>The whole stack\<close>

definition driver_ok :: "string \<Rightarrow> bool" where
  "driver_ok d \<longleftrightarrow> d \<in> {[], ''bridge'', ''host'', ''none''}"

definition driver_message :: string where
  "driver_message = ''must be '' @ sq ''bridge'' @ '', '' @ sq ''host'' @ '', or '' @ sq ''none''"

fun validate_networks :: "nat \<Rightarrow> string list \<Rightarrow> network list \<Rightarrow> verror list \<times> string list" where
  "validate_networks i seen [] = ([], seen)"
| "validate_networks i seen (n # ns) =
     (let pfx = idx ''networks'' i;
          (es, names) = validate_networks (i + 1) (if nw_name n = [] then seen else set_put (nw_name n) seen) ns
      in (check_name ''network'' seen (nw_name n) pfx
          @ fail_if (\<not> driver_ok (nw_driver n)) (pfx @ ''.driver'') driver_message @ es, names))"

definition validate_gateway :: "gateway_config \<Rightarrow> verror list" where
  "validate_gateway g =
     (if gc_codeMode g \<noteq> []
      then fail_if (gc_codeMode g \<notin> {''off'', ''on''}) ''gateway.code_mode'' (''must be '' @ sq ''off'' @ '' or '' @ sq ''on'')
           @ fail_if (gc_codeModeTimeout g < 0) ''gateway.code_mode_timeout'' ''must be a positive integer''
      else [])
     @ fail_if (gc_outputFormat g \<noteq> [] \<and> gc_outputFormat g \<notin> set validOutputFormats) ''gateway.output_format''
         ''must be one of: json, toon, csv, text''
     @ fail_if (gc_maxToolResultBytes g < 0) ''gateway.maxToolResultBytes'' ''must be a non-negative integer''
     @ (case gc_schemaPinning g of None \<Rightarrow> []
        | Some sp \<Rightarrow>
            fail_if (sp_action sp \<notin> {[], ''warn'', ''block''}) ''gateway.security.schema_pinning.action'' ''must be one of: warn, block''
            @ concat (map (\<lambda>code. fail_if (\<not> MatchString scanIgnoreCodeRe code) ''gateway.security.schema_pinning.scan_ignore''
                (''invalid finding code '' @ go_quote code @ '': want the form P001'')) (sp_scanIgnore sp)))"

definition validate_gateway_auth :: "auth_config \<Rightarrow> verror list" where
  "validate_gateway_auth a =
     (if gu_type a = [] then [(''gateway.auth.type'', ''is required'')]
      else fail_if (gu_type a \<noteq> ''bearer'' \<and> gu_type a \<noteq> ''api_key'') ''gateway.auth.type'' (''must be '' @ sq ''bearer'' @ '' or '' @ sq ''api_key''))
     @ fail_if (gu_token a = []) ''gateway.auth.token'' ''is required''
     @ fail_if (gu_header a \<noteq> [] \<and> gu_type a \<noteq> ''api_key'') ''gateway.auth.header'' (''only applicable when type is '' @ sq ''api_key'')"

fun validate_resources :: "string list option \<Rightarrow> string list \<Rightarrow> nat \<Rightarrow> string list \<Rightarrow> resource list \<Rightarrow> verror list" where
  "validate_resources nets serverNames i seen [] = []"
| "validate_resources nets serverNames i seen (r # rs) =
     (let pfx = idx ''resources'' i; fresh = rc_name r \<noteq> [] \<and> rc_name r \<notin> set seen \<and> rc_name r \<notin> set serverNames in
      (if rc_name r = [] then [(pfx @ ''.name'', ''is required'')]
       else if rc_name r \<in> set seen then [(pfx @ ''.name'', ''duplicate resource name '' @ sq (rc_name r))]
       else fail_if (rc_name r \<in> set serverNames) (pfx @ ''.name'') (''name '' @ sq (rc_name r) @ '' conflicts with an MCP server''))
      @ fail_if (rc_image r = []) (pfx @ ''.image'') ''is required''
      @ check_network nets (rc_network r) pfx
      @ validate_resources nets serverNames (i + 1) (if fresh then set_put (rc_name r) seen else seen) rs)"

definition Validate :: "validation_env \<Rightarrow> stack \<Rightarrow> verror list" where
  "Validate env s =
     (let hasNetworks = sk_networks s \<noteq> [];
          (netErrs, netNames) = (if hasNetworks then validate_networks 0 [] (sk_networks s)
             else (fail_if (nw_name (sk_network s) = []) ''stack.network.name'' ''is required''
                   @ fail_if (\<not> driver_ok (nw_driver (sk_network s))) ''stack.network.driver'' driver_message, []));
          nets = (if hasNetworks then Some netNames else None);
          (serverErrs, serverNames) = validate_servers env nets 0 [] (sk_servers s)
      in fail_if (sk_name s = []) ''stack.name'' ''is required''
         @ concat (map (\<lambda>(key, d). fail_if (key = []) ''variables'' ''declaration key cannot be empty''
             @ fail_if (vd_type d \<notin> {[], ''string'', ''json'', ''list'', ''number'', ''bool''}) (''variables.'' @ key @ ''.type'')
                 ''must be one of: string, json, list, number, bool'') (sk_variables s))
         @ (case sk_gateway s of None \<Rightarrow> [] | Some g \<Rightarrow> validate_gateway g)
         @ (case Option.bind (sk_telemetry s) te_retention of None \<Rightarrow> [] | Some r \<Rightarrow> validateTelemetryRetention r)
         @ (case Option.bind (sk_gateway s) gc_auth of None \<Rightarrow> [] | Some a \<Rightarrow> validate_gateway_auth a)
         @ fail_if (nw_name (sk_network s) \<noteq> [] \<and> hasNetworks) ''stack''
             (''cannot have both '' @ sq ''network'' @ '' and '' @ sq ''networks'' @ '' - use one or the other'')
         @ netErrs
         @ serverErrs
         @ validate_resources nets serverNames 0 [] (sk_resources s)
         @ validateClients (sk_clients s) serverNames
         @ validateLimits (sk_limits s) serverNames
         @ validateGroups (sk_groups s) serverNames
         @ validateSkillsPolicy env (sk_skills s)
         @ validateLinks s
         @ validateSecrets s)"

end
