(* ===== verification/Config_Accept.thy ===== *)
theory Config_Accept
  imports Config_Validate Vault
begin

text \<open>
  What an accepted stack guarantees to the rest of the system, and the injection of variable sets that
  follows validation (\<^verbatim>\<open>pkg/config/loader.go\<close>).
\<close>

definition accepted :: "validation_env \<Rightarrow> stack \<Rightarrow> bool" where
  "accepted env s \<longleftrightarrow> Validate env s = []"

text \<open>The names the server loop collects.\<close>

lemma validate_servers_names:
  "set (snd (validate_servers env nets i seen ss)) = set seen \<union> (sv_name ` set ss - {[]})"
  by (induction ss arbitrary: i seen) (auto simp: Let_def split_beta)

lemma validate_servers_Cons:
  "fst (validate_servers env nets i seen (s # ss)) = [] \<longleftrightarrow>
     sv_name s \<noteq> [] \<and> sv_name s \<notin> set seen \<and> kind_count s = 1 \<and> (sv_auth s \<noteq> None \<longrightarrow> IsExternal s)
     \<and> validate_kind env nets s (idx ''mcp-servers'' i) = [] \<and> validate_common env s (idx ''mcp-servers'' i) = []
     \<and> fst (validate_servers env nets (i + 1) (if sv_name s = [] then seen else set_put (sv_name s) seen) ss) = []"
  by (auto simp: Let_def split_beta check_name_def)

lemma validate_servers_ok:
  "fst (validate_servers env nets i seen ss) = [] \<Longrightarrow>
     distinct (map sv_name ss) \<and> (\<forall>s\<in>set ss. sv_name s \<noteq> [] \<and> sv_name s \<notin> set seen \<and> kind_count s = 1
       \<and> (\<exists>pfx. validate_kind env nets s pfx = [] \<and> validate_common env s pfx = []))"
proof (induction ss arbitrary: i seen)
  case (Cons s ss)
  note p = Cons.prems [unfolded validate_servers_Cons]
  from p have "fst (validate_servers env nets (i + 1) (set_put (sv_name s) seen) ss) = []" by (simp split: if_splits)
  from Cons.IH [OF this] p show ?case by auto
qed simp

definition declared :: "stack \<Rightarrow> string list" where
  "declared s = map sv_name (sk_servers s)"

lemma acceptedD:
  assumes "accepted env s"
  shows "\<exists>names nets. set names = set (declared s) \<and> distinct (declared s) \<and> [] \<notin> set (declared s)
    \<and> (\<forall>v\<in>set (sk_servers s). kind_count v = 1 \<and> (\<exists>pfx. validate_kind env nets v pfx = [] \<and> validate_common env v pfx = []))
    \<and> validateClients (sk_clients s) names = [] \<and> validateLimits (sk_limits s) names = []
    \<and> validateGroups (sk_groups s) names = [] \<and> validateSecrets s = [] \<and> validateLinks s = []"
proof -
  define nets where "nets = (if sk_networks s \<noteq> [] then Some (snd (validate_networks 0 [] (sk_networks s))) else None)"
  let ?v = "validate_servers env nets 0 [] (sk_servers s)"
  from assms have v: "fst ?v = []" "validateClients (sk_clients s) (snd ?v) = []" "validateLimits (sk_limits s) (snd ?v) = []"
    "validateGroups (sk_groups s) (snd ?v) = []" "validateSecrets s = []" "validateLinks s = []"
    unfolding accepted_def Validate_def nets_def Let_def split_beta by (simp_all split: if_splits)
  from validate_servers_ok [OF v(1)] have ok: "distinct (declared s)" "[] \<notin> set (declared s)"
    "\<forall>q\<in>set (sk_servers s). kind_count q = 1 \<and> (\<exists>pfx. validate_kind env nets q pfx = [] \<and> validate_common env q pfx = [])"
    by (auto simp: declared_def)
  have "set (snd ?v) = set (declared s)" using validate_servers_names [of env nets 0 "[]" "sk_servers s"] ok(2)
    by (auto simp: declared_def)
  with v ok show ?thesis by blast
qed

text \<open>C40. An accepted stack has servers of one kind each, under distinct non-empty names: exactly one of the five
  kinds the controller distinguishes applies to a server, and volumes and autoscaling appear only where that
  kind supports them. A server is container-based when it has an image or a source, with one exception: an
  OpenAPI server that also has an \<^verbatim>\<open>ssh\<close> block without a command is accepted and counts as
  container-based although it has neither.\<close>

theorem accepted_servers_have_one_kind:
  assumes "accepted env s" and "v \<in> set (sk_servers s)"
  shows "distinct (map sv_name (sk_servers s)) \<and> sv_name v \<noteq> []
    \<and> of_bool (IsExternal v) + of_bool (IsLocalProcess v) + of_bool (IsSSH v) + of_bool (IsOpenAPI v) + of_bool (IsContainerBased v) = (1 :: nat)
    \<and> (IsContainerBased v \<longleftrightarrow> sv_image v \<noteq> [] \<or> sv_source v \<noteq> None
          \<or> sv_openapi v \<noteq> None \<and> sv_ssh v \<noteq> None \<and> sv_command v = [])
    \<and> (sv_volumes v \<noteq> [] \<longrightarrow> IsContainerBased v)
    \<and> (sv_autoscale v \<noteq> None \<longrightarrow> \<not> IsExternal v \<and> \<not> IsOpenAPI v \<and> sv_replicas v \<le> 0)"
proof -
  from acceptedD [OF assms(1)] assms(2) obtain pfx where
    d: "distinct (declared s)" "[] \<notin> set (declared s)" and k: "kind_count v = 1" and c: "validate_common env v pfx = []" by blast
  have name: "distinct (map sv_name (sk_servers s))" "sv_name v \<noteq> []" using d assms(2) by (simp_all add: declared_def) (metis image_eqI)
  have one: "of_bool (IsExternal v) + of_bool (IsLocalProcess v) + of_bool (IsSSH v) + of_bool (IsOpenAPI v) + of_bool (IsContainerBased v) = (1 :: nat)"
    using k by (cases "sv_openapi v"; cases "sv_source v"; cases "sv_ssh v")
      (auto simp: kind_count_def Let_def IsContainerBased_def IsExternal_def IsLocalProcess_def IsSSH_def IsOpenAPI_def split: if_splits)
  have kinds: "IsContainerBased v \<longleftrightarrow> sv_image v \<noteq> [] \<or> sv_source v \<noteq> None
        \<or> sv_openapi v \<noteq> None \<and> sv_ssh v \<noteq> None \<and> sv_command v = []"
    using k by (cases "sv_openapi v"; cases "sv_source v"; cases "sv_ssh v")
      (auto simp: kind_count_def Let_def IsContainerBased_def IsExternal_def IsLocalProcess_def IsSSH_def IsOpenAPI_def split: if_splits)
  have vol: "sv_volumes v \<noteq> [] \<longrightarrow> IsContainerBased v" using c by (auto simp: validate_common_def)
  have scale: "sv_autoscale v \<noteq> None \<longrightarrow> \<not> IsExternal v \<and> \<not> IsOpenAPI v \<and> sv_replicas v \<le> 0"
    using c by (auto simp: validate_common_def validateAutoscale_def Let_def split: option.splits if_splits)
  from name one kinds vol scale show ?thesis by blast
qed

definition blank_server :: "string \<Rightarrow> mcp_server" where
  "blank_server name =
     \<lparr>sv_name = name, sv_image = [], sv_source = None, sv_url = [], sv_port = 0, sv_transport = [], sv_command = [], sv_env = [],
      sv_buildArgs = [], sv_volumes = [], sv_network = [], sv_ssh = None, sv_openapi = None, sv_tools = [], sv_outputFormat = [],
      sv_pinSchemas = None, sv_readyTimeout = [], sv_pingTimeout = [], sv_protocolGeneration = [], sv_replicas = 0,
      sv_replicaPolicy = [], sv_autoscale = None, sv_telemetry = None, sv_auth = None\<rparr>"

definition blank_stack :: "mcp_server list \<Rightarrow> stack" where
  "blank_stack servers =
     \<lparr>sk_version = ''1'', sk_name = ''demo'', sk_extends = [], sk_gateway = None, sk_logging = None, sk_telemetry = None, sk_secrets = None,
      sk_network = \<lparr>nw_name = ''net'', nw_driver = []\<rparr>, sk_networks = [], sk_servers = servers, sk_resources = [],
      sk_clients = None, sk_limits = None, sk_groups = [], sk_skills = None, sk_modelPreferences = None, sk_link = [], sk_experimental = [],
      sk_variables = [], sk_references = [], sk_unresolvedRefs = []\<rparr>"

definition demo_venv :: validation_env where
  "demo_venv = \<lparr>ve_parseDuration = (\<lambda>s. None), ve_fileExists = (\<lambda>f. True), ve_patternOk = (\<lambda>g. True)\<rparr>"

definition stray_ssh_server :: mcp_server where
  "stray_ssh_server = (blank_server ''api'')\<lparr>sv_transport := ''stdio'',
     sv_openapi := Some \<lparr>op_spec = ''spec.yaml'', op_baseURL = [], op_auth = None, op_tls = None, op_operations = None\<rparr>,
     sv_ssh := Some \<lparr>sh_host = ''h'', sh_user = ''u'', sh_port = 0, sh_identityFile = [], sh_knownHostsFile = [], sh_jumpHost = []\<rparr>\<rparr>"

lemma stray_ssh_accepted: "accepted demo_venv (blank_stack [stray_ssh_server])"
  by code_simp

theorem accepted_servers_have_one_kind_witness:
  "IsContainerBased stray_ssh_server \<and> \<not> IsOpenAPI stray_ssh_server \<and> sv_image stray_ssh_server = [] \<and> sv_source stray_ssh_server = None"
proof -
  have "stray_ssh_server \<in> set (sk_servers (blank_stack [stray_ssh_server]))" by (simp add: blank_stack_def)
  from accepted_servers_have_one_kind [OF stray_ssh_accepted this]
  have "IsContainerBased stray_ssh_server" by (simp add: stray_ssh_server_def blank_server_def)
  moreover have "\<not> IsOpenAPI stray_ssh_server" "sv_image stray_ssh_server = []" "sv_source stray_ssh_server = None" by code_simp+
  ultimately show ?thesis by simp
qed

subsection \<open>Groups\<close>

text \<open>Acceptance makes every group surface well formed: with the groups of an accepted stack compiled into the
  gateway's policy, every compiled group satisfies the conditions under which listed tools resolve, exposed
  names are distinct and resolved tools are members.\<close>

theorem accepted_groups_well_formed:
  assumes "accepted env s" and "\<forall>(n, g)\<in>set (sk_groups s). map_keys_ok (gp_overrides g)"
    and "NewGroupPolicy (groupsSpec (Some s)) = Some gs" and "map_of gs grp = Some d"
  shows "group_def_ok d"
proof -
  from acceptedD [OF assms(1)] obtain names where v: "validateGroups (sk_groups s) names = []" by blast
  from NewGroupPolicy_at [OF assms(3,4)] obtain g where g: "(grp, g) \<in> set (sk_groups s)" "d = compile_group grp (group_spec_of g)"
    by (auto simp: groupsSpec_def)
  with v have "validate_group names grp g = []" by (auto simp: validateGroups_def)
  with g assms(2) have "group_spec_ok (group_spec_of g)" by (intro validate_group_ok) auto
  with g(2) show ?thesis by (simp add: compile_group_ok)
qed

definition demo_group_config :: group_config where
  "demo_group_config = \<lparr>gp_description = [], gp_servers = [''api''], gp_tools = [], gp_exclude = [],
     gp_overrides = [(''api__get'', \<lparr>go_name = ''fetch'', go_description = [], go_readOnlyHint = None, go_destructiveHint = None,
        go_idempotentHint = None, go_openWorldHint = None\<rparr>)]\<rparr>"

definition group_stack :: stack where
  "group_stack = (blank_stack [stray_ssh_server])\<lparr>sk_groups := [(''g'', demo_group_config)]\<rparr>"

theorem accepted_groups_well_formed_witness:
  "\<exists>gs d. NewGroupPolicy (groupsSpec (Some group_stack)) = Some gs \<and> map_of gs ''g'' = Some d \<and> group_def_ok d"
proof -
  have a: "accepted demo_venv group_stack" by code_simp
  have k: "\<forall>(n, g)\<in>set (sk_groups group_stack). map_keys_ok (gp_overrides g)" by code_simp
  have "map_option (\<lambda>gs. map_has gs ''g'') (NewGroupPolicy (groupsSpec (Some group_stack))) = Some True" by code_simp
  then obtain gs d where g: "NewGroupPolicy (groupsSpec (Some group_stack)) = Some gs" "map_of gs ''g'' = Some d" by auto
  from accepted_groups_well_formed [OF a k g] g show ?thesis by blast
qed

subsection \<open>Autoscaling\<close>

lemma check_duration_Nil:
  "check_duration pd txt least f ex small = [] \<longleftrightarrow> txt = [] \<or> (\<exists>d. pd txt = Some d \<and> least \<le> d)"
  by (auto simp: check_duration_def split: option.splits)

lemma validateAutoscale_ok:
  assumes "validateAutoscale pd v a pfx = []"
  shows "scale_policy_ok (toAutoscalePolicy pd a) \<and> ac_min a + ac_warmPool a \<le> ac_max a \<and> ac_max a \<le> 32
    \<and> 10 * second \<le> p_scaleUpAfter (toAutoscalePolicy pd a) \<and> 60 * second \<le> p_scaleDownAfter (toAutoscalePolicy pd a)
    \<and> (ac_min a = 0 \<longrightarrow> ac_idleToZero a)"
proof -
  from assms have c: "0 \<le> ac_min a" "1 \<le> ac_max a" "ac_max a \<le> 32" "ac_min a \<le> ac_max a" "1 \<le> ac_targetInFlight a" "0 \<le> ac_warmPool a"
    "ac_min a + ac_warmPool a \<le> ac_max a" "ac_min a = 0 \<longrightarrow> ac_idleToZero a"
    "check_duration pd (ac_scaleUpAfter a) (10 * second) (pfx @ ''.autoscale.scale_up_after'') (go_quote ''30s'') ''must be >= 10s'' = []"
    "check_duration pd (ac_scaleDownAfter a) (60 * second) (pfx @ ''.autoscale.scale_down_after'') (go_quote ''5m'') ''must be >= 1m'' = []"
    by (auto simp: validateAutoscale_def Let_def split: if_splits)
  have "10 * second \<le> ResolvedScaleUpAfter pd (Some a)" "60 * second \<le> ResolvedScaleDownAfter pd (Some a)"
    using c(9,10) unfolding check_duration_Nil by (auto simp: ResolvedScaleUpAfter_def ResolvedScaleDownAfter_def)
  with c(1-8) show ?thesis by (simp add: scale_policy_ok_def toAutoscalePolicy_def)
qed

text \<open>Acceptance bounds the autoscaler: the policy built from an accepted server's autoscale block keeps
  \<^verbatim>\<open>0 <= min <= min + warm_pool <= max <= 32\<close>, a positive target and cool-downs of at least 10 seconds and one
  minute, so that every tick of its scaler that reports no error keeps the healthy count at most
  \<^verbatim>\<open>max(current, max)\<close>.\<close>

theorem accepted_autoscale_bounded:
  assumes "accepted env s" and "v \<in> set (sk_servers s)" and "sv_autoscale v = Some c"
  shows "scale_policy_ok (toAutoscalePolicy (ve_parseDuration env) c)
    \<and> ac_min c + ac_warmPool c \<le> ac_max c \<and> ac_max c \<le> 32
    \<and> 10 * second \<le> p_scaleUpAfter (toAutoscalePolicy (ve_parseDuration env) c)
    \<and> 60 * second \<le> p_scaleDownAfter (toAutoscalePolicy (ve_parseDuration env) c)
    \<and> (ac_min c = 0 \<longrightarrow> ac_idleToZero c)"
proof -
  from acceptedD [OF assms(1)] assms(2) obtain pfx where "validate_common env v pfx = []" by blast
  with assms(3) have "validateAutoscale (ve_parseDuration env) v c pfx = []" by (simp add: validate_common_def)
  then show ?thesis by (rule validateAutoscale_ok)
qed

definition scaled_stack :: stack where
  "scaled_stack = blank_stack [(blank_server ''db'')\<lparr>sv_command := [''run''],
     sv_autoscale := Some \<lparr>ac_min = 1, ac_max = 4, ac_targetInFlight = 2, ac_scaleUpAfter = [], ac_scaleDownAfter = [],
       ac_warmPool = 1, ac_idleToZero = False\<rparr>\<rparr>]"

theorem accepted_autoscale_bounded_witness:
  "scale_policy_ok (toAutoscalePolicy (\<lambda>s. None) (the (sv_autoscale (hd (sk_servers scaled_stack)))))"
proof -
  have a: "accepted demo_venv scaled_stack" by code_simp
  have "hd (sk_servers scaled_stack) \<in> set (sk_servers scaled_stack)"
    "\<exists>c. sv_autoscale (hd (sk_servers scaled_stack)) = Some c" by (simp_all add: scaled_stack_def blank_stack_def blank_server_def)
  with accepted_autoscale_bounded [OF a] show ?thesis by (fastforce simp: demo_venv_def)
qed

subsection \<open>Rate limits\<close>

lemma validate_rates_Cons_Nil:
  assumes "validateScope sn (idx ''limits.rate_limits'' i) r = (errs, scope)"
  shows "validate_rates sn i seen (r # rs) = [] \<longleftrightarrow>
     errs = [] \<and> (scope \<noteq> [] \<longrightarrow> scope \<notin> set seen) \<and> 0 < rl_callsPerMinute r \<and> 0 \<le> rl_burst r
     \<and> validate_rates sn (i + 1) (if scope \<noteq> [] then set_put scope seen else seen) rs = []"
  unfolding validate_rates.simps Let_def assms prod.case append_is_Nil_conv fail_if_Nil by (cases "scope = []") (simp_all add: not_le not_less)

lemma validateScope_pfx:
  "snd (validateScope sn p r) = snd (validateScope sn [] r)"
  "fst (validateScope sn p r) = [] \<longleftrightarrow> fst (validateScope sn [] r) = []"
  unfolding validateScope_def split_beta by (simp_all only: if_distrib [of fst] if_distrib [of snd] fst_conv snd_conv
    fail_if_Nil check_tool_ref_Nil list.distinct refl if_True if_False split: if_split) blast

lemma validateScope_ok:
  "fst (validateScope sn [] r) = [] \<Longrightarrow> snd (snd (ScopeKey r)) \<and> snd (validateScope sn [] r) \<noteq> []"
  by (auto simp: validateScope_def split_beta split: if_splits)

lemma validate_rates_ok:
  "validate_rates sn i seen rs = [] \<Longrightarrow>
     (\<forall>r\<in>set rs. 0 < rl_callsPerMinute r \<and> 0 \<le> rl_burst r \<and> snd (snd (ScopeKey r))
        \<and> snd (validateScope sn [] r) \<notin> set seen \<and> fst (validateScope sn [] r) = [])
     \<and> distinct (map (snd \<circ> validateScope sn []) rs)"
proof (induction rs arbitrary: i seen)
  case (Cons r rs)
  let ?p = "idx ''limits.rate_limits'' i"
  obtain errs scope where v: "validateScope sn ?p r = (errs, scope)" by (cases "validateScope sn ?p r")
  note c = Cons.prems [unfolded validate_rates_Cons_Nil [OF v]]
  from validateScope_pfx [of sn ?p r] v have s: "snd (validateScope sn [] r) = scope" "fst (validateScope sn [] r) = []"
    using c by auto
  with validateScope_ok [OF s(2)] have n: "snd (snd (ScopeKey r))" "scope \<noteq> []" by auto
  with c have "validate_rates sn (i + 1) (set_put scope seen) rs = []" by simp
  from Cons.IH [OF this] show ?case using c s n by auto
qed simp

lemma accepted_limits:
  assumes "accepted env s" and "sk_limits s = Some rs"
  shows "(\<forall>r\<in>set rs. 0 < rl_callsPerMinute r \<and> 0 \<le> rl_burst r \<and> snd (snd (ScopeKey r))
       \<and> (fst (ScopeKey r) = ''server'' \<longrightarrow> fst (snd (ScopeKey r)) \<in> set (declared s))
       \<and> (fst (ScopeKey r) = ''tool'' \<longrightarrow> tool_ref_ok (declared s) (fst (snd (ScopeKey r)))))
    \<and> distinct (map (\<lambda>r. (fst (ScopeKey r),
         if fst (ScopeKey r) = ''client'' then slugifyLimitClientKey (fst (snd (ScopeKey r))) else fst (snd (ScopeKey r)))) rs)"
proof -
  let ?id = "\<lambda>r. (fst (ScopeKey r), if fst (ScopeKey r) = ''client'' then slugifyLimitClientKey (fst (snd (ScopeKey r))) else fst (snd (ScopeKey r)))"
  from acceptedD [OF assms(1)] assms(2) obtain names where n: "set names = set (declared s)" "validate_rates names 0 [] rs = []"
    by (auto simp: validateLimits_def)
  note ok = validate_rates_ok [OF n(2)]
  have kinds: "snd (snd (ScopeKey r)) \<Longrightarrow> fst (ScopeKey r) \<in> {''client'', ''server'', ''tool''}" for r
    by (auto simp: ScopeKey_def limitScopeKey_def Let_def split: if_splits)
  have ref: "tool_ref_ok names = tool_ref_ok (declared s)" by (simp add: tool_ref_ok_def fun_eq_iff n(1) split: option.split)
  have each: "0 < rl_callsPerMinute r \<and> 0 \<le> rl_burst r \<and> snd (snd (ScopeKey r))
       \<and> (fst (ScopeKey r) = ''server'' \<longrightarrow> fst (snd (ScopeKey r)) \<in> set (declared s))
       \<and> (fst (ScopeKey r) = ''tool'' \<longrightarrow> tool_ref_ok (declared s) (fst (snd (ScopeKey r))))" if "r \<in> set rs" for r
    using ok that ref n(1) by (auto simp: validateScope_def split_beta split: if_splits)
  have "inj_on ?id (set rs)"
  proof (rule inj_onI)
    fix r q assume rq: "r \<in> set rs" "q \<in> set rs" "?id r = ?id q"
    then have "snd (validateScope names [] r) = snd (validateScope names [] q)"
      using ok by (auto simp: validateScope_def split_beta split: if_splits)
    moreover have "inj_on (snd \<circ> validateScope names []) (set rs)" using ok by (simp add: distinct_map)
    ultimately show "r = q" using rq(1,2) by (simp add: inj_on_def)
  qed
  moreover have "distinct rs" using ok by (simp add: distinct_map)
  ultimately show ?thesis using each by (simp add: distinct_map)
qed

text \<open>Acceptance makes rate limits bind: every limit of an accepted stack has a positive rate, no negative
  burst and exactly one scope; a server or tool scope names a declared server; and no two limits have the
  same scope, where client names count as the same when they have the same slug.\<close>

theorem accepted_limits_bind:
  assumes "accepted env s" and "sk_limits s = Some rs"
  shows "(\<forall>r\<in>set rs. 0 < rl_callsPerMinute r \<and> 0 \<le> rl_burst r \<and> snd (snd (ScopeKey r))
       \<and> (fst (ScopeKey r) = ''server'' \<longrightarrow> fst (snd (ScopeKey r)) \<in> set (declared s))
       \<and> (fst (ScopeKey r) = ''tool'' \<longrightarrow> tool_ref_ok (declared s) (fst (snd (ScopeKey r)))))
    \<and> distinct (map (\<lambda>r. (fst (ScopeKey r),
         if fst (ScopeKey r) = ''client'' then slugifyLimitClientKey (fst (snd (ScopeKey r))) else fst (snd (ScopeKey r)))) rs)"
  using assms by (rule accepted_limits)

definition limited_stack :: stack where
  "limited_stack = (blank_stack [(blank_server ''db'')\<lparr>sv_command := [''run'']\<rparr>])
     \<lparr>sk_limits := Some [\<lparr>rl_client = ''Claude Code'', rl_server = [], rl_tool = [], rl_callsPerMinute = 60, rl_burst = 0\<rparr>]\<rparr>"

theorem accepted_limits_bind_witness: "list_all (\<lambda>r. 0 < rl_callsPerMinute r) (the (sk_limits limited_stack))"
proof -
  have "accepted demo_venv limited_stack" by code_simp
  moreover have "sk_limits limited_stack = Some (the (sk_limits limited_stack))" by (simp add: limited_stack_def)
  ultimately show ?thesis using accepted_limits_bind unfolding list_all_iff by blast
qed

end
