(* ===== verification/Config_Diff.thy ===== *)
theory Config_Diff
  imports Config_Accept
begin

text \<open>
  Comparing two stacks: when two declarations are the same configuration (\<^verbatim>\<open>pkg/config/equality.go\<close>),
  the difference that a reload applies (\<^verbatim>\<open>pkg/reload/diff.go\<close>) and the one that a plan shows
  (\<^verbatim>\<open>pkg/config/plan.go\<close>). \<^verbatim>\<open>reflect.DeepEqual\<close> is equality of the records, with the
  maps in them compared as maps. The printing of a duration, which equality of servers goes through, is a
  parameter; all that is needed of it is that different durations print differently.
\<close>

subsection \<open>Deep equality\<close>

definition map_rel :: "('v \<Rightarrow> 'v \<Rightarrow> bool) \<Rightarrow> ('k, 'v) gomap \<Rightarrow> ('k, 'v) gomap \<Rightarrow> bool" where
  "map_rel eq a b \<longleftrightarrow> list_all (\<lambda>k. rel_option eq (map_of a k) (map_of b k)) (map fst a @ map fst b)"

definition DeepEqual_clients :: "clients_config option \<Rightarrow> clients_config option \<Rightarrow> bool" where
  "DeepEqual_clients = rel_option (\<lambda>a b. cl_default a = cl_default b \<and> map_rel (=) (cl_profiles a) (cl_profiles b))"

definition DeepEqual_group :: "group_config \<Rightarrow> group_config \<Rightarrow> bool" where
  "DeepEqual_group a b \<longleftrightarrow>
     a\<lparr>gp_overrides := []\<rparr> = b\<lparr>gp_overrides := []\<rparr> \<and> map_rel (=) (gp_overrides a) (gp_overrides b)"

definition DeepEqual_scope :: "model_preference_scope option \<Rightarrow> model_preference_scope option \<Rightarrow> bool" where
  "DeepEqual_scope = rel_option (\<lambda>a b. a\<lparr>mp_overrides := []\<rparr> = b\<lparr>mp_overrides := []\<rparr> \<and> map_rel (=) (mp_overrides a) (mp_overrides b))"

definition DeepEqual_preferences :: "model_preferences option \<Rightarrow> model_preferences option \<Rightarrow> bool" where
  "DeepEqual_preferences =
     rel_option (\<lambda>a b. DeepEqual_scope (mf_skills a) (mf_skills b) \<and> DeepEqual_scope (mf_agents a) (mf_agents b))"

definition DeepEqual_server :: "mcp_server \<Rightarrow> mcp_server \<Rightarrow> bool" where
  "DeepEqual_server a b \<longleftrightarrow>
     a\<lparr>sv_env := [], sv_buildArgs := []\<rparr> = b\<lparr>sv_env := [], sv_buildArgs := []\<rparr>
     \<and> map_rel (=) (sv_env a) (sv_env b) \<and> map_rel (=) (sv_buildArgs a) (sv_buildArgs b)"

subsection \<open>Effective equality\<close>

type_synonym print_duration = "duration \<Rightarrow> string"

definition canonicalSource :: "source option \<Rightarrow> source option" where
  "canonicalSource src =
     map_option (\<lambda>s0.
       let s1 = (if so_type s0 = ''pypi'' \<and> so_runtime s0 = [] then s0\<lparr>so_runtime := ''python''\<rparr> else s0);
           s2 = (if so_runtime s1 = [] \<and> so_dockerfile s1 = [] then s1\<lparr>so_dockerfile := ''Dockerfile''\<rparr> else s1)
       in if so_type s2 = ''git'' \<and> so_ref s2 = [] then s2\<lparr>so_ref := ''main''\<rparr> else s2) src"

definition canonicalizeMCPServer :: "parse_duration \<Rightarrow> print_duration \<Rightarrow> mcp_server \<Rightarrow> mcp_server" where
  "canonicalizeMCPServer pd ds s =
     (let src = canonicalSource (sv_source s)
      in s\<lparr>sv_source := src,
           sv_transport := (if isGeneratedPythonSource src \<and> sv_transport s = [] then ''stdio'' else sv_transport s),
           sv_replicas := (if sv_autoscale s = None \<and> sv_replicas s \<le> 0 then 1 else sv_replicas s),
           sv_replicaPolicy := (if sv_replicaPolicy s = [] then ''round-robin'' else sv_replicaPolicy s),
           sv_autoscale := map_option (\<lambda>a. a\<lparr>ac_scaleUpAfter := ds (ResolvedScaleUpAfter pd (Some a)),
               ac_scaleDownAfter := ds (ResolvedScaleDownAfter pd (Some a))\<rparr>) (sv_autoscale s)\<rparr>)"

definition SourceEqual :: "source option \<Rightarrow> source option \<Rightarrow> bool" where
  "SourceEqual a b \<longleftrightarrow> canonicalSource a = canonicalSource b"

definition MCPServerEqual :: "parse_duration \<Rightarrow> print_duration \<Rightarrow> mcp_server \<Rightarrow> mcp_server \<Rightarrow> bool" where
  "MCPServerEqual pd ds a b \<longleftrightarrow> DeepEqual_server (canonicalizeMCPServer pd ds a) (canonicalizeMCPServer pd ds b)"

subsection \<open>The difference a reload applies\<close>

record server_change =
  ch_name :: string
  ch_old :: mcp_server
  ch_new :: mcp_server

record server_diff =
  sd_added :: "mcp_server list"
  sd_removed :: "mcp_server list"
  sd_modified :: "server_change list"
  sd_policyChanges :: "server_change list"

record resource_change =
  rh_name :: string
  rh_old :: resource
  rh_new :: resource

record resource_diff =
  rd_added :: "resource list"
  rd_removed :: "resource list"
  rd_modified :: "resource_change list"

record config_diff =
  cd_servers :: server_diff
  cd_resources :: resource_diff
  cd_networkChanged :: bool
  cd_clientsChanged :: bool
  cd_limitsChanged :: bool
  cd_groupsChanged :: bool
  cd_experimentalChanged :: bool
  cd_skillsPolicyChanged :: bool
  cd_modelPreferencesChanged :: bool

definition diff_IsEmpty :: "config_diff \<Rightarrow> bool" where
  "diff_IsEmpty d \<longleftrightarrow>
     sd_added (cd_servers d) = [] \<and> sd_removed (cd_servers d) = [] \<and> sd_modified (cd_servers d) = []
     \<and> sd_policyChanges (cd_servers d) = [] \<and> rd_added (cd_resources d) = [] \<and> rd_removed (cd_resources d) = []
     \<and> rd_modified (cd_resources d) = [] \<and> \<not> cd_networkChanged d \<and> \<not> cd_clientsChanged d \<and> \<not> cd_limitsChanged d
     \<and> \<not> cd_groupsChanged d \<and> \<not> cd_experimentalChanged d \<and> \<not> cd_skillsPolicyChanged d \<and> \<not> cd_modelPreferencesChanged d"

text \<open>A table by name, filled in order: the last entry of a name wins.\<close>

definition by_name :: "('a \<Rightarrow> string) \<Rightarrow> 'a list \<Rightarrow> (string, 'a) gomap" where
  "by_name nm xs = fold (\<lambda>x m. AList.update (nm x) x m) xs []"

definition autoscaleEqual :: "parse_duration \<Rightarrow> autoscale_config option \<Rightarrow> autoscale_config option \<Rightarrow> bool" where
  "autoscaleEqual pd x y =
     (case (x, y) of
        (None, None) \<Rightarrow> True
      | (Some a, Some b) \<Rightarrow>
          ac_min a = ac_min b \<and> ac_max a = ac_max b \<and> ac_targetInFlight a = ac_targetInFlight b
          \<and> ResolvedScaleUpAfter pd (Some a) = ResolvedScaleUpAfter pd (Some b)
          \<and> ResolvedScaleDownAfter pd (Some a) = ResolvedScaleDownAfter pd (Some b)
          \<and> ac_warmPool a = ac_warmPool b \<and> ac_idleToZero a = ac_idleToZero b
      | _ \<Rightarrow> False)"

definition isAutoscalePolicyOnlyChange :: "parse_duration \<Rightarrow> print_duration \<Rightarrow> mcp_server \<Rightarrow> mcp_server \<Rightarrow> bool" where
  "isAutoscalePolicyOnlyChange pd ds old new \<longleftrightarrow>
     sv_autoscale old \<noteq> None \<and> sv_autoscale new \<noteq> None
     \<and> MCPServerEqual pd ds (old\<lparr>sv_autoscale := None\<rparr>) (new\<lparr>sv_autoscale := None\<rparr>)
     \<and> \<not> autoscaleEqual pd (sv_autoscale old) (sv_autoscale new)"

definition diff_server ::
  "parse_duration \<Rightarrow> print_duration \<Rightarrow> (string, mcp_server) gomap \<Rightarrow> mcp_server \<Rightarrow> server_diff \<Rightarrow> server_diff" where
  "diff_server pd ds oldMap new d =
     (case map_of oldMap (sv_name new) of
        None \<Rightarrow> d\<lparr>sd_added := sd_added d @ [new]\<rparr>
      | Some old \<Rightarrow>
          let c = \<lparr>ch_name = sv_name new, ch_old = old, ch_new = new\<rparr>
          in if MCPServerEqual pd ds old new then d
             else if isAutoscalePolicyOnlyChange pd ds old new then d\<lparr>sd_policyChanges := sd_policyChanges d @ [c]\<rparr>
             else d\<lparr>sd_modified := sd_modified d @ [c]\<rparr>)"

definition diffMCPServers :: "parse_duration \<Rightarrow> print_duration \<Rightarrow> mcp_server list \<Rightarrow> mcp_server list \<Rightarrow> server_diff" where
  "diffMCPServers pd ds olds news =
     (let d = fold (diff_server pd ds (by_name sv_name olds)) news
            \<lparr>sd_added = [], sd_removed = [], sd_modified = [], sd_policyChanges = []\<rparr>
      in d\<lparr>sd_removed := filter (\<lambda>s. \<not> map_has (by_name sv_name news) (sv_name s)) olds\<rparr>)"

definition stringMapEqual :: "(string, string) gomap \<Rightarrow> (string, string) gomap \<Rightarrow> bool" where
  "stringMapEqual a b \<longleftrightarrow>
     length a = length b \<and> list_all (\<lambda>(k, v). (case map_of b k of None \<Rightarrow> [] | Some w \<Rightarrow> w) = v) a"

definition stringSliceEqual :: "string list \<Rightarrow> string list \<Rightarrow> bool" where
  "stringSliceEqual a b \<longleftrightarrow> length a = length b \<and> list_all (\<lambda>i. a ! i = b ! i) [0..<length a]"

definition resourceEqual :: "resource \<Rightarrow> resource \<Rightarrow> bool" where
  "resourceEqual a b \<longleftrightarrow>
     rc_name a = rc_name b \<and> rc_image a = rc_image b \<and> rc_network a = rc_network b
     \<and> stringMapEqual (rc_env a) (rc_env b) \<and> stringSliceEqual (rc_volumes a) (rc_volumes b)"

definition diff_resource :: "(string, resource) gomap \<Rightarrow> resource \<Rightarrow> resource_diff \<Rightarrow> resource_diff" where
  "diff_resource oldMap new d =
     (case map_of oldMap (rc_name new) of
        None \<Rightarrow> d\<lparr>rd_added := rd_added d @ [new]\<rparr>
      | Some old \<Rightarrow>
          if \<not> resourceEqual old new
          then d\<lparr>rd_modified := rd_modified d @ [\<lparr>rh_name = rc_name new, rh_old = old, rh_new = new\<rparr>]\<rparr> else d)"

definition diffResources :: "resource list \<Rightarrow> resource list \<Rightarrow> resource_diff" where
  "diffResources olds news =
     (let d = fold (diff_resource (by_name rc_name olds)) news \<lparr>rd_added = [], rd_removed = [], rd_modified = []\<rparr>
      in d\<lparr>rd_removed := filter (\<lambda>r. \<not> map_has (by_name rc_name news) (rc_name r)) olds\<rparr>)"

definition isNetworkChanged :: "stack \<Rightarrow> stack \<Rightarrow> bool" where
  "isNetworkChanged old new \<longleftrightarrow>
     nw_name (sk_network old) \<noteq> nw_name (sk_network new) \<or> nw_driver (sk_network old) \<noteq> nw_driver (sk_network new)
     \<or> length (sk_networks old) \<noteq> length (sk_networks new)
     \<or> list_ex (\<lambda>n. case map_of (by_name nw_name (sk_networks old)) (nw_name n) of
          None \<Rightarrow> True | Some o1 \<Rightarrow> nw_driver o1 \<noteq> nw_driver n) (sk_networks new)"

definition clientsChanged :: "stack \<Rightarrow> stack \<Rightarrow> bool" where
  "clientsChanged old new \<longleftrightarrow> \<not> DeepEqual_clients (sk_clients old) (sk_clients new)"

definition limitsChanged :: "stack \<Rightarrow> stack \<Rightarrow> bool" where
  "limitsChanged old new \<longleftrightarrow> sk_limits old \<noteq> sk_limits new"

definition groupsChanged :: "stack \<Rightarrow> stack \<Rightarrow> bool" where
  "groupsChanged old new \<longleftrightarrow> \<not> map_rel DeepEqual_group (sk_groups old) (sk_groups new)"

definition experimentalChanged :: "stack \<Rightarrow> stack \<Rightarrow> bool" where
  "experimentalChanged old new \<longleftrightarrow> \<not> map_rel (=) (sk_experimental old) (sk_experimental new)"

definition skillsPolicyChanged :: "stack \<Rightarrow> stack \<Rightarrow> bool" where
  "skillsPolicyChanged old new \<longleftrightarrow> sk_skills old \<noteq> sk_skills new"

definition modelPreferencesChanged :: "stack \<Rightarrow> stack \<Rightarrow> bool" where
  "modelPreferencesChanged old new \<longleftrightarrow> \<not> DeepEqual_preferences (sk_modelPreferences old) (sk_modelPreferences new)"

definition ComputeDiff :: "parse_duration \<Rightarrow> print_duration \<Rightarrow> stack \<Rightarrow> stack \<Rightarrow> config_diff" where
  "ComputeDiff pd ds old new =
     \<lparr>cd_servers = diffMCPServers pd ds (sk_servers old) (sk_servers new),
      cd_resources = diffResources (sk_resources old) (sk_resources new),
      cd_networkChanged = isNetworkChanged old new,
      cd_clientsChanged = clientsChanged old new,
      cd_limitsChanged = limitsChanged old new,
      cd_groupsChanged = groupsChanged old new,
      cd_experimentalChanged = experimentalChanged old new,
      cd_skillsPolicyChanged = skillsPolicyChanged old new,
      cd_modelPreferencesChanged = modelPreferencesChanged old new\<rparr>"

subsection \<open>The difference a plan shows\<close>

datatype diff_action = DiffAdd | DiffRemove | DiffChange

record diff_item =
  di_action :: diff_action
  di_kind :: string
  di_name :: string
  di_details :: "string list"

record plan_diff =
  pl_hasChanges :: bool
  pl_items :: "diff_item list"
  pl_summary :: string

definition arrow :: string where
  "arrow = '' '' @ [CHR 0xE2, CHR 0x86, CHR 0x92] @ '' ''"

text \<open>One line of detail when a field differs: the current value, an arrow, the proposed value.\<close>

definition changed_field :: "string \<Rightarrow> string \<Rightarrow> string \<Rightarrow> string list" where
  "changed_field label proposed current = (if proposed \<noteq> current then [label @ '': '' @ current @ arrow @ proposed] else [])"

definition compareSSH :: "ssh_config option \<Rightarrow> ssh_config option \<Rightarrow> bool" where
  "compareSSH x y =
     (case (x, y) of
        (None, None) \<Rightarrow> False
      | (Some a, Some b) \<Rightarrow> sh_host a \<noteq> sh_host b \<or> sh_user a \<noteq> sh_user b \<or> sh_port a \<noteq> sh_port b \<or> sh_identityFile a \<noteq> sh_identityFile b
      | _ \<Rightarrow> True)"

definition envEqual :: "(string, string) gomap \<Rightarrow> (string, string) gomap \<Rightarrow> bool" where
  "envEqual a b \<longleftrightarrow>
     length a = length b \<and> list_all (\<lambda>(k, v). (case map_of b k of None \<Rightarrow> [] | Some w \<Rightarrow> w) = v) a"

definition compareMCPServers :: "parse_duration \<Rightarrow> print_duration \<Rightarrow> mcp_server \<Rightarrow> mcp_server \<Rightarrow> string list" where
  "compareMCPServers pd ds a b =
     (if MCPServerEqual pd ds a b then []
      else let details =
          changed_field ''image'' (sv_image a) (sv_image b)
        @ changed_field ''url'' (sv_url a) (sv_url b)
        @ (if sv_port a \<noteq> sv_port b then [''port: '' @ itoa (sv_port b) @ arrow @ itoa (sv_port a)] else [])
        @ changed_field ''transport'' (sv_transport a) (sv_transport b)
        @ changed_field ''network'' (sv_network a) (sv_network b)
        @ changed_field ''output_format'' (sv_outputFormat a) (sv_outputFormat b)
        @ (if \<not> envEqual (sv_env a) (sv_env b) then [''env changed''] else [])
        @ (if \<not> stringSliceEqual (sv_volumes a) (sv_volumes b) then [''volumes changed''] else [])
        @ (if \<not> SourceEqual (sv_source a) (sv_source b) then [''source changed''] else [])
        @ (if compareSSH (sv_ssh a) (sv_ssh b) then [''ssh config changed''] else [])
      in if details = [] then [''configuration changed''] else details)"

definition compareResources :: "resource \<Rightarrow> resource \<Rightarrow> string list" where
  "compareResources a b =
     changed_field ''image'' (rc_image a) (rc_image b)
     @ changed_field ''network'' (rc_network a) (rc_network b)
     @ (if \<not> envEqual (rc_env a) (rc_env b) then [''env changed''] else [])
     @ (if \<not> stringSliceEqual (rc_ports a) (rc_ports b) then [''ports changed''] else [])
     @ (if \<not> stringSliceEqual (rc_volumes a) (rc_volumes b) then [''volumes changed''] else [])"

definition item :: "diff_action \<Rightarrow> string \<Rightarrow> string \<Rightarrow> string list \<Rightarrow> diff_item" where
  "item act kind name details = \<lparr>di_action = act, di_kind = kind, di_name = name, di_details = details\<rparr>"

definition diffNamedItems ::
  "string \<Rightarrow> (string, 'a) gomap \<Rightarrow> (string, 'a) gomap \<Rightarrow> ('a \<Rightarrow> 'a \<Rightarrow> string list) \<Rightarrow> diff_item list" where
  "diffNamedItems kind proposed current compare =
     map (\<lambda>(n, _). item DiffAdd kind n []) (filter (\<lambda>(n, _). \<not> map_has current n) proposed)
     @ map (\<lambda>(n, _). item DiffRemove kind n []) (filter (\<lambda>(n, _). \<not> map_has proposed n) current)
     @ concat (map (\<lambda>(n, p). case map_of current n of None \<Rightarrow> []
          | Some c \<Rightarrow> if compare p c = [] then [] else [item DiffChange kind n (compare p c)]) proposed)"

definition diffGateway :: "gateway_config option \<Rightarrow> gateway_config option \<Rightarrow> diff_item list" where
  "diffGateway proposed current =
     (case (proposed, current) of
        (None, None) \<Rightarrow> []
      | (None, Some _) \<Rightarrow> [item DiffRemove ''gateway'' ''gateway'' []]
      | (Some _, None) \<Rightarrow> [item DiffAdd ''gateway'' ''gateway'' []]
      | (Some p, Some c) \<Rightarrow>
          let details = changed_field ''output_format'' (gc_outputFormat p) (gc_outputFormat c)
                @ changed_field ''code_mode'' (gc_codeMode p) (gc_codeMode c)
          in if details = [] then [] else [item DiffChange ''gateway'' ''gateway'' details])"

definition driver_detail :: "network \<Rightarrow> network \<Rightarrow> string list" where
  "driver_detail p c = [''driver: '' @ nw_driver c @ arrow @ nw_driver p]"

definition diffNetworks :: "stack \<Rightarrow> stack \<Rightarrow> diff_item list" where
  "diffNetworks proposed current =
     (if sk_networks proposed = [] \<and> sk_networks current = []
      then if nw_name (sk_network proposed) \<noteq> nw_name (sk_network current) \<or> nw_driver (sk_network proposed) \<noteq> nw_driver (sk_network current)
           then [item DiffChange ''network'' (nw_name (sk_network proposed)) (driver_detail (sk_network proposed) (sk_network current))]
           else []
      else let pNets = by_name nw_name (sk_networks proposed); cNets = by_name nw_name (sk_networks current)
           in concat (map (\<lambda>(n, p). case map_of cNets n of
                  None \<Rightarrow> [item DiffAdd ''network'' n []]
                | Some c \<Rightarrow> if nw_driver p \<noteq> nw_driver c then [item DiffChange ''network'' n (driver_detail p c)] else []) pNets)
              @ map (\<lambda>(n, _). item DiffRemove ''network'' n []) (filter (\<lambda>(n, _). \<not> map_has pNets n) cNets))"

definition count_action :: "diff_action \<Rightarrow> diff_item list \<Rightarrow> int" where
  "count_action act items = int (length (filter (\<lambda>i. di_action i = act) items))"

definition buildSummary :: "diff_item list \<Rightarrow> string" where
  "buildSummary items =
     (if items = [] then ''No changes detected.''
      else join_with '', ''
        ((if count_action DiffAdd items > 0 then [itoa (count_action DiffAdd items) @ '' to add''] else [])
         @ (if count_action DiffChange items > 0 then [itoa (count_action DiffChange items) @ '' to change''] else [])
         @ (if count_action DiffRemove items > 0 then [itoa (count_action DiffRemove items) @ '' to remove''] else [])))"

definition empty_stack :: stack where
  "empty_stack =
     \<lparr>sk_version = [], sk_name = [], sk_extends = [], sk_gateway = None, sk_logging = None, sk_telemetry = None, sk_secrets = None,
      sk_network = \<lparr>nw_name = [], nw_driver = []\<rparr>, sk_networks = [], sk_servers = [], sk_resources = [], sk_clients = None,
      sk_limits = None, sk_groups = [], sk_skills = None, sk_modelPreferences = None, sk_link = [], sk_experimental = [],
      sk_variables = [], sk_references = [], sk_unresolvedRefs = []\<rparr>"

definition ComputePlan :: "parse_duration \<Rightarrow> print_duration \<Rightarrow> stack option \<Rightarrow> stack option \<Rightarrow> plan_diff" where
  "ComputePlan pd ds proposed0 current0 =
     (let proposed = (case proposed0 of None \<Rightarrow> empty_stack | Some s \<Rightarrow> s);
          current = (case current0 of None \<Rightarrow> empty_stack | Some s \<Rightarrow> s);
          items =
            diffNamedItems ''mcp-server'' (by_name sv_name (sk_servers proposed)) (by_name sv_name (sk_servers current))
              (compareMCPServers pd ds)
            @ diffNamedItems ''resource'' (by_name rc_name (sk_resources proposed)) (by_name rc_name (sk_resources current)) compareResources
            @ diffGateway (sk_gateway proposed) (sk_gateway current)
            @ diffNetworks proposed current
      in \<lparr>pl_hasChanges = items \<noteq> [], pl_items = items, pl_summary = buildSummary items\<rparr>)"

subsection \<open>Tables by name\<close>

lemma map_of_by_name_fold:
  "map_of (fold (\<lambda>x m. AList.update (nm x) x m) xs m) n = (case find (\<lambda>x. nm x = n) (rev xs) of None \<Rightarrow> map_of m n | Some x \<Rightarrow> Some x)"
  by (induction xs arbitrary: m) (auto simp: map_of_update find_append split: option.splits)

lemma map_of_by_name: "map_of (by_name nm xs) n = find (\<lambda>x. nm x = n) (rev xs)"
  by (simp add: by_name_def map_of_by_name_fold split: option.splits)

lemma by_name_Some: "map_of (by_name nm xs) n = Some x \<Longrightarrow> x \<in> set xs \<and> nm x = n"
  unfolding map_of_by_name find_Some_iff by (metis length_rev nth_mem set_rev)

lemma by_name_None: "map_of (by_name nm xs) n = None \<longleftrightarrow> n \<notin> nm ` set xs"
  unfolding map_of_by_name find_None_iff by auto

lemma by_name_distinct: "distinct (map nm xs) \<Longrightarrow> x \<in> set xs \<Longrightarrow> map_of (by_name nm xs) (nm x) = Some x"
proof -
  assume d: "distinct (map nm xs)" and x: "x \<in> set xs"
  obtain y where y: "map_of (by_name nm xs) (nm x) = Some y" using x by_name_None [of nm xs "nm x"] by fastforce
  then have "y \<in> set xs" "nm y = nm x" using by_name_Some by metis+
  then have "y = x" using d x by (simp add: distinct_map inj_on_def)
  then show ?thesis using y by simp
qed

lemma by_name_keys_ok: "map_keys_ok (by_name nm xs)"
  unfolding by_name_def by (induction xs rule: rev_induct) auto

subsection \<open>Equality of configurations\<close>

lemma map_rel_iff: "map_rel eq a b \<longleftrightarrow> (\<forall>k. rel_option eq (map_of a k) (map_of b k))"
proof -
  have "rel_option eq (map_of a k) (map_of b k)" if "k \<notin> fst ` set a" "k \<notin> fst ` set b" for k
    using that by (simp add: map_of_eq_None_iff [THEN iffD2])
  then show ?thesis unfolding map_rel_def by (auto simp: list_all_iff)
qed

lemma map_rel_eq: "map_rel (=) a b \<longleftrightarrow> map_of a = map_of b"
  by (auto simp: map_rel_iff option.rel_eq fun_eq_iff)

lemma map_rel_refl: "(\<And>x. eq x x) \<Longrightarrow> map_rel eq a a"
  by (simp add: map_rel_iff option.rel_refl)

lemma DeepEqual_server_equiv:
  "DeepEqual_server a a" "DeepEqual_server a b \<Longrightarrow> DeepEqual_server b a"
  "DeepEqual_server a b \<Longrightarrow> DeepEqual_server b c \<Longrightarrow> DeepEqual_server a c"
  by (simp_all add: DeepEqual_server_def map_rel_eq)

lemma MCPServerEqual_refl [simp]: "MCPServerEqual pd ds a a"
  by (simp add: MCPServerEqual_def DeepEqual_server_equiv(1))

lemma MCPServerEqual_sym: "MCPServerEqual pd ds a b \<Longrightarrow> MCPServerEqual pd ds b a"
  unfolding MCPServerEqual_def by (rule DeepEqual_server_equiv(2))

lemma canonicalSource_defaults: "canonicalSource (map_option source_defaults src) = canonicalSource src"
proof (cases src)
  case (Some x)
  consider "so_type x = ''pypi''" | "so_type x = ''git''" | "so_type x \<noteq> ''pypi''" "so_type x \<noteq> ''git''" by blast
  then show ?thesis unfolding Some canonicalSource_def source_defaults_def Let_def
    by cases (cases "so_runtime x = []"; cases "so_dockerfile x = []"; cases "so_ref x = []"; simp)+
qed (simp add: canonicalSource_def)

lemma generated_canonical: "isGeneratedPythonSource (canonicalSource src) = isGeneratedPythonSource (map_option source_defaults src)"
proof (cases src)
  case (Some x)
  consider "so_type x = ''pypi''" | "so_type x = ''git''" | "so_type x \<noteq> ''pypi''" "so_type x \<noteq> ''git''" by blast
  then show ?thesis unfolding Some canonicalSource_def source_defaults_def isGeneratedPythonSource_def Let_def
    by cases (cases "so_runtime x = []"; cases "so_dockerfile x = []"; cases "so_ref x = []"; simp)+
qed (simp add: canonicalSource_def)

lemma canonical_fields:
  assumes "sv_source b = map_option source_defaults (sv_source a)"
    and "sv_transport b = (if isGeneratedPythonSource (sv_source b) \<and> sv_transport a = [] then ''stdio'' else sv_transport a)"
    and "sv_replicas b = (if sv_autoscale a = None \<and> sv_replicas a \<le> 0 then 1 else sv_replicas a)"
    and "sv_replicaPolicy b = (if sv_replicaPolicy a = [] then ''round-robin'' else sv_replicaPolicy a)"
    and "b = a\<lparr>sv_source := sv_source b, sv_transport := sv_transport b, sv_replicas := sv_replicas b, sv_replicaPolicy := sv_replicaPolicy b\<rparr>"
  shows "canonicalizeMCPServer pd ds b = canonicalizeMCPServer pd ds a"
proof -
  have a: "sv_autoscale b = sv_autoscale a" by (subst assms(5)) simp
  have src: "canonicalSource (sv_source b) = canonicalSource (sv_source a)" unfolding assms(1) by (rule canonicalSource_defaults)
  have tr: "(if isGeneratedPythonSource (canonicalSource (sv_source a)) \<and> sv_transport b = [] then ''stdio'' else sv_transport b)
      = (if isGeneratedPythonSource (canonicalSource (sv_source a)) \<and> sv_transport a = [] then ''stdio'' else sv_transport a)"
    unfolding assms(2) unfolding assms(1) generated_canonical by simp
  have rp: "(if sv_autoscale a = None \<and> sv_replicas b \<le> 0 then 1 else sv_replicas b) = (if sv_autoscale a = None \<and> sv_replicas a \<le> 0 then 1 else sv_replicas a)"
    unfolding assms(3) by simp
  have po: "(if sv_replicaPolicy b = [] then ''round-robin'' else sv_replicaPolicy b) = (if sv_replicaPolicy a = [] then ''round-robin'' else sv_replicaPolicy a)"
    unfolding assms(4) by simp
  show ?thesis unfolding canonicalizeMCPServer_def Let_def src tr rp po a by (subst assms(5)) simp
qed

lemma canonical_defaults: "canonicalizeMCPServer pd ds (server_defaults s) = canonicalizeMCPServer pd ds s"
proof (rule canonical_fields)
  obtain src tr rp po where d: "server_defaults s = s\<lparr>sv_source := src, sv_transport := tr, sv_replicas := rp, sv_replicaPolicy := po\<rparr>"
    unfolding server_defaults_def Let_def by blast
  show "server_defaults s = s\<lparr>sv_source := sv_source (server_defaults s), sv_transport := sv_transport (server_defaults s),
      sv_replicas := sv_replicas (server_defaults s), sv_replicaPolicy := sv_replicaPolicy (server_defaults s)\<rparr>"
    unfolding d by simp
  show "sv_source (server_defaults s) = map_option source_defaults (sv_source s)"
    by (simp add: server_defaults_def Let_def)
  show "sv_transport (server_defaults s) = (if isGeneratedPythonSource (sv_source (server_defaults s)) \<and> sv_transport s = [] then ''stdio'' else sv_transport s)"
    by (simp add: server_defaults_def Let_def)
  show "sv_replicas (server_defaults s) = (if sv_autoscale s = None \<and> sv_replicas s \<le> 0 then 1 else sv_replicas s)"
    by (simp add: server_defaults_def Let_def)
  show "sv_replicaPolicy (server_defaults s) = (if sv_replicaPolicy s = [] then ''round-robin'' else sv_replicaPolicy s)"
    by (simp add: server_defaults_def Let_def)
qed

text \<open>Equality of declarations is an equivalence relation, and it does not see the defaults: a declaration
  before and after \<^verbatim>\<open>SetDefaults\<close> is one configuration.\<close>

theorem server_equality_is_effective:
  "equivp (MCPServerEqual pd ds) \<and> MCPServerEqual pd ds s (server_defaults s)
   \<and> MCPServerEqual pd ds (server_defaults a) (server_defaults b) = MCPServerEqual pd ds a b"
proof (intro conjI)
  have "transp (MCPServerEqual pd ds)"
    unfolding MCPServerEqual_def by (rule transpI) (rule DeepEqual_server_equiv(3))
  then show "equivp (MCPServerEqual pd ds)"
    by (intro equivpI reflpI sympI) (simp_all add: MCPServerEqual_sym)
qed (simp_all add: MCPServerEqual_def canonical_defaults DeepEqual_server_equiv(1))

lemma stringSliceEqual_iff: "stringSliceEqual a b \<longleftrightarrow> a = b"
  by (auto simp: stringSliceEqual_def list_all_iff intro: nth_equalityI)

lemma stringMapEqual_refl: "map_keys_ok a \<Longrightarrow> stringMapEqual a a"
  by (auto simp: stringMapEqual_def list_all_iff map_keys_ok_def)

lemma envEqual_eq: "envEqual a b = stringMapEqual a b"
  by (simp add: envEqual_def stringMapEqual_def)

subsection \<open>The difference of two lists of servers\<close>

definition change_to :: "(string, mcp_server) gomap \<Rightarrow> mcp_server \<Rightarrow> server_change" where
  "change_to m s = \<lparr>ch_name = sv_name s, ch_old = the (map_of m (sv_name s)), ch_new = s\<rparr>"

definition policy_change :: "parse_duration \<Rightarrow> print_duration \<Rightarrow> (string, mcp_server) gomap \<Rightarrow> mcp_server \<Rightarrow> bool" where
  "policy_change pd ds m s \<longleftrightarrow> (case map_of m (sv_name s) of None \<Rightarrow> False
     | Some old \<Rightarrow> \<not> MCPServerEqual pd ds old s \<and> isAutoscalePolicyOnlyChange pd ds old s)"

definition restart_change :: "parse_duration \<Rightarrow> print_duration \<Rightarrow> (string, mcp_server) gomap \<Rightarrow> mcp_server \<Rightarrow> bool" where
  "restart_change pd ds m s \<longleftrightarrow> (case map_of m (sv_name s) of None \<Rightarrow> False
     | Some old \<Rightarrow> \<not> MCPServerEqual pd ds old s \<and> \<not> isAutoscalePolicyOnlyChange pd ds old s)"

lemma diff_server_fold:
  "fold (diff_server pd ds m) news d =
     d\<lparr>sd_added := sd_added d @ filter (\<lambda>s. \<not> map_has m (sv_name s)) news,
       sd_modified := sd_modified d @ map (change_to m) (filter (restart_change pd ds m) news),
       sd_policyChanges := sd_policyChanges d @ map (change_to m) (filter (policy_change pd ds m) news)\<rparr>"
  by (induction news arbitrary: d)
    (auto simp: diff_server_def change_to_def policy_change_def restart_change_def Let_def split: option.splits)

lemma diffMCPServers_eq:
  "diffMCPServers pd ds olds news =
     \<lparr>sd_added = filter (\<lambda>s. sv_name s \<notin> sv_name ` set olds) news,
      sd_removed = filter (\<lambda>s. sv_name s \<notin> sv_name ` set news) olds,
      sd_modified = map (change_to (by_name sv_name olds)) (filter (restart_change pd ds (by_name sv_name olds)) news),
      sd_policyChanges = map (change_to (by_name sv_name olds)) (filter (policy_change pd ds (by_name sv_name olds)) news)\<rparr>"
  unfolding diffMCPServers_def diff_server_fold Let_def by (simp add: by_name_None)

lemma diff_resource_fold:
  "fold (diff_resource m) news d =
     d\<lparr>rd_added := rd_added d @ filter (\<lambda>r. \<not> map_has m (rc_name r)) news,
       rd_modified := rd_modified d @ map (\<lambda>r. \<lparr>rh_name = rc_name r, rh_old = the (map_of m (rc_name r)), rh_new = r\<rparr>)
         (filter (\<lambda>r. case map_of m (rc_name r) of None \<Rightarrow> False | Some o1 \<Rightarrow> \<not> resourceEqual o1 r) news)\<rparr>"
  by (induction news arbitrary: d) (auto simp: diff_resource_def split: option.splits)

lemma diffResources_eq:
  "diffResources olds news =
     \<lparr>rd_added = filter (\<lambda>r. rc_name r \<notin> rc_name ` set olds) news,
      rd_removed = filter (\<lambda>r. rc_name r \<notin> rc_name ` set news) olds,
      rd_modified = map (\<lambda>r. \<lparr>rh_name = rc_name r, rh_old = the (map_of (by_name rc_name olds) (rc_name r)), rh_new = r\<rparr>)
         (filter (\<lambda>r. case map_of (by_name rc_name olds) (rc_name r) of None \<Rightarrow> False | Some o1 \<Rightarrow> \<not> resourceEqual o1 r) news)\<rparr>"
  unfolding diffResources_def diff_resource_fold Let_def by (simp add: by_name_None)

text \<open>What a table of servers becomes when a difference is applied to it.\<close>

definition patched :: "server_diff \<Rightarrow> mcp_server list \<Rightarrow> string \<Rightarrow> mcp_server option" where
  "patched d olds n =
     (if n \<in> sv_name ` set (sd_removed d) then None
      else case find (\<lambda>s. sv_name s = n) (sd_added d @ map ch_new (sd_modified d) @ map ch_new (sd_policyChanges d)) of
             Some s \<Rightarrow> Some s | None \<Rightarrow> map_of (by_name sv_name olds) n)"

lemma ch_new_change_to: "map ch_new (map (change_to m) xs) = xs"
  by (simp add: change_to_def comp_def)

lemma patched_diff:
  "patched (diffMCPServers pd ds olds news) olds n =
     (if n \<in> sv_name ` set (filter (\<lambda>s. sv_name s \<notin> sv_name ` set news) olds) then None
      else case find (\<lambda>s. sv_name s = n) (filter (\<lambda>s. sv_name s \<notin> sv_name ` set olds) news
             @ filter (restart_change pd ds (by_name sv_name olds)) news @ filter (policy_change pd ds (by_name sv_name olds)) news) of
             Some s \<Rightarrow> Some s | None \<Rightarrow> map_of (by_name sv_name olds) n)"
  unfolding patched_def diffMCPServers_eq server_diff.select_convs ch_new_change_to ..

lemma find_name:
  assumes "distinct (map nm xs)" and "x \<in> set xs" and "P x"
  shows "find (\<lambda>y. nm y = nm x) (filter P xs) = Some x"
  using assms by (induction xs) auto

lemma find_name_None: "(\<And>y. y \<in> set xs \<Longrightarrow> nm y = n \<Longrightarrow> \<not> P y) \<Longrightarrow> find (\<lambda>y. nm y = n) (filter P xs) = None"
  by (auto simp: find_None_iff)

lemma find_patch:
  assumes "distinct (map sv_name news)" and "x \<in> set news" and "old = map_of (by_name sv_name olds) (sv_name x)"
  shows "find (\<lambda>s. sv_name s = sv_name x) (filter (\<lambda>s. sv_name s \<notin> sv_name ` set olds) news
      @ filter (restart_change pd ds (by_name sv_name olds)) news @ filter (policy_change pd ds (by_name sv_name olds)) news)
    = (case old of None \<Rightarrow> Some x | Some o1 \<Rightarrow> if MCPServerEqual pd ds o1 x then None else Some x)"
proof -
  have same: "y = x" if "y \<in> set news" "sv_name y = sv_name x" for y
    using that assms(1,2) by (auto simp: distinct_map inj_on_def)
  note some = find_name [OF assms(1,2)] and none = find_name_None [of news sv_name "sv_name x"]
  show ?thesis
  proof (cases old)
    case None
    then have "sv_name x \<notin> sv_name ` set olds" using assms(3) by (metis by_name_None)
    then show ?thesis using None by (simp add: find_append some)
  next
    case (Some o1)
    have in_old: "sv_name x \<in> sv_name ` set olds" using Some assms(3) by (metis by_name_None option.distinct(1))
    have a: "find (\<lambda>s. sv_name s = sv_name x) (filter (\<lambda>s. sv_name s \<notin> sv_name ` set olds) news) = None"
      by (rule none) (use in_old same in auto)
    consider "MCPServerEqual pd ds o1 x"
      | "\<not> MCPServerEqual pd ds o1 x" "isAutoscalePolicyOnlyChange pd ds o1 x"
      | "\<not> MCPServerEqual pd ds o1 x" "\<not> isAutoscalePolicyOnlyChange pd ds o1 x" by blast
    then show ?thesis
    proof cases
      case 1
      have "find (\<lambda>s. sv_name s = sv_name x) (filter (restart_change pd ds (by_name sv_name olds)) news) = None"
        "find (\<lambda>s. sv_name s = sv_name x) (filter (policy_change pd ds (by_name sv_name olds)) news) = None"
        by (rule none, use same 1 Some assms(3) in \<open>auto simp: restart_change_def policy_change_def split: option.splits\<close>)+
      then show ?thesis using 1 Some a by (simp add: find_append)
    next
      case 2
      have "find (\<lambda>s. sv_name s = sv_name x) (filter (restart_change pd ds (by_name sv_name olds)) news) = None"
        by (rule none) (use same 2 Some assms(3) in \<open>auto simp: restart_change_def split: option.splits\<close>)
      moreover have "policy_change pd ds (by_name sv_name olds) x" using 2 Some assms(3) by (simp add: policy_change_def split: option.split)
      ultimately show ?thesis using 2 Some a by (simp add: find_append some)
    next
      case 3
      then have "restart_change pd ds (by_name sv_name olds) x" using Some assms(3) by (simp add: restart_change_def split: option.split)
      then show ?thesis using 3 Some a by (simp add: find_append some)
    qed
  qed
qed

text \<open>C14. A reload's difference is complete: applied to the servers that run, it gives for every name the new
  declaration, up to effective equality, and nothing under a name that the new stack does not have.\<close>

theorem diff_is_complete:
  assumes "distinct (map sv_name news)"
  shows "rel_option (MCPServerEqual pd ds) (patched (diffMCPServers pd ds olds news) olds n) (map_of (by_name sv_name news) n)"
proof (cases "map_of (by_name sv_name news) n")
  case None
  then have n: "n \<notin> sv_name ` set news" by (simp add: by_name_None)
  then have "find (\<lambda>s. sv_name s = n) (filter P news) = None" for P by (auto simp: find_None_iff)
  then have "patched (diffMCPServers pd ds olds news) olds n = None"
    using n unfolding patched_diff by (auto simp: find_append by_name_None)
  then show ?thesis using None by simp
next
  case (Some x)
  then have x: "x \<in> set news" "sv_name x = n" using by_name_Some by metis+
  then have "n \<in> sv_name ` set news" by blast
  then have "n \<notin> sv_name ` set (filter (\<lambda>s. sv_name s \<notin> sv_name ` set news) olds)"
    by (metis (no_types, lifting) imageE mem_Collect_eq set_filter)
  then have "patched (diffMCPServers pd ds olds news) olds n =
      (case map_of (by_name sv_name olds) n of None \<Rightarrow> Some x | Some o1 \<Rightarrow> if MCPServerEqual pd ds o1 x then Some o1 else Some x)"
    using find_patch [OF assms x(1) refl, where pd = pd and ds = ds and olds = olds] x(2)
    unfolding patched_diff by (simp split: option.split)
  then show ?thesis using Some by (simp split: option.split)
qed

subsection \<open>The plan and the reload\<close>

lemma compare_servers_Nil: "compareMCPServers pd ds a b = [] \<longleftrightarrow> MCPServerEqual pd ds b a"
  using MCPServerEqual_sym by (auto simp: compareMCPServers_def Let_def)

lemma by_name_mem: "(n, x) \<in> set (by_name nm xs) \<longleftrightarrow> map_of (by_name nm xs) n = Some x"
  by (rule map_keys_ok_mem [OF by_name_keys_ok])

lemma named_items:
  "i \<in> set (diffNamedItems kind (by_name nm ps) (by_name nm cs) cmp) \<longleftrightarrow>
     di_kind i = kind \<and>
     (case (map_of (by_name nm ps) (di_name i), map_of (by_name nm cs) (di_name i)) of
        (Some p, None) \<Rightarrow> di_action i = DiffAdd \<and> di_details i = []
      | (None, Some c) \<Rightarrow> di_action i = DiffRemove \<and> di_details i = []
      | (Some p, Some c) \<Rightarrow> di_action i = DiffChange \<and> di_details i = cmp p c \<and> cmp p c \<noteq> []
      | (None, None) \<Rightarrow> False)"
  by (cases i; auto simp: diffNamedItems_def item_def by_name_mem image_iff split: option.splits if_splits) (metis by_name_mem)

definition planned :: "plan_diff \<Rightarrow> diff_action \<Rightarrow> string \<Rightarrow> string \<Rightarrow> bool" where
  "planned p act kind n \<longleftrightarrow> list_ex (\<lambda>i. di_action i = act \<and> di_kind i = kind \<and> di_name i = n) (pl_items p)"

lemma other_kinds:
  "i \<in> set (diffGateway p c) \<Longrightarrow> di_kind i = ''gateway''" "i \<in> set (diffNetworks s t) \<Longrightarrow> di_kind i = ''network''"
  by (auto simp: diffGateway_def diffNetworks_def item_def Let_def split: option.splits if_splits)

lemma named_items_planned:
  "list_ex (\<lambda>i. di_action i = act \<and> di_kind i = kind \<and> di_name i = n) (diffNamedItems kind (by_name nm ps) (by_name nm cs) cmp) \<longleftrightarrow>
     (case (map_of (by_name nm ps) n, map_of (by_name nm cs) n) of
        (Some p, None) \<Rightarrow> act = DiffAdd | (None, Some c) \<Rightarrow> act = DiffRemove
      | (Some p, Some c) \<Rightarrow> act = DiffChange \<and> cmp p c \<noteq> [] | (None, None) \<Rightarrow> False)"
  (is "list_ex ?P ?items \<longleftrightarrow> ?R")
proof
  assume "list_ex ?P ?items"
  then obtain i where "i \<in> set ?items" "?P i" by (auto simp: list_ex_iff)
  then show ?R by (auto simp: named_items split: option.splits)
next
  assume R: ?R
  define dt where "dt = (case (map_of (by_name nm ps) n, map_of (by_name nm cs) n) of (Some p, Some c) \<Rightarrow> cmp p c | _ \<Rightarrow> [])"
  have "item act kind n dt \<in> set ?items"
    unfolding named_items using R by (auto simp: item_def dt_def split: option.splits)
  then show "list_ex ?P ?items" unfolding list_ex_iff by (rule rev_bexI) (simp add: item_def)
qed

lemma planned_server:
  "planned (ComputePlan pd ds (Some new) (Some old)) act ''mcp-server'' n \<longleftrightarrow>
     (case (map_of (by_name sv_name (sk_servers new)) n, map_of (by_name sv_name (sk_servers old)) n) of
        (Some p, None) \<Rightarrow> act = DiffAdd | (None, Some c) \<Rightarrow> act = DiffRemove
      | (Some p, Some c) \<Rightarrow> act = DiffChange \<and> \<not> MCPServerEqual pd ds c p | (None, None) \<Rightarrow> False)"
proof -
  have r: "list_ex (\<lambda>i. di_action i = act \<and> di_kind i = ''mcp-server'' \<and> di_name i = n) xs \<longleftrightarrow> False"
    if "\<And>i. i \<in> set xs \<Longrightarrow> di_kind i \<noteq> ''mcp-server''" for xs
    using that by (auto simp: list_ex_iff)
  show ?thesis
    unfolding planned_def ComputePlan_def Let_def option.case plan_diff.select_convs list_ex_append named_items_planned compare_servers_Nil
    by (subst r, use other_kinds in \<open>force simp: named_items\<close>)+ simp
qed

text \<open>C13. The plan and the reload agree on the servers: for a new stack with distinct server names, the plan announces an
  added, removed or changed server exactly when the difference a reload computes lists it as added, removed, or modified or
  re-scaled. A reload applies that difference unless a network changed, which it refuses.\<close>

theorem plan_agrees_with_reload:
  assumes "distinct (map sv_name (sk_servers new))"
  shows "planned (ComputePlan pd ds (Some new) (Some old)) act ''mcp-server'' n \<longleftrightarrow>
    (case act of
       DiffAdd \<Rightarrow> n \<in> sv_name ` set (sd_added (cd_servers (ComputeDiff pd ds old new)))
     | DiffRemove \<Rightarrow> n \<in> sv_name ` set (sd_removed (cd_servers (ComputeDiff pd ds old new)))
     | DiffChange \<Rightarrow> n \<in> ch_name ` set (sd_modified (cd_servers (ComputeDiff pd ds old new)))
         \<or> n \<in> ch_name ` set (sd_policyChanges (cd_servers (ComputeDiff pd ds old new))))"
proof -
  let ?o = "by_name sv_name (sk_servers old)" and ?n = "by_name sv_name (sk_servers new)"
  have look: "map_of ?n n = Some x \<longleftrightarrow> x \<in> set (sk_servers new) \<and> sv_name x = n" for x
    using by_name_Some [of sv_name] by_name_distinct [OF assms] by metis
  have none: "map_of (by_name sv_name xs) n = None \<longleftrightarrow> n \<notin> sv_name ` set xs" for xs by (rule by_name_None)
  have img: "n \<in> sv_name ` set (filter (\<lambda>s. sv_name s \<notin> A) xs) \<longleftrightarrow> n \<in> sv_name ` set xs \<and> n \<notin> A" for A xs by auto
  show ?thesis
  proof (cases act)
    case DiffAdd
    then show ?thesis unfolding planned_server ComputeDiff_def config_diff.select_convs diffMCPServers_eq server_diff.select_convs img
      using none [of "sk_servers old"] none [of "sk_servers new"] by (cases "map_of ?o n"; cases "map_of ?n n") simp_all
  next
    case DiffRemove
    then show ?thesis unfolding planned_server ComputeDiff_def config_diff.select_convs diffMCPServers_eq server_diff.select_convs img
      using none [of "sk_servers old"] none [of "sk_servers new"] by (cases "map_of ?o n"; cases "map_of ?n n") simp_all
  next
    case DiffChange
    have chg: "n \<in> ch_name ` change_to ?o ` set (filter P (sk_servers new)) \<longleftrightarrow> (case map_of ?n n of None \<Rightarrow> False | Some x \<Rightarrow> P x)" for P
    proof (cases "map_of ?n n")
      case None
      then show ?thesis using none [of "sk_servers new"] by (auto simp: change_to_def)
    next
      case (Some x)
      then have "(y \<in> set (sk_servers new) \<and> sv_name y = n) = (y = x)" for y using look [of y] by auto
      moreover have "n \<in> ch_name ` change_to ?o ` S \<longleftrightarrow> (\<exists>y. y \<in> S \<and> sv_name y = n)" for S
        by (simp only: image_image change_to_def server_change.select_convs image_iff Bex_def eq_commute)
      ultimately show ?thesis using Some by (simp only: set_filter mem_Collect_eq option.case) metis
    qed
    have nm: "map_of ?n n = Some x \<Longrightarrow> sv_name x = n" for x using look by blast
    show ?thesis unfolding planned_server ComputeDiff_def config_diff.select_convs diffMCPServers_eq server_diff.select_convs set_map chg
      using DiffChange nm by (cases "map_of ?n n"; cases "map_of ?o n") (simp_all only: restart_change_def policy_change_def diff_action.case option.case prod.case, blast+)
  qed
qed

theorem plan_agrees_with_reload_witness:
  "planned (ComputePlan (\<lambda>_. None) itoa (Some (blank_stack [blank_server ''b''])) (Some (blank_stack [blank_server ''a'']))) DiffAdd ''mcp-server'' ''b''"
  using plan_agrees_with_reload [of "blank_stack [blank_server ''b'']" "\<lambda>_. None" itoa "blank_stack [blank_server ''a'']" DiffAdd "''b''"]
  by (simp add: blank_stack_def blank_server_def ComputeDiff_def diffMCPServers_eq)

theorem diff_is_complete_witness:
  "rel_option (MCPServerEqual (\<lambda>_. None) itoa)
     (patched (diffMCPServers (\<lambda>_. None) itoa [blank_server ''a''] [blank_server ''b'']) [blank_server ''a''] ''b'') (Some (blank_server ''b''))
   \<and> patched (diffMCPServers (\<lambda>_. None) itoa [blank_server ''a''] [blank_server ''b'']) [blank_server ''a''] ''a'' = None"
  using diff_is_complete [of "[blank_server ''b'']" "\<lambda>_. None" itoa "[blank_server ''a'']" "''b''"]
    diff_is_complete [of "[blank_server ''b'']" "\<lambda>_. None" itoa "[blank_server ''a'']" "''a''"]
  by (simp add: by_name_def blank_server_def)

subsection \<open>What a reload does not see\<close>

definition names_ok :: "stack \<Rightarrow> bool" where
  "names_ok s \<longleftrightarrow> distinct (map sv_name (sk_servers s)) \<and> distinct (map rc_name (sk_resources s)) \<and> distinct (map nw_name (sk_networks s))
     \<and> list_all (\<lambda>r. map_keys_ok (rc_env r)) (sk_resources s)"

lemma same_servers: "distinct (map sv_name ss) \<Longrightarrow> diffMCPServers pd ds ss ss = \<lparr>sd_added = [], sd_removed = [], sd_modified = [], sd_policyChanges = []\<rparr>"
  unfolding diffMCPServers_eq
  by (auto simp: filter_empty_conv restart_change_def policy_change_def by_name_distinct)

lemma same_resources:
  assumes "distinct (map rc_name rs)" and "\<And>r. rc_name (g r) = rc_name r" and "\<And>r. r \<in> set rs \<Longrightarrow> resourceEqual r (g r)"
  shows "diffResources rs (map g rs) = \<lparr>rd_added = [], rd_removed = [], rd_modified = []\<rparr>"
  unfolding diffResources_eq using by_name_distinct [OF assms(1)] assms(2,3) by (auto simp: filter_empty_conv image_iff)

lemma same_networks: "distinct (map nw_name (sk_networks a)) \<Longrightarrow> sk_network b = sk_network a \<Longrightarrow> sk_networks b = sk_networks a \<Longrightarrow> \<not> isNetworkChanged a b"
  by (auto simp: isNetworkChanged_def list_ex_iff by_name_distinct)

lemma DeepEqual_refl: "DeepEqual_clients c c" "DeepEqual_group g g" "DeepEqual_preferences p p"
  by (auto simp: DeepEqual_clients_def DeepEqual_group_def DeepEqual_preferences_def DeepEqual_scope_def intro!: map_rel_refl option.rel_refl)

lemma same_blocks:
  assumes "sk_clients b = sk_clients a" "sk_limits b = sk_limits a" "sk_groups b = sk_groups a" "sk_experimental b = sk_experimental a"
    "sk_skills b = sk_skills a" "sk_modelPreferences b = sk_modelPreferences a"
  shows "\<not> clientsChanged a b \<and> \<not> limitsChanged a b \<and> \<not> groupsChanged a b \<and> \<not> experimentalChanged a b \<and> \<not> skillsPolicyChanged a b
    \<and> \<not> modelPreferencesChanged a b"
  by (auto simp: assms clientsChanged_def limitsChanged_def groupsChanged_def experimentalChanged_def skillsPolicyChanged_def
      modelPreferencesChanged_def DeepEqual_refl intro!: map_rel_refl)

lemma unchanged_stack:
  assumes "names_ok s" and "\<And>r. rc_name (f r) = rc_name r" and "\<And>r. r \<in> set (sk_resources s) \<Longrightarrow> resourceEqual r (f r)"
    and "sk_servers s' = sk_servers s" "sk_resources s' = map f (sk_resources s)" "sk_network s' = sk_network s" "sk_networks s' = sk_networks s"
    "sk_clients s' = sk_clients s" "sk_limits s' = sk_limits s" "sk_groups s' = sk_groups s" "sk_experimental s' = sk_experimental s"
    "sk_skills s' = sk_skills s" "sk_modelPreferences s' = sk_modelPreferences s"
  shows "diff_IsEmpty (ComputeDiff pd ds s s')"
  using assms(1) same_servers [of "sk_servers s" pd ds] same_resources [of "sk_resources s" f, OF _ assms(2,3)]
    same_networks [OF _ assms(6,7)] same_blocks [OF assms(8-13)]
  by (simp add: diff_IsEmpty_def ComputeDiff_def names_ok_def assms(4,5))

lemma resourceEqual_ports: "map_keys_ok (rc_env r) \<Longrightarrow> resourceEqual r (r\<lparr>rc_ports := ps\<rparr>)"
  by (simp add: resourceEqual_def stringMapEqual_refl stringSliceEqual_iff)

text \<open>A reload is blind to the ports of a resource and to the stack's gateway, logging and telemetry blocks: a
  stack that differs in nothing else gives an empty difference, although the plan announces every resource
  whose ports change.\<close>

theorem reload_misses_changes:
  assumes "names_ok s"
  shows "diff_IsEmpty (ComputeDiff pd ds s (s\<lparr>sk_resources := map (\<lambda>r. r\<lparr>rc_ports := f r\<rparr>) (sk_resources s), sk_gateway := g,
      sk_logging := l, sk_telemetry := t\<rparr>))
    \<and> (\<forall>r\<in>set (sk_resources s). f r \<noteq> rc_ports r \<longrightarrow>
         planned (ComputePlan pd ds (Some (s\<lparr>sk_resources := map (\<lambda>r. r\<lparr>rc_ports := f r\<rparr>) (sk_resources s), sk_gateway := g,
      sk_logging := l, sk_telemetry := t\<rparr>)) (Some s)) DiffChange ''resource'' (rc_name r))"
proof (intro conjI ballI impI)
  show "diff_IsEmpty (ComputeDiff pd ds s (s\<lparr>sk_resources := map (\<lambda>r. r\<lparr>rc_ports := f r\<rparr>) (sk_resources s), sk_gateway := g,
      sk_logging := l, sk_telemetry := t\<rparr>))"
    by (rule unchanged_stack [OF assms, where f = "\<lambda>r. r\<lparr>rc_ports := f r\<rparr>"])
      (use assms in \<open>auto simp: names_ok_def list_all_iff intro: resourceEqual_ports\<close>)
next
  fix r assume r: "r \<in> set (sk_resources s)" and p: "f r \<noteq> rc_ports r"
  let ?q = "r\<lparr>rc_ports := f r\<rparr>" and ?rs = "map (\<lambda>r. r\<lparr>rc_ports := f r\<rparr>) (sk_resources s)"
  have d: "distinct (map rc_name (sk_resources s))" "distinct (map rc_name ?rs)" using assms by (simp_all add: names_ok_def comp_def)
  have c: "map_of (by_name rc_name (sk_resources s)) (rc_name r) = Some r" using by_name_distinct [OF d(1) r] .
  have n: "map_of (by_name rc_name ?rs) (rc_name r) = Some ?q" using by_name_distinct [OF d(2), of ?q] r by simp
  have "compareResources ?q r \<noteq> []" using p by (simp add: compareResources_def stringSliceEqual_iff)
  then have "list_ex (\<lambda>i. di_action i = DiffChange \<and> di_kind i = ''resource'' \<and> di_name i = rc_name r)
      (diffNamedItems ''resource'' (by_name rc_name ?rs) (by_name rc_name (sk_resources s)) compareResources)"
    unfolding named_items_planned using c n by simp
  then show "planned (ComputePlan pd ds (Some (s\<lparr>sk_resources := ?rs, sk_gateway := g, sk_logging := l, sk_telemetry := t\<rparr>)) (Some s))
      DiffChange ''resource'' (rc_name r)"
    by (simp add: planned_def ComputePlan_def Let_def list_ex_append)
qed

definition db_resource :: resource where
  "db_resource = \<lparr>rc_name = ''db'', rc_image = ''postgres'', rc_env = [], rc_ports = [''5432:5432''], rc_volumes = [], rc_network = []\<rparr>"

theorem reload_misses_changes_witness:
  "diff_IsEmpty (ComputeDiff (\<lambda>_. None) itoa ((blank_stack [])\<lparr>sk_resources := [db_resource]\<rparr>)
     ((blank_stack [])\<lparr>sk_resources := [db_resource\<lparr>rc_ports := [''5433:5432'']\<rparr>], sk_gateway := None, sk_logging := None, sk_telemetry := None\<rparr>))
   \<and> planned (ComputePlan (\<lambda>_. None) itoa (Some ((blank_stack [])\<lparr>sk_resources := [db_resource\<lparr>rc_ports := [''5433:5432'']\<rparr>], sk_gateway := None,
        sk_logging := None, sk_telemetry := None\<rparr>)) (Some ((blank_stack [])\<lparr>sk_resources := [db_resource]\<rparr>))) DiffChange ''resource'' ''db''"
  using reload_misses_changes [where s = "(blank_stack [])\<lparr>sk_resources := [db_resource]\<rparr>" and pd = "\<lambda>_. None" and ds = itoa
      and f = "\<lambda>_. [''5433:5432'']" and g = None and l = None and t = None]
  by (simp add: names_ok_def blank_stack_def db_resource_def)

text \<open>The comparison of environments reads a missing variable as an empty one: renaming a variable whose value
  is empty, whatever the new value, is no change.\<close>

lemma renamed_empty_variable_unnoticed:
  "resourceEqual (r\<lparr>rc_env := [(k, [])]\<rparr>) (r\<lparr>rc_env := [(j, v)]\<rparr>) \<longleftrightarrow> k \<noteq> j \<or> v = []"
  by (auto simp: resourceEqual_def stringMapEqual_def stringSliceEqual_iff)

lemma self_diff_empty: "names_ok s \<Longrightarrow> diff_IsEmpty (ComputeDiff pd ds s s)"
  by (rule unchanged_stack [where f = "\<lambda>r. r"])
    (auto simp: names_ok_def list_all_iff resourceEqual_def stringMapEqual_refl stringSliceEqual_iff)

end
