(* ===== verification/Secret_Inject.thy ===== *)
theory Secret_Inject
  imports Config_Accept
begin

text \<open>
  Variable sets reach workloads at load time: \<^verbatim>\<open>injectSetSecrets\<close> of \<^verbatim>\<open>pkg/config/loader.go\<close>. The
  variable store is the function \<open>lookup\<close> from a set name to the variables of that set
  (\<^verbatim>\<open>VaultSetLookup.GetSetSecrets\<close>). Go iterates the members of a set in no fixed order; the model uses
  the order in which the store returns them, and the theorems speak of the resulting environment as a map.
\<close>

subsection \<open>Model\<close>

definition set_members :: "(string \<Rightarrow> variable list) \<Rightarrow> string \<Rightarrow> (string, string) gomap" where
  "set_members lookup name =
     fold (\<lambda>sec members. if IsInternalCredential (v_key sec) then members else AList.update (v_key sec) (v_value sec) members)
       (lookup name) []"

definition secretsFor :: "secret_set_ref list \<Rightarrow> (string \<Rightarrow> variable list) \<Rightarrow> (string, (string, string) gomap) gomap" where
  "secretsFor sets lookup =
     fold (\<lambda>ref m. if map_has m (sr_name ref) then m else AList.update (sr_name ref) (set_members lookup (sr_name ref)) m) sets []"

definition inject :: "(string, string) gomap \<Rightarrow> (string, string) gomap \<Rightarrow> (string, string) gomap" where
  "inject env vals = fold (\<lambda>(k, v) e. if map_has e k then e else AList.update k v e) vals env"

text \<open>The loop over the sets for one workload, \<open>reaches\<close> being the scope test of its kind.\<close>

definition inject_sets ::
  "(string, (string, string) gomap) gomap \<Rightarrow> (secret_set_ref \<Rightarrow> bool) \<Rightarrow> secret_set_ref list \<Rightarrow> (string, string) gomap \<Rightarrow> (string, string) gomap" where
  "inject_sets tbl reaches sets env =
     fold (\<lambda>ref e. let vals = (case map_of tbl (sr_name ref) of None \<Rightarrow> [] | Some m \<Rightarrow> m) in
                   if vals = [] \<or> \<not> reaches ref then e else inject e vals) sets env"

definition injectSetSecrets :: "stack \<Rightarrow> (string \<Rightarrow> variable list) \<Rightarrow> stack" where
  "injectSetSecrets s lookup =
     (let sets = (case sk_secrets s of None \<Rightarrow> [] | Some l \<Rightarrow> l); tbl = secretsFor sets lookup in
      s\<lparr>sk_servers := map (\<lambda>srv. srv\<lparr>sv_env := inject_sets tbl (\<lambda>r. InjectsIntoServer r (sv_name srv)) sets (sv_env srv)\<rparr>) (sk_servers s),
        sk_resources := map (\<lambda>res. res\<lparr>rc_env := inject_sets tbl (\<lambda>r. InjectsIntoResource r (rc_name res)) sets (rc_env res)\<rparr>) (sk_resources s)\<rparr>)"

subsection \<open>The environment a workload gets\<close>

text \<open>What a set offers: its variables, internal credentials left out, a later record of a key winning.\<close>

definition offers :: "(string \<Rightarrow> variable list) \<Rightarrow> string \<Rightarrow> string \<Rightarrow> string option" where
  "offers lookup name k =
     (if IsInternalCredential k then None
      else map_option v_value (find (\<lambda>v. v_key v = k) (rev (lookup name))))"

fun first_offer :: "(string \<Rightarrow> variable list) \<Rightarrow> (secret_set_ref \<Rightarrow> bool) \<Rightarrow> string \<Rightarrow> secret_set_ref list \<Rightarrow> string option" where
  "first_offer lookup reaches k [] = None"
| "first_offer lookup reaches k (r # rs) =
     (case (if reaches r then offers lookup (sr_name r) k else None) of
        None \<Rightarrow> first_offer lookup reaches k rs | Some v \<Rightarrow> Some v)"

lemma map_of_set_members: "map_of (set_members lookup name) k = offers lookup name k"
proof -
  have "map_of (fold (\<lambda>sec members. if IsInternalCredential (v_key sec) then members else AList.update (v_key sec) (v_value sec) members) vs []) k
    = (if IsInternalCredential k then None else map_option v_value (find (\<lambda>v. v_key v = k) (rev vs)))" for vs
    by (induction vs rule: rev_induct) (auto simp: update_conv' find_append)
  then show ?thesis unfolding set_members_def offers_def .
qed

lemma map_of_secretsFor_fold:
  "map_of (fold (\<lambda>ref m. if map_has m (sr_name ref) then m else AList.update (sr_name ref) (set_members lookup (sr_name ref)) m) sets m) n
     = (case map_of m n of Some x \<Rightarrow> Some x | None \<Rightarrow> if n \<in> sr_name ` set sets then Some (set_members lookup n) else None)"
  by (induction sets arbitrary: m) (auto simp: update_conv' split: option.splits)

lemma map_of_secretsFor: "r \<in> set sets \<Longrightarrow> map_of (secretsFor sets lookup) (sr_name r) = Some (set_members lookup (sr_name r))"
  unfolding secretsFor_def map_of_secretsFor_fold by auto

lemma map_of_inject: "map_of (inject env vals) k = (case map_of env k of Some v \<Rightarrow> Some v | None \<Rightarrow> map_of vals k)"
  unfolding inject_def by (induction vals arbitrary: env) (auto simp: update_conv' split: option.splits if_splits)

lemma map_of_inject_sets:
  assumes "\<forall>r\<in>set sets. map_of tbl (sr_name r) = Some (set_members lookup (sr_name r))"
  shows "map_of (inject_sets tbl reaches sets env) k
    = (case map_of env k of Some v \<Rightarrow> Some v | None \<Rightarrow> first_offer lookup reaches k sets)"
  using assms
proof (induction sets arbitrary: env)
  case (Cons r rs)
  have "map_of [] k = (None :: string option)" by simp
  then have "set_members lookup (sr_name r) = [] \<Longrightarrow> offers lookup (sr_name r) k = None"
    by (metis map_of_set_members)
  with Cons show ?case
    by (auto simp: inject_sets_def Let_def map_of_inject map_of_set_members split: option.splits)
qed (simp add: inject_sets_def split: option.split)

definition sets_of :: "stack \<Rightarrow> secret_set_ref list" where
  "sets_of s = (case sk_secrets s of None \<Rightarrow> [] | Some l \<Rightarrow> l)"

definition env_after :: "(string \<Rightarrow> variable list) \<Rightarrow> (secret_set_ref \<Rightarrow> bool) \<Rightarrow> stack \<Rightarrow> (string, string) gomap \<Rightarrow> (string, string) gomap" where
  "env_after lookup reaches s env = inject_sets (secretsFor (sets_of s) lookup) reaches (sets_of s) env"

lemma injectSetSecrets_eq:
  "injectSetSecrets s lookup =
     s\<lparr>sk_servers := map (\<lambda>srv. srv\<lparr>sv_env := env_after lookup (\<lambda>r. InjectsIntoServer r (sv_name srv)) s (sv_env srv)\<rparr>) (sk_servers s),
       sk_resources := map (\<lambda>res. res\<lparr>rc_env := env_after lookup (\<lambda>r. InjectsIntoResource r (rc_name res)) s (rc_env res)\<rparr>) (sk_resources s)\<rparr>"
  by (simp add: injectSetSecrets_def Let_def env_after_def sets_of_def)

lemma map_of_env_after:
  "map_of (env_after lookup reaches s env) k
     = (case map_of env k of Some v \<Rightarrow> Some v | None \<Rightarrow> first_offer lookup reaches k (sets_of s))"
  by (simp add: env_after_def map_of_inject_sets [where lookup = lookup] map_of_secretsFor)

text \<open>C20. Injection is exact: only environments change, and the value of a key in a workload's environment is the
  one written in the stack if there is one, and else the one of the first listed set that reaches the workload
  and has the key as an ordinary variable; a key no such set offers stays absent.\<close>

theorem injected_environment:
  "list_all2 (\<lambda>srv srv'. srv' = srv\<lparr>sv_env := sv_env srv'\<rparr>
       \<and> (\<forall>k. map_of (sv_env srv') k = (case map_of (sv_env srv) k of Some v \<Rightarrow> Some v
            | None \<Rightarrow> first_offer lookup (\<lambda>r. InjectsIntoServer r (sv_name srv)) k (sets_of s))))
     (sk_servers s) (sk_servers (injectSetSecrets s lookup))
   \<and> list_all2 (\<lambda>res res'. res' = res\<lparr>rc_env := rc_env res'\<rparr>
       \<and> (\<forall>k. map_of (rc_env res') k = (case map_of (rc_env res) k of Some v \<Rightarrow> Some v
            | None \<Rightarrow> first_offer lookup (\<lambda>r. InjectsIntoResource r (rc_name res)) k (sets_of s))))
     (sk_resources s) (sk_resources (injectSetSecrets s lookup))
   \<and> injectSetSecrets s lookup = s\<lparr>sk_servers := sk_servers (injectSetSecrets s lookup), sk_resources := sk_resources (injectSetSecrets s lookup)\<rparr>"
  unfolding injectSetSecrets_eq by (simp add: list.rel_map list.rel_refl map_of_env_after)

subsection \<open>Scopes\<close>

text \<open>Validation lists a scoped set once: of two entries with one name neither is scoped.\<close>

definition listed_once :: "secret_set_ref list \<Rightarrow> nat \<Rightarrow> bool" where
  "listed_once all n \<longleftrightarrow> (\<forall>q j. q < j \<and> j < n \<and> sr_name (all ! q) = sr_name (all ! j) \<and> sr_name (all ! j) \<noteq> []
     \<longrightarrow> \<not> Scoped (all ! q) \<and> \<not> Scoped (all ! j))"

lemma listed_once_Suc:
  assumes "listed_once all i"
    and "\<And>q. \<lbrakk>q < i; sr_name (all ! q) = sr_name (all ! i); sr_name (all ! i) \<noteq> []\<rbrakk> \<Longrightarrow> \<not> Scoped (all ! q) \<and> \<not> Scoped (all ! i)"
  shows "listed_once all (Suc i)"
  using assms unfolding listed_once_def less_Suc_eq by metis

definition seen_ok :: "secret_set_ref list \<Rightarrow> nat \<Rightarrow> (string, nat) gomap \<Rightarrow> bool" where
  "seen_ok all i fa \<longleftrightarrow> (\<forall>n p. map_of fa n = Some p \<longrightarrow> p < i \<and> sr_name (all ! p) = n)
     \<and> (\<forall>q<i. sr_name (all ! q) \<noteq> [] \<longrightarrow> map_of fa (sr_name (all ! q)) \<noteq> None)"

lemma repeated_sets_ok:
  "\<lbrakk>repeated_sets all i fs fa rs = []; drop i all = rs; i \<le> length all; seen_ok all i fa; listed_once all i\<rbrakk>
     \<Longrightarrow> listed_once all (length all)"
proof (induction all i fs fa rs rule: repeated_sets.induct)
  case (2 all i fs fa r rs)
  from "2.prems"(2,3) have r: "all ! i = r" "drop (Suc i) all = rs" "i < length all"
    by (metis nth_via_drop, metis drop_Suc list.sel(3) tl_drop, metis drop_all list.distinct(1) not_less)
  show ?case
  proof (cases "sr_name r = []")
    case True
    then have "listed_once all (Suc i)" "seen_ok all (Suc i) fa"
      using "2.prems"(4,5) r(1) by (auto intro!: listed_once_Suc simp: seen_ok_def less_Suc_eq)
    then show ?thesis using "2.IH"(1) True "2.prems"(1) r by simp
  next
    case False
    let ?fa = "if map_of fa (sr_name r) = None then AList.update (sr_name r) i fa else fa"
    have seen: "seen_ok all (Suc i) ?fa"
      using "2.prems"(4) r(1) by (auto simp: seen_ok_def less_Suc_eq update_conv')
    have "listed_once all (Suc i)"
    proof (rule listed_once_Suc [OF "2.prems"(5)])
      fix q assume q: "q < i" "sr_name (all ! q) = sr_name (all ! i)" "sr_name (all ! i) \<noteq> []"
      with "2.prems"(4) r(1) obtain p where p: "map_of fa (sr_name r) = Some p" "p < i" "sr_name (all ! p) = sr_name r"
        by (fastforce simp: seen_ok_def)
      with "2.prems"(1) False r(1) have n: "\<not> Scoped (all ! i)" "\<not> Scoped (all ! p)" by (auto simp: Let_def)
      show "\<not> Scoped (all ! q) \<and> \<not> Scoped (all ! i)"
        using "2.prems"(5) q p n r(1) unfolding listed_once_def by (metis linorder_neqE_nat)
    qed
    then show ?thesis using "2.IH"(2) False "2.prems"(1) r seen by (simp add: Let_def)
  qed
qed simp

lemma accepted_scoped_once:
  assumes "accepted env s" and "r \<in> set (sets_of s)" and "q \<in> set (sets_of s)" and "Scoped r" and "sr_name q = sr_name r"
  shows "q = r"
proof -
  obtain sets where sets: "sk_secrets s = Some sets" "sets_of s = sets" using assms(2) by (cases "sk_secrets s") (auto simp: sets_of_def)
  from acceptedD [OF assms(1)] sets have v: "repeated_sets sets 0 [] [] sets = []"
    "for_each sets (check_set_ref (map sv_name (sk_servers s)) (map rc_name (sk_resources s))) = []"
    by (auto simp: validateSecrets_def)
  from repeated_sets_ok [OF v(1)] have once: "listed_once sets (length sets)" by (simp add: seen_ok_def listed_once_def)
  from assms(2,3) sets obtain a b where ab: "a < length sets" "sets ! a = r" "b < length sets" "sets ! b = q" by (auto simp: in_set_conv_nth)
  have "check_set_ref (map sv_name (sk_servers s)) (map rc_name (sk_resources s)) a r = []" using v(2) ab(1,2) by auto
  with assms(4) have "sr_name r \<noteq> []" by (auto simp: check_set_ref_def Let_def)
  with once ab assms(4,5) have "a = b" unfolding listed_once_def by (metis linorder_neqE_nat)
  with ab show ?thesis by simp
qed

lemma first_offer_cong:
  "\<lbrakk>\<And>r. r \<in> set sets \<Longrightarrow> reaches r \<Longrightarrow> lookup (sr_name r) = lookup' (sr_name r)\<rbrakk>
     \<Longrightarrow> first_offer lookup reaches k sets = first_offer lookup' reaches k sets"
  by (induction sets) (auto simp: offers_def split: option.split)

text \<open>C19. A scoped set stays in its scope: in an accepted stack, two variable stores that differ only in the contents
  of a scoped set give the same environment to every server and resource the set does not name.\<close>

theorem scoped_set_stays_in_scope:
  assumes "accepted env s" and "r \<in> set (sets_of s)" and "Scoped r"
    and "\<forall>n. n \<noteq> sr_name r \<longrightarrow> lookup n = lookup' n"
  shows "(\<forall>i < length (sk_servers s). sv_name (sk_servers s ! i) \<notin> set (sr_servers r) \<longrightarrow>
       map_of (sv_env (sk_servers (injectSetSecrets s lookup) ! i)) = map_of (sv_env (sk_servers (injectSetSecrets s lookup') ! i)))
    \<and> (\<forall>i < length (sk_resources s). rc_name (sk_resources s ! i) \<notin> set (sr_resources r) \<longrightarrow>
       map_of (rc_env (sk_resources (injectSetSecrets s lookup) ! i)) = map_of (rc_env (sk_resources (injectSetSecrets s lookup') ! i)))"
proof -
  have same: "first_offer lookup reaches k (sets_of s) = first_offer lookup' reaches k (sets_of s)" if "\<not> reaches r" for reaches k
    using that assms(4) accepted_scoped_once [OF assms(1,2) _ assms(3)] by (intro first_offer_cong) metis
  have "\<not> InjectsIntoServer r n" if "n \<notin> set (sr_servers r)" for n using that assms(3) by (simp add: InjectsIntoServer_def)
  moreover have "\<not> InjectsIntoResource r n" if "n \<notin> set (sr_resources r)" for n using that assms(3) by (simp add: InjectsIntoResource_def)
  ultimately show ?thesis unfolding injectSetSecrets_eq
    by (auto simp: fun_eq_iff map_of_env_after same [where reaches = "\<lambda>r. InjectsIntoServer r n" for n]
        same [where reaches = "\<lambda>r. InjectsIntoResource r n" for n] split: option.split)
qed

definition scoped_stack :: stack where
  "scoped_stack = (blank_stack [(blank_server ''db'')\<lparr>sv_command := [''run'']\<rparr>, (blank_server ''web'')\<lparr>sv_command := [''run'']\<rparr>])
     \<lparr>sk_secrets := Some [\<lparr>sr_name = ''prod'', sr_servers = [''db''], sr_resources = [], sr_scopeDeclared = True\<rparr>]\<rparr>"

definition demo_lookup :: "string \<Rightarrow> string \<Rightarrow> variable list" where
  "demo_lookup val n = (if n = ''prod'' then [\<lparr>v_key = ''PASS'', v_value = val, v_type = [], v_isSecret = True, v_set = ''prod'', v_description = [], v_docs = [], v_example = [], v_deprecated = [], v_lastRotated = []\<rparr>] else [])"

theorem scoped_set_stays_in_scope_witness:
  "map_of (sv_env (sk_servers (injectSetSecrets scoped_stack (demo_lookup ''a'')) ! 1))
     = map_of (sv_env (sk_servers (injectSetSecrets scoped_stack (demo_lookup ''b'')) ! 1))
   \<and> sv_env (sk_servers (injectSetSecrets scoped_stack (demo_lookup ''a'')) ! 0) = [(''PASS'', ''a'')]"
proof -
  have a: "accepted demo_venv scoped_stack" by code_simp
  let ?r = "hd (sets_of scoped_stack)"
  have r: "?r \<in> set (sets_of scoped_stack)" "Scoped ?r" "sr_name ?r = ''prod''" "sr_servers ?r = [''db'']" by code_simp+
  have "\<forall>n. n \<noteq> sr_name ?r \<longrightarrow> demo_lookup ''a'' n = demo_lookup ''b'' n" by (simp add: r(3) demo_lookup_def)
  from scoped_set_stays_in_scope [OF a r(1,2) this] r(4)
  have "map_of (sv_env (sk_servers (injectSetSecrets scoped_stack (demo_lookup ''a'')) ! 1))
     = map_of (sv_env (sk_servers (injectSetSecrets scoped_stack (demo_lookup ''b'')) ! 1))"
    by (simp add: scoped_stack_def blank_stack_def blank_server_def)
  moreover have "sv_env (sk_servers (injectSetSecrets scoped_stack (demo_lookup ''a'')) ! 0) = [(''PASS'', ''a'')]" by code_simp
  ultimately show ?thesis by simp
qed

end
