(* ===== verification/Expand.thy ===== *)
theory Expand
  imports Config_Types Vault Regex
begin

text \<open>
  Variable expansion (\<^verbatim>\<open>pkg/config/expand.go\<close>). The regular expression
  \<^verbatim>\<open>expandRegex\<close> is the scanner \<open>match_ref\<close>: since the character after a name is never a name
  character, the leftmost-first match of the Go engine is the one the scanner finds. The callback of
  \<^verbatim>\<open>ReplaceAllStringFunc\<close> is \<open>expand_ref\<close> on the match, whose submatches are the fields of a
  \<open>token\<close>; \<open>match_source\<close> shows that matching the matched text again, as the code does, gives the same
  submatches. The variable store and the process environment are functions from names to values.
\<close>

subsection \<open>Resolution\<close>

datatype resolution_verdict = ResolutionStore | ResolutionEnvFallback | ResolutionUnset | ResolutionDenied

record resolution_result =
  rr_value :: string
  rr_verdict :: resolution_verdict
  rr_error :: "vault_error option"

type_synonym lookup = "string \<Rightarrow> string option"
type_synonym reference_resolver = "string \<Rightarrow> bool \<Rightarrow> resolution_result"

definition denied_result :: "string \<Rightarrow> resolution_result" where
  "denied_result name = \<lparr>rr_value = [], rr_verdict = ResolutionDenied, rr_error = Some (ErrInternalCredential name)\<rparr>"

definition resolve_in :: "lookup option \<Rightarrow> lookup \<Rightarrow> string \<Rightarrow> resolution_result" where
  "resolve_in store getenv name =
     (case Option.bind store (\<lambda>get. get name) of
        Some v \<Rightarrow> \<lparr>rr_value = v, rr_verdict = ResolutionStore, rr_error = None\<rparr>
      | None \<Rightarrow>
          (case getenv name of
             Some v \<Rightarrow> \<lparr>rr_value = v, rr_verdict = ResolutionEnvFallback, rr_error = None\<rparr>
           | None \<Rightarrow> \<lparr>rr_value = [], rr_verdict = ResolutionUnset, rr_error = None\<rparr>))"

definition ResolveVariable :: "lookup option \<Rightarrow> lookup \<Rightarrow> string \<Rightarrow> resolution_result" where
  "ResolveVariable store getenv name =
     (if IsInternalCredential name then denied_result name else resolve_in store getenv name)"

definition exactInternalCredential :: "string \<Rightarrow> bool" where
  "exactInternalCredential name \<longleftrightarrow> name \<in> set internalCredentialKeys"

definition newReferenceResolver :: "lookup option \<Rightarrow> lookup \<Rightarrow> reference_resolver" where
  "newReferenceResolver store getenv name storeReference =
     (if storeReference then ResolveVariable store getenv name
      else if exactInternalCredential name then denied_result name
      else resolve_in store getenv name)"

definition VaultResolver :: "lookup \<Rightarrow> lookup \<Rightarrow> lookup" where
  "VaultResolver store getenv name = (case store name of Some v \<Rightarrow> Some v | None \<Rightarrow> getenv name)"

subsection \<open>The scanner\<close>

datatype operator = NoOp | OrDefault string | IfSet string

datatype token = Lit char | Bare string | Braced string string operator

definition name_start :: "char \<Rightarrow> bool" where
  "name_start c \<longleftrightarrow> is_lower c \<or> is_upper c \<or> c = CHR ''_''"

definition name_char :: "char \<Rightarrow> bool" where
  "name_char c \<longleftrightarrow> is_lower c \<or> is_upper c \<or> is_digit c \<or> c = CHR ''_''"

definition take_name :: "string \<Rightarrow> (string \<times> string) option" where
  "take_name s =
     (case s of [] \<Rightarrow> None
      | c # cs \<Rightarrow> if name_start c then Some (c # takeWhile name_char cs, dropWhile name_char cs) else None)"

definition take_operand :: "string \<Rightarrow> (string \<times> string) option" where
  "take_operand s =
     (case dropWhile (\<lambda>c. c \<noteq> CHR ''}'') s of [] \<Rightarrow> None | _ # r \<Rightarrow> Some (takeWhile (\<lambda>c. c \<noteq> CHR ''}'') s, r))"

definition take_operator :: "string \<Rightarrow> (operator \<times> string) option" where
  "take_operator s =
     (case s of
        c # r \<Rightarrow>
          if c = CHR ''}'' then Some (NoOp, r)
          else if c = CHR '':'' then
            (case r of
               o1 # q \<Rightarrow>
                 if o1 = CHR ''-'' then map_option (map_prod OrDefault id) (take_operand q)
                 else if o1 = CHR ''+'' then map_option (map_prod IfSet id) (take_operand q)
                 else None
             | [] \<Rightarrow> None)
          else None
      | [] \<Rightarrow> None)"

definition take_body :: "string \<Rightarrow> string \<Rightarrow> (token \<times> string) option" where
  "take_body pfx s =
     (case take_name s of None \<Rightarrow> None
      | Some (name, r) \<Rightarrow> map_option (map_prod (Braced pfx name) id) (take_operator r))"

definition take_prefixed :: "string \<Rightarrow> string \<Rightarrow> (token \<times> string) option" where
  "take_prefixed pfx s = (if prefix (pfx @ '':'') s then take_body pfx (drop (length pfx + 1) s) else None)"

definition or_else :: "'a option \<Rightarrow> 'a option \<Rightarrow> 'a option" where
  "or_else a b = (case a of None \<Rightarrow> b | Some x \<Rightarrow> Some x)"

definition match_ref :: "string \<Rightarrow> (token \<times> string) option" where
  "match_ref s =
     (case s of
        c # r \<Rightarrow>
          if c \<noteq> CHR ''$'' then None
          else (case r of
              b # q \<Rightarrow> if b = CHR ''{''
                then or_else (take_prefixed ''vault'' q) (or_else (take_prefixed ''var'' q) (take_body [] q))
                else map_option (map_prod Bare id) (take_name r)
            | [] \<Rightarrow> None)
      | [] \<Rightarrow> None)"

fun source_op :: "operator \<Rightarrow> string" where
  "source_op NoOp = ''}''"
| "source_op (OrDefault d) = '':-'' @ d @ ''}''"
| "source_op (IfSet d) = '':+'' @ d @ ''}''"

fun source_of :: "token \<Rightarrow> string" where
  "source_of (Lit c) = [c]"
| "source_of (Bare n) = ''$'' @ n"
| "source_of (Braced p n op) = ''${'' @ (if p = [] then [] else p @ '':'') @ n @ source_op op"

lemma take_name_concat: "take_name s = Some (n, r) \<Longrightarrow> s = n @ r \<and> n \<noteq> []"
  by (auto simp: take_name_def split: list.splits if_splits)

lemma take_operand_concat:
  assumes "take_operand s = Some (d, r)"
  shows "s = d @ ''}'' @ r \<and> CHR ''}'' \<notin> set d"
proof -
  from assms obtain c where c: "dropWhile (\<lambda>c. c \<noteq> CHR ''}'') s = c # r" "d = takeWhile (\<lambda>c. c \<noteq> CHR ''}'') s"
    by (auto simp: take_operand_def split: list.splits)
  then have "c = CHR ''}''" by (simp add: dropWhile_eq_Cons_conv)
  with c takeWhile_dropWhile_id [of "\<lambda>c. c \<noteq> CHR ''}''" s] show ?thesis by (auto dest: set_takeWhileD)
qed

lemma take_operator_concat: "take_operator s = Some (op, r) \<Longrightarrow> s = source_op op @ r"
  by (auto simp: take_operator_def dest!: take_operand_concat split: list.splits if_splits)

lemma take_body_concat: "take_body p s = Some (t, r) \<Longrightarrow> ''${'' @ (if p = [] then [] else p @ '':'') @ s = source_of t @ r"
  by (auto simp: take_body_def dest!: take_name_concat take_operator_concat split: option.splits)

lemma take_prefixed_concat: "take_prefixed p s = Some (t, r) \<Longrightarrow> p \<noteq> [] \<Longrightarrow> ''${'' @ s = source_of t @ r"
  using take_body_concat [of p] by (auto simp: take_prefixed_def prefix_def split: if_splits)

lemma match_ref_concat: "match_ref s = Some (t, r) \<Longrightarrow> s = source_of t @ r"
  using take_prefixed_concat [of "''vault''"] take_prefixed_concat [of "''var''"] take_body_concat [of "[]"]
  by (auto simp: match_ref_def or_else_def dest!: take_name_concat split: list.splits if_splits option.splits)

lemma source_of_nonempty [simp]: "source_of t \<noteq> []"
  by (cases t) auto

lemma match_ref_shorter: "match_ref s = Some (t, r) \<Longrightarrow> length r < length s"
  by (drule match_ref_concat) (simp add: length_greater_0_conv)

function tokens :: "string \<Rightarrow> token list" where
  "tokens [] = []"
| "tokens (c # cs) =
     (case match_ref (c # cs) of
        None \<Rightarrow> Lit c # tokens cs
      | Some (t, r) \<Rightarrow> t # tokens r)"
  by pat_completeness auto
termination by (relation "measure length") (auto dest: match_ref_shorter)

lemma concat_source_tokens: "concat (map source_of (tokens s)) = s"
  by (induction s rule: tokens.induct) (auto split: option.splits dest: match_ref_concat)

text \<open>Matching the matched text alone gives the same submatches.\<close>

lemma take_name_prefix: "take_name s = Some (n, r) \<Longrightarrow> (\<And>c q. r' = c # q \<Longrightarrow> \<not> name_char c) \<Longrightarrow> take_name (n @ r') = Some (n, r')"
  by (cases r') (auto simp: take_name_def takeWhile_append dropWhile_append split: list.splits if_splits dest: set_takeWhileD)

lemma take_operand_prefix: "take_operand s = Some (d, r) \<Longrightarrow> take_operand (d @ ''}'') = Some (d, [])"
proof -
  assume "take_operand s = Some (d, r)"
  then have "\<forall>c\<in>set d. c \<noteq> CHR ''}''" by (auto dest: take_operand_concat)
  then show ?thesis by (auto simp: take_operand_def takeWhile_append2 dropWhile_append2)
qed

lemma take_operator_prefix: "take_operator s = Some (op, r) \<Longrightarrow> take_operator (source_op op) = Some (op, [])"
  by (auto simp: take_operator_def take_operand_prefix split: list.splits if_splits)

lemma punct: "\<not> name_char CHR ''}''" "\<not> name_char CHR '':''" "\<not> name_start CHR ''-''" "\<not> name_start CHR ''+''" "\<not> name_start CHR ''{''"
  by code_simp+

lemma source_op_head: "source_op op = c # q \<Longrightarrow> \<not> name_char c"
  by (cases op) (auto simp: punct)

lemma take_body_prefix:
  assumes "take_body p s = Some (t, r)"
  obtains n op where "t = Braced p n op" "take_body p (n @ source_op op) = Some (t, [])" "take_name s = Some (n, source_op op @ r)"
proof -
  from assms obtain n q op where s: "take_name s = Some (n, q)" "take_operator q = Some (op, r)" "t = Braced p n op"
    by (auto simp: take_body_def split: option.splits)
  have "take_name (n @ source_op op) = Some (n, source_op op)" using take_name_prefix [OF s(1)] source_op_head by blast
  with s show ?thesis using that take_operator_concat [OF s(2)] by (simp add: take_body_def take_operator_prefix [OF s(2)])
qed

lemma take_prefixed_unprefixed:
  assumes "take_name s = Some (n, q)" and "\<forall>c\<in>set p. name_char c"
  shows "take_prefixed p (n @ source_op op) = None"
proof (rule ccontr)
  assume "take_prefixed p (n @ source_op op) \<noteq> None"
  then obtain r where r: "n @ source_op op = p @ '':'' @ r" "take_body p r \<noteq> None"
    by (auto simp: take_prefixed_def prefix_def split: if_splits)
  have nc: "name_char c" if "name_start c" for c using that by (auto simp: name_start_def name_char_def)
  have n: "\<forall>c\<in>set n. name_char c"
    using assms(1) by (auto simp: take_name_def nc split: list.splits if_splits dest: set_takeWhileD)
  obtain c q' where q: "source_op op = c # q'" "\<not> name_char c" using source_op_head by (cases "source_op op") (auto, cases op, auto)
  have "takeWhile name_char (n @ source_op op) = n" "takeWhile name_char (p @ '':'' @ r) = p"
    using n assms(2) q punct by (simp_all add: takeWhile_append2)
  with r(1) have "source_op op = '':'' @ r" by simp
  with r(2) show False by (cases op) (auto simp: take_body_def take_name_def punct)
qed

lemma match_braced:
  "match_ref (''${'' @ q) = or_else (take_prefixed ''vault'' q) (or_else (take_prefixed ''var'' q) (take_body [] q))"
  by (simp add: match_ref_def)

lemma take_prefixed_same: "take_prefixed p (p @ '':'' @ q) = take_body p q"
  by (simp add: take_prefixed_def)

lemma take_prefixed_vault_var: "take_prefixed ''vault'' (''var'' @ '':'' @ q) = None"
  by (simp add: take_prefixed_def)

lemma match_source: "match_ref s = Some (t, r) \<Longrightarrow> match_ref (source_of t) = Some (t, [])"
proof -
  assume m: "match_ref s = Some (t, r)"
  then obtain q where q: "s = CHR ''$'' # q" by (auto simp: match_ref_def split: list.splits if_splits)
  have nm: "\<forall>c\<in>set ''vault''. name_char c" "\<forall>c\<in>set ''var''. name_char c" by code_simp+
  have body: "match_ref (source_of t) = Some (t, [])" if b: "take_body p z = Some (t, r)" and p: "p \<in> {[], ''vault'', ''var''}" for p z
  proof -
    from take_body_prefix [OF b] obtain n op where
      t: "t = Braced p n op" "take_body p (n @ source_op op) = Some (t, [])" "take_name z = Some (n, source_op op @ r)" .
    note un = take_prefixed_unprefixed [OF t(3) nm(1)] take_prefixed_unprefixed [OF t(3) nm(2)]
    consider "p = []" | "p = ''vault''" | "p = ''var''" using p by blast
    then show ?thesis
    proof cases
      case 1
      have "source_of t = ''${'' @ n @ source_op op" by (simp add: t(1) 1)
      with t(2) 1 un show ?thesis by (simp only: match_braced or_else_def option.case)
    next
      case 2
      have "source_of t = ''${'' @ ''vault'' @ '':'' @ n @ source_op op" by (simp add: t(1) 2)
      with t(2) 2 show ?thesis by (simp only: match_braced take_prefixed_same or_else_def option.case)
    next
      case 3
      have "source_of t = ''${'' @ ''var'' @ '':'' @ n @ source_op op" by (simp add: t(1) 3)
      with t(2) 3 show ?thesis by (simp only: match_braced take_prefixed_same take_prefixed_vault_var or_else_def option.case)
    qed
  qed
  show ?thesis
  proof (cases "\<exists>z. q = CHR ''{'' # z")
    case True
    then obtain z where "q = CHR ''{'' # z" by blast
    with m q have o: "or_else (take_prefixed ''vault'' z) (or_else (take_prefixed ''var'' z) (take_body [] z)) = Some (t, r)"
      by (simp add: match_ref_def)
    have b: "\<exists>y. take_body p y = Some (t, r)" if "take_prefixed p z = Some (t, r)" for p
      using that unfolding take_prefixed_def by (metis option.distinct(1))
    from o consider "take_prefixed ''vault'' z = Some (t, r)" | "take_prefixed ''var'' z = Some (t, r)" | "take_body [] z = Some (t, r)"
      unfolding or_else_def by (metis option.case_eq_if option.collapse)
    then show ?thesis by cases (use body b in blast)+
  next
    case False
    with m q obtain n where n: "take_name q = Some (n, r)" "t = Bare n" by (auto simp: match_ref_def split: list.splits if_splits)
    then have "take_name n = Some (n, [])" using take_name_prefix [of q n r "[]"] by simp
    moreover have "n \<noteq> []" "hd n \<noteq> CHR ''{''" using n(1) punct by (auto simp: take_name_def split: list.splits if_splits)
    ultimately show ?thesis using n(2) by (cases n) (auto simp: match_ref_def)
  qed
qed

subsection \<open>Expansion\<close>

record expansion_result =
  ex_expanded :: string
  ex_storeRefs :: "string list"
  ex_unresolvedVault :: "string list"
  ex_emptyEnvVars :: "string list"
  ex_denied :: "vault_error list"

definition replaced :: "string \<Rightarrow> expansion_result" where
  "replaced s = \<lparr>ex_expanded = s, ex_storeRefs = [], ex_unresolvedVault = [], ex_emptyEnvVars = [], ex_denied = []\<rparr>"

definition expand_bare :: "reference_resolver \<Rightarrow> string \<Rightarrow> expansion_result" where
  "expand_bare resolve varName =
     (let res = resolve varName False in
      case rr_error res of
        Some e \<Rightarrow> (replaced (source_of (Bare varName)))\<lparr>ex_denied := [e]\<rparr>
      | None \<Rightarrow>
          (replaced (rr_value res))\<lparr>ex_emptyEnvVars :=
             (if rr_verdict res = ResolutionUnset \<or> rr_value res = [] then [varName] else [])\<rparr>)"

definition expand_braced :: "reference_resolver \<Rightarrow> string \<Rightarrow> string \<Rightarrow> operator \<Rightarrow> expansion_result" where
  "expand_braced resolve pfx varName op =
     (let isStoreRef = (pfx = ''vault'' \<or> pfx = ''var'');
          refs = (if isStoreRef then [varName] else []);
          res = resolve varName isStoreRef;
          val = rr_value res;
          exists = (rr_verdict res \<noteq> ResolutionUnset);
          match = source_of (Braced pfx varName op)
      in case rr_error res of
          Some e \<Rightarrow> (replaced match)\<lparr>ex_storeRefs := refs, ex_denied := [e]\<rparr>
        | None \<Rightarrow>
            (case op of
               NoOp \<Rightarrow>
                 if isStoreRef \<and> \<not> exists then (replaced match)\<lparr>ex_storeRefs := refs, ex_unresolvedVault := [varName]\<rparr>
                 else (replaced val)\<lparr>ex_storeRefs := refs,
                        ex_emptyEnvVars := (if \<not> isStoreRef \<and> (\<not> exists \<or> val = []) then [varName] else [])\<rparr>
             | OrDefault operand \<Rightarrow> (replaced (if val = [] then operand else val))\<lparr>ex_storeRefs := refs\<rparr>
             | IfSet operand \<Rightarrow> (replaced (if exists \<and> val \<noteq> [] then operand else []))\<lparr>ex_storeRefs := refs\<rparr>))"

fun expand_token :: "reference_resolver \<Rightarrow> token \<Rightarrow> expansion_result" where
  "expand_token resolve (Lit c) = replaced [c]"
| "expand_token resolve (Bare n) = expand_bare resolve n"
| "expand_token resolve (Braced p n op) = expand_braced resolve p n op"

definition append_result :: "expansion_result \<Rightarrow> expansion_result \<Rightarrow> expansion_result" where
  "append_result a b =
     \<lparr>ex_expanded = ex_expanded a @ ex_expanded b, ex_storeRefs = ex_storeRefs a @ ex_storeRefs b,
      ex_unresolvedVault = ex_unresolvedVault a @ ex_unresolvedVault b,
      ex_emptyEnvVars = ex_emptyEnvVars a @ ex_emptyEnvVars b, ex_denied = ex_denied a @ ex_denied b\<rparr>"

definition expandStringRefs :: "reference_resolver \<Rightarrow> string \<Rightarrow> expansion_result" where
  "expandStringRefs resolve s = foldr (\<lambda>t. append_result (expand_token resolve t)) (tokens s) (replaced [])"

definition plain_resolver :: "lookup \<Rightarrow> reference_resolver" where
  "plain_resolver resolve name storeReference =
     (case resolve name of
        None \<Rightarrow> \<lparr>rr_value = [], rr_verdict = ResolutionUnset, rr_error = None\<rparr>
      | Some v \<Rightarrow> \<lparr>rr_value = v, rr_verdict = ResolutionEnvFallback, rr_error = None\<rparr>)"

definition ExpandStringRefs :: "lookup option \<Rightarrow> lookup \<Rightarrow> string \<Rightarrow> expansion_result" where
  "ExpandStringRefs resolve getenv s =
     expandStringRefs (plain_resolver (case resolve of None \<Rightarrow> getenv | Some r \<Rightarrow> r)) s"

definition ExpandStringResolved :: "lookup option \<Rightarrow> lookup \<Rightarrow> string \<Rightarrow> expansion_result" where
  "ExpandStringResolved store getenv s = expandStringRefs (newReferenceResolver store getenv) s"

subsection \<open>One pass\<close>

text \<open>The store keys a token refers to, whatever they resolve to.\<close>

fun store_key :: "token \<Rightarrow> string list" where
  "store_key (Braced p n op) = (if p = ''vault'' \<or> p = ''var'' then [n] else [])"
| "store_key t = []"

lemma replaced_simps [simp]:
  "ex_expanded (replaced s) = s" "ex_storeRefs (replaced s) = []" "ex_unresolvedVault (replaced s) = []"
  "ex_emptyEnvVars (replaced s) = []" "ex_denied (replaced s) = []"
  by (simp_all add: replaced_def)

lemma append_result_simps [simp]:
  "ex_expanded (append_result a b) = ex_expanded a @ ex_expanded b" "ex_storeRefs (append_result a b) = ex_storeRefs a @ ex_storeRefs b"
  "ex_unresolvedVault (append_result a b) = ex_unresolvedVault a @ ex_unresolvedVault b"
  "ex_emptyEnvVars (append_result a b) = ex_emptyEnvVars a @ ex_emptyEnvVars b" "ex_denied (append_result a b) = ex_denied a @ ex_denied b"
  by (simp_all add: append_result_def)

lemma expand_token_refs: "ex_storeRefs (expand_token resolve t) = store_key t"
  by (cases t) (auto simp: expand_bare_def expand_braced_def Let_def split: option.split operator.split)

lemma foldr_append_result:
  "ex_expanded (foldr (\<lambda>t. append_result (f t)) ts (replaced [])) = concat (map (\<lambda>t. ex_expanded (f t)) ts)"
  "ex_storeRefs (foldr (\<lambda>t. append_result (f t)) ts (replaced [])) = concat (map (\<lambda>t. ex_storeRefs (f t)) ts)"
  "ex_unresolvedVault (foldr (\<lambda>t. append_result (f t)) ts (replaced [])) = concat (map (\<lambda>t. ex_unresolvedVault (f t)) ts)"
  "ex_emptyEnvVars (foldr (\<lambda>t. append_result (f t)) ts (replaced [])) = concat (map (\<lambda>t. ex_emptyEnvVars (f t)) ts)"
  "ex_denied (foldr (\<lambda>t. append_result (f t)) ts (replaced [])) = concat (map (\<lambda>t. ex_denied (f t)) ts)"
  by (induction ts) simp_all

lemmas expandStringRefs_fields = foldr_append_result [where f = "expand_token resolve" and ts = "tokens s" for resolve s,
  folded expandStringRefs_def, unfolded expand_token_refs]

lemma tokens_Lit: "CHR ''$'' \<noteq> c \<Longrightarrow> tokens (c # cs) = Lit c # tokens cs"
  by (simp add: match_ref_def)

lemma tokens_match: "match_ref s = Some (t, r) \<Longrightarrow> tokens s = t # tokens r"
  by (cases s) (simp_all add: match_ref_def)

lemma tokens_literal: "CHR ''$'' \<notin> set a \<Longrightarrow> tokens (a @ b) = map Lit a @ tokens b"
  by (induction a) (auto simp: tokens_Lit simp del: tokens.simps)

lemma expand_literal:
  "CHR ''$'' \<notin> set a \<Longrightarrow> expandStringRefs resolve (a @ b) = append_result (replaced a) (expandStringRefs resolve b)"
  by (simp add: expandStringRefs_def tokens_literal) (induction a, simp_all add: append_result_def replaced_def)

lemma expand_match:
  "match_ref s = Some (t, r) \<Longrightarrow> expandStringRefs resolve s = append_result (expand_token resolve t) (expandStringRefs resolve r)"
  by (simp add: expandStringRefs_def tokens_match)

definition valid_name :: "string \<Rightarrow> bool" where
  "valid_name n \<longleftrightarrow> (case n of [] \<Rightarrow> False | c # cs \<Rightarrow> name_start c \<and> list_all name_char cs)"

lemma match_var: "valid_name n \<Longrightarrow> match_ref (''${var:'' @ n @ ''}'' @ b) = Some (Braced ''var'' n NoOp, b)"
proof -
  assume n: "valid_name n"
  have "take_name (n @ ''}'' @ b) = Some (n, ''}'' @ b)"
    using n punct by (auto simp: valid_name_def take_name_def list_all_iff takeWhile_append2 dropWhile_append2 split: list.splits)
  then have "take_body ''var'' (n @ ''}'' @ b) = Some (Braced ''var'' n NoOp, b)" by (simp add: take_body_def take_operator_def)
  then show ?thesis
    using match_braced [of "''var'' @ '':'' @ n @ ''}'' @ b"] take_prefixed_same [of "''var''" "n @ ''}'' @ b"]
      take_prefixed_vault_var [of "n @ ''}'' @ b"] by (simp add: or_else_def)
qed

text \<open>A store reference is replaced in place and once: the text before it is copied, the reference becomes the
  value of the store, else of the environment, else it stays and is reported missing; the value itself is not
  scanned, expansion goes on after the reference, and the key is recorded whether it resolved or not.\<close>

theorem store_reference_expands:
  assumes "valid_name n" and "CHR ''$'' \<notin> set a" and "\<not> IsInternalCredential n"
  shows "ExpandStringResolved (Some store) getenv (a @ ''${var:'' @ n @ ''}'' @ b) =
    append_result
      \<lparr>ex_expanded = a @ (case VaultResolver store getenv n of Some v \<Rightarrow> v | None \<Rightarrow> ''${var:'' @ n @ ''}''),
       ex_storeRefs = [n], ex_unresolvedVault = (if VaultResolver store getenv n = None then [n] else []),
       ex_emptyEnvVars = [], ex_denied = []\<rparr>
      (ExpandStringResolved (Some store) getenv b)"
proof -
  have "expand_braced (newReferenceResolver (Some store) getenv) ''var'' n NoOp =
    \<lparr>ex_expanded = (case VaultResolver store getenv n of Some v \<Rightarrow> v | None \<Rightarrow> ''${var:'' @ n @ ''}''),
     ex_storeRefs = [n], ex_unresolvedVault = (if VaultResolver store getenv n = None then [n] else []),
     ex_emptyEnvVars = [], ex_denied = []\<rparr>"
    using assms(3) by (auto simp: expand_braced_def newReferenceResolver_def ResolveVariable_def resolve_in_def VaultResolver_def Let_def
        replaced_def split: option.splits)
  then show ?thesis
    using expand_match [OF match_var [OF assms(1), of b]] expand_literal [OF assms(2)]
    by (simp add: ExpandStringResolved_def append_result_def)
qed

theorem store_reference_expands_witness:
  "ex_expanded (ExpandStringResolved (Some (map_of [(''KEY'', ''$HOME'')])) (\<lambda>_. None) (''a='' @ ''${var:'' @ ''KEY'' @ ''}'' @ ''!'')) = ''a=$HOME!''"
proof -
  have "valid_name ''KEY''" "CHR ''$'' \<notin> set ''a=''" "\<not> IsInternalCredential ''KEY''" by code_simp+
  from store_reference_expands [OF this, of "map_of [(''KEY'', ''$HOME'')]" "\<lambda>_. None" "''!''"]
  have e: "ExpandStringResolved (Some (map_of [(''KEY'', ''$HOME'')])) (\<lambda>_. None) (''a='' @ ''${var:'' @ ''KEY'' @ ''}'' @ ''!'') =
    append_result \<lparr>ex_expanded = ''a=$HOME'', ex_storeRefs = [''KEY''], ex_unresolvedVault = [], ex_emptyEnvVars = [], ex_denied = []\<rparr>
      (ExpandStringResolved (Some (map_of [(''KEY'', ''$HOME'')])) (\<lambda>_. None) ''!'')" by (simp add: VaultResolver_def)
  have "ex_expanded (ExpandStringResolved (Some (map_of [(''KEY'', ''$HOME'')])) (\<lambda>_. None) ''!'') = ''!''" by code_simp
  with e show ?thesis by simp
qed

subsection \<open>Reserved credentials\<close>

definition agree_outside :: "string set \<Rightarrow> lookup \<Rightarrow> lookup \<Rightarrow> bool" where
  "agree_outside K f g \<longleftrightarrow> (\<forall>k. k \<notin> K \<longrightarrow> f k = g k)"

lemma resolver_ignores_credentials:
  assumes "agree_outside (set internalCredentialKeys) f f'" and "agree_outside (set internalCredentialKeys) e e'"
  shows "newReferenceResolver (Some f) e = newReferenceResolver (Some f') e'" "newReferenceResolver None e = newReferenceResolver None e'"
  using assms
  by (auto simp: agree_outside_def fun_eq_iff newReferenceResolver_def ResolveVariable_def IsInternalCredential_def
      exactInternalCredential_def resolve_in_def split: option.split)

lemma expand_token_denied:
  assumes "k \<in> set (store_key t)" and "IsInternalCredential k"
  shows "ErrInternalCredential k \<in> set (ex_denied (expand_token (newReferenceResolver store getenv) t))"
  using assms by (cases t) (auto simp: expand_braced_def newReferenceResolver_def ResolveVariable_def denied_result_def Let_def split: if_splits)

lemma resolved_token:
  assumes "ex_unresolvedVault (expand_token (newReferenceResolver (Some store) getenv) (Braced p n NoOp)) = []"
    and "ex_denied (expand_token (newReferenceResolver (Some store) getenv) (Braced p n NoOp)) = []" and "p \<in> {''var'', ''vault''}"
  shows "VaultResolver store getenv n \<noteq> None"
proof -
  have s: "(p = ''vault'' \<or> p = ''var'') = True" using assms(3) by auto
  note run = expand_token.simps expand_braced_def s Let_def newReferenceResolver_def ResolveVariable_def if_True
  show ?thesis
  proof (cases "IsInternalCredential n")
    case True
    then show ?thesis using assms(2) unfolding run by (simp add: denied_result_def)
  next
    case False
    then show ?thesis using assms(1) unfolding run
      by (cases "store n"; cases "getenv n") (simp_all add: resolve_in_def VaultResolver_def)
  qed
qed

end
