(* ===== verification/Paths.thy ===== *)
theory Paths
  imports Config_Validate
begin

text \<open>
  The lexical part of \<^verbatim>\<open>path/filepath\<close> on Unix that loading a stack and the skill store use, on top of
  \<open>path_Clean\<close> and \<open>path_IsAbs\<close>: joining, base and directory names, absolute paths with the working
  directory as an argument, relative paths, and when a joined path stays below a directory.
\<close>

definition path_Join :: "string list \<Rightarrow> string" where
  "path_Join ws = (let ne = filter (\<lambda>w. w \<noteq> []) ws in if ne = [] then [] else path_Clean (join_with ''/'' ne))"

definition path_Dir :: "string \<Rightarrow> string" where
  "path_Dir p = path_Clean (rev (dropWhile (\<lambda>c. c \<noteq> CHR ''/'') (rev p)))"

definition path_Abs :: "string option \<Rightarrow> string \<Rightarrow> string option" where
  "path_Abs cwd p = (if path_IsAbs p then Some (path_Clean p) else map_option (\<lambda>wd. path_Join [wd, p]) cwd)"

text \<open>\<^verbatim>\<open>filepath.Base\<close>: trailing slashes are dropped; the base of the root is the slash.\<close>

definition path_Base :: "string \<Rightarrow> string" where
  "path_Base p =
     (if p = [] then ''.''
      else let q = trim_right_char (CHR ''/'') p; b = rev (takeWhile (\<lambda>c. c \<noteq> CHR ''/'') (rev q))
           in if b = [] then ''/'' else b)"

text \<open>A path at or below a directory.\<close>

definition below :: "string \<Rightarrow> string \<Rightarrow> bool" where
  "below d p \<longleftrightarrow> p = d \<or> prefix (d @ ''/'') p"

lemma split_on_last: "CHR ''/'' \<notin> set w \<Longrightarrow> split_on (CHR ''/'') (b @ ''/'' @ w) = split_on (CHR ''/'') b @ [w]"
proof (induction b)
  case Nil
  have "split_on (CHR ''/'') w = [w]" using Nil by (induction w) auto
  then show ?case by simp
next
  case (Cons c b)
  moreover have "split_on (CHR ''/'') b \<noteq> []" by (induction b) (auto split: list.splits)
  ultimately show ?case by (auto split: list.splits)
qed

lemma join_with_snoc: "join_with sep (ws @ [w]) = (if ws = [] then w else join_with sep ws @ sep @ w)"
  by (induction sep ws rule: join_with.induct) auto

lemma path_Clean_snoc:
  assumes "path_IsAbs b" and "path_Clean b = b" and "b \<noteq> ''/''" and "CHR ''/'' \<notin> set w" and "w \<notin> {[], ''.'', ''..''}"
  shows "path_Clean (b @ ''/'' @ w) = b @ ''/'' @ w"
proof -
  let ?out = "\<lambda>p. fold (clean_step True) (split_on (CHR ''/'') p) []"
  have abs: "path_IsAbs (b @ ''/'' @ w)" using assms(1) by (cases b) (simp_all add: path_IsAbs_def)
  have b: "b = ''/'' @ join_with ''/'' (rev (?out b))" using assms(1,2) by (simp add: path_Clean_def Let_def)
  then have "?out b \<noteq> []" using assms(3) by auto
  moreover have "?out (b @ ''/'' @ w) = w # ?out b" using assms(4,5) by (simp add: split_on_last [simplified] clean_step_def)
  ultimately have "path_Clean (b @ ''/'' @ w) = ''/'' @ join_with ''/'' (rev (?out b)) @ ''/'' @ w"
    using abs by (simp add: path_Clean_def Let_def join_with_snoc)
  also have "\<dots> = b @ ''/'' @ w" using b by (metis append.assoc)
  finally show ?thesis .
qed

subsection \<open>Paths that stay below a directory\<close>

text \<open>An absolute clean directory other than the root.\<close>

definition clean_dir :: "string \<Rightarrow> bool" where
  "clean_dir d \<longleftrightarrow> path_IsAbs d \<and> path_Clean d = d \<and> d \<noteq> ''/''"

definition no_parent :: "string \<Rightarrow> bool" where
  "no_parent w \<longleftrightarrow> ''..'' \<notin> set (split_on (CHR ''/'') w)"

abbreviation proper :: "string \<Rightarrow> bool" where
  "proper e \<equiv> e \<noteq> [] \<and> e \<noteq> ''.''"

lemma split_on_ne: "split_on d s \<noteq> []"
  by (induction s) (auto split: list.splits)

lemma split_on_append: "split_on d (a @ d # b) = split_on d a @ split_on d b"
  by (induction a) (auto simp: split_on_ne split: list.splits)

lemma clean_fold_proper: "''..'' \<notin> set ws \<Longrightarrow> fold (clean_step r) ws out = rev (filter proper ws) @ out"
  by (induction ws arbitrary: out) (auto simp: clean_step_def)

lemma join_with_append:
  "xs \<noteq> [] \<Longrightarrow> ys \<noteq> [] \<Longrightarrow> join_with sep (xs @ ys) = join_with sep xs @ sep @ join_with sep ys"
  by (induction sep xs rule: join_with.induct) (cases ys; simp)+

lemma path_Clean_below:
  assumes "clean_dir d" "no_parent w"
  shows "path_Clean (d @ ''/'' @ w) =
     (let ws = filter proper (split_on (CHR ''/'') w) in if ws = [] then d else d @ ''/'' @ join_with ''/'' ws)"
proof -
  let ?out = "\<lambda>p. fold (clean_step True) (split_on (CHR ''/'') p) []" and ?ws = "filter proper (split_on (CHR ''/'') w)"
  have d: "path_IsAbs d" "path_Clean d = d" "d \<noteq> ''/''" using assms(1) by (simp_all add: clean_dir_def)
  have abs: "path_IsAbs (d @ ''/'' @ w)" using d(1) by (cases d) (simp_all add: path_IsAbs_def)
  have b: "d = ''/'' @ join_with ''/'' (rev (?out d))" using d by (simp add: path_Clean_def Let_def)
  then have ne: "?out d \<noteq> []" using d(3) by auto
  have "?out (d @ ''/'' @ w) = rev ?ws @ ?out d"
    using assms(2) by (simp add: split_on_append clean_fold_proper no_parent_def)
  then have c: "path_Clean (d @ ''/'' @ w) = ''/'' @ join_with ''/'' (rev (?out d) @ ?ws)"
    using abs by (simp add: path_Clean_def Let_def)
  show ?thesis
  proof (cases "?ws = []")
    case True
    then show ?thesis using c b by simp
  next
    case False
    then have "path_Clean (d @ ''/'' @ w) = (''/'' @ join_with ''/'' (rev (?out d))) @ ''/'' @ join_with ''/'' ?ws"
      using c ne by (simp add: join_with_append)
    then show ?thesis using False b by (simp add: Let_def)
  qed
qed

lemma path_Join_two: "d \<noteq> [] \<Longrightarrow> path_Join [d, w] = (if w = [] then path_Clean d else path_Clean (d @ ''/'' @ w))"
  by (simp add: path_Join_def)

lemma below_Join: "clean_dir d \<Longrightarrow> no_parent w \<Longrightarrow> below d (path_Join [d, w])"
  using path_Clean_below [of d w]
  by (cases "d = []") (auto simp: path_Join_two below_def Let_def clean_dir_def path_IsAbs_def)

lemma below_trans: "below a b \<Longrightarrow> below b c \<Longrightarrow> below a c"
  by (auto simp: below_def prefix_def)

lemma below_refl [simp]: "below d d"
  by (simp add: below_def)

text \<open>A clean absolute path is the slash and the elements that cleaning leaves, so cleaning it again changes nothing.\<close>

definition element :: "string \<Rightarrow> bool" where
  "element e \<longleftrightarrow> proper e \<and> e \<noteq> ''..'' \<and> CHR ''/'' \<notin> set e"

lemma clean_step_elements:
  "list_all element out \<Longrightarrow> CHR ''/'' \<notin> set w \<Longrightarrow> list_all element (clean_step True w out)"
  by (cases out) (simp_all add: clean_step_def element_def)

lemma clean_fold_elements:
  "list_all element out \<Longrightarrow> \<forall>e\<in>set ws. CHR ''/'' \<notin> set e \<Longrightarrow> list_all element (fold (clean_step True) ws out)"
  by (induction ws arbitrary: out) (simp_all add: clean_step_elements)

lemma split_on_elements: "\<forall>e\<in>set (split_on d s). d \<notin> set e"
  by (induction s) (auto split: list.splits)

lemma split_on_join:
  "\<forall>e\<in>set ws. CHR ''/'' \<notin> set e \<Longrightarrow> ws \<noteq> [] \<Longrightarrow> split_on (CHR ''/'') (join_with ''/'' ws) = ws"
proof (induction ws rule: rev_induct)
  case (snoc w ws)
  have w: "split_on (CHR ''/'') w = [w]" using snoc.prems(1) split_on_last [of w "[]"] by (cases "ws = []") auto
  show ?case
  proof (cases "ws = []")
    case False
    then show ?thesis using snoc split_on_last [of w "join_with ''/'' ws"] by (simp add: join_with_snoc)
  qed (use w in simp)
qed simp

lemma path_Clean_idem:
  assumes "path_IsAbs p"
  shows "path_Clean (path_Clean p) = path_Clean p"
proof -
  let ?out = "fold (clean_step True) (split_on (CHR ''/'') p) []"
  have els: "list_all element ?out"
    using clean_fold_elements [of "[]" "split_on (CHR ''/'') p"] split_on_elements by simp
  have c: "path_Clean p = ''/'' @ join_with ''/'' (rev ?out)" using assms by (simp add: path_Clean_def Let_def)
  have "split_on (CHR ''/'') (path_Clean p) = [] # (if ?out = [] then [[]] else rev ?out)"
    using els split_on_join [of "rev ?out"] unfolding c by (cases "?out = []") (auto simp: list_all_iff element_def)
  moreover have "fold (clean_step True) (rev ?out) [] = ?out"
    using clean_fold_proper [of "rev ?out" True "[]"] els by (auto simp: filter_id_conv list_all_iff element_def)
  ultimately have "fold (clean_step True) (split_on (CHR ''/'') (path_Clean p)) [] = ?out"
    by (simp add: clean_step_def)
  moreover have "path_IsAbs (path_Clean p)" unfolding c by (simp add: path_IsAbs_def)
  ultimately show ?thesis using c by (simp add: path_Clean_def Let_def)
qed

lemma path_Clean_abs: "path_IsAbs p \<Longrightarrow> path_IsAbs (path_Clean p)"
  by (simp add: path_Clean_def path_IsAbs_def Let_def)

lemma path_Join_abs:
  assumes "path_IsAbs a"
  shows "path_IsAbs (path_Join (a # ws))" and "path_Clean (path_Join (a # ws)) = path_Join (a # ws)"
proof -
  obtain ne where ne: "path_Join (a # ws) = path_Clean (join_with ''/'' (a # ne))"
    using assms by (auto simp: path_Join_def path_IsAbs_def Let_def)
  have "path_IsAbs (join_with ''/'' (a # ne))" using assms by (cases a; cases ne) (auto simp: path_IsAbs_def)
  then show "path_IsAbs (path_Join (a # ws))" "path_Clean (path_Join (a # ws)) = path_Join (a # ws)"
    unfolding ne by (simp_all add: path_Clean_abs path_Clean_idem)
qed

subsection \<open>Relative paths\<close>

text \<open>\<^verbatim>\<open>filepath.Rel\<close>: the common elements are dropped, and each element of the base that is left is climbed.\<close>

definition path_elements :: "string \<Rightarrow> string list" where
  "path_elements p = (if p = [] then [] else if p = ''/'' then [[]] else split_on (CHR ''/'') p)"

fun drop_common :: "'a list \<Rightarrow> 'a list \<Rightarrow> 'a list \<times> 'a list" where
  "drop_common (x # xs) (y # ys) = (if x = y then drop_common xs ys else (x # xs, y # ys))"
| "drop_common xs ys = (xs, ys)"

definition path_Rel :: "string \<Rightarrow> string \<Rightarrow> string option" where
  "path_Rel basepath targpath =
     (let b0 = path_Clean basepath; t = path_Clean targpath in
      if t = b0 then Some ''.''
      else let b = (if b0 = ''.'' then [] else b0) in
        if path_IsAbs b \<noteq> path_IsAbs t then None
        else case drop_common (path_elements b) (path_elements t) of (bs, ts) \<Rightarrow>
          if bs \<noteq> [] \<and> ts \<noteq> [] \<and> hd bs = ''..'' then None
          else Some (join_with ''/'' (map (\<lambda>_. ''..'') bs @ ts)))"

lemma drop_common_append: "drop_common xs (xs @ ys) = ([], ys)"
  by (induction xs) simp_all

text \<open>A path made of a directory and elements is clean, and its parts are read back from it.\<close>

lemma join_elements:
  assumes "list_all element ws" "ws \<noteq> []"
  shows "split_on (CHR ''/'') (join_with ''/'' ws) = ws" "filter proper ws = ws" "no_parent (join_with ''/'' ws)"
    "\<not> path_IsAbs (join_with ''/'' ws)" "join_with ''/'' ws \<noteq> []"
proof -
  show s: "split_on (CHR ''/'') (join_with ''/'' ws) = ws"
    using assms split_on_join by (auto simp: list_all_iff element_def)
  show "filter proper ws = ws" using assms(1) by (auto simp: filter_id_conv list_all_iff element_def)
  show "no_parent (join_with ''/'' ws)" using assms(1) s by (auto simp: no_parent_def list_all_iff element_def)
  obtain w rest where w: "ws = w # rest" "element w" using assms by (cases ws) auto
  then obtain c cs where "w = c # cs" "c \<noteq> CHR ''/''" by (cases w) (auto simp: element_def)
  then show "\<not> path_IsAbs (join_with ''/'' ws)" "join_with ''/'' ws \<noteq> []"
    using w(1) by (cases rest; simp add: path_IsAbs_def)+
qed

lemma path_Join_elements:
  assumes "clean_dir d" "list_all element ws" "ws \<noteq> []"
  shows "path_Clean (d @ ''/'' @ join_with ''/'' ws) = d @ ''/'' @ join_with ''/'' ws"
    and "clean_dir (d @ ''/'' @ join_with ''/'' ws)"
proof -
  note e = join_elements [OF assms(2,3)]
  show c: "path_Clean (d @ ''/'' @ join_with ''/'' ws) = d @ ''/'' @ join_with ''/'' ws"
    using path_Clean_below [OF assms(1) e(3)] e(1,2) assms(3) by (simp add: Let_def)
  show "clean_dir (d @ ''/'' @ join_with ''/'' ws)"
    using c assms(1) e(5) by (cases d) (auto simp: clean_dir_def path_IsAbs_def)
qed

lemma path_Dir_snoc:
  assumes "clean_dir d" "element w"
  shows "path_Dir (d @ ''/'' @ w) = d"
proof -
  have "dropWhile (\<lambda>c. c \<noteq> CHR ''/'') (rev w @ ''/'' @ rev d) = ''/'' @ rev d"
    using assms(2) by (subst dropWhile_append2) (auto simp: element_def)
  then have "path_Dir (d @ ''/'' @ w) = path_Clean (d @ ''/'' @ [])" by (simp add: path_Dir_def)
  also have "\<dots> = d" using path_Clean_below [OF assms(1), of "[]"] by (simp add: no_parent_def)
  finally show ?thesis .
qed

lemma path_Base_snoc:
  assumes "element w"
  shows "path_Base (d @ ''/'' @ w) = w"
proof -
  have "last w \<noteq> CHR ''/''" "w \<noteq> []"
    using assms last_in_set [of w] by (auto simp: element_def simp del: last_in_set)
  then have "trim_right_char (CHR ''/'') (d @ ''/'' @ w) = d @ ''/'' @ w"
    by (cases w rule: rev_cases) (simp_all add: trim_right_char_def)
  moreover have "takeWhile (\<lambda>c. c \<noteq> CHR ''/'') (rev w @ ''/'' @ rev d) = rev w"
    using assms by (subst takeWhile_append2) (auto simp: element_def)
  ultimately show ?thesis using assms by (simp add: path_Base_def element_def Let_def)
qed

lemma path_Rel_below:
  assumes "clean_dir d" "list_all element ws" "ws \<noteq> []"
  shows "path_Rel d (d @ ''/'' @ join_with ''/'' ws) = Some (join_with ''/'' ws)"
proof -
  let ?t = "d @ ''/'' @ join_with ''/'' ws"
  have d: "path_Clean d = d" "path_IsAbs d" "d \<noteq> ''/''" "d \<noteq> []" "d \<noteq> ''.''"
    using assms(1) by (auto simp: clean_dir_def path_IsAbs_def)
  have t: "path_IsAbs ?t" "?t \<noteq> d" "?t \<noteq> []" "?t \<noteq> ''/''" using d(2,4) by (cases d; auto simp: path_IsAbs_def)+
  have "path_elements ?t = path_elements d @ ws"
    using d(3,4) t(3,4) join_elements(1) [OF assms(2,3)] by (simp add: path_elements_def split_on_append)
  then show ?thesis
    using d t path_Join_elements(1) [OF assms] by (simp add: path_Rel_def Let_def drop_common_append)
qed

end
