(* ===== verification/Loader.thy ===== *)
theory Loader
  imports Secret_Inject Expand Paths "HOL-Library.State_Monad"
begin

text \<open>
  Loading a stack (\<^verbatim>\<open>pkg/config/loader.go\<close>, with \<^verbatim>\<open>checkDeclarationConflicts\<close> of
  \<^verbatim>\<open>diagnostics.go\<close> and the reference index of \<^verbatim>\<open>references.go\<close>): the chain of
  \<^verbatim>\<open>extends\<close>, merging, variable expansion of every expandable field with its usage index, relative
  paths, defaults, validation, injection. Reading and parsing a file, the working and home directory, the
  environment and the variable store are parameters. The walk over the fields is written once for any action
  on a field, in the state monad; expansion and the list of sites are two instances of it.
\<close>

subsection \<open>Paths\<close>

definition expandTildeAndResolvePath :: "string option \<Rightarrow> string \<Rightarrow> string \<Rightarrow> string" where
  "expandTildeAndResolvePath home p basePath =
     (let p1 = (case (p, home) of
                  (c # r, Some h) \<Rightarrow>
                    if c = CHR ''~'' then (case r of [] \<Rightarrow> h | d # q \<Rightarrow> if d = CHR ''/'' then path_Join [h, q] else p) else p
                | _ \<Rightarrow> p)
      in if path_IsAbs p1 then p1 else path_Join [basePath, p1])"

definition isURL :: "string \<Rightarrow> bool" where
  "isURL s \<longleftrightarrow> prefix ''http://'' s \<or> prefix ''https://'' s"

definition resolve_if_set :: "string option \<Rightarrow> string \<Rightarrow> string \<Rightarrow> string" where
  "resolve_if_set home basePath p = (if p = [] then [] else expandTildeAndResolvePath home p basePath)"

definition resolve_server_paths :: "string option \<Rightarrow> string \<Rightarrow> mcp_server \<Rightarrow> mcp_server" where
  "resolve_server_paths home basePath s =
     s\<lparr>sv_source := map_option (\<lambda>src. src\<lparr>
           so_path := (if so_type src = ''local'' \<and> \<not> path_IsAbs (so_path src) then path_Join [basePath, so_path src] else so_path src),
           so_auth := map_option (\<lambda>a. a\<lparr>sa_sshKeyPath := resolve_if_set home basePath (sa_sshKeyPath a)\<rparr>) (so_auth src)\<rparr>) (sv_source s),
       sv_ssh := map_option (\<lambda>h. h\<lparr>sh_identityFile := resolve_if_set home basePath (sh_identityFile h),
           sh_knownHostsFile := resolve_if_set home basePath (sh_knownHostsFile h)\<rparr>) (sv_ssh s),
       sv_openapi := map_option (\<lambda>o1. o1\<lparr>op_spec := (if isURL (op_spec o1) then op_spec o1 else resolve_if_set home basePath (op_spec o1))\<rparr>)
           (sv_openapi s)\<rparr>"

definition resolveRelativePaths :: "string option \<Rightarrow> string \<Rightarrow> stack \<Rightarrow> stack" where
  "resolveRelativePaths home basePath s = s\<lparr>sk_servers := map (resolve_server_paths home basePath) (sk_servers s)\<rparr>"

subsection \<open>Inheritance\<close>

datatype load_error =
    ErrReadingStack string
  | ErrParsingStack string
  | ErrResolvingPath string
  | ErrExtendsDepth
  | ErrExtendsCircular string
  | ErrConflictingTypes string string string
  | ErrConflictingSensitivity string
  | ErrResolvingVariable vault_error
  | ErrMissingVariables "string list"
  | ErrInvalidStack "verror list"

definition IsRequired :: "variable_declaration \<Rightarrow> bool" where
  "IsRequired d \<longleftrightarrow> vd_required d = Some True"

definition conflict :: "string \<Rightarrow> variable_declaration \<Rightarrow> variable_declaration \<Rightarrow> load_error option" where
  "conflict key c p =
     (if vd_type c \<noteq> [] \<and> vd_type p \<noteq> [] \<and> vd_type c \<noteq> vd_type p then Some (ErrConflictingTypes key (vd_type p) (vd_type c))
      else if vd_secret c \<noteq> None \<and> vd_secret p \<noteq> None \<and> vd_secret c \<noteq> vd_secret p then Some (ErrConflictingSensitivity key)
      else None)"

fun checkDeclarationConflicts ::
  "(string, variable_declaration) gomap \<Rightarrow> (string, variable_declaration) gomap \<Rightarrow> load_error option" where
  "checkDeclarationConflicts [] parent = None"
| "checkDeclarationConflicts ((key, c) # child) parent =
     (case map_of parent key of
        None \<Rightarrow> checkDeclarationConflicts child parent
      | Some p \<Rightarrow> or_else (conflict key c p) (checkDeclarationConflicts child parent))"

definition merge_declaration :: "variable_declaration \<Rightarrow> variable_declaration \<Rightarrow> variable_declaration" where
  "merge_declaration c p =
     c\<lparr>vd_required := (if vd_required c = None then vd_required p
                      else if IsRequired p \<and> \<not> IsRequired c then Some True else vd_required c),
       vd_secret := (if vd_secret c = None then vd_secret p else vd_secret c),
       vd_type := (if vd_type c = [] then vd_type p else vd_type c),
       vd_description := (if vd_description c = [] then vd_description p else vd_description c),
       vd_docs := (if vd_docs c = [] then vd_docs p else vd_docs c)\<rparr>"

definition mergeVariableDeclarations ::
  "(string, variable_declaration) gomap \<Rightarrow> (string, variable_declaration) gomap \<Rightarrow> (string, variable_declaration) gomap" where
  "mergeVariableDeclarations child parent =
     fold (\<lambda>(key, p) m. AList.update key (case map_of m key of None \<Rightarrow> p | Some c \<Rightarrow> merge_declaration c p) m) parent child"

definition or_inherit :: "'a option \<Rightarrow> 'a option \<Rightarrow> 'a option" where
  "or_inherit c p = (case c of None \<Rightarrow> p | Some x \<Rightarrow> Some x)"

definition mergeStacks :: "stack \<Rightarrow> stack \<Rightarrow> stack" where
  "mergeStacks child parent =
     (let inheritNet = (nw_name (sk_network child) = [] \<and> sk_networks child = []) in
      child\<lparr>
       sk_variables := mergeVariableDeclarations (sk_variables child) (sk_variables parent),
       sk_servers := sk_servers child @ filter (\<lambda>s. sv_name s \<notin> sv_name ` set (sk_servers child)) (sk_servers parent),
       sk_resources := sk_resources child @ filter (\<lambda>r. rc_name r \<notin> rc_name ` set (sk_resources child)) (sk_resources parent),
       sk_gateway := or_inherit (sk_gateway child) (sk_gateway parent),
       sk_logging := or_inherit (sk_logging child) (sk_logging parent),
       sk_secrets := or_inherit (sk_secrets child) (sk_secrets parent),
       sk_network := (if inheritNet then sk_network parent else sk_network child),
       sk_networks := (if inheritNet then sk_networks parent else sk_networks child)\<rparr>)"

record load_env =
  le_read :: "string \<Rightarrow> string option"
  le_parse :: "string \<Rightarrow> stack option"
  le_cwd :: "string option"
  le_home :: "string option"
  le_getenv :: lookup
  le_validation :: validation_env

abbreviation maxExtendsDepth :: nat where "maxExtendsDepth \<equiv> 10"

definition parse_file :: "load_env \<Rightarrow> string \<Rightarrow> load_error + stack" where
  "parse_file env path =
     (case le_read env path of None \<Rightarrow> Inl (ErrReadingStack path)
      | Some text \<Rightarrow> (case le_parse env text of None \<Rightarrow> Inl (ErrParsingStack path) | Some s \<Rightarrow> Inr s))"

definition parent_path :: "load_env \<Rightarrow> stack \<Rightarrow> string \<Rightarrow> string option" where
  "parent_path env child childAbsPath =
     path_Abs (le_cwd env)
       (if path_IsAbs (sk_extends child) then sk_extends child else path_Join [path_Dir childAbsPath, sk_extends child])"

text \<open>The first argument is the number of levels left, \<^verbatim>\<open>maxExtendsDepth - depth\<close>.\<close>

fun resolveExtends :: "nat \<Rightarrow> load_env \<Rightarrow> stack \<Rightarrow> string \<Rightarrow> string list \<Rightarrow> load_error + stack" where
  "resolveExtends 0 env child childAbsPath visited =
     (if sk_extends child = [] then Inr child else Inl ErrExtendsDepth)"
| "resolveExtends (Suc levels) env child childAbsPath visited =
     (if sk_extends child = [] then Inr child
      else case parent_path env child childAbsPath of
        None \<Rightarrow> Inl (ErrResolvingPath (sk_extends child))
      | Some p \<Rightarrow>
          if p \<in> set visited then Inl (ErrExtendsCircular p)
          else case parse_file env p of
            Inl e \<Rightarrow> Inl e
          | Inr parent0 \<Rightarrow>
              (case resolveExtends levels env parent0 p (p # visited) of
                 Inl e \<Rightarrow> Inl e
               | Inr parent \<Rightarrow>
                   (case checkDeclarationConflicts (sk_variables child) (sk_variables parent) of
                      Some e \<Rightarrow> Inl e
                    | None \<Rightarrow>
                        Inr ((mergeStacks child (resolveRelativePaths (le_home env) (path_Dir p) parent))\<lparr>sk_extends := []\<rparr>))))"

subsection \<open>The walk over the expandable fields\<close>

text \<open>A field action reads a site and the text found there and gives the new text; the walk visits the fields in
  the order of the code. The name of a server or resource is read when a site is made, so sites after the name
  field carry the new name.\<close>

type_synonym 's field = "consumer \<Rightarrow> string \<Rightarrow> ('s, string) state"

definition site_at :: "reference_kind \<Rightarrow> string \<Rightarrow> string \<Rightarrow> consumer" where
  "site_at kind name fld =
     \<lparr>cn_kind = kind, cn_name = name, cn_field = fld, cn_source = [], cn_target = [], cn_targetKind = None\<rparr>"

definition on_some :: "('a \<Rightarrow> ('s, 'b) state) \<Rightarrow> 'a option \<Rightarrow> ('s, 'b option) state" where
  "on_some f x = (case x of None \<Rightarrow> State_Monad.return None | Some v \<Rightarrow> State_Monad.bind (f v) (\<lambda>w. State_Monad.return (Some w)))"

definition on_list :: "(string \<Rightarrow> string \<Rightarrow> ('s, string) state) \<Rightarrow> string \<Rightarrow> string list \<Rightarrow> ('s, string list) state" where
  "on_list f fld vs = State_Monad.traverse_list (\<lambda>(j, v). f (idx fld j) v) (enumerate 0 vs)"

definition on_map :: "(string \<Rightarrow> string \<Rightarrow> ('s, string) state) \<Rightarrow> string \<Rightarrow> (string, string) gomap \<Rightarrow> ('s, (string, string) gomap) state" where
  "on_map f fld m = State_Monad.traverse_list (\<lambda>(k, v). do {w \<leftarrow> f (fld @ ''.'' @ k) v; State_Monad.return (k, w)}) m"

definition walk_gateway :: "'s field \<Rightarrow> gateway_config \<Rightarrow> ('s, gateway_config) state" where
  "walk_gateway field g =
     (let f = (\<lambda>fld. field (site_at RefKindGateway [] fld)) in
      do {
        origins \<leftarrow> on_list f ''allowed_origins'' (gc_allowedOrigins g);
        addr \<leftarrow> f ''bind'' (gc_bind g);
        hosts \<leftarrow> on_list f ''allowed_hosts'' (gc_allowedHosts g);
        auth \<leftarrow> on_some (\<lambda>a. do {tok \<leftarrow> f ''auth.token'' (gu_token a); State_Monad.return (a\<lparr>gu_token := tok\<rparr>)}) (gc_auth g);
        State_Monad.return (g\<lparr>gc_allowedOrigins := origins, gc_bind := addr, gc_allowedHosts := hosts, gc_auth := auth\<rparr>)
      })"

definition walk_source_auth :: "(string \<Rightarrow> string \<Rightarrow> ('s, string) state) \<Rightarrow> source_auth \<Rightarrow> ('s, source_auth) state" where
  "walk_source_auth f a =
     do {
       key \<leftarrow> f ''source.auth.ssh_key_path'' (sa_sshKeyPath a);
       user \<leftarrow> f ''source.auth.ssh_user'' (sa_sshUser a);
       State_Monad.return (a\<lparr>sa_sshKeyPath := key, sa_sshUser := user\<rparr>)
     }"

definition walk_source :: "(string \<Rightarrow> string \<Rightarrow> ('s, string) state) \<Rightarrow> source \<Rightarrow> ('s, source) state" where
  "walk_source f s =
     do {
       url \<leftarrow> f ''source.url'' (so_url s);
       pth \<leftarrow> f ''source.path'' (so_path s);
       project \<leftarrow> f ''source.project_path'' (so_projectPath s);
       ref \<leftarrow> f ''source.ref'' (so_ref s);
       docker \<leftarrow> f ''source.dockerfile'' (so_dockerfile s);
       pkg \<leftarrow> f ''source.package'' (so_package s);
       python \<leftarrow> f ''source.python'' (so_python s);
       extras \<leftarrow> on_list f ''source.extras'' (so_extras s);
       withs \<leftarrow> on_list f ''source.with'' (so_with s);
       packages \<leftarrow> on_list f ''source.packages'' (so_packages s);
       auth \<leftarrow> on_some (walk_source_auth f) (so_auth s);
       State_Monad.return (s\<lparr>so_url := url, so_path := pth, so_projectPath := project, so_ref := ref, so_dockerfile := docker,
         so_package := pkg, so_python := python, so_extras := extras, so_with := withs, so_packages := packages, so_auth := auth\<rparr>)
     }"

definition walk_ssh :: "(string \<Rightarrow> string \<Rightarrow> ('s, string) state) \<Rightarrow> ssh_config \<Rightarrow> ('s, ssh_config) state" where
  "walk_ssh f h =
     do {
       host \<leftarrow> f ''ssh.host'' (sh_host h);
       user \<leftarrow> f ''ssh.user'' (sh_user h);
       identity \<leftarrow> f ''ssh.identityFile'' (sh_identityFile h);
       known \<leftarrow> f ''ssh.knownHostsFile'' (sh_knownHostsFile h);
       jump \<leftarrow> f ''ssh.jumpHost'' (sh_jumpHost h);
       State_Monad.return (h\<lparr>sh_host := host, sh_user := user, sh_identityFile := identity, sh_knownHostsFile := known, sh_jumpHost := jump\<rparr>)
     }"

definition walk_openapi :: "(string \<Rightarrow> string \<Rightarrow> ('s, string) state) \<Rightarrow> openapi_config \<Rightarrow> ('s, openapi_config) state" where
  "walk_openapi f p =
     do {
       spec \<leftarrow> f ''openapi.spec'' (op_spec p);
       url \<leftarrow> f ''openapi.baseUrl'' (op_baseURL p);
       State_Monad.return (p\<lparr>op_spec := spec, op_baseURL := url\<rparr>)
     }"

definition walk_auth :: "(string \<Rightarrow> string \<Rightarrow> ('s, string) state) \<Rightarrow> server_auth \<Rightarrow> ('s, server_auth) state" where
  "walk_auth f a =
     do {
       tok \<leftarrow> f ''auth.token'' (au_token a);
       val \<leftarrow> f ''auth.value'' (au_value a);
       client \<leftarrow> f ''auth.client_id'' (au_clientID a);
       secret \<leftarrow> f ''auth.client_secret'' (au_clientSecret a);
       State_Monad.return (a\<lparr>au_token := tok, au_value := val, au_clientID := client, au_clientSecret := secret\<rparr>)
     }"

definition walk_server :: "'s field \<Rightarrow> mcp_server \<Rightarrow> ('s, mcp_server) state" where
  "walk_server field s =
     do {
       name \<leftarrow> field (site_at RefKindMCPServer (sv_name s) ''name'') (sv_name s);
       let f = (\<lambda>fld. field (site_at RefKindMCPServer name fld));
       image \<leftarrow> f ''image'' (sv_image s);
       url \<leftarrow> f ''url'' (sv_url s);
       net \<leftarrow> f ''network'' (sv_network s);
       command \<leftarrow> on_list f ''command'' (sv_command s);
       src \<leftarrow> on_some (walk_source f) (sv_source s);
       env \<leftarrow> on_map f ''env'' (sv_env s);
       buildArgs \<leftarrow> on_map f ''build_args'' (sv_buildArgs s);
       volumes \<leftarrow> on_list f ''volumes'' (sv_volumes s);
       ssh \<leftarrow> on_some (walk_ssh f) (sv_ssh s);
       openapi \<leftarrow> on_some (walk_openapi f) (sv_openapi s);
       auth \<leftarrow> on_some (walk_auth f) (sv_auth s);
       State_Monad.return (s\<lparr>sv_name := name, sv_image := image, sv_url := url, sv_network := net, sv_command := command,
         sv_source := src, sv_env := env, sv_buildArgs := buildArgs, sv_volumes := volumes, sv_ssh := ssh,
         sv_openapi := openapi, sv_auth := auth\<rparr>)
     }"

definition walk_resource :: "'s field \<Rightarrow> resource \<Rightarrow> ('s, resource) state" where
  "walk_resource field r =
     do {
       name \<leftarrow> field (site_at RefKindResource (rc_name r) ''name'') (rc_name r);
       let f = (\<lambda>fld. field (site_at RefKindResource name fld));
       image \<leftarrow> f ''image'' (rc_image r);
       net \<leftarrow> f ''network'' (rc_network r);
       env \<leftarrow> on_map f ''env'' (rc_env r);
       State_Monad.return (r\<lparr>rc_name := name, rc_image := image, rc_network := net, rc_env := env\<rparr>)
     }"

definition walk_network :: "'s field \<Rightarrow> network \<Rightarrow> ('s, network) state" where
  "walk_network field n =
     do {
       name \<leftarrow> field (site_at RefKindNetwork (nw_name n) ''name'') (nw_name n);
       State_Monad.return (n\<lparr>nw_name := name\<rparr>)
     }"

definition walk_stack :: "'s field \<Rightarrow> stack \<Rightarrow> ('s, stack) state" where
  "walk_stack field s =
     do {
       name \<leftarrow> field (site_at RefKindStack [] ''name'') (sk_name s);
       gateway \<leftarrow> on_some (walk_gateway field) (sk_gateway s);
       net \<leftarrow> field (site_at RefKindNetwork [] ''name'') (nw_name (sk_network s));
       nets \<leftarrow> State_Monad.traverse_list (walk_network field) (sk_networks s);
       servers \<leftarrow> State_Monad.traverse_list (walk_server field) (sk_servers s);
       resources \<leftarrow> State_Monad.traverse_list (walk_resource field) (sk_resources s);
       State_Monad.return (s\<lparr>sk_name := name, sk_gateway := gateway, sk_network := (sk_network s)\<lparr>nw_name := net\<rparr>,
         sk_networks := nets, sk_servers := servers, sk_resources := resources\<rparr>)
     }"

subsection \<open>Expansion of a stack\<close>

definition index_add :: "consumer \<Rightarrow> string \<Rightarrow> reference_index \<Rightarrow> reference_index" where
  "index_add c key index =
     (let old = (case map_of index key of None \<Rightarrow> [] | Some cs \<Rightarrow> cs) in
      if c \<in> set old then index else AList.update key (old @ [c]) index)"

record expansion_state =
  xs_index :: reference_index
  xs_unresolved :: "string list"
  xs_empty :: "string list"
  xs_problems :: "vault_error list"

definition expandField :: "reference_resolver \<Rightarrow> expansion_state field" where
  "expandField resolve c val = State (\<lambda>st.
     (let r = expandStringRefs resolve val in
      (ex_expanded r,
       \<lparr>xs_index = fold (index_add c) (ex_storeRefs r) (xs_index st),
        xs_unresolved = xs_unresolved st @ ex_unresolvedVault r,
        xs_empty = xs_empty st @ ex_emptyEnvVars r,
        xs_problems = xs_problems st @ ex_denied r\<rparr>)))"

fun dedupe :: "string list \<Rightarrow> string list \<Rightarrow> string list" where
  "dedupe seen [] = []"
| "dedupe seen (s # rest) = (if s \<in> set seen then dedupe seen rest else s # dedupe (s # seen) rest)"

definition dedupeStrings :: "string list \<Rightarrow> string list" where
  "dedupeStrings xs = dedupe [] xs"

definition empty_expansion :: expansion_state where
  "empty_expansion = \<lparr>xs_index = [], xs_unresolved = [], xs_empty = [], xs_problems = []\<rparr>"

definition expandStackVarsResolved :: "reference_resolver \<Rightarrow> stack \<Rightarrow> stack \<times> string list \<times> string list \<times> vault_error list" where
  "expandStackVarsResolved resolve s =
     (let (s1, st) = run_state (walk_stack (expandField resolve) s) empty_expansion in
      (s1\<lparr>sk_references := xs_index st, sk_unresolvedRefs := dedupeStrings (xs_unresolved st)\<rparr>,
       xs_unresolved st, xs_empty st, xs_problems st))"

definition LoadStack :: "load_env \<Rightarrow> lookup option \<Rightarrow> (string \<Rightarrow> variable list) option \<Rightarrow> string \<Rightarrow> load_error + stack" where
  "LoadStack env vault vaultSet path =
     (case parse_file env path of Inl e \<Rightarrow> Inl e
      | Inr stack0 \<Rightarrow>
      (case path_Abs (le_cwd env) path of None \<Rightarrow> Inl (ErrResolvingPath path)
      | Some absPath \<Rightarrow>
      (case resolveExtends maxExtendsDepth env stack0 absPath [absPath] of Inl e \<Rightarrow> Inl e
      | Inr stack1 \<Rightarrow>
          let (stack2, unresolved, _, problems) =
                expandStackVarsResolved (newReferenceResolver vault (le_getenv env)) stack1 in
          if problems \<noteq> [] then Inl (ErrResolvingVariable (hd problems))
          else if vault \<noteq> None \<and> unresolved \<noteq> [] then Inl (ErrMissingVariables unresolved)
          else let stack3 = resolveRelativePaths (le_home env) (path_Dir path) (SetDefaults stack2);
                   errs = Validate (le_validation env) stack3 in
            if errs \<noteq> [] then Inl (ErrInvalidStack errs)
            else Inr (case vaultSet of None \<Rightarrow> stack3
                      | Some lookup \<Rightarrow>
                          if (case sk_secrets stack3 of None \<Rightarrow> True | Some sets \<Rightarrow> sets = []) then stack3
                          else injectSetSecrets stack3 lookup))))"

subsection \<open>Simulation of walks\<close>

definition sim :: "('s \<Rightarrow> 't \<Rightarrow> bool) \<Rightarrow> ('s, 'a) state \<Rightarrow> ('t, 'a) state \<Rightarrow> bool" where
  "sim R m n \<longleftrightarrow> (\<forall>s t. R s t \<longrightarrow> fst (run_state m s) = fst (run_state n t) \<and> R (snd (run_state m s)) (snd (run_state n t)))"

named_theorems sim_intros

lemma sim_return [sim_intros]: "sim R (State_Monad.return x) (State_Monad.return x)"
  by (simp add: sim_def)

lemma sim_bind [sim_intros]:
  assumes "sim R m n" and "\<And>x. sim R (f x) (g x)"
  shows "sim R (State_Monad.bind m f) (State_Monad.bind n g)"
  using assms unfolding sim_def by (fastforce split: prod.split)

lemma sim_traverse [sim_intros]:
  "(\<And>x. sim R (f x) (g x)) \<Longrightarrow> sim R (State_Monad.traverse_list f xs) (State_Monad.traverse_list g xs)"
  by (induction xs) (auto intro!: sim_intros)

lemma sim_on_some [sim_intros]: "(\<And>x. sim R (f x) (g x)) \<Longrightarrow> sim R (on_some f x) (on_some g x)"
  by (cases x) (auto simp: on_some_def intro!: sim_intros)

lemma sim_case_prod [sim_intros]: "(\<And>a b. sim R (f a b) (g a b)) \<Longrightarrow> sim R (case_prod f p) (case_prod g p)"
  by (simp add: split_beta)

lemma sim_on_list [sim_intros]: "(\<And>fld v. sim R (f fld v) (g fld v)) \<Longrightarrow> sim R (on_list f fld vs) (on_list g fld vs)"
  unfolding on_list_def by (intro sim_intros)

lemma sim_on_map [sim_intros]: "(\<And>fld v. sim R (f fld v) (g fld v)) \<Longrightarrow> sim R (on_map f fld m) (on_map g fld m)"
  unfolding on_map_def by (intro sim_intros)

lemma sim_walk_stack:
  assumes "\<And>c v. sim R (f c v) (g c v)"
  shows "sim R (walk_stack f s) (walk_stack g s)"
proof -
  have "sim R (walk_gateway f x) (walk_gateway g x)" "sim R (walk_network f n) (walk_network g n)"
    "sim R (walk_resource f r) (walk_resource g r)" for x n r
    unfolding walk_gateway_def walk_network_def walk_resource_def Let_def by (intro sim_intros assms)+
  moreover have "sim R (walk_server f x) (walk_server g x)" for x
    unfolding walk_server_def walk_source_def walk_source_auth_def walk_ssh_def walk_openapi_def walk_auth_def Let_def
    by (intro sim_intros assms)
  ultimately show ?thesis unfolding walk_stack_def by (intro sim_intros assms)
qed

subsection \<open>The usage index\<close>

text \<open>The sites of a stack: the walk with an action that notes each site with the text found there.\<close>

definition noteField :: "reference_resolver \<Rightarrow> (consumer \<times> string) list field" where
  "noteField resolve c val = State (\<lambda>lg. (ex_expanded (expandStringRefs resolve val), lg @ [(c, val)]))"

definition sites :: "reference_resolver \<Rightarrow> stack \<Rightarrow> (consumer \<times> string) list" where
  "sites resolve s = snd (run_state (walk_stack (noteField resolve) s) [])"

definition summary :: "reference_resolver \<Rightarrow> (consumer \<times> string) list \<Rightarrow> expansion_state" where
  "summary resolve lg =
     \<lparr>xs_index = fold (\<lambda>(c, v). fold (index_add c) (ex_storeRefs (expandStringRefs resolve v))) lg [],
      xs_unresolved = concat (map (\<lambda>(c, v). ex_unresolvedVault (expandStringRefs resolve v)) lg),
      xs_empty = concat (map (\<lambda>(c, v). ex_emptyEnvVars (expandStringRefs resolve v)) lg),
      xs_problems = concat (map (\<lambda>(c, v). ex_denied (expandStringRefs resolve v)) lg)\<rparr>"

lemma expansion_summary:
  "run_state (walk_stack (expandField resolve) s) empty_expansion
     = (fst (run_state (walk_stack (noteField resolve) s) []), summary resolve (sites resolve s))"
proof -
  let ?R = "\<lambda>st lg. st = summary resolve lg"
  have "sim ?R (expandField resolve c v) (noteField resolve c v)" for c v
    by (auto simp: sim_def expandField_def noteField_def summary_def Let_def)
  then have "sim ?R (walk_stack (expandField resolve) s) (walk_stack (noteField resolve) s)" by (rule sim_walk_stack)
  moreover have "empty_expansion = summary resolve []" by (simp add: summary_def empty_expansion_def)
  ultimately show ?thesis unfolding sim_def sites_def prod_eq_iff fst_conv snd_conv by blast
qed

definition users :: "reference_index \<Rightarrow> string \<Rightarrow> consumer list" where
  "users index k = (case map_of index k of None \<Rightarrow> [] | Some cs \<Rightarrow> cs)"

lemma users_index_add:
  "users (index_add c key index) k = (if k = key \<and> c \<notin> set (users index k) then users index k @ [c] else users index k)"
  by (auto simp: users_def index_add_def Let_def update_conv' split: option.splits)

lemma set_users_fold: "set (users (fold (index_add c) ks index) k) = set (users index k) \<union> (if k \<in> set ks then {c} else {})"
  by (induction ks arbitrary: index) (auto simp: users_index_add)

lemma distinct_users_fold: "distinct (users index k) \<Longrightarrow> distinct (users (fold (index_add c) ks index) k)"
proof (induction ks arbitrary: index)
  case (Cons key ks)
  then have "distinct (users (index_add c key index) k)" by (auto simp: users_index_add)
  from Cons.IH [OF this] show ?case by simp
qed simp

lemma set_users_sites:
  "set (users (fold (\<lambda>(c, v). fold (index_add c) (f v)) lg index) k) = set (users index k) \<union> {c. \<exists>v. (c, v) \<in> set lg \<and> k \<in> set (f v)}"
  by (induction lg arbitrary: index) (auto simp: set_users_fold split: if_splits)

lemma distinct_users_sites:
  "distinct (users index k) \<Longrightarrow> distinct (users (fold (\<lambda>(c, v). fold (index_add c) (f v)) lg index) k)"
  by (induction lg arbitrary: index) (auto simp: distinct_users_fold)

lemma dedupe_spec: "set (dedupe seen xs) = set xs - set seen \<and> distinct (dedupe seen xs)"
  by (induction seen xs rule: dedupe.induct) auto

definition store_refs :: "string \<Rightarrow> string list" where
  "store_refs v = concat (map store_key (tokens v))"

text \<open>C21. The usage index is exact: after expansion a key's users are the sites whose text refers to the key, each
  listed once, whether the reference resolved or not; the reported missing keys and refused credentials are
  those of the sites, in order, and the stack keeps each missing key once.\<close>

theorem usage_index_exact:
  assumes "expandStackVarsResolved resolve s = (s', unresolved, emptyVars, problems)"
  shows "set (users (sk_references s') k) = {c. \<exists>v. (c, v) \<in> set (sites resolve s) \<and> k \<in> set (store_refs v)}
    \<and> distinct (users (sk_references s') k)
    \<and> unresolved = concat (map (\<lambda>(c, v). ex_unresolvedVault (expandStringRefs resolve v)) (sites resolve s))
    \<and> problems = concat (map (\<lambda>(c, v). ex_denied (expandStringRefs resolve v)) (sites resolve s))
    \<and> set (sk_unresolvedRefs s') = set unresolved \<and> distinct (sk_unresolvedRefs s')"
proof -
  have e: "users [] k = []" by (simp add: users_def)
  have refs: "ex_storeRefs (expandStringRefs resolve v) = store_refs v" for v
    by (simp add: expandStringRefs_fields store_refs_def)
  from assms have s': "sk_references s' = fold (\<lambda>(c, v). fold (index_add c) (store_refs v)) (sites resolve s) []"
      "sk_unresolvedRefs s' = dedupe [] unresolved"
    and r: "unresolved = concat (map (\<lambda>(c, v). ex_unresolvedVault (expandStringRefs resolve v)) (sites resolve s))"
      "problems = concat (map (\<lambda>(c, v). ex_denied (expandStringRefs resolve v)) (sites resolve s))"
    by (auto simp: expandStackVarsResolved_def expansion_summary summary_def dedupeStrings_def refs)
  show ?thesis unfolding s' using r e dedupe_spec [of "[]" unresolved] set_users_sites [of store_refs "sites resolve s" "[]" k]
      distinct_users_sites [of "[]" k store_refs "sites resolve s"] by simp
qed

definition index_stack :: stack where
  "index_stack = (blank_stack [(blank_server ''db'')\<lparr>sv_command := [''run''], sv_env := [(''PW'', ''${var:PASS}-${var:PASS}'')]\<rparr>])"

definition demo_resolver :: reference_resolver where
  "demo_resolver = newReferenceResolver (Some (map_of [(''PASS'', ''p'')])) (\<lambda>_. None)"

theorem usage_index_exact_witness:
  "distinct (users (sk_references (fst (expandStackVarsResolved demo_resolver index_stack))) ''PASS'')"
proof -
  obtain s' u e p where r: "expandStackVarsResolved demo_resolver index_stack = (s', u, e, p)"
    by (cases "expandStackVarsResolved demo_resolver index_stack")
  show ?thesis unfolding r fst_conv using usage_index_exact [OF r] by blast
qed

subsection \<open>Extends\<close>

text \<open>What a chain of ancestor files amounts to.\<close>

fun flatten_chain :: "load_env \<Rightarrow> stack \<Rightarrow> string \<Rightarrow> string list \<Rightarrow> stack option" where
  "flatten_chain env s a [] = (if sk_extends s = [] then Some s else None)"
| "flatten_chain env s a (p # ps) =
     (if sk_extends s = [] \<or> parent_path env s a \<noteq> Some p then None
      else case parse_file env p of Inl _ \<Rightarrow> None
      | Inr parent0 \<Rightarrow>
          (case flatten_chain env parent0 p ps of None \<Rightarrow> None
           | Some parent \<Rightarrow>
               if checkDeclarationConflicts (sk_variables s) (sk_variables parent) \<noteq> None then None
               else Some ((mergeStacks s (resolveRelativePaths (le_home env) (path_Dir p) parent))\<lparr>sk_extends := []\<rparr>)))"

lemma resolveExtends_sound:
  "resolveExtends n env s a vis = Inr r \<Longrightarrow>
     \<exists>ps. length ps \<le> n \<and> distinct ps \<and> set ps \<inter> set vis = {} \<and> flatten_chain env s a ps = Some r"
proof (induction n env s a vis arbitrary: r rule: resolveExtends.induct)
  case (1 env s a vis)
  then have "flatten_chain env s a [] = Some r" by (simp split: if_splits)
  then show ?case by (intro exI [of _ "[]"]) simp
next
  case (2 n env s a vis)
  show ?case
  proof (cases "sk_extends s = []")
    case True
    with "2.prems" have "flatten_chain env s a [] = Some r" by simp
    then show ?thesis by (intro exI [of _ "[]"]) simp
  next
    case False
    with "2.prems" obtain p s0 par where p: "parent_path env s a = Some p" "p \<notin> set vis" "parse_file env p = Inr s0"
      "resolveExtends n env s0 p (p # vis) = Inr par" "checkDeclarationConflicts (sk_variables s) (sk_variables par) = None"
      "r = (mergeStacks s (resolveRelativePaths (le_home env) (path_Dir p) par))\<lparr>sk_extends := []\<rparr>"
      by (auto split: option.splits if_splits sum.splits)
    from "2.IH" [OF False p(1,2,3,4)] obtain ps where ps: "length ps \<le> n" "distinct ps" "set ps \<inter> set (p # vis) = {}"
      "flatten_chain env s0 p ps = Some par" by blast
    with p False have "flatten_chain env s a (p # ps) = Some r" by simp
    with ps p(2) show ?thesis by (intro exI [of _ "p # ps"]) auto
  qed
qed

lemma resolveExtends_complete:
  "\<lbrakk>length ps \<le> n; distinct ps; set ps \<inter> set vis = {}; flatten_chain env s a ps = Some r\<rbrakk> \<Longrightarrow> resolveExtends n env s a vis = Inr r"
proof (induction ps arbitrary: n s a vis r)
  case Nil
  then show ?case by (cases n) (auto split: if_splits)
next
  case (Cons p ps)
  then obtain m where m: "n = Suc m" "length ps \<le> m" by (cases n) auto
  from Cons.prems(4) obtain s0 par where f: "sk_extends s \<noteq> []" "parent_path env s a = Some p" "parse_file env p = Inr s0"
    "flatten_chain env s0 p ps = Some par" "checkDeclarationConflicts (sk_variables s) (sk_variables par) = None"
    "r = (mergeStacks s (resolveRelativePaths (le_home env) (path_Dir p) par))\<lparr>sk_extends := []\<rparr>"
    by (auto split: option.splits if_splits sum.splits)
  from Cons.prems have "set ps \<inter> set (p # vis) = {}" "distinct ps" by auto
  from Cons.IH [OF m(2) this(2,1) f(4)] f Cons.prems(3) m(1) show ?case by simp
qed

text \<open>C24. Inheritance is what the files say and always ends: resolution succeeds exactly when the chain of
  \<^verbatim>\<open>extends\<close> references from the stack leads, over at most ten distinct files and without returning to
  the stack itself, to a file that extends nothing, with no conflicting declarations on the way; the result is
  the chain merged from its far end.\<close>

theorem extends_spec:
  "resolveExtends maxExtendsDepth env s a [a] = Inr r \<longleftrightarrow>
     (\<exists>ps. length ps \<le> 10 \<and> distinct (a # ps) \<and> flatten_chain env s a ps = Some r)"
proof
  assume "resolveExtends maxExtendsDepth env s a [a] = Inr r"
  from resolveExtends_sound [OF this] show "\<exists>ps. length ps \<le> 10 \<and> distinct (a # ps) \<and> flatten_chain env s a ps = Some r" by auto
next
  assume "\<exists>ps. length ps \<le> 10 \<and> distinct (a # ps) \<and> flatten_chain env s a ps = Some r"
  then show "resolveExtends maxExtendsDepth env s a [a] = Inr r" using resolveExtends_complete [of _ 10 "[a]"] by auto
qed

lemma find_union_by:
  "find (\<lambda>v. f v = n) (xs @ filter (\<lambda>v. f v \<notin> f ` set xs) ys) = or_inherit (find (\<lambda>v. f v = n) xs) (find (\<lambda>v. f v = n) ys)"
proof (cases "find (\<lambda>v. f v = n) xs")
  case None
  then have "n \<notin> f ` set xs" by (auto simp: find_None_iff)
  then have "find (\<lambda>v. f v = n) (filter (\<lambda>v. f v \<notin> f ` set xs) ys) = find (\<lambda>v. f v = n) ys" by (induction ys) auto
  with None show ?thesis by (simp add: find_append or_inherit_def)
qed (simp add: find_append or_inherit_def)

text \<open>Merging is by name and the child wins: looking a server, a resource or a declaration up in the merged
  stack finds the child's, and the parent's only where the child has none; the settings of an access policy are
  the child's alone.\<close>

theorem child_wins:
  "find (\<lambda>v. sv_name v = n) (sk_servers (mergeStacks c p))
     = or_inherit (find (\<lambda>v. sv_name v = n) (sk_servers c)) (find (\<lambda>v. sv_name v = n) (sk_servers p))
   \<and> find (\<lambda>v. rc_name v = n) (sk_resources (mergeStacks c p))
     = or_inherit (find (\<lambda>v. rc_name v = n) (sk_resources c)) (find (\<lambda>v. rc_name v = n) (sk_resources p))
   \<and> sk_clients (mergeStacks c p) = sk_clients c \<and> sk_groups (mergeStacks c p) = sk_groups c
   \<and> sk_limits (mergeStacks c p) = sk_limits c \<and> sk_skills (mergeStacks c p) = sk_skills c"
  by (simp add: mergeStacks_def Let_def find_union_by [of sv_name] find_union_by [of rc_name])

subsection \<open>Loading\<close>

lemma set_members_filter:
  "set_members lookup name =
     fold (\<lambda>sec. AList.update (v_key sec) (v_value sec)) (filter (\<lambda>v. \<not> IsInternalCredential (v_key v)) (lookup name)) []"
proof -
  have "fold (\<lambda>sec m. if IsInternalCredential (v_key sec) then m else AList.update (v_key sec) (v_value sec) m) vs m
    = fold (\<lambda>sec. AList.update (v_key sec) (v_value sec)) (filter (\<lambda>v. \<not> IsInternalCredential (v_key v)) vs) m" for vs m
    by (induction vs arbitrary: m) simp_all
  then show ?thesis by (simp add: set_members_def)
qed

lemma injectSetSecrets_cong:
  assumes "\<And>n. filter (\<lambda>v. \<not> IsInternalCredential (v_key v)) (ls n) = filter (\<lambda>v. \<not> IsInternalCredential (v_key v)) (ls' n)"
  shows "injectSetSecrets s ls = injectSetSecrets s ls'"
proof -
  have "set_members ls = set_members ls'" by (simp add: fun_eq_iff set_members_filter assms)
  then have "secretsFor sets ls = secretsFor sets ls'" for sets by (simp only: secretsFor_def)
  then show ?thesis by (simp add: injectSetSecrets_def)
qed

lemma parse_file_getenv: "parse_file (env\<lparr>le_getenv := e\<rparr>) p = parse_file env p"
  by (simp add: parse_file_def split: option.split)

lemma resolveExtends_getenv: "resolveExtends n (env\<lparr>le_getenv := e\<rparr>) s a vis = resolveExtends n env s a vis"
  by (induction n arbitrary: s a vis) (simp_all add: parse_file_getenv parent_path_def split: option.split sum.split)

text \<open>C18. Loading never reads a bootstrap credential: the result of a load with a variable store and variable sets, a
  stack or an error, is the same for any two environments and stores that differ only in the four bootstrap credential
  names, and for any two families of sets that differ only in members with a reserved name (those four and every name with
  the prefix \<^verbatim>\<open>GRIDCTL_\<close>), whatever the stack file refers to. Other \<^verbatim>\<open>GRIDCTL_\<close> names may be read from the environment
  and the store by a bare reference, as the documentation allows for settings that are no credentials.\<close>

theorem load_ignores_credentials:
  assumes "agree_outside (set internalCredentialKeys) (le_getenv env) e" and "agree_outside (set internalCredentialKeys) f f'"
    and "\<And>n. filter (\<lambda>v. \<not> IsInternalCredential (v_key v)) (ls n) = filter (\<lambda>v. \<not> IsInternalCredential (v_key v)) (ls' n)"
  shows "LoadStack env (Some f) (Some ls) path = LoadStack (env\<lparr>le_getenv := e\<rparr>) (Some f') (Some ls') path"
proof -
  have sel: "le_cwd (env\<lparr>le_getenv := e\<rparr>) = le_cwd env" "le_home (env\<lparr>le_getenv := e\<rparr>) = le_home env"
    "le_getenv (env\<lparr>le_getenv := e\<rparr>) = e" "le_validation (env\<lparr>le_getenv := e\<rparr>) = le_validation env" by simp_all
  have inj: "injectSetSecrets s ls = injectSetSecrets s ls'" for s using assms(3) by (rule injectSetSecrets_cong)
  show ?thesis unfolding LoadStack_def sel parse_file_getenv resolveExtends_getenv resolver_ignores_credentials(1) [OF assms(2,1)]
    by (simp only: option.case inj option.simps)
qed

text \<open>C8. A stack loaded with a variable store keeps its promises: it is the merged chain of its files (at most ten
  parents, no file twice), expanded, completed with the defaults and with its relative paths resolved, up to injected
  variables; before the injection it was accepted by validation; every store reference without an operator in a field of
  the merged chain names a variable that the store or the environment has; and none of its fields refers to a reserved key
  through the store.\<close>

theorem loaded_stack_is_sound:
  assumes "LoadStack env (Some store) vaultSet path = Inr s"
  shows "\<exists>top merged ps a s0. parse_file env path = Inr top \<and> path_Abs (le_cwd env) path = Some a
    \<and> length ps \<le> 10 \<and> distinct (a # ps) \<and> flatten_chain env top a ps = Some merged
    \<and> (\<forall>(c, v)\<in>set (sites (newReferenceResolver (Some store) (le_getenv env)) merged).
         (\<forall>p n. Braced p n NoOp \<in> set (tokens v) \<and> p \<in> {''var'', ''vault''} \<longrightarrow> VaultResolver store (le_getenv env) n \<noteq> None)
         \<and> (\<forall>k\<in>set (store_refs v). \<not> IsInternalCredential k))
    \<and> s0 = resolveRelativePaths (le_home env) (path_Dir path)
         (SetDefaults (fst (expandStackVarsResolved (newReferenceResolver (Some store) (le_getenv env)) merged)))
    \<and> accepted (le_validation env) s0 \<and> (s = s0 \<or> (\<exists>ls. vaultSet = Some ls \<and> s = injectSetSecrets s0 ls))"
proof -
  let ?res = "newReferenceResolver (Some store) (le_getenv env)"
  from assms obtain top a merged where l: "parse_file env path = Inr top" "path_Abs (le_cwd env) path = Some a"
    "resolveExtends maxExtendsDepth env top a [a] = Inr merged"
    by (auto simp: LoadStack_def split: sum.splits option.splits)
  obtain s2 un em pr where x: "expandStackVarsResolved ?res merged = (s2, un, em, pr)" by (cases "expandStackVarsResolved ?res merged")
  let ?s3 = "resolveRelativePaths (le_home env) (path_Dir path) (SetDefaults s2)"
  from assms l x have r: "pr = []" "un = []" "accepted (le_validation env) ?s3"
      "s = ?s3 \<or> (\<exists>ls. vaultSet = Some ls \<and> s = injectSetSecrets ?s3 ls)"
    by (auto simp: LoadStack_def Let_def accepted_def split: if_splits option.splits)
  from extends_spec [THEN iffD1, OF l(3)] obtain ps where ps: "length ps \<le> 10 \<and> distinct (a # ps) \<and> flatten_chain env top a ps = Some merged" by blast
  note u = usage_index_exact [OF x, unfolded r(1,2)]
  have site: "(\<forall>p n. Braced p n NoOp \<in> set (tokens v) \<and> p \<in> {''var'', ''vault''} \<longrightarrow> VaultResolver store (le_getenv env) n \<noteq> None)
      \<and> (\<forall>k\<in>set (store_refs v). \<not> IsInternalCredential k)" if "(c, v) \<in> set (sites ?res merged)" for c v
  proof -
    have "ex_unresolvedVault (expandStringRefs ?res v) = []" "ex_denied (expandStringRefs ?res v) = []" using u that by fastforce+
    then have t: "ex_unresolvedVault (expand_token ?res t) = []" "ex_denied (expand_token ?res t) = []" if "t \<in> set (tokens v)" for t
      using that by (simp_all add: expandStringRefs_fields)
    show ?thesis using t resolved_token [OF t] expand_token_denied [of _ _ "Some store" "le_getenv env"] by (fastforce simp: store_refs_def)
  qed
  have s3: "?s3 = resolveRelativePaths (le_home env) (path_Dir path) (SetDefaults (fst (expandStackVarsResolved ?res merged)))"
    by (simp add: x)
  show ?thesis using l(1,2) ps site r(3,4) s3 by blast
qed

definition demo_load :: load_env where
  "demo_load = \<lparr>le_read = map_of [(''/s/stack.yaml'', ''child''), (''/s/base.yaml'', ''base'')],
     le_parse = map_of [
       (''child'', (blank_stack [(blank_server ''db'')\<lparr>sv_command := [''run''], sv_env := [(''PW'', ''${var:PASS}'')]\<rparr>])\<lparr>sk_extends := ''base.yaml''\<rparr>),
       (''base'', blank_stack [(blank_server ''web'')\<lparr>sv_command := [''serve'']\<rparr>])],
     le_cwd = None, le_home = None, le_getenv = (\<lambda>_. None), le_validation = demo_venv\<rparr>"

definition demo_store :: lookup where
  "demo_store = map_of [(''PASS'', ''p'')]"

lemma demo_load_result:
  "map_sum id (\<lambda>s. map (\<lambda>v. (sv_name v, sv_env v)) (sk_servers s)) (LoadStack demo_load (Some demo_store) None ''/s/stack.yaml'')
     = Inr [(''db'', [(''PW'', ''p'')]), (''web'', [])]"
  by code_simp

theorem load_ignores_credentials_witness:
  "LoadStack demo_load (Some demo_store) (Some (\<lambda>_. [])) ''/s/stack.yaml''
     = LoadStack (demo_load\<lparr>le_getenv := map_of [(''OP_CONNECT_TOKEN'', ''t'')]\<rparr>)
         (Some (demo_store(''GRIDCTL_VAULT_PASSPHRASE'' \<mapsto> ''secret''))) (Some (\<lambda>_. [])) ''/s/stack.yaml''"
proof -
  have "agree_outside (set internalCredentialKeys) (le_getenv demo_load) (map_of [(''OP_CONNECT_TOKEN'', ''t'')])"
    "agree_outside (set internalCredentialKeys) demo_store (demo_store(''GRIDCTL_VAULT_PASSPHRASE'' \<mapsto> ''secret''))"
    by (auto simp: agree_outside_def demo_load_def internalCredentialKeys_def)
  from load_ignores_credentials [OF this refl] show ?thesis .
qed

theorem loaded_stack_is_sound_witness:
  "\<exists>s. LoadStack demo_load (Some demo_store) None ''/s/stack.yaml'' = Inr s \<and> accepted demo_venv s"
proof -
  from demo_load_result obtain s where s: "LoadStack demo_load (Some demo_store) None ''/s/stack.yaml'' = Inr s"
    by (cases "LoadStack demo_load (Some demo_store) None ''/s/stack.yaml''") auto
  moreover have "le_validation demo_load = demo_venv" by (simp add: demo_load_def)
  ultimately show ?thesis using loaded_stack_is_sound [OF s] by auto
qed

subsection \<open>References in inherited paths\<close>

text \<open>A reference in an inherited path is misplaced: the paths of a parent stack are made absolute before
  variables are expanded, so a field that is just a reference, say an OpenAPI document or an SSH key, becomes
  the parent's directory followed by the value, also when the value is an absolute path that the same field
  in the stack itself would be.\<close>

theorem inherited_reference_is_misplaced:
  assumes "valid_name n" and "\<not> IsInternalCredential n" and "store n = Some v" and "path_IsAbs v"
    and "path_IsAbs d" and "path_Clean d = d" and "d \<noteq> ''/''" and "CHR ''$'' \<notin> set d"
  shows "ex_expanded (ExpandStringResolved (Some store) getenv (resolve_if_set home d (''${var:'' @ n @ ''}''))) = d @ ''/'' @ v
    \<and> resolve_if_set home d (ex_expanded (ExpandStringResolved (Some store) getenv (''${var:'' @ n @ ''}''))) = v"
proof -
  let ?ref = "''${var:'' @ n @ ''}''"
  have nm: "name_char c" if "name_start c" for c using that by (auto simp: name_start_def name_char_def)
  have "\<forall>c\<in>set n. name_char c" using assms(1) nm by (auto simp: valid_name_def list_all_iff split: list.splits)
  moreover have "\<not> name_char CHR ''/''" by code_simp
  ultimately have slash: "CHR ''/'' \<notin> set ?ref" by auto
  have join: "join_with ''/'' [d, ?ref] = d @ ''/'' @ ?ref" by simp
  have "resolve_if_set home d ?ref = path_Join [d, ?ref]"
    by (simp add: resolve_if_set_def expandTildeAndResolvePath_def Let_def path_IsAbs_def split: option.split)
  also have "\<dots> = path_Clean (d @ ''/'' @ ?ref)"
    using assms(5) by (simp add: path_Join_def path_IsAbs_def Let_def del: append_Cons append_assoc)
  also have "\<dots> = d @ ''/'' @ ?ref" using path_Clean_snoc [OF assms(5,6,7) slash] by simp
  finally have r: "resolve_if_set home d ?ref = (d @ ''/'') @ ?ref @ []" by simp
  have e: "ExpandStringResolved (Some store) getenv [] = replaced []" by (simp add: ExpandStringResolved_def expandStringRefs_def)
  have "CHR ''$'' \<notin> set (d @ ''/'')" using assms(8) by simp
  from store_reference_expands [OF assms(1) this assms(2), of store getenv "[]"] e
  have one: "ex_expanded (ExpandStringResolved (Some store) getenv ((d @ ''/'') @ ?ref @ [])) = d @ ''/'' @ v"
    by (simp add: VaultResolver_def assms(3))
  have "ex_expanded (ExpandStringResolved (Some store) getenv ?ref) = v"
    using store_reference_expands [OF assms(1) _ assms(2), of "[]" store getenv "[]"] e by (simp add: VaultResolver_def assms(3))
  moreover have "resolve_if_set home d v = v"
    using assms(4) by (cases v) (auto simp: resolve_if_set_def expandTildeAndResolvePath_def path_IsAbs_def Let_def split: option.split)
  ultimately show ?thesis unfolding r using one by simp
qed

theorem inherited_reference_is_misplaced_witness:
  "ex_expanded (ExpandStringResolved (Some demo_store) (\<lambda>_. None)
     (resolve_if_set None ''/s'' (''${var:'' @ ''KEYFILE'' @ ''}''))) = ''/s/${var:KEYFILE}''
   \<and> ex_expanded (ExpandStringResolved (Some (map_of [(''KEYFILE'', ''/k'')])) (\<lambda>_. None)
     (resolve_if_set None ''/s'' (''${var:'' @ ''KEYFILE'' @ ''}''))) = ''/s//k''"
proof -
  have "valid_name ''KEYFILE''" "\<not> IsInternalCredential ''KEYFILE''" "path_IsAbs ''/k''" "path_IsAbs ''/s''" "path_Clean ''/s'' = ''/s''"
    "CHR ''$'' \<notin> set ''/s''" by code_simp+
  from inherited_reference_is_misplaced [OF this(1,2) _ this(3-5) _ this(6), of "map_of [(''KEYFILE'', ''/k'')]"]
  have "ex_expanded (ExpandStringResolved (Some (map_of [(''KEYFILE'', ''/k'')])) (\<lambda>_. None)
     (resolve_if_set None ''/s'' (''${var:'' @ ''KEYFILE'' @ ''}''))) = ''/s//k''" by simp
  moreover have "ex_expanded (ExpandStringResolved (Some demo_store) (\<lambda>_. None)
     (resolve_if_set None ''/s'' (''${var:'' @ ''KEYFILE'' @ ''}''))) = ''/s/${var:KEYFILE}''" by code_simp
  ultimately show ?thesis by simp
qed

end
