(* ===== verification/Reload.thy ===== *)
theory Reload
  imports Config_Diff Loader "HOL-Library.Monad_Syntax"
begin

text \<open>
  Hot reload (\<^verbatim>\<open>pkg/reload/reload.go\<close>): the handler loads the stack file, compares it with the stack
  that runs and applies the difference through the gateway and the container runtime. Both are outside this
  file: every call to them is recorded in a history, and what a call answers is a function of the history
  before it, so that the theorems hold for every environment. A nil dereference is the outcome \<open>None\<close>.
  Log lines are left out; the text of a load error stays the error value.
\<close>

subsection \<open>The environment\<close>

record workload_config =
  wc_name :: string
  wc_stack :: string
  wc_type :: string
  wc_image :: string
  wc_command :: "string list"
  wc_env :: "(string, string) gomap"
  wc_networkName :: string
  wc_exposedPort :: int
  wc_hostPort :: int
  wc_volumes :: "string list"
  wc_transport :: string
  wc_labels :: "(string, string) gomap"

record replica_runtime =
  rr_hostPort :: int
  rr_containerID :: string

datatype outside_call =
    CallUnregister string
  | CallResetPins string
  | CallRecordFailure string string
  | CallRegister mcp_server "replica_runtime list" string
  | CallUpdatePolicy string autoscale_policy
  | CallPrepare string mcp_server
  | CallExists string
  | CallStop string
  | CallRemove string
  | CallEnsureImage string
  | CallEnsureNetwork string string string
  | CallStart workload_config
  | CallConfigApplied stack

type_synonym history = "outside_call list"

record reload_env =
  en_durationString :: print_duration
  en_hasRuntime :: bool
  en_hasRt :: bool
  en_registers :: bool
  en_onConfigApplied :: bool
  en_exists :: "history \<Rightarrow> string \<Rightarrow> string + string option"
  en_remove :: "history \<Rightarrow> string \<Rightarrow> string option"
  en_ensureImage :: "history \<Rightarrow> string \<Rightarrow> string option"
  en_ensureNetwork :: "history \<Rightarrow> string \<Rightarrow> string option"
  en_prepare :: "history \<Rightarrow> string \<Rightarrow> mcp_server \<Rightarrow> string + string"
  en_start :: "history \<Rightarrow> workload_config \<Rightarrow> string + string \<times> int"
  en_register :: "history \<Rightarrow> mcp_server \<Rightarrow> replica_runtime list \<Rightarrow> string \<Rightarrow> string option"
  en_endpoints :: "history \<Rightarrow> string list"
  en_hasScaler :: "history \<Rightarrow> string \<Rightarrow> bool"

subsection \<open>The handler\<close>

datatype reload_message = NoMessage | Message string | LoadFailed load_error

record reload_result =
  re_success :: bool
  re_message :: reload_message
  re_added :: "string list"
  re_removed :: "string list"
  re_modified :: "string list"
  re_errors :: "string list"

record handler =
  ha_stackPath :: string
  ha_currentCfg :: "stack option"
  ha_basePort :: int

text \<open>What the passes of a reload change: the calls made, the result so far, the configuration to be kept.\<close>

record reload_state =
  st_calls :: history
  st_result :: reload_result
  st_newCfg :: stack

definition call :: "outside_call \<Rightarrow> reload_state \<Rightarrow> reload_state" where
  "call c st = st\<lparr>st_calls := st_calls st @ [c]\<rparr>"

definition add_error :: "string \<Rightarrow> reload_state \<Rightarrow> reload_state" where
  "add_error e st = st\<lparr>st_result := (st_result st)\<lparr>re_errors := re_errors (st_result st) @ [e]\<rparr>\<rparr>"

definition note_added :: "string \<Rightarrow> reload_state \<Rightarrow> reload_state" where
  "note_added n st = st\<lparr>st_result := (st_result st)\<lparr>re_added := re_added (st_result st) @ [n]\<rparr>\<rparr>"

definition note_removed :: "string \<Rightarrow> reload_state \<Rightarrow> reload_state" where
  "note_removed n st = st\<lparr>st_result := (st_result st)\<lparr>re_removed := re_removed (st_result st) @ [n]\<rparr>\<rparr>"

definition note_modified :: "string \<Rightarrow> reload_state \<Rightarrow> reload_state" where
  "note_modified n st = st\<lparr>st_result := (st_result st)\<lparr>re_modified := re_modified (st_result st) @ [n]\<rparr>\<rparr>"

text \<open>A loop whose body may panic.\<close>

fun each :: "('a \<Rightarrow> 's \<Rightarrow> 's option) \<Rightarrow> 'a list \<Rightarrow> 's \<Rightarrow> 's option" where
  "each f [] st = Some st"
| "each f (x # xs) st = Option.bind (f x st) (each f xs)"

definition effectiveReplicas :: "mcp_server \<Rightarrow> int" where
  "effectiveReplicas s = (if sv_replicas s \<le> 0 then 1 else sv_replicas s)"

definition containerName :: "string \<Rightarrow> string \<Rightarrow> string" where
  "containerName stk name = ''gridctl-'' @ stk @ ''-'' @ name"

definition replicaContainerNames :: "string \<Rightarrow> mcp_server \<Rightarrow> string list" where
  "replicaContainerNames stk s =
     (let n = effectiveReplicas s; base = containerName stk (sv_name s)
      in if n \<le> 1 then [base] else map (\<lambda>i. base @ ''-replica-'' @ itoa (int i)) [0..<nat n])"

definition runtime_unavailable :: string where
  "runtime_unavailable = ''container runtime unavailable (Docker/Podman not detected); load the stack via 'gridctl apply' instead''"

text \<open>The port that an endpoint names: the decimal number after its fixed start, if it fits 64 bits.\<close>

definition digits_value :: "string \<Rightarrow> int" where
  "digits_value ds = foldl (\<lambda>n c. 10 * n + (of_char c - 48)) 0 ds"

definition scan_port :: "string \<Rightarrow> int option" where
  "scan_port endpoint =
     (let start = ''http://localhost:''
      in if \<not> prefix start endpoint then None
         else let r = drop (length start) endpoint;
                  neg = (r \<noteq> [] \<and> hd r = CHR ''-'');
                  r1 = (if r \<noteq> [] \<and> (hd r = CHR ''-'' \<or> hd r = CHR ''+'') then tl r else r);
                  ds = takeWhile (in_range (CHR ''0'') (CHR ''9'')) r1;
                  v = (if neg then - digits_value ds else digits_value ds)
              in if ds = [] \<or> v < - (2 ^ 63) \<or> v \<ge> 2 ^ 63 then None else Some v)"

definition allocatePort :: "reload_env \<Rightarrow> handler \<Rightarrow> history \<Rightarrow> int" where
  "allocatePort env h calls =
     fold (\<lambda>e m. if e = [] then m else case scan_port e of Some p \<Rightarrow> if p > m then p else m | None \<Rightarrow> m)
       (en_endpoints env calls) (ha_basePort h - 1) + 1"

definition stopAndRemoveContainer :: "reload_env \<Rightarrow> string \<Rightarrow> reload_state \<Rightarrow> (string option \<times> reload_state) option" where
  "stopAndRemoveContainer env cname st =
     (if \<not> en_hasRuntime env \<or> \<not> en_hasRt env then None
      else let st1 = call (CallExists cname) st in
        case en_exists env (st_calls st) cname of
          Inl e \<Rightarrow> Some (Some e, st1)
        | Inr None \<Rightarrow> Some (None, st1)
        | Inr (Some cid) \<Rightarrow>
            let st2 = call (CallStop cid) st1
            in Some (en_remove env (st_calls st2) cid, call (CallRemove cid) st2))"

definition ensure_network :: "reload_env \<Rightarrow> stack \<Rightarrow> network \<Rightarrow> string option \<times> history \<Rightarrow> string option \<times> history" where
  "ensure_network env s n acc =
     (case acc of
        (Some e, calls) \<Rightarrow> acc
      | (None, calls) \<Rightarrow>
          (map_option (\<lambda>e. ''ensuring network '' @ nw_name n @ '': '' @ e) (en_ensureNetwork env calls (nw_name n)),
           calls @ [CallEnsureNetwork (nw_name n) (nw_driver n) (sk_name s)]))"

definition ensureNetworks :: "reload_env \<Rightarrow> stack \<Rightarrow> history \<Rightarrow> string option \<times> history" where
  "ensureNetworks env s calls =
     (if \<not> en_hasRuntime env \<or> \<not> en_hasRt env then (Some runtime_unavailable, calls)
      else if sk_networks s \<noteq> [] then fold (ensure_network env s) (sk_networks s) (None, calls)
      else (map_option (\<lambda>e. ''ensuring network: '' @ e) (en_ensureNetwork env calls (nw_name (sk_network s))),
            calls @ [CallEnsureNetwork (nw_name (sk_network s)) (nw_driver (sk_network s)) (sk_name s)]))"

definition prepareMCPServer :: "reload_env \<Rightarrow> mcp_server \<Rightarrow> reload_state \<Rightarrow> (string + string) \<times> reload_state" where
  "prepareMCPServer env s st =
     (if \<not> IsContainerBased s then (Inr [], st)
      else if \<not> en_hasRuntime env then (Inl runtime_unavailable, st)
      else (en_prepare env (st_calls st) (sk_name (st_newCfg st)) s, call (CallPrepare (sk_name (st_newCfg st)) s) st))"

definition register_server :: "reload_env \<Rightarrow> handler \<Rightarrow> mcp_server \<Rightarrow> replica_runtime list \<Rightarrow> reload_state \<Rightarrow> string option \<times> reload_state" where
  "register_server env h s rts st =
     (if \<not> en_registers env then (None, st)
      else (en_register env (st_calls st) s rts (ha_stackPath h), call (CallRegister s rts (ha_stackPath h)) st))"

definition workload_network :: "stack \<Rightarrow> string \<Rightarrow> string" where
  "workload_network stk net = (if sk_networks stk \<noteq> [] \<and> net \<noteq> [] then net else nw_name (sk_network stk))"

definition server_workload :: "stack \<Rightarrow> mcp_server \<Rightarrow> string \<Rightarrow> nat \<Rightarrow> int \<Rightarrow> workload_config" where
  "server_workload stk s img i port =
     \<lparr>wc_name = (if effectiveReplicas s > 1 then sv_name s @ ''-replica-'' @ itoa (int i) else sv_name s),
      wc_stack = sk_name stk, wc_type = ''mcp-server'', wc_image = img, wc_command = sv_command s, wc_env = sv_env s,
      wc_networkName = workload_network stk (sv_network s), wc_exposedPort = sv_port s, wc_hostPort = port,
      wc_volumes = sv_volumes s, wc_transport = sv_transport s,
      wc_labels = [(''gridctl.managed'', ''true''), (''gridctl.stack'', sk_name stk), (''gridctl.mcp-server'', sv_name s)]\<rparr>"

text \<open>Starts the containers of the replicas in turn; stops at the first error.\<close>

fun start_replicas ::
  "reload_env \<Rightarrow> handler \<Rightarrow> mcp_server \<Rightarrow> string \<Rightarrow> nat list \<Rightarrow> replica_runtime list \<Rightarrow> reload_state
   \<Rightarrow> (string + replica_runtime list) \<times> reload_state" where
  "start_replicas env h s img [] rts st = (Inr rts, st)"
| "start_replicas env h s img (i # ids) rts st =
     (let hostPort = (if sv_transport s \<noteq> ''stdio'' then allocatePort env h (st_calls st) else 0);
          cfg = server_workload (st_newCfg st) s img i hostPort;
          st1 = call (CallStart cfg) st
      in case en_start env (st_calls st) cfg of
           Inl e \<Rightarrow> (Inl (''starting container replica '' @ itoa (int i) @ '': '' @ e), st1)
         | Inr (cid, p) \<Rightarrow>
             let actual = (if p = 0 \<and> sv_transport s \<noteq> ''stdio'' then hostPort else p)
             in start_replicas env h s img ids (rts @ [\<lparr>rr_hostPort = actual, rr_containerID = cid\<rparr>]) st1)"

definition startMCPServer :: "reload_env \<Rightarrow> handler \<Rightarrow> mcp_server \<Rightarrow> string \<Rightarrow> reload_state \<Rightarrow> string option \<times> reload_state" where
  "startMCPServer env h s img st =
     (let n = nat (effectiveReplicas s) in
      if \<not> IsContainerBased s then register_server env h s (replicate n \<lparr>rr_hostPort = 0, rr_containerID = []\<rparr>) st
      else if \<not> en_hasRuntime env \<or> \<not> en_hasRt env then (Some runtime_unavailable, st)
      else
        let (err, st1) = (if sv_source s = None
              then (en_ensureImage env (st_calls st) img, call (CallEnsureImage img) st) else (None, st))
        in case err of Some e \<Rightarrow> (Some (''ensuring image: '' @ e), st1)
           | None \<Rightarrow>
             (case start_replicas env h s img [0..<n] [] st1 of
                (Inl e, st2) \<Rightarrow> (Some e, st2)
              | (Inr rts, st2) \<Rightarrow> register_server env h (s\<lparr>sv_image := img\<rparr>) rts st2))"

definition startResource :: "reload_env \<Rightarrow> resource \<Rightarrow> reload_state \<Rightarrow> string option \<times> reload_state" where
  "startResource env r st =
     (if \<not> en_hasRuntime env \<or> \<not> en_hasRt env then (Some runtime_unavailable, st)
      else
        let stk = st_newCfg st; st1 = call (CallEnsureImage (rc_image r)) st;
            cfg = \<lparr>wc_name = rc_name r, wc_stack = sk_name stk, wc_type = ''resource'', wc_image = rc_image r, wc_command = [],
              wc_env = rc_env r, wc_networkName = workload_network stk (rc_network r), wc_exposedPort = 0, wc_hostPort = 0,
              wc_volumes = rc_volumes r, wc_transport = [],
              wc_labels = [(''gridctl.managed'', ''true''), (''gridctl.stack'', sk_name stk), (''gridctl.resource'', rc_name r)]\<rparr>
        in case en_ensureImage env (st_calls st) (rc_image r) of
             Some e \<Rightarrow> (Some (''ensuring image: '' @ e), st1)
           | None \<Rightarrow> ((case en_start env (st_calls st1) cfg of Inl e \<Rightarrow> Some e | Inr _ \<Rightarrow> None), call (CallStart cfg) st1))"

subsection \<open>Applying the difference\<close>

text \<open>Stops and removes the containers of a server, if it has any; a failure is reported or only logged.\<close>

definition drop_container :: "reload_env \<Rightarrow> bool \<Rightarrow> string \<Rightarrow> reload_state \<Rightarrow> reload_state option" where
  "drop_container env report n st = do {
     (err, st1) \<leftarrow> stopAndRemoveContainer env n st;
     Some (case err of None \<Rightarrow> st1
           | Some e \<Rightarrow> if report then add_error (''failed to remove container '' @ n @ '': '' @ e) st1 else st1)
   }"

definition drop_containers :: "reload_env \<Rightarrow> handler \<Rightarrow> bool \<Rightarrow> mcp_server \<Rightarrow> reload_state \<Rightarrow> reload_state option" where
  "drop_containers env h report s st =
     (if \<not> IsContainerBased s then Some st
      else case ha_currentCfg h of None \<Rightarrow> None
        | Some cur \<Rightarrow> each (drop_container env report) (replicaContainerNames (sk_name cur) s) st)"

definition remove_server :: "reload_env \<Rightarrow> handler \<Rightarrow> mcp_server \<Rightarrow> reload_state \<Rightarrow> reload_state option" where
  "remove_server env h s st = do {
     st1 \<leftarrow> drop_containers env h True s (call (CallResetPins (sv_name s)) (call (CallUnregister (sv_name s)) st));
     Some (note_removed (''mcp-server:'' @ sv_name s) st1)
   }"

fun replace_first :: "mcp_server \<Rightarrow> mcp_server list \<Rightarrow> mcp_server list" where
  "replace_first s [] = []"
| "replace_first s (x # xs) = (if sv_name x = sv_name s then s # xs else x # replace_first s xs)"

fun remove_first :: "string \<Rightarrow> mcp_server list \<Rightarrow> mcp_server list" where
  "remove_first n [] = []"
| "remove_first n (x # xs) = (if sv_name x = n then xs else x # remove_first n xs)"

definition replaceMCPServer :: "stack \<Rightarrow> mcp_server \<Rightarrow> stack" where
  "replaceMCPServer stk s = stk\<lparr>sk_servers := replace_first s (sk_servers stk)\<rparr>"

definition removeMCPServer :: "stack \<Rightarrow> string \<Rightarrow> stack" where
  "removeMCPServer stk n = stk\<lparr>sk_servers := remove_first n (sk_servers stk)\<rparr>"

definition modify_server :: "reload_env \<Rightarrow> handler \<Rightarrow> server_change \<Rightarrow> reload_state \<Rightarrow> reload_state option" where
  "modify_server env h c st =
     (case prepareMCPServer env (ch_new c) st of
        (Inl e, st1) \<Rightarrow>
          Some (add_error (''failed to reload '' @ ch_name c @ '': '' @ e) (st1\<lparr>st_newCfg := replaceMCPServer (st_newCfg st1) (ch_old c)\<rparr>))
      | (Inr img, st1) \<Rightarrow> do {
          st2 \<leftarrow> drop_containers env h False (ch_old c) (call (CallUnregister (ch_name c)) st1);
          Some (case startMCPServer env h (ch_new c) img (call (CallResetPins (ch_name c)) st2) of
                  (Some e, st3) \<Rightarrow>
                    call (CallRecordFailure (ch_name c) e) (add_error (''failed to reload '' @ ch_name c @ '': '' @ e) st3)
                | (None, st3) \<Rightarrow> note_modified (''mcp-server:'' @ ch_name c) st3)
        })"

definition add_server :: "reload_env \<Rightarrow> handler \<Rightarrow> mcp_server \<Rightarrow> reload_state \<Rightarrow> reload_state option" where
  "add_server env h s st =
     Some (case prepareMCPServer env s st of
        (Inl e, st1) \<Rightarrow>
          let st2 = call (CallRecordFailure (sv_name s) e) (add_error (''failed to add '' @ sv_name s @ '': '' @ e) st1)
          in st2\<lparr>st_newCfg := removeMCPServer (st_newCfg st2) (sv_name s)\<rparr>
      | (Inr img, st1) \<Rightarrow>
          (case startMCPServer env h s img st1 of
             (Some e, st2) \<Rightarrow> call (CallRecordFailure (sv_name s) e) (add_error (''failed to add '' @ sv_name s @ '': '' @ e) st2)
           | (None, st2) \<Rightarrow> note_added (''mcp-server:'' @ sv_name s) st2))"

definition applyMCPServerChanges :: "reload_env \<Rightarrow> handler \<Rightarrow> server_diff \<Rightarrow> reload_state \<Rightarrow> reload_state option" where
  "applyMCPServerChanges env h d st = do {
     st1 \<leftarrow> each (remove_server env h) (sd_removed d) st;
     st2 \<leftarrow> each (modify_server env h) (sd_modified d) st1;
     each (add_server env h) (sd_added d) st2
   }"

definition update_policy :: "reload_env \<Rightarrow> parse_duration \<Rightarrow> server_change \<Rightarrow> reload_state \<Rightarrow> reload_state" where
  "update_policy env pd c st =
     (case (en_hasScaler env (st_calls st) (ch_name c), sv_autoscale (ch_new c)) of
        (True, Some a) \<Rightarrow>
          note_modified (''mcp-server:'' @ ch_name c @ '' (autoscale policy)'')
            (call (CallUpdatePolicy (ch_name c) (toAutoscalePolicy pd a)) st)
      | _ \<Rightarrow> add_error (''no autoscaler for '' @ ch_name c) st)"

definition applyAutoscalePolicyUpdates :: "reload_env \<Rightarrow> parse_duration \<Rightarrow> server_diff \<Rightarrow> reload_state \<Rightarrow> reload_state" where
  "applyAutoscalePolicyUpdates env pd d st = fold (update_policy env pd) (sd_policyChanges d) st"

definition current_container :: "handler \<Rightarrow> string \<Rightarrow> string option" where
  "current_container h n = map_option (\<lambda>cur. containerName (sk_name cur) n) (ha_currentCfg h)"

definition remove_resource :: "reload_env \<Rightarrow> handler \<Rightarrow> resource \<Rightarrow> reload_state \<Rightarrow> reload_state option" where
  "remove_resource env h r st = do {
     cname \<leftarrow> current_container h (rc_name r);
     (err, st1) \<leftarrow> stopAndRemoveContainer env cname st;
     Some (note_removed (''resource:'' @ rc_name r) (case err of None \<Rightarrow> st1
             | Some e \<Rightarrow> add_error (''failed to remove resource '' @ rc_name r @ '': '' @ e) st1))
   }"

definition modify_resource :: "reload_env \<Rightarrow> handler \<Rightarrow> resource_change \<Rightarrow> reload_state \<Rightarrow> reload_state option" where
  "modify_resource env h c st = do {
     cname \<leftarrow> current_container h (rh_name c);
     (_, st1) \<leftarrow> stopAndRemoveContainer env cname st;
     Some (case startResource env (rh_new c) st1 of
             (Some e, st2) \<Rightarrow> add_error (''failed to reload '' @ rh_name c @ '': '' @ e) st2
           | (None, st2) \<Rightarrow> note_modified (''resource:'' @ rh_name c) st2)
   }"

definition add_resource :: "reload_env \<Rightarrow> resource \<Rightarrow> reload_state \<Rightarrow> reload_state option" where
  "add_resource env r st =
     Some (case startResource env r st of
             (Some e, st1) \<Rightarrow> add_error (''failed to add '' @ rc_name r @ '': '' @ e) st1
           | (None, st1) \<Rightarrow> note_added (''resource:'' @ rc_name r) st1)"

definition applyResourceChanges :: "reload_env \<Rightarrow> handler \<Rightarrow> resource_diff \<Rightarrow> reload_state \<Rightarrow> reload_state option" where
  "applyResourceChanges env h d st = do {
     st1 \<leftarrow> each (remove_resource env h) (rd_removed d) st;
     st2 \<leftarrow> each (modify_resource env h) (rd_modified d) st1;
     each (add_resource env) (rd_added d) st2
   }"

subsection \<open>Reload\<close>

definition plain_result :: "bool \<Rightarrow> reload_message \<Rightarrow> reload_result" where
  "plain_result ok msg = \<lparr>re_success = ok, re_message = msg, re_added = [], re_removed = [], re_modified = [], re_errors = []\<rparr>"

definition no_changes :: reload_result where
  "no_changes = plain_result True (Message ''no changes detected'')"

definition network_changed :: reload_result where
  "network_changed = plain_result False
     (Message ''network configuration changed - full restart required (run gridctl destroy && gridctl apply)'')"

text \<open>The result's verdict and message from the errors that were collected.\<close>

definition finish :: "reload_result \<Rightarrow> reload_result" where
  "finish r =
     (if re_errors r \<noteq> [] then
        r\<lparr>re_success := False,
          re_message := (if re_message r = NoMessage
             then Message (if length (re_errors r) = 1 then hd (re_errors r) else itoa (int (length (re_errors r))) @ '' errors during reload'')
             else re_message r)\<rparr>
      else if re_message r = NoMessage then r\<lparr>re_message := Message ''configuration reloaded successfully''\<rparr> else r)"

text \<open>The passes over servers, policies and resources, the new current configuration and the hook.\<close>

definition apply_diff ::
  "reload_env \<Rightarrow> parse_duration \<Rightarrow> handler \<Rightarrow> config_diff \<Rightarrow> stack \<Rightarrow> history \<Rightarrow> (reload_result \<times> handler \<times> history) option" where
  "apply_diff env pd h d newCfg calls = do {
     st1 \<leftarrow> applyMCPServerChanges env h (cd_servers d)
               \<lparr>st_calls = calls, st_result = plain_result True NoMessage, st_newCfg = newCfg\<rparr>;
     st3 \<leftarrow> applyResourceChanges env h (cd_resources d) (applyAutoscalePolicyUpdates env pd (cd_servers d) st1);
     let st4 = (if en_onConfigApplied env then call (CallConfigApplied (st_newCfg st3)) st3 else st3)
     in Some (finish (st_result st4), h\<lparr>ha_currentCfg := Some (st_newCfg st4)\<rparr>, st_calls st4)
   }"

definition prev_config :: "handler \<Rightarrow> stack" where
  "prev_config h = (case ha_currentCfg h of None \<Rightarrow> empty_stack | Some c \<Rightarrow> c)"

definition apply_config :: "reload_env \<Rightarrow> parse_duration \<Rightarrow> handler \<Rightarrow> history \<Rightarrow> stack \<Rightarrow> (reload_result \<times> handler \<times> history) option" where
  "apply_config env pd h calls newCfg =
     (let isInitial = (ha_currentCfg h = None);
          d = ComputeDiff pd (en_durationString env) (prev_config h) newCfg
      in if diff_IsEmpty d then Some (no_changes, h, calls)
         else if cd_networkChanged d \<and> \<not> isInitial then Some (network_changed, h, calls)
         else let (err, calls1) = (if isInitial \<and> NeedsContainerRuntime newCfg then ensureNetworks env newCfg calls else (None, calls))
              in case err of
                   Some e \<Rightarrow> Some (plain_result False (Message (''failed to ensure network: '' @ e)), h, calls1)
                 | None \<Rightarrow> apply_diff env pd h d newCfg calls1)"

definition Reload ::
  "reload_env \<Rightarrow> load_env \<Rightarrow> lookup option \<Rightarrow> (string \<Rightarrow> variable list) option \<Rightarrow> handler \<Rightarrow> history
   \<Rightarrow> (reload_result \<times> handler \<times> history) option" where
  "Reload env le vault vaultSet h calls =
     (case LoadStack le vault vaultSet (ha_stackPath h) of
        Inl e \<Rightarrow> Some (plain_result False (LoadFailed e), h, calls)
      | Inr newCfg \<Rightarrow> apply_config env (ve_parseDuration (le_validation le)) h calls newCfg)"

definition Initialize ::
  "reload_env \<Rightarrow> load_env \<Rightarrow> lookup option \<Rightarrow> (string \<Rightarrow> variable list) option \<Rightarrow> string \<Rightarrow> handler \<Rightarrow> history
   \<Rightarrow> (reload_result \<times> handler \<times> history) option" where
  "Initialize env le vault vaultSet path h calls =
     Reload env le vault vaultSet (h\<lparr>ha_stackPath := path, ha_currentCfg := None\<rparr>) calls"

subsection \<open>Loops\<close>

lemma each_returns: "(\<And>x st. x \<in> set xs \<Longrightarrow> f x st \<noteq> None) \<Longrightarrow> each f xs st \<noteq> None"
  by (induction xs arbitrary: st) (auto simp: Option.bind_eq_None_conv)

lemma bind_returns: "x \<noteq> None \<Longrightarrow> (\<And>y. x = Some y \<Longrightarrow> f y \<noteq> None) \<Longrightarrow> Option.bind x f \<noteq> None"
  by (auto simp: Option.bind_eq_None_conv)

text \<open>A loop keeps a preorder on states that each of its steps keeps.\<close>

lemma each_rel:
  assumes "each f xs st = Some st'" and "\<And>s. R s s" and "\<And>a b c. R a b \<Longrightarrow> R b c \<Longrightarrow> R a c"
    and "\<And>x a b. x \<in> set xs \<Longrightarrow> f x a = Some b \<Longrightarrow> R a b"
  shows "R st st'"
  using assms(1,4)
proof (induction xs arbitrary: st)
  case Nil
  then show ?case using assms(2) by simp
next
  case (Cons x xs)
  then obtain st1 where "f x st = Some st1" "each f xs st1 = Some st'" by (auto simp: Option.bind_eq_Some_conv)
  moreover have "R st st1" using Cons.prems(2) [OF _ calculation(1)] by simp
  moreover have "R st1 st'" by (rule Cons.IH [OF calculation(2)]) (rule Cons.prems(2); simp)
  ultimately show ?case using assms(3) by blast
qed

subsection \<open>Returning\<close>

definition has_runtime :: "reload_env \<Rightarrow> bool" where
  "has_runtime env \<longleftrightarrow> en_hasRuntime env \<and> en_hasRt env"

lemma stop_returns: "has_runtime env \<Longrightarrow> stopAndRemoveContainer env n st \<noteq> None"
  by (auto simp: has_runtime_def stopAndRemoveContainer_def Let_def split: sum.split option.split)

lemma drop_returns:
  assumes "has_runtime env \<and> ha_currentCfg h \<noteq> None \<or> \<not> IsContainerBased s"
  shows "drop_containers env h rep s st \<noteq> None"
proof (cases "IsContainerBased s")
  case True
  then obtain cur where cur: "ha_currentCfg h = Some cur" and rt: "has_runtime env" using assms by auto
  show ?thesis unfolding drop_containers_def using True cur
    by (simp add: drop_container_def del: not_None_eq) (intro each_returns, unfold drop_container_def, intro bind_returns stop_returns rt, simp add: split_beta)
qed (simp add: drop_containers_def)

definition container_free :: "handler \<Rightarrow> bool" where
  "container_free h \<longleftrightarrow> (case ha_currentCfg h of None \<Rightarrow> True | Some cur \<Rightarrow> \<not> NeedsContainerRuntime cur)"

lemma old_servers:
  "s \<in> set (sd_removed (diffMCPServers pd ds olds news)) \<Longrightarrow> s \<in> set olds"
  "c \<in> set (sd_modified (diffMCPServers pd ds olds news)) \<Longrightarrow> ch_old c \<in> set olds \<and> sv_name (ch_old c) = ch_name c \<and> ch_new c \<in> set news \<and> sv_name (ch_new c) = ch_name c"
  using by_name_Some [of sv_name olds] by (auto simp: diffMCPServers_eq change_to_def restart_change_def split: option.splits)

lemma old_resources:
  "r \<in> set (rd_removed (diffResources olds news)) \<Longrightarrow> r \<in> set olds"
  "c \<in> set (rd_modified (diffResources olds news)) \<Longrightarrow> olds \<noteq> []"
  using by_name_Some [of rc_name olds] by (auto simp: diffResources_eq split: option.splits)

lemma apply_servers_returns:
  assumes "has_runtime env \<or> container_free h" and "d = diffMCPServers pd ds olds news"
    and "olds = sk_servers (prev_config h)"
  shows "applyMCPServerChanges env h d st \<noteq> None"
proof -
  have drop: "drop_containers env h rep s st0 \<noteq> None" if "s \<in> set olds" for rep s st0
    using that assms(1,3) drop_returns [of env h s rep st0]
    by (cases "ha_currentCfg h") (auto simp: prev_config_def empty_stack_def container_free_def NeedsContainerRuntime_def)
  have r: "each (remove_server env h) (sd_removed d) st0 \<noteq> None" for st0
  proof (rule each_returns)
    fix s st1 assume "s \<in> set (sd_removed d)"
    then have "s \<in> set olds" using old_servers(1) assms(2) by blast
    then show "remove_server env h s st1 \<noteq> None" unfolding remove_server_def by (intro bind_returns drop) simp_all
  qed
  have m: "each (modify_server env h) (sd_modified d) st0 \<noteq> None" for st0
  proof (rule each_returns)
    fix c st1 assume "c \<in> set (sd_modified d)"
    then have "drop_containers env h False (ch_old c) st2 \<noteq> None" for st2 using drop old_servers(2) assms(2) by blast
    then show "modify_server env h c st1 \<noteq> None"
      unfolding modify_server_def by (simp del: not_None_eq split: prod.split sum.split) (intro allI impI bind_returns; simp)
  qed
  have a: "each (add_server env h) (sd_added d) st0 \<noteq> None" for st0
    by (intro each_returns) (simp add: add_server_def)
  show ?thesis unfolding applyMCPServerChanges_def by (intro bind_returns r m a)
qed

lemma apply_resources_returns:
  assumes "has_runtime env \<or> container_free h" and "d = diffResources olds news"
    and "olds = sk_resources (prev_config h)"
  shows "applyResourceChanges env h d st \<noteq> None"
proof -
  have some: "has_runtime env \<and> ha_currentCfg h \<noteq> None" if "olds \<noteq> []"
    using that assms(1,3) by (cases "ha_currentCfg h") (auto simp: prev_config_def empty_stack_def container_free_def NeedsContainerRuntime_def)
  have cc: "current_container h n \<noteq> None" if "olds \<noteq> []" for n using some [OF that] by (simp add: current_container_def)
  have st: "stopAndRemoveContainer env n st0 \<noteq> None" if "olds \<noteq> []" for n st0 using some [OF that] stop_returns by blast
  have r: "each (remove_resource env h) (rd_removed d) st0 \<noteq> None" for st0
  proof (rule each_returns)
    fix x st1 assume "x \<in> set (rd_removed d)"
    then have "olds \<noteq> []" using old_resources(1) assms(2) by fastforce
    then show "remove_resource env h x st1 \<noteq> None" unfolding remove_resource_def by (intro bind_returns cc) (auto dest: st simp del: not_None_eq intro!: bind_returns st)
  qed
  have m: "each (modify_resource env h) (rd_modified d) st0 \<noteq> None" for st0
  proof (rule each_returns)
    fix x st1 assume "x \<in> set (rd_modified d)"
    then have "olds \<noteq> []" using old_resources(2) assms(2) by blast
    then show "modify_resource env h x st1 \<noteq> None" unfolding modify_resource_def by (intro bind_returns cc) (auto dest: st simp del: not_None_eq intro!: bind_returns st)
  qed
  have a: "each (add_resource env) (rd_added d) st0 \<noteq> None" for st0
    by (intro each_returns) (simp add: add_resource_def)
  show ?thesis unfolding applyResourceChanges_def by (intro bind_returns r m a)
qed

lemma reload_total:
  assumes "has_runtime env \<or> container_free h"
  shows "\<exists>r h' calls'. Reload env le vault vaultSet h calls = Some (r, h', calls')"
proof -
  have "apply_diff env pd h (ComputeDiff pd ds (prev_config h) newCfg) newCfg cs \<noteq> None" for pd ds newCfg cs
    unfolding apply_diff_def ComputeDiff_def config_diff.select_convs Let_def
    by (intro bind_returns apply_servers_returns [OF assms refl refl] apply_resources_returns [OF assms refl refl]) simp
  then have "apply_config env pd h calls newCfg \<noteq> None" for pd newCfg
    unfolding apply_config_def Let_def by (simp del: not_None_eq split: prod.split option.split)
  then have "Reload env le vault vaultSet h calls \<noteq> None"
    by (simp add: Reload_def del: not_None_eq split: sum.split)
  then show ?thesis by auto
qed

text \<open>A reload returns, whatever the environment answers, if there is a container runtime or the running stack
  has nothing in containers.\<close>

theorem reload_returns:
  assumes "has_runtime env \<or> container_free h"
  shows "\<exists>r h' calls'. Reload env le vault vaultSet h calls = Some (r, h', calls')"
  by (rule reload_total [OF assms])

subsection \<open>What a step touches\<close>

text \<open>The server that a call to the gateway or the runtime is about.\<close>

fun subject :: "outside_call \<Rightarrow> string option" where
  "subject (CallUnregister n) = Some n"
| "subject (CallResetPins n) = Some n"
| "subject (CallRecordFailure n e) = Some n"
| "subject (CallRegister s rts p) = Some (sv_name s)"
| "subject (CallUpdatePolicy n p) = Some n"
| "subject (CallPrepare stk s) = Some (sv_name s)"
| "subject (CallStart cfg) = map_of (wc_labels cfg) ''gridctl.mcp-server''"
| "subject _ = None"

definition server_named :: "stack \<Rightarrow> string \<Rightarrow> mcp_server option" where
  "server_named stk n = find (\<lambda>s. sv_name s = n) (sk_servers stk)"

definition prep_ok :: "reload_env \<Rightarrow> bool" where
  "prep_ok env \<longleftrightarrow> en_hasRuntime env \<and> (\<forall>calls stk s. \<exists>img. en_prepare env calls stk s = Inr img)"

abbreviation server_names :: "reload_state \<Rightarrow> string list" where
  "server_names st \<equiv> map sv_name (sk_servers (st_newCfg st))"

text \<open>A step that makes calls only about the servers in a set keeps the other servers of the new configuration,
  its names stay distinct, it changes the configuration only with an error and only if a preparation can fail.\<close>

definition touches :: "reload_env \<Rightarrow> string set \<Rightarrow> reload_state \<Rightarrow> reload_state \<Rightarrow> bool" where
  "touches env M a b \<longleftrightarrow>
     (\<exists>cs. st_calls b = st_calls a @ cs \<and> (\<forall>c\<in>set cs. \<forall>k. subject c = Some k \<longrightarrow> k \<in> M))
     \<and> (\<forall>k. k \<notin> M \<longrightarrow> server_named (st_newCfg b) k = server_named (st_newCfg a) k)
     \<and> (re_errors (st_result b) = [] \<longrightarrow> re_errors (st_result a) = [] \<and> st_newCfg b = st_newCfg a)
     \<and> (distinct (server_names a) \<longrightarrow> distinct (server_names b))
     \<and> (prep_ok env \<longrightarrow> st_newCfg b = st_newCfg a)"

lemma touches_refl: "touches env M a a"
  by (simp add: touches_def)

lemma touches_trans: "touches env M a b \<Longrightarrow> touches env M b c \<Longrightarrow> touches env M a c"
proof -
  assume ab: "touches env M a b" and bc: "touches env M b c"
  obtain xs where xs: "st_calls b = st_calls a @ xs" "\<forall>c\<in>set xs. \<forall>k. subject c = Some k \<longrightarrow> k \<in> M"
    using ab unfolding touches_def by blast
  obtain ys where ys: "st_calls c = st_calls b @ ys" "\<forall>c\<in>set ys. \<forall>k. subject c = Some k \<longrightarrow> k \<in> M"
    using bc unfolding touches_def by blast
  have "\<exists>cs. st_calls c = st_calls a @ cs \<and> (\<forall>c\<in>set cs. \<forall>k. subject c = Some k \<longrightarrow> k \<in> M)"
    using xs ys by (intro exI [of _ "xs @ ys"]) auto
  then show ?thesis using ab bc unfolding touches_def by simp
qed

lemma touches_mono: "touches env M a b \<Longrightarrow> M \<subseteq> N \<Longrightarrow> touches env N a b"
  unfolding touches_def by blast

lemma touches_call: "(\<And>k. subject c = Some k \<Longrightarrow> k \<in> M) \<Longrightarrow> touches env M a b \<Longrightarrow> touches env M a (call c b)"
  by (rule touches_trans [of env M a b]) (auto simp: touches_def call_def)

lemma touches_notes:
  "touches env M a b \<Longrightarrow> touches env M a (add_error e b)" "touches env M a b \<Longrightarrow> touches env M a (note_added n b)"
  "touches env M a b \<Longrightarrow> touches env M a (note_removed n b)" "touches env M a b \<Longrightarrow> touches env M a (note_modified n b)"
  by (auto simp: touches_def add_error_def note_added_def note_removed_def note_modified_def)

lemmas touches_intros = touches_refl touches_call touches_notes

lemma each_touches:
  "each f xs st = Some st' \<Longrightarrow> (\<And>x a b. x \<in> set xs \<Longrightarrow> f x a = Some b \<Longrightarrow> touches env M a b) \<Longrightarrow> touches env M st st'"
  by (rule each_rel [where R = "touches env M"]) (auto intro: touches_refl touches_trans)

lemma stop_touches: "stopAndRemoveContainer env n st = Some (e, st') \<Longrightarrow> touches env M st st'"
  by (auto simp: stopAndRemoveContainer_def Let_def intro!: touches_intros split: if_splits sum.splits option.splits)

lemma drop_one_touches: "drop_container env rep n st = Some st' \<Longrightarrow> touches env M st st'"
  unfolding drop_container_def Option.bind_eq_Some_conv
  by (clarsimp simp del: append.simps, drule stop_touches [where M = M]) (simp del: append.simps split: option.splits add: touches_notes(1))

lemma drop_touches: "drop_containers env h rep s st = Some st' \<Longrightarrow> touches env M st st'"
  unfolding drop_containers_def
  by (auto split: if_splits option.splits intro: touches_refl elim!: each_touches drop_one_touches)

lemma prepare_touches: "prepareMCPServer env s st = (x, st') \<Longrightarrow> touches env {sv_name s} st st' \<and> st_newCfg st' = st_newCfg st"
  by (auto simp: prepareMCPServer_def call_def touches_def split: if_splits)

lemma register_touches: "register_server env h s rts st = (x, st') \<Longrightarrow> touches env {sv_name s} st st'"
  by (auto simp: register_server_def intro!: touches_intros split: if_splits)

lemma start_replicas_touches: "start_replicas env h s img ids rts st = (x, st') \<Longrightarrow> touches env {sv_name s} st st'"
proof (induction ids arbitrary: rts st)
  case (Cons i ids)
  have t: "touches env {sv_name s} st (call (CallStart (server_workload (st_newCfg st) s img i p)) st)" for p
    by (auto simp: server_workload_def intro!: touches_intros)
  show ?case using Cons.prems Cons.IH t touches_trans
    by (auto simp: Let_def split: sum.splits prod.splits) blast+
qed (simp add: touches_refl)

lemma start_touches:
  assumes "startMCPServer env h s img st = (x, st')"
  shows "touches env {sv_name s} st st'"
proof -
  let ?T = "touches env {sv_name s}"
  have reg: "?T st0 st'" if "register_server env h s' rts st1 = (x, st')" "?T st0 st1" "sv_name s' = sv_name s" for s' rts st0 st1
    using register_touches [OF that(1)] that(2,3) touches_trans by metis
  have go: "?T st st'" if t1: "?T st st1" and "(case start_replicas env h s img [0..<nat (effectiveReplicas s)] [] st1 of
      (Inl e, st2) \<Rightarrow> (Some e, st2) | (Inr rts, st2) \<Rightarrow> register_server env h (s\<lparr>sv_image := img\<rparr>) rts st2) = (x, st')" for st1
  proof -
    obtain y st2 where y: "start_replicas env h s img [0..<nat (effectiveReplicas s)] [] st1 = (y, st2)" by fastforce
    then have "?T st st2" using start_replicas_touches t1 touches_trans by metis
    then show ?thesis using that(2) y reg [of "s\<lparr>sv_image := img\<rparr>"] by (cases y) auto
  qed
  have ei: "?T st (call (CallEnsureImage img) st)" by (rule touches_call) (simp_all add: touches_refl)
  from assms show ?thesis
    unfolding startMCPServer_def Let_def
    by (auto split: if_splits option.splits intro: reg touches_refl ei go [OF touches_refl] go [OF ei])
qed

lemma start_resource_touches: "startResource env r st = (x, st') \<Longrightarrow> touches env M st st'"
  by (auto simp: startResource_def Let_def intro!: touches_intros split: if_splits option.splits)

lemma remove_server_touches: "remove_server env h s st = Some st' \<Longrightarrow> touches env {sv_name s} st st'"
proof -
  assume r: "remove_server env h s st = Some st'"
  define st0 where "st0 = call (CallResetPins (sv_name s)) (call (CallUnregister (sv_name s)) st)"
  have t0: "touches env {sv_name s} st st0" unfolding st0_def by (intro touches_intros) simp_all
  from r obtain st1 where d: "drop_containers env h True s st0 = Some st1" and e: "st' = note_removed (''mcp-server:'' @ sv_name s) st1"
    unfolding remove_server_def st0_def Option.bind_eq_Some_conv by auto
  show ?thesis unfolding e using touches_trans [OF t0 drop_touches [OF d]] by (rule touches_notes)
qed

lemma find_replace_first: "k \<noteq> sv_name s \<Longrightarrow> find (\<lambda>x. sv_name x = k) (replace_first s xs) = find (\<lambda>x. sv_name x = k) xs"
  by (induction xs) auto

lemma find_replaced: "sv_name s \<in> sv_name ` set xs \<Longrightarrow> find (\<lambda>x. sv_name x = sv_name s) (replace_first s xs) = Some s"
  by (induction xs) auto

lemma find_remove_first: "k \<noteq> n \<Longrightarrow> find (\<lambda>x. sv_name x = k) (remove_first n xs) = find (\<lambda>x. sv_name x = k) xs"
  by (induction xs) auto

lemma replace_first_names: "map sv_name (replace_first s xs) = map sv_name xs"
  by (induction xs) auto

lemma remove_first_names: "distinct (map sv_name xs) \<Longrightarrow> distinct (map sv_name (remove_first n xs))"
proof -
  have sub: "set (remove_first n ys) \<subseteq> set ys" for ys by (induction ys) auto
  show "distinct (map sv_name xs) \<Longrightarrow> distinct (map sv_name (remove_first n xs))"
  proof (induction xs)
    case (Cons x xs)
    then have "sv_name x \<notin> sv_name ` set (remove_first n xs)" using sub [of xs] by auto
    then show ?case using Cons by simp
  qed simp
qed

lemma prepare_fails: "prepareMCPServer env s st = (Inl e, st') \<Longrightarrow> \<not> prep_ok env"
  by (auto simp: prepareMCPServer_def prep_ok_def split: if_splits) (metis sum.distinct(1))

lemma failed_step_touches:
  "touches env {n} a b \<Longrightarrow> re_errors (st_result b) \<noteq> [] \<Longrightarrow> (\<And>k. k \<noteq> n \<Longrightarrow> server_named cfg k = server_named (st_newCfg b) k)
     \<Longrightarrow> (distinct (server_names b) \<Longrightarrow> distinct (map sv_name (sk_servers cfg))) \<Longrightarrow> \<not> prep_ok env \<Longrightarrow> touches env {n} a (b\<lparr>st_newCfg := cfg\<rparr>)"
  "re_errors (st_result (add_error e b)) \<noteq> []"
  "add_error e (b\<lparr>st_newCfg := cfg\<rparr>) = (add_error e b)\<lparr>st_newCfg := cfg\<rparr>" "st_newCfg (add_error e b) = st_newCfg b"
  "st_newCfg (call x b) = st_newCfg b" "st_result (call x b) = st_result b"
  by (auto simp: touches_def add_error_def call_def)

lemma modify_server_touches:
  assumes "modify_server env h c st = Some st'" and "sv_name (ch_new c) = ch_name c" and "sv_name (ch_old c) = ch_name c"
  shows "touches env {ch_name c} st st'"
proof -
  let ?T = "touches env {ch_name c}"
  obtain x st1 where p: "prepareMCPServer env (ch_new c) st = (x, st1)" by fastforce
  then have t1: "?T st st1" using prepare_touches assms(2) by metis
  show ?thesis
  proof (cases x)
    case (Inl e)
    then have "st' = add_error (''failed to reload '' @ ch_name c @ '': '' @ e) (st1\<lparr>st_newCfg := replaceMCPServer (st_newCfg st1) (ch_old c)\<rparr>)"
      using assms(1) p unfolding modify_server_def by simp
    then show ?thesis unfolding failed_step_touches(3)
      by (simp only:) (rule failed_step_touches(1) [OF touches_notes(1) [OF t1]],
          simp_all add: failed_step_touches(2,4) server_named_def replaceMCPServer_def assms(3) find_replace_first replace_first_names prepare_fails [OF p [unfolded Inl]])
  next
    case (Inr img)
    let ?u = "call (CallUnregister (ch_name c)) st1"
    from Inr obtain st2 where d: "drop_containers env h False (ch_old c) ?u = Some st2"
      and s: "st' = (case startMCPServer env h (ch_new c) img (call (CallResetPins (ch_name c)) st2) of
          (Some e, st3) \<Rightarrow> call (CallRecordFailure (ch_name c) e) (add_error (''failed to reload '' @ ch_name c @ '': '' @ e) st3)
        | (None, st3) \<Rightarrow> note_modified (''mcp-server:'' @ ch_name c) st3)"
      using assms(1) p unfolding modify_server_def by (auto simp: Option.bind_eq_Some_conv)
    have "?T st ?u" using t1 by (intro touches_intros) simp_all
    then have "?T st (call (CallResetPins (ch_name c)) st2)"
      using touches_trans drop_touches [OF d] by (intro touches_call) (simp, blast)
    moreover obtain y st3 where y: "startMCPServer env h (ch_new c) img (call (CallResetPins (ch_name c)) st2) = (y, st3)" by fastforce
    ultimately have "?T st st3" using start_touches [OF y] assms(2) touches_trans by metis
    then show ?thesis unfolding s y prod.case by (cases y) (simp_all only: option.case, auto simp del: append.simps intro!: touches_call touches_notes)
  qed
qed

lemma add_server_touches: "add_server env h s st = Some st' \<Longrightarrow> touches env {sv_name s} st st'"
proof -
  assume a: "add_server env h s st = Some st'"
  let ?T = "touches env {sv_name s}"
  obtain x st1 where p: "prepareMCPServer env s st = (x, st1)" by fastforce
  then have t1: "?T st st1" using prepare_touches by metis
  show ?thesis
  proof (cases x)
    case (Inl e)
    define st2 where "st2 = call (CallRecordFailure (sv_name s) e) (add_error (''failed to add '' @ sv_name s @ '': '' @ e) st1)"
    have "st' = st2\<lparr>st_newCfg := removeMCPServer (st_newCfg st2) (sv_name s)\<rparr>"
      using a p Inl unfolding add_server_def st2_def Let_def by simp
    moreover have "?T st st2" unfolding st2_def by (intro touches_call touches_notes t1) simp
    moreover have "re_errors (st_result st2) \<noteq> []" unfolding st2_def failed_step_touches(6) by (rule failed_step_touches(2))
    ultimately show ?thesis
      by (simp only:) (rule failed_step_touches(1), simp_all add: server_named_def removeMCPServer_def find_remove_first remove_first_names prepare_fails [OF p [unfolded Inl]])
  next
    case (Inr img)
    obtain y st2 where y: "startMCPServer env h s img st1 = (y, st2)" by fastforce
    have "?T st st2" using touches_trans [OF t1 start_touches [OF y]] .
    then show ?thesis using a p Inr y unfolding add_server_def by (cases y) (simp_all del: append.simps, auto intro!: touches_call touches_notes)
  qed
qed

lemma update_policy_touches: "touches env {ch_name c} st (update_policy env pd c st)"
  unfolding update_policy_def by (auto split: bool.split option.split intro!: touches_call touches_notes touches_refl)

lemma resource_steps_touch:
  "remove_resource env h r st = Some st' \<Longrightarrow> touches env M st st'"
  "modify_resource env h c st = Some st' \<Longrightarrow> touches env M st st'"
  "add_resource env r st = Some st' \<Longrightarrow> touches env M st st'"
proof -
  show "touches env M st st'" if m: "remove_resource env h r st = Some st'"
  proof -
    obtain n e st1 where s: "stopAndRemoveContainer env n st = Some (e, st1)"
      and f: "st' = note_removed (''resource:'' @ rc_name r) (case e of None \<Rightarrow> st1
           | Some e \<Rightarrow> add_error (''failed to remove resource '' @ rc_name r @ '': '' @ e) st1)"
      using m unfolding remove_resource_def Option.bind_eq_Some_conv by auto
    show ?thesis unfolding f using stop_touches [OF s, of M] by (cases e) (simp_all only: option.case touches_notes)
  qed
  show "touches env M st st'" if "add_resource env r st = Some st'"
    using that start_resource_touches [where M = M] unfolding add_resource_def
    by (cases "startResource env r st") (auto simp del: append.simps split: option.splits intro: touches_notes)
  show "touches env M st st'" if m: "modify_resource env h c st = Some st'"
  proof -
    obtain n e st1 where s: "stopAndRemoveContainer env n st = Some (e, st1)"
      and f: "st' = (case startResource env (rh_new c) st1 of (Some e, st2) \<Rightarrow> add_error (''failed to reload '' @ rh_name c @ '': '' @ e) st2
           | (None, st2) \<Rightarrow> note_modified (''resource:'' @ rh_name c) st2)"
      using m unfolding modify_resource_def Option.bind_eq_Some_conv by auto
    obtain y st2 where y: "startResource env (rh_new c) st1 = (y, st2)" by fastforce
    have "touches env M st st2" using touches_trans [OF stop_touches [OF s] start_resource_touches [OF y]] .
    then show ?thesis unfolding f y prod.case by (cases y) (simp_all del: append.simps add: touches_notes)
  qed
qed

text \<open>All the servers that a difference names.\<close>

definition diff_names :: "server_diff \<Rightarrow> string set" where
  "diff_names d = sv_name ` set (sd_removed d) \<union> ch_name ` set (sd_modified d) \<union> sv_name ` set (sd_added d) \<union> ch_name ` set (sd_policyChanges d)"

lemma policies_touch:
  "ch_name ` set cs \<subseteq> M \<Longrightarrow> touches env M st (fold (update_policy env pd) cs st)"
proof (induction cs arbitrary: st)
  case (Cons c cs)
  then have "touches env M st (update_policy env pd c st)" using touches_mono [OF update_policy_touches] by auto
  then show ?case using Cons touches_trans by auto
qed (simp add: touches_refl)

lemma each_touches_names:
  assumes "each f xs st = Some st'" and "\<And>x a b. x \<in> set xs \<Longrightarrow> f x a = Some b \<Longrightarrow> touches env {nm x} a b" and "nm ` set xs \<subseteq> M"
  shows "touches env M st st'"
proof (rule each_touches [OF assms(1)])
  fix x a b assume x: "x \<in> set xs" "f x a = Some b"
  show "touches env M a b" by (rule touches_mono [OF assms(2) [OF x]]) (use assms(3) x(1) in auto)
qed

lemma resources_touch: "applyResourceChanges env h rd st = Some st' \<Longrightarrow> touches env M st st'"
proof -
  assume a: "applyResourceChanges env h rd st = Some st'"
  obtain st1 st2 where s: "each (remove_resource env h) (rd_removed rd) st = Some st1"
    "each (modify_resource env h) (rd_modified rd) st1 = Some st2" "each (add_resource env) (rd_added rd) st2 = Some st'"
    using a unfolding applyResourceChanges_def Option.bind_eq_Some_conv by blast
  have "touches env M st st1" by (rule each_touches [OF s(1)]) (erule resource_steps_touch)
  moreover have "touches env M st1 st2" by (rule each_touches [OF s(2)]) (erule resource_steps_touch)
  moreover have "touches env M st2 st'" by (rule each_touches [OF s(3)]) (erule resource_steps_touch)
  ultimately show ?thesis using touches_trans by blast
qed

lemma servers_touch:
  assumes "applyMCPServerChanges env h d st = Some st'" and "d = diffMCPServers pd ds olds news"
  shows "touches env (diff_names d) st st'"
proof -
  obtain st1 st2 where s: "each (remove_server env h) (sd_removed d) st = Some st1"
    "each (modify_server env h) (sd_modified d) st1 = Some st2" "each (add_server env h) (sd_added d) st2 = Some st'"
    using assms(1) unfolding applyMCPServerChanges_def Option.bind_eq_Some_conv by blast
  have "touches env (diff_names d) st st1"
    by (rule each_touches_names [OF s(1), where nm = sv_name]) (auto simp: diff_names_def dest: remove_server_touches)
  moreover have "touches env (diff_names d) st1 st2"
    by (rule each_touches_names [OF s(2), where nm = ch_name])
      (use old_servers(2) assms(2) in \<open>auto simp: diff_names_def intro!: modify_server_touches\<close>)
  moreover have "touches env (diff_names d) st2 st'"
    by (rule each_touches_names [OF s(3), where nm = sv_name]) (auto simp: diff_names_def dest: add_server_touches)
  ultimately show ?thesis using touches_trans by blast
qed

lemma apply_diff_passes:
  assumes "apply_diff env pd h d newCfg calls = Some (r, h', calls')"
  obtains st1 st where "applyMCPServerChanges env h (cd_servers d) \<lparr>st_calls = calls, st_result = plain_result True NoMessage, st_newCfg = newCfg\<rparr> = Some st1"
    "touches env (ch_name ` set (sd_policyChanges (cd_servers d))) st1 st"
    "r = finish (st_result st)" "h' = h\<lparr>ha_currentCfg := Some (st_newCfg st)\<rparr>" "calls' = st_calls st"
proof -
  let ?T = "touches env (ch_name ` set (sd_policyChanges (cd_servers d)))"
  obtain st1 st3 where s: "applyMCPServerChanges env h (cd_servers d) \<lparr>st_calls = calls, st_result = plain_result True NoMessage, st_newCfg = newCfg\<rparr> = Some st1"
      "applyResourceChanges env h (cd_resources d) (applyAutoscalePolicyUpdates env pd (cd_servers d) st1) = Some st3"
    and e: "(let st4 = if en_onConfigApplied env then call (CallConfigApplied (st_newCfg st3)) st3 else st3
      in (finish (st_result st4), h\<lparr>ha_currentCfg := Some (st_newCfg st4)\<rparr>, st_calls st4)) = (r, h', calls')"
    using assms(1) unfolding apply_diff_def Option.bind_eq_Some_conv Let_def by auto
  have "?T st1 (applyAutoscalePolicyUpdates env pd (cd_servers d) st1)"
    unfolding applyAutoscalePolicyUpdates_def by (rule policies_touch) simp
  then have "?T st1 st3" using touches_trans resources_touch [OF s(2)] by blast
  then have "?T st1 (if en_onConfigApplied env then call (CallConfigApplied (st_newCfg st3)) st3 else st3)"
    by (auto intro: touches_call)
  then show thesis using e that [OF s(1)] by (auto simp: Let_def)
qed

lemma apply_diff_touches:
  assumes "apply_diff env pd h d newCfg calls = Some (r, h', calls')" and "cd_servers d = diffMCPServers pd' ds olds news"
  shows "\<exists>st. touches env (diff_names (cd_servers d)) \<lparr>st_calls = calls, st_result = plain_result True NoMessage, st_newCfg = newCfg\<rparr> st
    \<and> r = finish (st_result st) \<and> h' = h\<lparr>ha_currentCfg := Some (st_newCfg st)\<rparr> \<and> calls' = st_calls st"
proof -
  obtain st1 st where s: "applyMCPServerChanges env h (cd_servers d) \<lparr>st_calls = calls, st_result = plain_result True NoMessage, st_newCfg = newCfg\<rparr> = Some st1"
    "touches env (ch_name ` set (sd_policyChanges (cd_servers d))) st1 st"
    "r = finish (st_result st)" "h' = h\<lparr>ha_currentCfg := Some (st_newCfg st)\<rparr>" "calls' = st_calls st"
    using assms(1) by (rule apply_diff_passes)
  have "touches env (diff_names (cd_servers d)) st1 st" by (rule touches_mono [OF s(2)]) (simp add: diff_names_def)
  then show ?thesis using touches_trans [OF servers_touch [OF s(1) assms(2)]] s(3-5) by blast
qed

subsection \<open>What a reload leaves behind\<close>

lemma finish_success: "re_success (finish r) \<longleftrightarrow> re_errors r = [] \<and> re_success r"
  by (simp add: finish_def)

definition quiet :: "history \<Rightarrow> history \<Rightarrow> bool" where
  "quiet a b \<longleftrightarrow> (\<exists>cs. b = a @ cs \<and> (\<forall>c\<in>set cs. subject c = None))"

lemma quiet_refl: "quiet a a"
  by (simp add: quiet_def)

lemma quiet_step: "quiet a b \<Longrightarrow> subject c = None \<Longrightarrow> quiet a (b @ [c])"
  unfolding quiet_def by (elim exE conjE, rule_tac x = "cs @ [c]" in exI) auto

lemma ensure_fold_quiet: "quiet a (snd acc) \<Longrightarrow> quiet a (snd (fold (ensure_network env s) ns acc))"
proof (induction ns arbitrary: acc)
  case (Cons n ns)
  have "quiet a (snd (ensure_network env s n acc))"
    using Cons.prems by (auto simp: ensure_network_def intro: quiet_step split: prod.split option.split)
  then show ?case using Cons.IH by simp
qed simp

lemma ensure_quiet: "quiet calls (snd (ensureNetworks env s calls))"
  unfolding ensureNetworks_def by (simp add: quiet_refl quiet_step ensure_fold_quiet)

text \<open>The outcomes of a reload: nothing to do or refused, or the difference applied.\<close>

lemma apply_config_cases:
  assumes "apply_config env pd h calls cfg = Some (r, h', calls')"
  obtains (empty) "diff_IsEmpty (ComputeDiff pd (en_durationString env) (prev_config h) cfg)" "r = no_changes" "h' = h" "calls' = calls"
    | (refused) "\<not> re_success r" "re_errors r = []" "h' = h" "quiet calls calls'"
        "cd_networkChanged (ComputeDiff pd (en_durationString env) (prev_config h) cfg) \<or> ha_currentCfg h = None"
    | (applied) calls1 where "apply_diff env pd h (ComputeDiff pd (en_durationString env) (prev_config h) cfg) cfg calls1 = Some (r, h', calls')"
        "quiet calls calls1" "ha_currentCfg h \<noteq> None \<Longrightarrow> calls1 = calls"
proof -
  let ?d = "ComputeDiff pd (en_durationString env) (prev_config h) cfg"
  let ?E = "if ha_currentCfg h = None \<and> NeedsContainerRuntime cfg then ensureNetworks env cfg calls else (None, calls)"
  obtain err calls1 where e: "?E = (err, calls1)" by (cases ?E)
  have c1: "quiet calls calls1"
    using ensure_quiet [of calls env cfg] quiet_refl [of calls] e by (metis snd_conv)
  have i: "err \<noteq> None \<Longrightarrow> ha_currentCfg h = None" "ha_currentCfg h \<noteq> None \<Longrightarrow> calls1 = calls" using e by (metis prod.inject)+
  show thesis
  proof (cases "diff_IsEmpty ?d")
    case True
    then have "(r, h', calls') = (no_changes, h, calls)" using assms unfolding apply_config_def Let_def by (simp only: if_True option.inject)
    then show ?thesis using empty True by blast
  next
    case False
    note ne = this
    show ?thesis
    proof (cases "cd_networkChanged ?d \<and> ha_currentCfg h \<noteq> None")
      case True
      then have "(r, h', calls') = (network_changed, h, calls)"
        using assms unfolding apply_config_def Let_def by (simp only: ne if_False if_True simp_thms option.inject)
      moreover have "\<not> re_success network_changed \<and> re_errors network_changed = []" by (simp add: network_changed_def plain_result_def)
      ultimately show ?thesis using True refused quiet_refl by blast
    next
      case False
      then have nn: "(cd_networkChanged ?d \<and> \<not> ha_currentCfg h = None) = False" by blast
      have a: "(case err of Some e \<Rightarrow> Some (plain_result False (Message (''failed to ensure network: '' @ e)), h, calls1)
          | None \<Rightarrow> apply_diff env pd h ?d cfg calls1) = Some (r, h', calls')"
        using assms unfolding apply_config_def Let_def e nn prod.case by (simp only: ne if_False)
      show ?thesis
      proof (cases err)
        case None
        then have "apply_diff env pd h ?d cfg calls1 = Some (r, h', calls')" using a by (simp only: option.case)
        then show ?thesis using applied c1 i(2) by blast
      next
        case (Some x)
        then have "r = plain_result False (Message (''failed to ensure network: '' @ x))" "h' = h" "calls' = calls1"
          using a by (simp_all del: append.simps)
        then show ?thesis using Some refused c1 i(1) by (simp add: plain_result_def)
      qed
    qed
  qed
qed

lemma reload_again:
  assumes "LoadStack le vault vaultSet (ha_stackPath h) = Inr cfg" and "names_ok cfg"
    and "Reload env le vault vaultSet h calls = Some (r, h', calls')" and "re_success r \<or> prep_ok env \<and> re_errors r \<noteq> []"
  shows "Reload env le vault vaultSet h' later = Some (no_changes, h', later)"
proof -
  let ?pd = "ve_parseDuration (le_validation le)"
  have ac: "apply_config env ?pd h calls cfg = Some (r, h', calls')" using assms(1,3) by (simp add: Reload_def)
  have "diff_IsEmpty (ComputeDiff ?pd (en_durationString env) (prev_config h') cfg) \<and> ha_stackPath h' = ha_stackPath h"
    using ac
  proof (cases rule: apply_config_cases)
    case (applied calls1)
    have c: "cd_servers (ComputeDiff ?pd (en_durationString env) (prev_config h) cfg)
        = diffMCPServers ?pd (en_durationString env) (sk_servers (prev_config h)) (sk_servers cfg)" by (simp add: ComputeDiff_def)
    from apply_diff_touches [OF applied(1) c] obtain st M where
      "touches env M \<lparr>st_calls = calls1, st_result = plain_result True NoMessage, st_newCfg = cfg\<rparr> st"
      "r = finish (st_result st)" "h' = h\<lparr>ha_currentCfg := Some (st_newCfg st)\<rparr>" by blast
    then have "prev_config h' = cfg" "ha_stackPath h' = ha_stackPath h"
      using assms(4) by (auto simp: touches_def finish_success prev_config_def)
    then show ?thesis using self_diff_empty [OF assms(2)] by simp
  qed (use assms(4) in \<open>auto simp: no_changes_def plain_result_def\<close>)
  then show ?thesis using assms(1) by (simp add: Reload_def apply_config_def)
qed

text \<open>C25. A successful reload settles: reloading the same file again, at any later time, finds nothing to change and
  makes no call.\<close>

theorem reload_settles:
  assumes "LoadStack le vault vaultSet (ha_stackPath h) = Inr cfg" and "names_ok cfg"
    and "Reload env le vault vaultSet h calls = Some (r, h', calls')" and "re_success r"
  shows "Reload env le vault vaultSet h' later = Some (no_changes, h', later)"
  using reload_again [OF assms(1-3)] assms(4) by blast

text \<open>A start that fails is forgotten: when a reload reports errors though every preparation succeeded (a
  container or a registration did not start), the next reload of the same file reports success and no
  changes, and does not try again.\<close>

theorem failed_start_forgotten:
  assumes "LoadStack le vault vaultSet (ha_stackPath h) = Inr cfg" and "names_ok cfg" and "prep_ok env"
    and "Reload env le vault vaultSet h calls = Some (r, h', calls')" and "re_errors r \<noteq> []"
  shows "Reload env le vault vaultSet h' later = Some (no_changes, h', later)"
  using reload_again [OF assms(1,2,4)] assms(3,5) by blast

lemma computed_servers:
  "cd_servers (ComputeDiff pd ds old new) = diffMCPServers pd ds (sk_servers old) (sk_servers new)"
  "cd_networkChanged (ComputeDiff pd ds old new) = isNetworkChanged old new"
  by (simp_all add: ComputeDiff_def)

lemma changed_names: "n \<in> ch_name ` set (map (change_to m) (filter P xs)) \<longleftrightarrow> (\<exists>x. x \<in> set xs \<and> P x \<and> sv_name x = n)"
  by (simp only: set_map set_filter image_image change_to_def server_change.select_convs image_iff Bex_def mem_Collect_eq eq_commute conj_assoc)

lemma unchanged_not_named:
  assumes "distinct (map sv_name news)" and "map_of (by_name sv_name olds) n = Some a" and "map_of (by_name sv_name news) n = Some b"
    and "MCPServerEqual pd ds a b"
  shows "n \<notin> diff_names (diffMCPServers pd ds olds news)"
proof -
  have b: "x = b" if "x \<in> set news" "sv_name x = n" for x using by_name_distinct [OF assms(1) that(1)] that(2) assms(3) by simp
  have img: "n \<in> sv_name ` set (filter (\<lambda>s. sv_name s \<notin> A) xs) \<longleftrightarrow> n \<in> sv_name ` set xs \<and> n \<notin> A" for A xs by auto
  have in_both: "n \<in> sv_name ` set olds" "n \<in> sv_name ` set news" 
    using by_name_Some [OF assms(2)] by_name_Some [OF assms(3)] by (metis imageI)+
  have "\<not> restart_change pd ds (by_name sv_name olds) b \<and> \<not> policy_change pd ds (by_name sv_name olds) b"
    using assms(2,4) by_name_Some [OF assms(3)] by (simp add: restart_change_def policy_change_def)
  then have "n \<notin> ch_name ` set (sd_modified (diffMCPServers pd ds olds news)) \<union> ch_name ` set (sd_policyChanges (diffMCPServers pd ds olds news))"
    unfolding diffMCPServers_eq server_diff.select_convs Un_iff changed_names using b by blast
  moreover have "n \<notin> sv_name ` set (sd_removed (diffMCPServers pd ds olds news)) \<union> sv_name ` set (sd_added (diffMCPServers pd ds olds news))"
    unfolding diffMCPServers_eq server_diff.select_convs Un_iff img using in_both by blast
  ultimately show ?thesis unfolding diff_names_def by blast
qed

lemma applied_calls:
  "touches env M a b \<Longrightarrow> n \<notin> M \<Longrightarrow> \<exists>cs. st_calls b = st_calls a @ cs \<and> (\<forall>c\<in>set cs. subject c \<noteq> Some n)"
  unfolding touches_def by blast

text \<open>C12. A reload leaves alone what did not change: no call of it, to the gateway or to prepare or start a workload,
  is about a server whose declaration is effectively the same in both stacks.\<close>

theorem unchanged_server_untouched:
  assumes "LoadStack le vault vaultSet (ha_stackPath h) = Inr cfg" and "distinct (map sv_name (sk_servers cfg))"
    and "Reload env le vault vaultSet h calls = Some (r, h', calls')" and "ha_currentCfg h = Some cur"
    and "map_of (by_name sv_name (sk_servers cur)) n = Some a" and "map_of (by_name sv_name (sk_servers cfg)) n = Some b"
    and "MCPServerEqual (ve_parseDuration (le_validation le)) (en_durationString env) a b"
  shows "\<exists>cs. calls' = calls @ cs \<and> (\<forall>c\<in>set cs. subject c \<noteq> Some n)"
proof -
  let ?pd = "ve_parseDuration (le_validation le)"
  have prev: "prev_config h = cur" using assms(4) by (simp add: prev_config_def)
  have ac: "apply_config env ?pd h calls cfg = Some (r, h', calls')" using assms(1,3) by (simp add: Reload_def)
  then show ?thesis
  proof (cases rule: apply_config_cases)
    case empty
    then show ?thesis by simp
  next
    case refused
    then show ?thesis unfolding quiet_def by fastforce
  next
    case (applied calls1)
    have "calls1 = calls" using applied(3) assms(4) by simp
    with apply_diff_touches [OF applied(1) computed_servers(1)] show ?thesis
      using applied_calls unchanged_not_named [OF assms(2,5,6,7)] unfolding computed_servers prev by fastforce
  qed
qed

lemma each_split: "each f (xs @ ys) st = Option.bind (each f xs st) (each f ys)"
proof (induction xs arbitrary: st)
  case (Cons x xs)
  then show ?case by (cases "f x st") simp_all
qed simp

text \<open>The step of a modified server whose preparation fails: it calls for the preparation only, reports an error
  and puts the old declaration back.\<close>

lemma failed_preparation_step:
  assumes "modify_server env h c st = Some st'" and "IsContainerBased (ch_new c)"
    and "\<not> en_hasRuntime env \<or> (\<forall>hs stk. \<exists>e. en_prepare env hs stk (ch_new c) = Inl e)"
    and "sv_name (ch_old c) \<in> set (server_names st)"
  shows "server_named (st_newCfg st') (sv_name (ch_old c)) = Some (ch_old c) \<and> re_errors (st_result st') \<noteq> []
    \<and> (\<exists>cs. st_calls st' = st_calls st @ cs \<and> (\<forall>n. CallUnregister n \<notin> set cs))"
proof -
  obtain e st1 where p: "prepareMCPServer env (ch_new c) st = (Inl e, st1)" and c1: "st_newCfg st1 = st_newCfg st"
    "\<exists>cs. st_calls st1 = st_calls st @ cs \<and> (\<forall>n. CallUnregister n \<notin> set cs)"
  proof (cases "en_hasRuntime env")
    case True
    then obtain e where "en_prepare env (st_calls st) (sk_name (st_newCfg st)) (ch_new c) = Inl e" using assms(3) by blast
    then show ?thesis using that True assms(2) by (simp add: prepareMCPServer_def call_def)
  qed (use that assms(2) in \<open>simp add: prepareMCPServer_def\<close>)
  then have "st' = add_error (''failed to reload '' @ ch_name c @ '': '' @ e) (st1\<lparr>st_newCfg := replaceMCPServer (st_newCfg st1) (ch_old c)\<rparr>)"
    using assms(1) unfolding modify_server_def by (simp only: p prod.case sum.case option.inject)
  then show ?thesis using c1 assms(4) find_replaced [of "ch_old c" "sk_servers (st_newCfg st)"]
    by (simp add: add_error_def server_named_def replaceMCPServer_def)
qed

lemma servers_split:
  assumes "applyMCPServerChanges env h d st = Some st'" and "d = diffMCPServers pd ds olds news" and "sd_modified d = xs @ c # ys"
  obtains s2 s3 where "touches env (sv_name ` set (sd_removed d) \<union> ch_name ` set xs) st s2" "modify_server env h c s2 = Some s3"
    "touches env (ch_name ` set ys \<union> sv_name ` set (sd_added d)) s3 st'"
proof -
  obtain s1 s4 where s: "each (remove_server env h) (sd_removed d) st = Some s1"
    "each (modify_server env h) (xs @ c # ys) s1 = Some s4" "each (add_server env h) (sd_added d) s4 = Some st'"
    using assms(1) unfolding applyMCPServerChanges_def Option.bind_eq_Some_conv assms(3) by blast
  then obtain s2 s3 where m: "each (modify_server env h) xs s1 = Some s2" "modify_server env h c s2 = Some s3" "each (modify_server env h) ys s3 = Some s4"
    unfolding each_split each.simps Option.bind_eq_Some_conv by blast
  have name: "sv_name (ch_new x) = ch_name x" "sv_name (ch_old x) = ch_name x" if "x \<in> set xs \<union> set ys" for x
    using old_servers(2) [of x pd ds olds news] that assms(2,3) by auto
  let ?A = "sv_name ` set (sd_removed d) \<union> ch_name ` set xs" and ?B = "ch_name ` set ys \<union> sv_name ` set (sd_added d)"
  have "touches env ?A st s1" by (rule each_touches_names [OF s(1), where nm = sv_name]) (auto dest: remove_server_touches)
  moreover have "touches env ?A s1 s2"
    by (rule each_touches_names [OF m(1), where nm = ch_name]) (use name in \<open>auto intro!: modify_server_touches\<close>)
  moreover have "touches env ?B s3 s4"
    by (rule each_touches_names [OF m(3), where nm = ch_name]) (use name in \<open>auto intro!: modify_server_touches\<close>)
  moreover have "touches env ?B s4 st'" by (rule each_touches_names [OF s(3), where nm = sv_name]) (auto dest: add_server_touches)
  ultimately show thesis using touches_trans that m(2) by blast
qed

lemma server_named_mem: "server_named stk n = None \<longleftrightarrow> n \<notin> sv_name ` set (sk_servers stk)"
  by (auto simp: server_named_def find_None_iff)

definition stays :: "string \<Rightarrow> history \<Rightarrow> history \<Rightarrow> bool" where
  "stays n a b \<longleftrightarrow> (\<exists>cs. b = a @ cs \<and> CallUnregister n \<notin> set cs)"

lemma stays_trans: "stays n a b \<Longrightarrow> stays n b c \<Longrightarrow> stays n a c"
  unfolding stays_def by fastforce

lemma touches_stays: "touches env M a b \<Longrightarrow> n \<notin> M \<Longrightarrow> stays n (st_calls a) (st_calls b)"
  unfolding touches_def stays_def by (metis subject.simps(1))

lemma modified_alone:
  assumes "distinct (map sv_name news)" and "d = diffMCPServers pd ds olds news" and "sd_modified d = xs @ c # ys"
  shows "ch_name c \<notin> sv_name ` set (sd_removed d) \<union> ch_name ` set xs" "ch_name c \<notin> ch_name ` set ys \<union> sv_name ` set (sd_added d)"
    "ch_name c \<notin> ch_name ` set (sd_policyChanges d)"
proof -
  have "map ch_name (sd_modified d) = map sv_name (filter (restart_change pd ds (by_name sv_name olds)) news)"
    unfolding assms(2) diffMCPServers_eq by (simp add: change_to_def comp_def)
  then have "distinct (map ch_name (sd_modified d))" using assms(1) by (simp add: distinct_map_filter)
  then have ds: "ch_name c \<notin> ch_name ` set xs" "ch_name c \<notin> ch_name ` set ys" unfolding assms(3) by auto
  have cm: "c \<in> set (sd_modified (diffMCPServers pd ds olds news))" using assms(2,3) by simp
  have img: "n \<in> sv_name ` set (filter (\<lambda>s. sv_name s \<notin> A) zs) \<longleftrightarrow> n \<in> sv_name ` set zs \<and> n \<notin> A" for n A zs by auto
  have in_both: "ch_name c \<in> sv_name ` set olds" "ch_name c \<in> sv_name ` set news" using old_servers(2) [OF cm] by (metis imageI)+
  have ra: "ch_name c \<notin> sv_name ` set (sd_removed d)" "ch_name c \<notin> sv_name ` set (sd_added d)"
    unfolding assms(2) diffMCPServers_eq server_diff.select_convs img using in_both by blast+
  from cm obtain x where x: "x \<in> set news" "restart_change pd ds (by_name sv_name olds) x" "sv_name x = ch_name c"
    using changed_names [of "ch_name c"] unfolding diffMCPServers_eq server_diff.select_convs by blast
  have "\<not> (\<exists>y. y \<in> set news \<and> policy_change pd ds (by_name sv_name olds) y \<and> sv_name y = ch_name c)"
  proof
    assume "\<exists>y. y \<in> set news \<and> policy_change pd ds (by_name sv_name olds) y \<and> sv_name y = ch_name c"
    then have "policy_change pd ds (by_name sv_name olds) x" using x assms(1) by (metis by_name_distinct option.inject)
    then show False using x(2) by (auto simp: policy_change_def restart_change_def split: option.splits)
  qed
  then have po: "ch_name c \<notin> ch_name ` set (sd_policyChanges d)" unfolding assms(2) diffMCPServers_eq server_diff.select_convs changed_names .
  show "ch_name c \<notin> sv_name ` set (sd_removed d) \<union> ch_name ` set xs" using ra ds by blast
  show "ch_name c \<notin> ch_name ` set ys \<union> sv_name ` set (sd_added d)" using ra ds by blast
  show "ch_name c \<notin> ch_name ` set (sd_policyChanges d)" by (rule po)
qed

text \<open>C11. A modified server whose preparation fails (its source does not resolve, its image does not build, or there
  is no container runtime) keeps running as it is: the reload fails, it never unregisters the server, and it
  keeps the old declaration, so that the same file is seen as a modification of that server again.\<close>

theorem failed_preparation_retried:
  assumes "LoadStack le vault vaultSet (ha_stackPath h) = Inr cfg"
    and "distinct (map sv_name (sk_servers cfg))" and "ha_currentCfg h = Some cur" and "distinct (map sv_name (sk_servers cur))"
    and "c \<in> set (sd_modified (cd_servers (ComputeDiff (ve_parseDuration (le_validation le)) (en_durationString env) cur cfg)))"
    and "IsContainerBased (ch_new c)"
    and "\<not> en_hasRuntime env \<or> (\<forall>hs stk. \<exists>e. en_prepare env hs stk (ch_new c) = Inl e)"
    and "Reload env le vault vaultSet h calls = Some (r, h', calls')"
  shows "\<not> re_success r \<and> (\<exists>cs. calls' = calls @ cs \<and> CallUnregister (ch_name c) \<notin> set cs)
    \<and> (\<exists>cur'. ha_currentCfg h' = Some cur'
        \<and> c \<in> set (sd_modified (cd_servers (ComputeDiff (ve_parseDuration (le_validation le)) (en_durationString env) cur' cfg))))"
proof -
  let ?pd = "ve_parseDuration (le_validation le)" and ?ds = "en_durationString env"
  let ?d = "cd_servers (ComputeDiff ?pd ?ds cur cfg)"
  have prev: "prev_config h = cur" using assms(3) by (simp add: prev_config_def)
  have d: "?d = diffMCPServers ?pd ?ds (sk_servers cur) (sk_servers cfg)" by (rule computed_servers)
  have ac: "apply_config env ?pd h calls cfg = Some (r, h', calls')" using assms(1,8) by (simp add: Reload_def)
  have "\<not> re_success r \<and> stays (ch_name c) calls calls'
    \<and> (\<exists>cur'. ha_currentCfg h' = Some cur' \<and> c \<in> set (sd_modified (diffMCPServers ?pd ?ds (sk_servers cur') (sk_servers cfg))))"
    using ac
  proof (cases rule: apply_config_cases)
    case empty
    then show ?thesis using assms(5) by (simp add: prev diff_IsEmpty_def)
  next
    case refused
    then have "stays (ch_name c) calls calls'" unfolding quiet_def stays_def by (metis option.distinct(1) subject.simps(1))
    then show ?thesis using refused assms(3,5) d by auto
  next
    case (applied calls1)
    have c1: "calls1 = calls" using applied(3) assms(3) by simp
    obtain xs ys where xy: "sd_modified ?d = xs @ c # ys" using assms(5) by (meson split_list)
    note alone = modified_alone [OF assms(2) d xy]
    have cm: "ch_old c \<in> set (sk_servers cur)" "sv_name (ch_old c) = ch_name c" "ch_new c \<in> set (sk_servers cfg)" "sv_name (ch_new c) = ch_name c"
      using old_servers(2) assms(5) d by metis+
    let ?s0 = "\<lparr>st_calls = calls, st_result = plain_result True NoMessage, st_newCfg = cfg\<rparr>"
    obtain s4 st where s4: "applyMCPServerChanges env h ?d ?s0 = Some s4" "touches env (ch_name ` set (sd_policyChanges ?d)) s4 st"
      and e: "r = finish (st_result st)" "h' = h\<lparr>ha_currentCfg := Some (st_newCfg st)\<rparr>" "calls' = st_calls st"
      using apply_diff_passes [OF applied(1)] unfolding prev c1 by blast
    obtain s2 s3 where s: "touches env (sv_name ` set (sd_removed ?d) \<union> ch_name ` set xs) ?s0 s2" "modify_server env h c s2 = Some s3"
      "touches env (ch_name ` set ys \<union> sv_name ` set (sd_added ?d)) s3 s4"
      using servers_split [OF s4(1) d xy] .
    have keep: "server_named (st_newCfg b) (ch_name c) = server_named (st_newCfg a) (ch_name c)
        \<and> (re_errors (st_result b) = [] \<longrightarrow> re_errors (st_result a) = []) \<and> (distinct (server_names a) \<longrightarrow> distinct (server_names b))"
      if "touches env M a b" "ch_name c \<notin> M" for M a b using that unfolding touches_def by blast
    have named: "server_named (st_newCfg s2) (ch_name c) \<noteq> None"
      using keep [OF s(1) alone(1)] cm(3,4) unfolding reload_state.select_convs by (metis imageI server_named_mem)
    then have "sv_name (ch_old c) \<in> set (server_names s2)" using cm(2) by (simp add: server_named_mem)
    note step = failed_preparation_step [OF s(2) assms(6,7) this, unfolded cm(2)]
    have dist: "distinct (server_names s3)"
      using keep [OF s(1) alone(1)] assms(2) modify_server_touches [OF s(2) cm(4,2)] unfolding touches_def by auto
    have k: "server_named (st_newCfg st) (ch_name c) = Some (ch_old c)" "re_errors (st_result st) \<noteq> []" "distinct (server_names st)"
      using keep [OF s(3) alone(2)] keep [OF s4(2) alone(3)] step dist by auto
    have stays: "stays (ch_name c) calls (st_calls st)"
      using touches_stays [OF s(1) alone(1)] touches_stays [OF s(3) alone(2)] touches_stays [OF s4(2) alone(3)] step stays_trans
      unfolding stays_def [of _ "st_calls s2"] reload_state.select_convs by (metis stays_def)
    have "map_of (by_name sv_name (sk_servers (st_newCfg st))) (ch_name c) = Some (ch_old c)"
      using by_name_distinct [OF k(3), of "ch_old c"] k(1) cm(2) unfolding server_named_def by (auto simp: find_Some_iff)
    moreover have "map_of (by_name sv_name (sk_servers cur)) (ch_name c) = Some (ch_old c)"
      using by_name_distinct [OF assms(4) cm(1)] cm(2) by simp
    ultimately have "c \<in> set (sd_modified (diffMCPServers ?pd ?ds (sk_servers (st_newCfg st)) (sk_servers cfg)))"
      using assms(5) cm(4) unfolding d diffMCPServers_eq by (auto simp: change_to_def restart_change_def)
    then show ?thesis using stays k(2) e by (simp add: finish_success)
  qed
  then show ?thesis unfolding computed_servers stays_def .
qed

subsection \<open>Host ports\<close>

lemma start_replicas_calls:
  assumes "\<And>hs w. en_endpoints env (hs @ [CallStart w]) = en_endpoints env hs"
    and "start_replicas env h s img ids rts st = (x, st')"
  shows "\<exists>cs. st_calls st' = st_calls st @ cs
    \<and> (\<forall>c\<in>set cs. \<exists>i\<in>set ids. c = CallStart (server_workload (st_newCfg st) s img i
          (if sv_transport s \<noteq> ''stdio'' then allocatePort env h (st_calls st) else 0)))
    \<and> (\<forall>rs. x = Inr rs \<longrightarrow> length cs = length ids)"
  using assms(2)
proof (induction ids arbitrary: rts st)
  case (Cons i ids)
  let ?port = "\<lambda>st. if sv_transport s \<noteq> ''stdio'' then allocatePort env h (st_calls st) else 0"
  let ?w = "server_workload (st_newCfg st) s img i (?port st)"
  let ?st1 = "call (CallStart ?w) st"
  have port: "?port ?st1 = ?port st" "st_newCfg ?st1 = st_newCfg st" by (simp_all add: allocatePort_def call_def assms(1))
  have c1: "st_calls ?st1 = st_calls st @ [CallStart ?w]" by (simp add: call_def)
  show ?case
  proof (cases "en_start env (st_calls st) ?w")
    case (Inl e)
    then have "st' = ?st1" "x = Inl (''starting container replica '' @ itoa (int i) @ '': '' @ e)" using Cons.prems by (simp_all add: Let_def)
    then show ?thesis using c1 by (intro exI [of _ "[CallStart ?w]"]) auto
  next
    case (Inr a)
    then obtain cid p where "en_start env (st_calls st) ?w = Inr (cid, p)" by (cases a) simp
    then obtain rts' where "start_replicas env h s img ids rts' ?st1 = (x, st')" using Cons.prems by (simp add: Let_def)
    from Cons.IH [OF this, unfolded port] c1 obtain cs where "st_calls st' = st_calls st @ CallStart ?w # cs"
      "\<forall>c\<in>set cs. \<exists>i\<in>set ids. c = CallStart (server_workload (st_newCfg st) s img i (?port st))" "\<forall>rs. x = Inr rs \<longrightarrow> length cs = length ids" by auto
    then show ?thesis by (intro exI [of _ "CallStart ?w # cs"]) auto
  qed
qed auto

text \<open>The replicas of a container server that does not speak over standard input are all started on one host
  port: the port is chosen from the endpoints that the gateway knows, and those do not change until all
  replicas have started.\<close>

theorem replicas_share_a_port:
  assumes "\<And>hs w. en_endpoints env (hs @ [CallStart w]) = en_endpoints env hs" and "sv_transport s \<noteq> ''stdio''"
    and "start_replicas env h s img [0..<nat (effectiveReplicas s)] [] st = (Inr rts, st')"
  shows "\<exists>cs. st_calls st' = st_calls st @ cs \<and> length cs = nat (effectiveReplicas s)
    \<and> (\<forall>c\<in>set cs. \<exists>w. c = CallStart w \<and> wc_hostPort w = allocatePort env h (st_calls st))"
  using start_replicas_calls [OF assms(1,3)] assms(2) by (fastforce simp: server_workload_def)

subsection \<open>A reload without a container runtime\<close>

lemma only_resources_differ:
  assumes "distinct (map sv_name (sk_servers s))" "distinct (map nw_name (sk_networks s))"
    and "sk_servers t = sk_servers s" "sk_network t = sk_network s" "sk_networks t = sk_networks s"
  shows "cd_servers (ComputeDiff pd ds s t) = \<lparr>sd_added = [], sd_removed = [], sd_modified = [], sd_policyChanges = []\<rparr>"
    "\<not> cd_networkChanged (ComputeDiff pd ds s t)"
  unfolding computed_servers assms(3) by (rule same_servers [OF assms(1)], rule same_networks [OF assms(2,4,5)])

text \<open>A resource added while there is no container runtime, and taken out again, brings the daemon down: the first
  reload reports the failure but keeps the resource in the current configuration, and the second dereferences
  the missing runtime.\<close>

theorem missing_runtime_panics:
  assumes "\<not> has_runtime env" and "names_ok cur" and "ha_currentCfg h = Some cur" and "sk_resources cur = []"
  shows "\<exists>res h' calls'. apply_config env pd h calls (cur\<lparr>sk_resources := [rsc]\<rparr>) = Some (res, h', calls') \<and> \<not> re_success res
    \<and> apply_config env pd h' calls' cur = None"
proof -
  let ?new = "cur\<lparr>sk_resources := [rsc]\<rparr>" and ?ds = "en_durationString env"
  have prev: "prev_config h = cur" using assms(3) by (simp add: prev_config_def)
  have n: "distinct (map sv_name (sk_servers cur))" "distinct (map nw_name (sk_networks cur))" using assms(2) by (simp_all add: names_ok_def)
  have o1: "cd_servers (ComputeDiff pd ?ds cur ?new) = \<lparr>sd_added = [], sd_removed = [], sd_modified = [], sd_policyChanges = []\<rparr>"
    "\<not> cd_networkChanged (ComputeDiff pd ?ds cur ?new)"
    by (rule only_resources_differ [OF n]; simp)+
  have o2: "cd_servers (ComputeDiff pd ?ds ?new cur) = \<lparr>sd_added = [], sd_removed = [], sd_modified = [], sd_policyChanges = []\<rparr>"
    "\<not> cd_networkChanged (ComputeDiff pd ?ds ?new cur)"
    by (rule only_resources_differ; simp add: n)+
  have r1: "cd_resources (ComputeDiff pd ?ds cur ?new) = \<lparr>rd_added = [rsc], rd_removed = [], rd_modified = []\<rparr>"
    and r2: "cd_resources (ComputeDiff pd ?ds ?new cur) = \<lparr>rd_added = [], rd_removed = [rsc], rd_modified = []\<rparr>"
    using assms(4) by (simp_all add: ComputeDiff_def diffResources_eq by_name_def)
  have e1: "\<not> diff_IsEmpty (ComputeDiff pd ?ds cur ?new)" and e2: "\<not> diff_IsEmpty (ComputeDiff pd ?ds ?new cur)"
    using r1 r2 by (simp_all add: diff_IsEmpty_def)
  define err where "err = ''failed to add '' @ rc_name rsc @ '': '' @ runtime_unavailable"
  define st where "st = add_error err \<lparr>st_calls = calls, st_result = plain_result True NoMessage, st_newCfg = ?new\<rparr>"
  define st' where "st' = (if en_onConfigApplied env then call (CallConfigApplied (st_newCfg st)) st else st)"
  have sr: "startResource env rsc st0 = (Some runtime_unavailable, st0)" for st0
    using assms(1) by (auto simp: startResource_def has_runtime_def)
  have ar: "add_resource env rsc st0 = Some (add_error err st0)" for st0
    unfolding add_resource_def sr prod.case option.case err_def ..
  have sc: "stopAndRemoveContainer env n st0 = None" for n st0 using assms(1) by (auto simp: stopAndRemoveContainer_def has_runtime_def)
  have no_servers: "applyMCPServerChanges env h' \<lparr>sd_added = [], sd_removed = [], sd_modified = [], sd_policyChanges = []\<rparr> s0 = Some s0"
    "applyAutoscalePolicyUpdates env pd \<lparr>sd_added = [], sd_removed = [], sd_modified = [], sd_policyChanges = []\<rparr> s0 = s0" for h' s0
    by (simp_all add: applyMCPServerChanges_def applyAutoscalePolicyUpdates_def)
  have res: "applyResourceChanges env h' \<lparr>rd_added = [rsc], rd_removed = [], rd_modified = []\<rparr> s0 = Some (add_error err s0)"
    "applyResourceChanges env h' \<lparr>rd_added = [], rd_removed = [rsc], rd_modified = []\<rparr> s0 = None" for h' s0
    by (simp_all add: applyResourceChanges_def ar remove_resource_def current_container_def sc Option.bind_eq_None_conv)
  have run: "apply_diff env pd h (ComputeDiff pd ?ds cur ?new) ?new calls = Some (finish (st_result st'), h\<lparr>ha_currentCfg := Some (st_newCfg st')\<rparr>, st_calls st')"
    unfolding apply_diff_def o1(1) r1 no_servers res bind.bind_lunit st_def [symmetric] Let_def st'_def [symmetric] ..
  have a1: "apply_config env pd h calls ?new = Some (finish (st_result st'), h\<lparr>ha_currentCfg := Some (st_newCfg st')\<rparr>, st_calls st')"
    unfolding apply_config_def prev Let_def by (simp add: e1 o1(2) assms(3) run)
  have f: "\<not> re_success (finish (st_result st'))" "st_newCfg st' = ?new"
    by (simp_all add: finish_success add_error_def call_def st_def st'_def)
  have "prev_config (h\<lparr>ha_currentCfg := Some ?new\<rparr>) = ?new" by (simp add: prev_config_def)
  moreover have "apply_diff env pd h' (ComputeDiff pd ?ds ?new cur) cur cs = None" for h' cs
    unfolding apply_diff_def o2(1) r2 no_servers bind.bind_lunit res by simp
  ultimately have "apply_config env pd (h\<lparr>ha_currentCfg := Some ?new\<rparr>) cs cur = None" for cs
    by (simp add: apply_config_def e2 o2(2))
  then show ?thesis using a1 f by metis
qed

subsection \<open>Witnesses\<close>

text \<open>An environment that answers every call, with given outcomes of preparing, starting and registering.\<close>

definition demo_env_with :: "(string + string) \<Rightarrow> (string + string \<times> int) \<Rightarrow> string option \<Rightarrow> reload_env" where
  "demo_env_with prep start reg =
     \<lparr>en_durationString = itoa, en_hasRuntime = True, en_hasRt = True, en_registers = True, en_onConfigApplied = True,
      en_exists = (\<lambda>_ _. Inr None), en_remove = (\<lambda>_ _. None), en_ensureImage = (\<lambda>_ _. None), en_ensureNetwork = (\<lambda>_ _. None),
      en_prepare = (\<lambda>_ _ _. prep), en_start = (\<lambda>_ _. start), en_register = (\<lambda>_ _ _ _. reg), en_endpoints = (\<lambda>_. []), en_hasScaler = (\<lambda>_ _. True)\<rparr>"

lemma demo_runtime: "has_runtime (demo_env_with prep start reg)"
  by (simp add: has_runtime_def demo_env_with_def)

definition demo_handler :: "stack \<Rightarrow> handler" where
  "demo_handler cur = \<lparr>ha_stackPath = ''/s/stack.yaml'', ha_currentCfg = Some cur, ha_basePort = 9000\<rparr>"

text \<open>A stack file with one container server.\<close>

definition image_load :: load_env where
  "image_load = demo_load\<lparr>le_read := map_of [(''/s/stack.yaml'', ''one'')],
     le_parse := map_of [(''one'', blank_stack [(blank_server ''db'')\<lparr>sv_image := ''db:2'', sv_transport := ''stdio''\<rparr>])]\<rparr>"

definition image_stack :: "string \<Rightarrow> stack" where
  "image_stack img = SetDefaults (blank_stack [(blank_server ''db'')\<lparr>sv_image := img, sv_transport := ''stdio''\<rparr>])"

lemma image_loaded: "LoadStack image_load None None ''/s/stack.yaml'' = Inr (image_stack ''db:2'')"
  by code_simp

lemma reload_image: "Reload env image_load None None (demo_handler cur) cs = apply_config env (\<lambda>_. None) (demo_handler cur) cs (image_stack ''db:2'')"
proof -
  have "le_validation image_load = demo_venv" by (simp add: image_load_def demo_load_def)
  then show ?thesis using image_loaded by (simp add: Reload_def demo_handler_def demo_venv_def)
qed

lemma image_run:
  "map_option (\<lambda>(r, h', cs). (re_success r, re_errors r, length cs)) (apply_config (demo_env_with (Inr ''i'') (Inr (''c'', 0)) None) (\<lambda>_. None)
     (demo_handler (image_stack ''db:1'')) [] (image_stack ''db:2'')) = Some (True, [], 8)"
  "map_option (\<lambda>(r, h', cs). (re_success r, re_errors r)) (apply_config (demo_env_with (Inr ''i'') (Inl ''port in use'') None) (\<lambda>_. None)
     (demo_handler (image_stack ''db:1'')) [] (image_stack ''db:2'')) = Some (False, [''failed to reload db: starting container replica 0: port in use''])"
  by code_simp+

theorem reload_returns_witness:
  "\<exists>r h' calls'. Reload (demo_env_with (Inl ''no source'') (Inl ''port in use'') None) image_load None None (demo_handler (image_stack ''db:1'')) [] = Some (r, h', calls')"
  by (rule reload_returns) (simp add: demo_runtime)

theorem reload_settles_witness:
  "\<exists>h'. Reload (demo_env_with (Inr ''i'') (Inr (''c'', 0)) None) image_load None None h' [] = Some (no_changes, h', [])"
proof -
  let ?env = "demo_env_with (Inr ''i'') (Inr (''c'', 0)) None"
  obtain r h' cs where r: "apply_config ?env (\<lambda>_. None) (demo_handler (image_stack ''db:1'')) [] (image_stack ''db:2'') = Some (r, h', cs)" "re_success r"
    using image_run(1) by auto
  have "names_ok (image_stack ''db:2'')" by code_simp
  from reload_settles [OF _ this r(1) [folded reload_image] r(2)] image_loaded show ?thesis by (auto simp: demo_handler_def)
qed

theorem failed_start_forgotten_witness:
  "\<exists>r h' cs. Reload (demo_env_with (Inr ''i'') (Inl ''port in use'') None) image_load None None (demo_handler (image_stack ''db:1'')) [] = Some (r, h', cs)
    \<and> re_errors r = [''failed to reload db: starting container replica 0: port in use'']
    \<and> Reload (demo_env_with (Inr ''i'') (Inl ''port in use'') None) image_load None None h' cs = Some (no_changes, h', cs)"
proof -
  let ?env = "demo_env_with (Inr ''i'') (Inl ''port in use'') None"
  obtain r h' cs where r: "apply_config ?env (\<lambda>_. None) (demo_handler (image_stack ''db:1'')) [] (image_stack ''db:2'') = Some (r, h', cs)"
    and e: "re_errors r = [''failed to reload db: starting container replica 0: port in use'']" using image_run(2) by auto
  have "names_ok (image_stack ''db:2'')" by code_simp
  moreover have "prep_ok ?env" by (simp add: prep_ok_def demo_env_with_def)
  ultimately have "Reload ?env image_load None None h' cs = Some (no_changes, h', cs)"
    using failed_start_forgotten [OF _ _ _ r(1) [folded reload_image]] image_loaded e by (auto simp: demo_handler_def)
  then show ?thesis using r e unfolding reload_image by blast
qed

theorem unchanged_server_untouched_witness:
  "\<exists>r h' calls'. Reload (demo_env_with (Inr ''i'') (Inr (''c'', 0)) None) image_load None None (demo_handler (image_stack ''db:2'')) [] = Some (r, h', calls')
    \<and> CallUnregister ''db'' \<notin> set calls'"
proof -
  let ?env = "demo_env_with (Inr ''i'') (Inr (''c'', 0)) None"
  obtain r h' calls' where r: "Reload ?env image_load None None (demo_handler (image_stack ''db:2'')) [] = Some (r, h', calls')"
    using reload_total [OF disjI1 [OF demo_runtime]] by blast
  have d: "distinct (map sv_name (sk_servers (image_stack ''db:2'')))" by code_simp
  have s: "map_of (by_name sv_name (sk_servers (image_stack ''db:2''))) ''db'' = Some (hd (sk_servers (image_stack ''db:2'')))" by code_simp
  have l: "LoadStack image_load None None (ha_stackPath (demo_handler (image_stack ''db:2''))) = Inr (image_stack ''db:2'')"
    and c: "ha_currentCfg (demo_handler (image_stack ''db:2'')) = Some (image_stack ''db:2'')" using image_loaded by (simp_all add: demo_handler_def)
  from unchanged_server_untouched [OF l d r c s s MCPServerEqual_refl] obtain cs where cs: "calls' = [] @ cs" "\<forall>c\<in>set cs. subject c \<noteq> Some ''db''" by blast
  then have "CallUnregister ''db'' \<notin> set calls'" by auto
  then show ?thesis using r by blast
qed

theorem failed_preparation_retried_witness:
  "\<exists>r h' calls'. Reload (demo_env_with (Inl ''no source'') (Inr (''c'', 0)) None) image_load None None (demo_handler (image_stack ''db:1'')) [] = Some (r, h', calls')
    \<and> \<not> re_success r \<and> CallUnregister ''db'' \<notin> set calls'"
proof -
  let ?env = "demo_env_with (Inl ''no source'') (Inr (''c'', 0)) None" and ?h = "demo_handler (image_stack ''db:1'')"
  let ?c = "\<lparr>ch_name = ''db'', ch_old = hd (sk_servers (image_stack ''db:1'')), ch_new = hd (sk_servers (image_stack ''db:2''))\<rparr>"
  obtain r h' calls' where r: "Reload ?env image_load None None ?h [] = Some (r, h', calls')"
    using reload_total [OF disjI1 [OF demo_runtime]] by blast
  have d: "distinct (map sv_name (sk_servers (image_stack ''db:2'')))" "distinct (map sv_name (sk_servers (image_stack ''db:1'')))" by code_simp+
  have "sd_modified (cd_servers (ComputeDiff (\<lambda>_. None) itoa (image_stack ''db:1'') (image_stack ''db:2''))) = [?c]" by code_simp
  then have m: "?c \<in> set (sd_modified (cd_servers (ComputeDiff (ve_parseDuration (le_validation image_load)) (en_durationString ?env)
      (image_stack ''db:1'') (image_stack ''db:2''))))"
    by (simp add: image_load_def demo_load_def demo_venv_def demo_env_with_def)
  have k: "IsContainerBased (ch_new ?c)" by code_simp
  have p: "\<not> en_hasRuntime ?env \<or> (\<forall>hs stk. \<exists>e. en_prepare ?env hs stk (ch_new ?c) = Inl e)" by (simp add: demo_env_with_def)
  have l: "LoadStack image_load None None (ha_stackPath ?h) = Inr (image_stack ''db:2'')" and c: "ha_currentCfg ?h = Some (image_stack ''db:1'')"
    using image_loaded by (simp_all add: demo_handler_def)
  from failed_preparation_retried [OF l d(1) c d(2) m k p r] r show ?thesis by auto
qed

theorem replicas_share_a_port_witness:
  "\<exists>st' :: reload_state. map (\<lambda>c. case c of CallStart w \<Rightarrow> wc_name w | _ \<Rightarrow> []) (st_calls st') = [''db-replica-0'', ''db-replica-1'']
    \<and> list_all (\<lambda>c. \<exists>w. c = CallStart w \<and> wc_hostPort w = 9000) (st_calls st')"
proof -
  let ?env = "demo_env_with (Inr ''i'') (Inr (''c'', 0)) None" and ?h = "demo_handler (blank_stack [])"
  let ?s = "(blank_server ''db'')\<lparr>sv_image := ''db:2'', sv_replicas := 2\<rparr>"
  let ?st = "\<lparr>st_calls = [], st_result = plain_result True NoMessage, st_newCfg = blank_stack []\<rparr>"
  obtain x st' where run: "start_replicas ?env ?h ?s ''i'' [0..<nat (effectiveReplicas ?s)] [] ?st = (x, st')" by fastforce
  have "(\<lambda>(x, st'). isl x = False \<and> map (\<lambda>c. case c of CallStart w \<Rightarrow> wc_name w | _ \<Rightarrow> []) (st_calls st') = [''db-replica-0'', ''db-replica-1''])
      (start_replicas ?env ?h ?s ''i'' [0..<nat (effectiveReplicas ?s)] [] ?st)" by code_simp
  then have names: "map (\<lambda>c. case c of CallStart w \<Rightarrow> wc_name w | _ \<Rightarrow> []) (st_calls st') = [''db-replica-0'', ''db-replica-1'']"
    and "\<not> isl x" unfolding run by simp_all
  then obtain rts where run': "start_replicas ?env ?h ?s ''i'' [0..<nat (effectiveReplicas ?s)] [] ?st = (Inr rts, st')"
    using run by (cases x) auto
  have "en_endpoints ?env (hs @ [CallStart w]) = en_endpoints ?env hs" for hs w by (simp add: demo_env_with_def)
  moreover have "sv_transport ?s \<noteq> ''stdio''" by simp (simp add: blank_server_def)
  ultimately have "\<exists>cs. st_calls st' = st_calls ?st @ cs \<and> length cs = nat (effectiveReplicas ?s)
      \<and> (\<forall>c\<in>set cs. \<exists>w. c = CallStart w \<and> wc_hostPort w = allocatePort ?env ?h (st_calls ?st))"
    by (rule replicas_share_a_port [OF _ _ run'])
  moreover have "allocatePort ?env ?h (st_calls ?st) = 9000" by code_simp
  ultimately have "list_all (\<lambda>c. \<exists>w. c = CallStart w \<and> wc_hostPort w = 9000) (st_calls st')" by (simp add: list_all_iff)
  with names show ?thesis by (intro exI [of _ st'] conjI)
qed

theorem missing_runtime_panics_witness:
  "\<exists>res h' calls'. apply_config ((demo_env_with (Inr ''i'') (Inr (''c'', 0)) None)\<lparr>en_hasRuntime := False\<rparr>) (\<lambda>_. None) (demo_handler (blank_stack [])) []
      ((blank_stack [])\<lparr>sk_resources := [db_resource]\<rparr>) = Some (res, h', calls') \<and> \<not> re_success res
    \<and> apply_config ((demo_env_with (Inr ''i'') (Inr (''c'', 0)) None)\<lparr>en_hasRuntime := False\<rparr>) (\<lambda>_. None) h' calls' (blank_stack []) = None"
  by (rule missing_runtime_panics) (simp_all add: has_runtime_def names_ok_def blank_stack_def demo_handler_def)

end
