(* ===== verification/Pins.thy ===== *)
theory Pins
  imports Mcp_Types
begin

text \<open>
  Schema pins (\<^verbatim>\<open>pkg/pins\<close>): trust on first use for the tool definitions of downstream servers. The canonical
  form of a schema, the two digest schemes, the pin store with its file, verification with its diff, approval,
  reset, and the adapter through which the gateway uses the store.

  Parameters are the JSON decoder, SHA-256 (as hexadecimal text) and the poisoning scanner, whose findings are
  advisory: they are stored and reported and decide nothing. A file is the value it stands for; the outcome of
  each system call is a flag of the argument \<open>pin_io\<close>. A \<^verbatim>\<open>ServerPins\<close> is shared by pointer inside the
  store only; the store's map is the one place the model keeps it. Warnings in the log are left out.
\<close>

subsection \<open>Canonical JSON\<close>

text \<open>What \<^verbatim>\<open>json.Unmarshal\<close> into \<^verbatim>\<open>any\<close> yields. An object is a Go map; a number is the text that
  \<^verbatim>\<open>json.Marshal\<close> prints for the \<^verbatim>\<open>float64\<close> it was decoded to.\<close>

datatype json =
    JNull
  | JBool bool
  | JNum string
  | JStr string
  | JArr "json list"
  | JObj "(string \<times> json) list"

text \<open>String escapes of \<^verbatim>\<open>encoding/json\<close> with HTML escaping on. Decoded strings are valid UTF-8.\<close>

definition json_escape1 :: "char \<Rightarrow> string" where
  "json_escape1 c =
     (let n = of_char c :: int in
      if c = CHR 0x22 then [CHR 0x5C, CHR 0x22]
      else if c = CHR 0x5C then [CHR 0x5C, CHR 0x5C]
      else if c = CHR 0x08 then [CHR 0x5C, CHR ''b'']
      else if c = CHR 0x0C then [CHR 0x5C, CHR ''f'']
      else if c = CHR 0x0A then [CHR 0x5C, CHR ''n'']
      else if c = CHR 0x0D then [CHR 0x5C, CHR ''r'']
      else if c = CHR 0x09 then [CHR 0x5C, CHR ''t'']
      else if n < 32 \<or> c = CHR ''<'' \<or> c = CHR ''>'' \<or> c = CHR 0x26
      then CHR 0x5C # ''u00'' @ [hex_digit (n div 16), hex_digit (n mod 16)]
      else [c])"

fun json_escape :: "string \<Rightarrow> string" where
  "json_escape (a # b # c # s) =
     (if a = CHR 0xE2 \<and> b = CHR 0x80 \<and> (c = CHR 0xA8 \<or> c = CHR 0xA9)
      then CHR 0x5C # ''u202'' @ [if c = CHR 0xA8 then CHR ''8'' else CHR ''9''] @ json_escape s
      else json_escape1 a @ json_escape (b # c # s))"
| "json_escape [a, b] = json_escape1 a @ json_escape1 b"
| "json_escape [a] = json_escape1 a"
| "json_escape [] = []"

definition json_quote :: "string \<Rightarrow> string" where
  "json_quote s = CHR 0x22 # json_escape s @ [CHR 0x22]"

fun comma_join :: "string list \<Rightarrow> string" where
  "comma_join [] = []"
| "comma_join [x] = x"
| "comma_join (x # xs) = x @ '','' @ comma_join xs"

text \<open>\<^verbatim>\<open>json.Marshal\<close> prints the fields of a map in the order of their keys.\<close>

definition print_fields :: "(string \<times> string) list \<Rightarrow> string" where
  "print_fields kvs =
     CHR 0x7B # comma_join (map (\<lambda>(k, v). json_quote k @ '':'' @ v) (sort_key fst kvs)) @ [CHR 0x7D]"

primrec Marshal :: "json \<Rightarrow> string" where
  "Marshal JNull = ''null''"
| "Marshal (JBool b) = (if b then ''true'' else ''false'')"
| "Marshal (JNum n) = n"
| "Marshal (JStr s) = json_quote s"
| "Marshal (JArr xs) = ''['' @ comma_join (map Marshal xs) @ '']''"
| "Marshal (JObj kvs) = print_fields (map (map_prod id Marshal) kvs)"

primrec sortKeys :: "json \<Rightarrow> json" where
  "sortKeys JNull = JNull"
| "sortKeys (JBool b) = JBool b"
| "sortKeys (JNum n) = JNum n"
| "sortKeys (JStr s) = JStr s"
| "sortKeys (JArr xs) = JArr (map sortKeys xs)"
| "sortKeys (JObj kvs) = JObj (map (map_prod id sortKeys) kvs)"

subsection \<open>Types of the store\<close>

record finding =
  fi_code :: string
  fi_severity :: string
  fi_confidence :: string
  fi_field :: string
  fi_snippet :: string
  fi_message :: string
  fi_decoded :: string

record pin_record =
  pr_hash :: string
  pr_name :: string
  pr_description :: string
  pr_pinnedAt :: gotime
  pr_findings :: "finding list"
  pr_inputSchema :: string
  pr_outputSchema :: string

record server_pins =
  sp_serverHash :: string
  sp_pinnedAt :: gotime
  sp_lastVerifiedAt :: gotime
  sp_toolCount :: int
  sp_status :: string
  sp_tools :: "(string, pin_record) gomap"

record pin_file =
  pf_version :: string
  pf_stack :: string
  pf_createdAt :: gotime
  pf_servers :: "(string, server_pins) gomap"

record tool_diff =
  td_name :: string
  td_oldHash :: string
  td_newHash :: string
  td_oldDescription :: string
  td_newDescription :: string
  td_oldInput :: string
  td_newInput :: string
  td_oldOutput :: string
  td_newOutput :: string
  td_changeKinds :: "string list"
  td_findings :: "finding list"

record verify_result =
  vr_server :: string
  vr_status :: string
  vr_modified :: "tool_diff list"
  vr_new :: "string list"
  vr_removed :: "string list"

record pin_store =
  ps_stack :: string
  ps_data :: pin_file
  ps_scanEnabled :: bool
  ps_scanIgnore :: "string list"

definition StatusPinned :: string where "StatusPinned = ''pinned''"
definition StatusDrift :: string where "StatusDrift = ''drift''"
definition VerifyStatusPinned :: string where "VerifyStatusPinned = ''pinned''"
definition VerifyStatusVerified :: string where "VerifyStatusVerified = ''verified''"
definition VerifyStatusDrift :: string where "VerifyStatusDrift = ''drift''"
definition VerifyStatusNewTools :: string where "VerifyStatusNewTools = ''new_tools''"
definition VerifyStatusRemovedTools :: string where "VerifyStatusRemovedTools = ''removed_tools''"
definition fileVersion :: string where "fileVersion = ''2''"
definition schemeV2Prefix :: string where "schemeV2Prefix = ''h2:''"

datatype pin_error =
    ErrPinLock
  | ErrPinPath
  | ErrPinRead
  | ErrPinCorrupt
  | ErrPinNewerVersion string
  | ErrPinMkdir
  | ErrPinWriteTemp
  | ErrPinRename
  | ErrInputSchema string
  | ErrOutputSchema string

text \<open>The parts of the world an operation meets: the parameters, the outcome of its system calls, the clock.\<close>

record pin_env =
  pe_unmarshal :: "string \<Rightarrow> json option"
  pe_sha256 :: "string \<Rightarrow> string"
  pe_scan :: "tool \<Rightarrow> finding list"

record pin_io =
  pio_lock :: bool
  pio_path :: bool
  pio_mkdir :: bool
  pio_write :: bool
  pio_rename :: bool
  pio_now :: gotime

datatype pin_disk = NoPinFile | UnreadablePins | CorruptPins | PinsOnDisk pin_file

subsection \<open>Digests\<close>

definition canonicalSchema :: "pin_env \<Rightarrow> string \<Rightarrow> string option" where
  "canonicalSchema env raw =
     (if raw = [] then Some ''{}''
      else case pe_unmarshal env raw of
          None \<Rightarrow> None
        | Some v \<Rightarrow> if v = JNull \<or> v = JObj [] then Some ''{}'' else Some (Marshal (sortKeys v)))"

definition canonicalSchemas :: "pin_env \<Rightarrow> tool \<Rightarrow> pin_error + string \<times> string" where
  "canonicalSchemas env t =
     (case canonicalSchema env (t_inputSchema t) of
        None \<Rightarrow> Inl (ErrInputSchema (t_name t))
      | Some input \<Rightarrow>
          (case canonicalSchema env (t_outputSchema t) of
             None \<Rightarrow> Inl (ErrOutputSchema (t_name t))
           | Some output \<Rightarrow> Inr (input, output)))"

definition tool_text :: "string \<Rightarrow> string \<Rightarrow> string \<Rightarrow> string \<Rightarrow> string" where
  "tool_text name descr input output =
     name @ [CHR 0x0A] @ descr @ [CHR 0x0A] @ input @ [CHR 0x0A] @ output"

definition hashTool :: "pin_env \<Rightarrow> tool \<Rightarrow> pin_error + string" where
  "hashTool env t =
     map_sum id (\<lambda>(input, output). schemeV2Prefix @ pe_sha256 env (tool_text (t_name t) (t_description t) input output))
       (canonicalSchemas env t)"

definition hashToolLegacy :: "pin_env \<Rightarrow> tool \<Rightarrow> pin_error + string" where
  "hashToolLegacy env t =
     (case canonicalSchema env (t_inputSchema t) of
        None \<Rightarrow> Inl (ErrInputSchema (t_name t))
      | Some canonical \<Rightarrow>
          Inr (pe_sha256 env (t_name t @ [CHR 0x0A] @ t_description t @ [CHR 0x0A] @ canonical)))"

definition hashToolForPin :: "pin_env \<Rightarrow> string \<Rightarrow> tool \<Rightarrow> pin_error + string" where
  "hashToolForPin env pinnedHash t =
     (if prefix schemeV2Prefix pinnedHash then hashTool env t else hashToolLegacy env t)"

definition hashStrings :: "pin_env \<Rightarrow> string list \<Rightarrow> string" where
  "hashStrings env hashes = pe_sha256 env (concat hashes)"

definition serverHashFromPins :: "pin_env \<Rightarrow> (string, pin_record) gomap \<Rightarrow> string" where
  "serverHashFromPins env pins =
     hashStrings env (List.map_filter (\<lambda>n. map_option pr_hash (map_of pins n)) (sort_strings (map fst pins)))"

text \<open>\<^verbatim>\<open>sort.Slice\<close> need not be stable; tools with one name twice are in some order.\<close>

definition sortedTools :: "tool list \<Rightarrow> tool list" where
  "sortedTools tools = sort_key t_name tools"

fun hash_all :: "pin_env \<Rightarrow> tool list \<Rightarrow> pin_error + string list" where
  "hash_all env [] = Inr []"
| "hash_all env (t # ts) =
     (case hashTool env t of Inl e \<Rightarrow> Inl e | Inr h \<Rightarrow> map_sum id ((#) h) (hash_all env ts))"

definition HashTools :: "pin_env \<Rightarrow> tool list \<Rightarrow> pin_error + string" where
  "HashTools env tools = map_sum id (hashStrings env) (hash_all env (sortedTools tools))"

definition ChangeKindDescription :: string where "ChangeKindDescription = ''description''"
definition ChangeKindInputSchema :: string where "ChangeKindInputSchema = ''input_schema''"
definition ChangeKindOutputSchema :: string where "ChangeKindOutputSchema = ''output_schema''"
definition ChangeKindSchemaUncaptured :: string where "ChangeKindSchemaUncaptured = ''schema_uncaptured''"

definition changeKinds :: "pin_record \<Rightarrow> string \<Rightarrow> string \<Rightarrow> string \<Rightarrow> string list" where
  "changeKinds pin newDescription newInput newOutput =
     (let kinds = (if pr_description pin \<noteq> newDescription then [ChangeKindDescription] else []) in
      if pr_inputSchema pin = [] \<and> pr_outputSchema pin = [] then kinds @ [ChangeKindSchemaUncaptured]
      else kinds
        @ (if pr_inputSchema pin \<noteq> newInput then [ChangeKindInputSchema] else [])
        @ (if pr_outputSchema pin \<noteq> newOutput then [ChangeKindOutputSchema] else []))"

subsection \<open>Scanning\<close>

text \<open>\<^verbatim>\<open>strings.ToUpper\<close> on ASCII.\<close>

definition ascii_upper :: "string \<Rightarrow> string" where
  "ascii_upper = map (\<lambda>c. if CHR ''a'' \<le> c \<and> c \<le> CHR ''z'' then char_of (of_char c - 32 :: nat) else c)"

definition FilterFindings :: "finding list \<Rightarrow> string list \<Rightarrow> finding list" where
  "FilterFindings findings ignore =
     (if ignore = [] \<or> findings = [] then findings
      else filter (\<lambda>f. fi_code f \<notin> set (map (ascii_upper \<circ> trim_space) ignore)) findings)"

definition scanFindings :: "pin_env \<Rightarrow> pin_store \<Rightarrow> tool \<Rightarrow> finding list" where
  "scanFindings env ps t = (if \<not> ps_scanEnabled ps then [] else FilterFindings (pe_scan env t) (ps_scanIgnore ps))"

subsection \<open>The store\<close>

definition emptyPinFile :: "string \<Rightarrow> gotime \<Rightarrow> pin_file" where
  "emptyPinFile stack now =
     \<lparr>pf_version = fileVersion, pf_stack = stack, pf_createdAt = now, pf_servers = []\<rparr>"

definition New_store :: "string \<Rightarrow> gotime \<Rightarrow> pin_store" where
  "New_store stack now =
     \<lparr>ps_stack = stack, ps_data = emptyPinFile stack now, ps_scanEnabled = True, ps_scanIgnore = []\<rparr>"

definition SetScanConfig :: "bool \<Rightarrow> string list \<Rightarrow> pin_store \<Rightarrow> pin_store" where
  "SetScanConfig enabled ignore ps = ps\<lparr>ps_scanEnabled := enabled, ps_scanIgnore := ignore\<rparr>"

definition pinned :: "pin_store \<Rightarrow> string \<Rightarrow> server_pins option" where
  "pinned ps server = map_of (pf_servers (ps_data ps)) server"

definition put_pins :: "string \<Rightarrow> server_pins \<Rightarrow> pin_store \<Rightarrow> pin_store" where
  "put_pins server sp ps =
     ps\<lparr>ps_data := (ps_data ps)\<lparr>pf_servers := AList.update server sp (pf_servers (ps_data ps))\<rparr>\<rparr>"

definition LoadPins :: "pin_io \<Rightarrow> pin_disk \<Rightarrow> pin_store \<Rightarrow> pin_error option \<times> pin_store" where
  "LoadPins io d ps =
     (let empty = ps\<lparr>ps_data := emptyPinFile (ps_stack ps) (pio_now io)\<rparr> in
      if \<not> pio_path io then (Some ErrPinPath, ps)
      else case d of
          NoPinFile \<Rightarrow> (None, empty)
        | UnreadablePins \<Rightarrow> (Some ErrPinRead, ps)
        | CorruptPins \<Rightarrow> (Some ErrPinCorrupt, empty)
        | PinsOnDisk pf \<Rightarrow>
            if pf_version pf = [] \<or> pf_version pf = ''1'' \<or> pf_version pf = fileVersion
            then (None, ps\<lparr>ps_data := pf\<rparr>)
            else (Some (ErrPinNewerVersion (pf_version pf)), empty))"

text \<open>The atomic write leaves the file as it was unless the rename succeeds.\<close>

definition savePins :: "pin_io \<Rightarrow> pin_store \<Rightarrow> pin_disk \<Rightarrow> pin_error option \<times> pin_store \<times> pin_disk" where
  "savePins io ps d =
     (if \<not> pio_path io then (Some ErrPinPath, ps, d)
      else if \<not> pio_mkdir io then (Some ErrPinMkdir, ps, d)
      else
        let ps1 = ps\<lparr>ps_data := (ps_data ps)\<lparr>pf_version := fileVersion\<rparr>\<rparr> in
        if \<not> pio_write io then (Some ErrPinWriteTemp, ps1, d)
        else if \<not> pio_rename io then (Some ErrPinRename, ps1, d)
        else (None, ps1, PinsOnDisk (ps_data ps1)))"

definition fresh_record :: "pin_store \<Rightarrow> pin_env \<Rightarrow> gotime \<Rightarrow> tool \<Rightarrow> pin_error + pin_record" where
  "fresh_record ps env now t =
     (case hashTool env t of
        Inl e \<Rightarrow> Inl e
      | Inr h \<Rightarrow>
          (case canonicalSchemas env t of
             Inl e \<Rightarrow> Inl e
           | Inr (input, output) \<Rightarrow>
               Inr \<lparr>pr_hash = h, pr_name = t_name t, pr_description = t_description t, pr_pinnedAt = now,
                    pr_findings = scanFindings env ps t, pr_inputSchema = input, pr_outputSchema = output\<rparr>))"

fun pin_all :: "pin_store \<Rightarrow> pin_env \<Rightarrow> gotime \<Rightarrow> tool list
    \<Rightarrow> (string, pin_record) gomap \<times> string list \<Rightarrow> pin_error + (string, pin_record) gomap \<times> string list" where
  "pin_all ps env now [] acc = Inr acc"
| "pin_all ps env now (t # ts) (recs, hashes) =
     (case fresh_record ps env now t of
        Inl e \<Rightarrow> Inl e
      | Inr r \<Rightarrow> pin_all ps env now ts (AList.update (t_name t) r recs, hashes @ [pr_hash r]))"

definition pinServer :: "pin_env \<Rightarrow> gotime \<Rightarrow> string \<Rightarrow> tool list \<Rightarrow> pin_store
    \<Rightarrow> (pin_error + verify_result) \<times> pin_store" where
  "pinServer env now server tools ps =
     (case pin_all ps env now (sortedTools tools) ([], []) of
        Inl e \<Rightarrow> (Inl e, ps)
      | Inr (recs, hashes) \<Rightarrow>
          let pinnedAt = (case pinned ps server of None \<Rightarrow> now | Some existing \<Rightarrow> sp_pinnedAt existing)
          in (Inr \<lparr>vr_server = server, vr_status = VerifyStatusPinned, vr_modified = [], vr_new = [], vr_removed = []\<rparr>,
              put_pins server \<lparr>sp_serverHash = hashStrings env hashes, sp_pinnedAt = pinnedAt, sp_lastVerifiedAt = now,
                sp_toolCount = int (length tools), sp_status = StatusPinned, sp_tools = recs\<rparr> ps))"

text \<open>The loop over the pinned tools, in the iteration order of their map.\<close>

fun compare_pins :: "pin_store \<Rightarrow> pin_env \<Rightarrow> (string, tool) gomap \<Rightarrow> (string \<times> pin_record) list
    \<Rightarrow> pin_error + tool_diff list \<times> string list" where
  "compare_pins ps env current [] = Inr ([], [])"
| "compare_pins ps env current ((name, pin) # pins) =
     (case map_of current name of
        None \<Rightarrow> map_sum id (\<lambda>(ms, rs). (ms, name # rs)) (compare_pins ps env current pins)
      | Some t \<Rightarrow>
          (case hashToolForPin env (pr_hash pin) t of
             Inl e \<Rightarrow> Inl e
           | Inr h \<Rightarrow>
               if h = pr_hash pin then compare_pins ps env current pins
               else (case canonicalSchemas env t of
                   Inl e \<Rightarrow> Inl e
                 | Inr (input, output) \<Rightarrow>
                     map_sum id (\<lambda>(ms, rs).
                         (\<lparr>td_name = name, td_oldHash = pr_hash pin, td_newHash = h,
                           td_oldDescription = pr_description pin, td_newDescription = t_description t,
                           td_oldInput = pr_inputSchema pin, td_newInput = input,
                           td_oldOutput = pr_outputSchema pin, td_newOutput = output,
                           td_changeKinds = changeKinds pin (t_description t) input output,
                           td_findings = scanFindings env ps t\<rparr> # ms, rs))
                       (compare_pins ps env current pins))))"

definition current_tools :: "tool list \<Rightarrow> (string, tool) gomap" where
  "current_tools tools = fold (\<lambda>t m. AList.update (t_name t) t m) tools []"

definition buildVerifyResult :: "pin_env \<Rightarrow> pin_store \<Rightarrow> string \<Rightarrow> server_pins \<Rightarrow> tool list \<Rightarrow> pin_error + verify_result" where
  "buildVerifyResult env ps server sp tools =
     (let current = current_tools tools in
      case compare_pins ps env current (sp_tools sp) of
        Inl e \<Rightarrow> Inl e
      | Inr (modified, removed) \<Rightarrow>
          let new = filter (\<lambda>n. \<not> map_has (sp_tools sp) n) (map fst current);
              status = (if modified \<noteq> [] then VerifyStatusDrift
                        else if new \<noteq> [] then VerifyStatusNewTools
                        else if removed \<noteq> [] then VerifyStatusRemovedTools else VerifyStatusVerified)
          in Inr \<lparr>vr_server = server, vr_status = status, vr_modified = sort_key td_name modified,
                   vr_new = sort_strings new, vr_removed = sort_strings removed\<rparr>)"

text \<open>The auto-pin loop and the upgrade loop write through the pointer \<^verbatim>\<open>sp\<close>: what they did before an
  error stays.\<close>

fun pin_new :: "pin_store \<Rightarrow> pin_env \<Rightarrow> gotime \<Rightarrow> tool list \<Rightarrow> (string, pin_record) gomap
    \<Rightarrow> pin_error option \<times> (string, pin_record) gomap" where
  "pin_new ps env now [] recs = (None, recs)"
| "pin_new ps env now (t # ts) recs =
     (if map_has recs (t_name t) then pin_new ps env now ts recs
      else case fresh_record ps env now t of
          Inl e \<Rightarrow> (Some e, recs)
        | Inr r \<Rightarrow> pin_new ps env now ts (AList.update (t_name t) r recs))"

definition rehash_pin :: "pin_env \<Rightarrow> tool \<Rightarrow> pin_record \<Rightarrow> pin_error + pin_record" where
  "rehash_pin env t pin =
     (if prefix schemeV2Prefix (pr_hash pin) then Inr pin
      else map_sum id (\<lambda>h. pin\<lparr>pr_hash := h\<rparr>) (hashTool env t))"

definition backfill_pin :: "pin_env \<Rightarrow> tool \<Rightarrow> pin_record \<Rightarrow> pin_error + pin_record" where
  "backfill_pin env t pin =
     (if pr_inputSchema pin = [] \<and> pr_outputSchema pin = []
      then map_sum id (\<lambda>(input, output). pin\<lparr>pr_inputSchema := input, pr_outputSchema := output\<rparr>) (canonicalSchemas env t)
      else Inr pin)"

fun upgrade_pins :: "pin_env \<Rightarrow> string set \<Rightarrow> tool list \<Rightarrow> (string, pin_record) gomap
    \<Rightarrow> pin_error option \<times> (string, pin_record) gomap" where
  "upgrade_pins env modified [] recs = (None, recs)"
| "upgrade_pins env modified (t # ts) recs =
     (case map_of recs (t_name t) of
        None \<Rightarrow> upgrade_pins env modified ts recs
      | Some pin \<Rightarrow>
          if t_name t \<in> modified then upgrade_pins env modified ts recs
          else case rehash_pin env t pin of
              Inl e \<Rightarrow> (Some e, recs)
            | Inr pin1 \<Rightarrow>
                let recs1 = AList.update (t_name t) pin1 recs in
                (case backfill_pin env t pin1 of
                   Inl e \<Rightarrow> (Some e, recs1)
                 | Inr pin2 \<Rightarrow> upgrade_pins env modified ts (AList.update (t_name t) pin2 recs1)))"

text \<open>Everything \<^verbatim>\<open>verifyAndUpdate\<close> does to the record of the server before it saves.\<close>

definition update_server :: "pin_env \<Rightarrow> gotime \<Rightarrow> verify_result \<Rightarrow> tool list \<Rightarrow> pin_store \<Rightarrow> server_pins
    \<Rightarrow> pin_error option \<times> server_pins" where
  "update_server env now result tools ps sp =
     (let sp1 = sp\<lparr>sp_lastVerifiedAt := now,
                   sp_status := (if vr_modified result \<noteq> [] then StatusDrift else StatusPinned)\<rparr>;
          (e1, recs) = (if vr_new result = [] then (None, sp_tools sp1) else pin_new ps env now tools (sp_tools sp1));
          sp2 = (if vr_new result \<noteq> [] \<and> e1 = None
                 then sp1\<lparr>sp_tools := recs, sp_toolCount := int (length recs)\<rparr> else sp1\<lparr>sp_tools := recs\<rparr>)
      in if e1 \<noteq> None then (e1, sp2)
         else let (e2, recs2) = upgrade_pins env (td_name ` set (vr_modified result)) tools recs;
                  sp3 = sp2\<lparr>sp_tools := recs2\<rparr>
              in if e2 \<noteq> None then (e2, sp3) else (None, sp3\<lparr>sp_serverHash := serverHashFromPins env recs2\<rparr>))"

definition verifyAndUpdate :: "pin_env \<Rightarrow> pin_io \<Rightarrow> string \<Rightarrow> server_pins \<Rightarrow> tool list \<Rightarrow> pin_store \<Rightarrow> pin_disk
    \<Rightarrow> (pin_error + verify_result) \<times> pin_store \<times> pin_disk" where
  "verifyAndUpdate env io server sp tools ps d =
     (case buildVerifyResult env ps server sp tools of
        Inl e \<Rightarrow> (Inl e, ps, d)
      | Inr result \<Rightarrow>
          (case update_server env (pio_now io) result tools ps sp of
             (Some e, sp') \<Rightarrow> (Inl e, put_pins server sp' ps, d)
           | (None, sp') \<Rightarrow>
               (case savePins io (put_pins server sp' ps) d of
                  (Some e, ps', d') \<Rightarrow> (Inl e, ps', d')
                | (None, ps', d') \<Rightarrow> (Inr result, ps', d'))))"

definition VerifyOrPin :: "pin_env \<Rightarrow> pin_io \<Rightarrow> string \<Rightarrow> tool list \<Rightarrow> pin_store \<Rightarrow> pin_disk
    \<Rightarrow> (pin_error + verify_result) \<times> pin_store \<times> pin_disk" where
  "VerifyOrPin env io server tools ps d =
     (if \<not> pio_lock io then (Inl ErrPinLock, ps, d)
      else case pinned ps server of
          None \<Rightarrow>
            (case pinServer env (pio_now io) server tools ps of
               (Inl e, ps1) \<Rightarrow> (Inl e, ps1, d)
             | (Inr result, ps1) \<Rightarrow>
                 (case savePins io ps1 d of
                    (Some e, ps2, d') \<Rightarrow> (Inl e, ps2, d')
                  | (None, ps2, d') \<Rightarrow> (Inr result, ps2, d')))
        | Some sp \<Rightarrow> verifyAndUpdate env io server sp tools ps d)"

definition Verify :: "pin_env \<Rightarrow> string \<Rightarrow> tool list \<Rightarrow> pin_store \<Rightarrow> pin_error + verify_result" where
  "Verify env server tools ps =
     (case pinned ps server of
        None \<Rightarrow> Inr \<lparr>vr_server = server, vr_status = VerifyStatusPinned, vr_modified = [], vr_new = [], vr_removed = []\<rparr>
      | Some sp \<Rightarrow> buildVerifyResult env ps server sp tools)"

definition Approve :: "pin_env \<Rightarrow> pin_io \<Rightarrow> string \<Rightarrow> tool list \<Rightarrow> pin_store \<Rightarrow> pin_disk
    \<Rightarrow> pin_error option \<times> pin_store \<times> pin_disk" where
  "Approve env io server tools ps d =
     (if \<not> pio_lock io then (Some ErrPinLock, ps, d)
      else case pinServer env (pio_now io) server tools ps of
          (Inl e, ps1) \<Rightarrow> (Some e, ps1, d)
        | (Inr _, ps1) \<Rightarrow> savePins io ps1 d)"

definition ResetPins :: "pin_io \<Rightarrow> string \<Rightarrow> pin_store \<Rightarrow> pin_disk \<Rightarrow> pin_error option \<times> pin_store \<times> pin_disk" where
  "ResetPins io server ps d =
     (if \<not> pio_lock io then (Some ErrPinLock, ps, d)
      else savePins io (ps\<lparr>ps_data := (ps_data ps)\<lparr>pf_servers := AList.delete server (pf_servers (ps_data ps))\<rparr>\<rparr>) d)"

definition GetServerPins :: "string \<Rightarrow> pin_store \<Rightarrow> server_pins option" where
  "GetServerPins server ps = pinned ps server"

subsection \<open>The adapter of the gateway\<close>

definition Adapter_VerifyOrPin :: "pin_env \<Rightarrow> pin_io \<Rightarrow> string \<Rightarrow> tool list \<Rightarrow> pin_store \<Rightarrow> pin_disk
    \<Rightarrow> (pin_error + tool_diff list) \<times> pin_store \<times> pin_disk" where
  "Adapter_VerifyOrPin env io server tools ps d =
     (let (res, ps', d') = VerifyOrPin env io server tools ps d in (map_sum id vr_modified res, ps', d'))"

text \<open>A history of verifications, of any servers, each with the tools it met.\<close>

primrec verify_all :: "pin_env \<Rightarrow> (pin_io \<times> string \<times> tool list) list \<Rightarrow> pin_store \<times> pin_disk \<Rightarrow> pin_store \<times> pin_disk" where
  "verify_all env [] st = st"
| "verify_all env (v # vs) st =
     (case v of (io, server, tools) \<Rightarrow> verify_all env vs (snd (VerifyOrPin env io server tools (fst st) (snd st))))"

subsection \<open>What a verification reports\<close>

lemma current_tools_fold:
  "map_of (fold (\<lambda>t m. AList.update (t_name t) t m) ts m) n =
     (case find (\<lambda>t. t_name t = n) (rev ts) of None \<Rightarrow> map_of m n | Some t \<Rightarrow> Some t)"
  by (induction ts arbitrary: m) (auto simp: map_of_update find_append split: option.splits)

lemma map_of_current: "map_of (current_tools ts) n = find (\<lambda>t. t_name t = n) (rev ts)"
  by (simp add: current_tools_def current_tools_fold split: option.splits)

lemma find_named:
  "t \<in> set ts \<Longrightarrow> distinct (map t_name ts) \<Longrightarrow> find (\<lambda>u. t_name u = t_name t) ts = Some t"
  by (induction ts) auto

lemma current_tool:
  "t \<in> set ts \<Longrightarrow> distinct (map t_name ts) \<Longrightarrow> map_of (current_tools ts) (t_name t) = Some t"
  unfolding map_of_current by (rule find_named) (simp_all add: rev_map [symmetric])

definition moved :: "pin_env \<Rightarrow> (string, tool) gomap \<Rightarrow> string \<times> pin_record \<Rightarrow> bool" where
  "moved env current p \<longleftrightarrow>
     (case map_of current (fst p) of None \<Rightarrow> False
      | Some t \<Rightarrow> hashToolForPin env (pr_hash (snd p)) t \<noteq> Inr (pr_hash (snd p)))"

lemma compare_pins_spec:
  "compare_pins ps env current pins = Inr (ms, rs) \<Longrightarrow>
     map td_name ms = map fst (filter (moved env current) pins)
     \<and> rs = filter (\<lambda>n. map_of current n = None) (map fst pins)"
proof (induction pins arbitrary: ms rs)
  case (Cons p pins)
  obtain name pin where p: "p = (name, pin)" by (cases p)
  show ?case
  proof (cases "map_of current name")
    case None
    with Cons show ?thesis unfolding p
      by (cases "compare_pins ps env current pins") (auto simp: moved_def)
  next
    case (Some t)
    with Cons show ?thesis unfolding p
      by (cases "compare_pins ps env current pins"; cases "hashToolForPin env (pr_hash pin) t";
          cases "canonicalSchemas env t") (auto simp: moved_def split: if_splits)
  qed
qed simp

lemma set_sort_key [simp]: "set (sort_key f xs) = set xs"
  by simp

lemma reported:
  assumes "buildVerifyResult env ps server sp tools = Inr result"
  shows "td_name ` set (vr_modified result) = fst ` {p \<in> set (sp_tools sp). moved env (current_tools tools) p}"
    and "set (vr_new result) = {n \<in> t_name ` set tools. \<not> map_has (sp_tools sp) n}"
    and "set (vr_removed result) = {n \<in> fst ` set (sp_tools sp). n \<notin> t_name ` set tools}"
    and "vr_status result = (if vr_modified result \<noteq> [] then VerifyStatusDrift
           else if vr_new result \<noteq> [] then VerifyStatusNewTools
           else if vr_removed result \<noteq> [] then VerifyStatusRemovedTools else VerifyStatusVerified)"
proof -
  obtain ms rs where c: "compare_pins ps env (current_tools tools) (sp_tools sp) = Inr (ms, rs)"
    using assms by (auto simp: buildVerifyResult_def Let_def split: sum.splits)
  have names: "set (map td_name ms) = fst ` {p \<in> set (sp_tools sp). moved env (current_tools tools) p}"
    "set rs = {n \<in> fst ` set (sp_tools sp). map_of (current_tools tools) n = None}"
    using compare_pins_spec [OF c] by auto
  have keys: "map_of (current_tools tools) n = None \<longleftrightarrow> n \<notin> t_name ` set tools" for n
    by (auto simp: map_of_current find_None_iff)
  then have keys': "fst ` set (current_tools tools) = t_name ` set tools"
    by (auto simp: map_of_eq_None_iff)
  have r: "result = \<lparr>vr_server = server,
      vr_status = (if ms \<noteq> [] then VerifyStatusDrift
        else if filter (\<lambda>n. \<not> map_has (sp_tools sp) n) (map fst (current_tools tools)) \<noteq> [] then VerifyStatusNewTools
        else if rs \<noteq> [] then VerifyStatusRemovedTools else VerifyStatusVerified),
      vr_modified = sort_key td_name ms,
      vr_new = sort_strings (filter (\<lambda>n. \<not> map_has (sp_tools sp) n) (map fst (current_tools tools))),
      vr_removed = sort_strings rs\<rparr>"
    using assms by (simp only: buildVerifyResult_def Let_def c sum.case prod.case sum.inject)
  show "td_name ` set (vr_modified result) = fst ` {p \<in> set (sp_tools sp). moved env (current_tools tools) p}"
    using names(1) by (simp add: r)
  show "set (vr_new result) = {n \<in> t_name ` set tools. \<not> map_has (sp_tools sp) n}"
    using keys' by (auto simp: r)
  show "set (vr_removed result) = {n \<in> fst ` set (sp_tools sp). n \<notin> t_name ` set tools}"
    using names(2) by (simp add: r keys)
  have nil: "sort_key f xs = [] \<longleftrightarrow> xs = []" for f :: "'x \<Rightarrow> string" and xs
    by (metis length_sort length_0_conv)
  show "vr_status result = (if vr_modified result \<noteq> [] then VerifyStatusDrift
           else if vr_new result \<noteq> [] then VerifyStatusNewTools
           else if vr_removed result \<noteq> [] then VerifyStatusRemovedTools else VerifyStatusVerified)"
    by (simp add: r nil sort_strings_def)
qed

subsection \<open>What a verification changes\<close>

text \<open>A pin of the current scheme, with its schemas recorded, is never rewritten by a verification.\<close>

definition current_pin :: "pin_record \<Rightarrow> bool" where
  "current_pin r \<longleftrightarrow> prefix schemeV2Prefix (pr_hash r) \<and> \<not> (pr_inputSchema r = [] \<and> pr_outputSchema r = [])"

lemma pin_new_keeps: "map_of recs n = Some r \<Longrightarrow> map_of (snd (pin_new ps env now ts recs)) n = Some r"
proof (induction ts arbitrary: recs)
  case (Cons t ts)
  then show ?case by (cases "t_name t = n") (auto simp: map_of_update split: sum.split)
qed simp

lemma upgrade_keeps:
  assumes "map_of recs n = Some r" "current_pin r \<or> n \<in> modified"
  shows "map_of (snd (upgrade_pins env modified ts recs)) n = Some r"
  using assms
proof (induction ts arbitrary: recs)
  case (Cons t ts)
  show ?case
  proof (cases "t_name t = n \<and> n \<notin> modified")
    case True
    with Cons.prems have "current_pin r" by simp
    then have "rehash_pin env t r = Inr r" "backfill_pin env t r = Inr r"
      by (auto simp: current_pin_def rehash_pin_def backfill_pin_def)
    with True Cons show ?thesis by (simp add: map_of_update)
  next
    case False
    with Cons show ?thesis
      by (auto simp: map_of_update Let_def split: option.split sum.split)
  qed
qed simp

lemma update_server_keeps:
  assumes "map_of (sp_tools sp) n = Some r" "current_pin r \<or> n \<in> td_name ` set (vr_modified result)"
  shows "map_of (sp_tools (snd (update_server env now result tools ps sp))) n = Some r"
proof -
  have new: "map_of (snd (pin_new ps env now tools (sp_tools sp))) n = Some r"
    using assms(1) by (rule pin_new_keeps)
  show ?thesis
    using upgrade_keeps [OF assms] upgrade_keeps [OF new assms(2)] new assms(1)
    by (cases "vr_new result = []") (simp_all add: update_server_def Let_def split_beta)
qed

lemma pin_new_keys: "map_keys_ok recs \<Longrightarrow> map_keys_ok (snd (pin_new ps env now ts recs))"
  by (induction ts arbitrary: recs) (auto simp: map_keys_ok_update split: sum.split)

lemma upgrade_keys: "map_keys_ok recs \<Longrightarrow> map_keys_ok (snd (upgrade_pins env modified ts recs))"
  by (induction ts arbitrary: recs) (auto simp: map_keys_ok_update Let_def split: sum.split option.split)

lemma update_server_keys:
  assumes "map_keys_ok (sp_tools sp)"
  shows "map_keys_ok (sp_tools (snd (update_server env now result tools ps sp)))"
  using assms upgrade_keys [OF assms] pin_new_keys [OF assms] upgrade_keys [OF pin_new_keys [OF assms]]
  by (cases "vr_new result = []") (simp_all add: update_server_def Let_def split_beta)

lemma savePins_keeps [simp]: "pinned (fst (snd (savePins io ps d))) s = pinned ps s"
  by (simp add: savePins_def pinned_def Let_def)

lemma savePins_pinned: "savePins io ps d = (e, ps', d') \<Longrightarrow> pinned ps' = pinned ps"
  using savePins_keeps [of io ps d] by auto

lemma pinned_put [simp]: "pinned (put_pins s sp ps) n = (if n = s then Some sp else pinned ps n)"
  by (simp add: put_pins_def pinned_def map_of_update)

lemma pinServer_other: "n \<noteq> s \<Longrightarrow> pinned (snd (pinServer env now s ts ps)) n = pinned ps n"
  by (simp add: pinServer_def Let_def split: sum.split prod.split)

lemma verify_keeps_pin:
  assumes "pinned ps s = Some sp" "map_of (sp_tools sp) n = Some r" "current_pin r" "map_keys_ok (sp_tools sp)"
  shows "\<exists>sp'. pinned (fst (snd (VerifyOrPin env io s' ts ps d))) s = Some sp' \<and> map_of (sp_tools sp') n = Some r
     \<and> map_keys_ok (sp_tools sp')"
proof (cases "pinned ps s'")
  case None
  with assms have "s' \<noteq> s" by auto
  then have "pinned (fst (snd (VerifyOrPin env io s' ts ps d))) s = pinned (snd (pinServer env (pio_now io) s' ts ps)) s
      \<or> pinned (fst (snd (VerifyOrPin env io s' ts ps d))) s = pinned ps s"
    using None by (auto simp: VerifyOrPin_def split: sum.split prod.split option.split dest: savePins_pinned)
  then show ?thesis using assms \<open>s' \<noteq> s\<close> by (auto simp: pinServer_other)
next
  case (Some sq)
  show ?thesis
  proof (cases "\<not> pio_lock io \<or> (\<exists>e. buildVerifyResult env ps s' sq ts = Inl e)")
    case True
    then show ?thesis using assms Some by (auto simp: VerifyOrPin_def verifyAndUpdate_def)
  next
    case False
    then obtain result where res: "buildVerifyResult env ps s' sq ts = Inr result"
      by (cases "buildVerifyResult env ps s' sq ts") auto
    let ?u = "update_server env (pio_now io) result ts ps sq"
    have "pinned (fst (snd (VerifyOrPin env io s' ts ps d))) s = pinned (put_pins s' (snd ?u) ps) s"
      using False Some
      by (cases ?u) (auto simp: VerifyOrPin_def verifyAndUpdate_def res split: prod.split option.split dest: savePins_pinned)
    then show ?thesis
      using assms Some update_server_keeps [of sp n r result] update_server_keys by auto
  qed
qed

lemma verify_all_keeps_pin:
  assumes "pinned (fst st) s = Some sp" "map_of (sp_tools sp) n = Some r" "current_pin r" "map_keys_ok (sp_tools sp)"
  shows "\<exists>sp'. pinned (fst (verify_all env vs st)) s = Some sp' \<and> map_of (sp_tools sp') n = Some r
     \<and> map_keys_ok (sp_tools sp')"
  using assms
proof (induction vs arbitrary: st sp)
  case (Cons v vs)
  obtain io s' ts where v: "v = (io, s', ts)" by (cases v)
  from verify_keeps_pin [OF Cons.prems] obtain sp' where
    "pinned (fst (snd (VerifyOrPin env io s' ts (fst st) (snd st)))) s = Some sp'" "map_of (sp_tools sp') n = Some r"
    "map_keys_ok (sp_tools sp')"
    by blast
  from Cons.IH [OF this(1,2) Cons.prems(3) this(3)] show ?case by (simp add: v)
qed auto

subsection \<open>The canonical text\<close>

definition number_text :: "string \<Rightarrow> bool" where
  "number_text n \<longleftrightarrow> n \<noteq> [] \<and> CHR 0x0A \<notin> set n"

primrec json_ok :: "json \<Rightarrow> bool" where
  "json_ok JNull = True"
| "json_ok (JBool b) = True"
| "json_ok (JNum n) = number_text n"
| "json_ok (JStr s) = True"
| "json_ok (JArr xs) = list_all id (map json_ok xs)"
| "json_ok (JObj kvs) = (distinct (map fst kvs) \<and> list_all snd (map (map_prod id json_ok) kvs))"

text \<open>What the store relies on in \<^verbatim>\<open>encoding/json\<close>: a number prints as non-empty text without a line break,
  and the keys of a decoded object are distinct.\<close>

definition decoder_ok :: "pin_env \<Rightarrow> bool" where
  "decoder_ok env \<longleftrightarrow> (\<forall>raw v. pe_unmarshal env raw = Some v \<longrightarrow> json_ok v)"

lemma hex_digit_newline: "0 \<le> m \<Longrightarrow> m < 16 \<Longrightarrow> hex_digit m \<noteq> CHR 0x0A"
proof
  assume m: "0 \<le> m" "m < 16" and "hex_digit m = CHR 0x0A"
  then have "(of_char (hex_digit m) :: int) = 10" by simp
  with m show False by (simp add: hex_digit_def split: if_splits)
qed

lemma escape1_newline: "CHR 0x0A \<notin> set (json_escape1 c)"
proof -
  have "(of_char c :: int) < 256" "0 \<le> (of_char c :: int)"
    using of_char_mod_256 [of c, where ?'a = int] pos_mod_bound [of 256 "of_char c :: int"] pos_mod_sign [of 256 "of_char c :: int"]
    by simp_all
  then have "hex_digit (of_char c div 16) \<noteq> CHR 0x0A" "hex_digit (of_char c mod 16) \<noteq> CHR 0x0A"
    by (simp_all add: hex_digit_newline)
  then show ?thesis by (auto simp: json_escape1_def Let_def)
qed

lemma escape_newline: "CHR 0x0A \<notin> set (json_escape s)"
  by (induction s rule: json_escape.induct) (auto simp: escape1_newline)

lemma quote_newline: "CHR 0x0A \<notin> set (json_quote s)"
  by (simp add: json_quote_def escape_newline)

lemma comma_join_newline: "(\<And>x. x \<in> set xs \<Longrightarrow> CHR 0x0A \<notin> set x) \<Longrightarrow> CHR 0x0A \<notin> set (comma_join xs)"
  by (induction xs rule: comma_join.induct) auto

lemma Marshal_newline: "json_ok v \<Longrightarrow> CHR 0x0A \<notin> set (Marshal v)"
proof (induction v)
  case (JArr xs)
  then have "CHR 0x0A \<notin> set (comma_join (map Marshal xs))"
    by (intro comma_join_newline) (auto simp: list_all_iff)
  then show ?case by simp
next
  case (JObj kvs)
  then have "CHR 0x0A \<notin> set (comma_join (map (\<lambda>(k, v). json_quote k @ '':'' @ v) (sort_key fst (map (map_prod id Marshal) kvs))))"
    by (intro comma_join_newline) (fastforce simp: list_all_iff quote_newline)
  then show ?case by (simp add: print_fields_def)
qed (auto simp: quote_newline number_text_def)

lemma Marshal_nonempty: "json_ok v \<Longrightarrow> Marshal v \<noteq> []"
  by (cases v) (auto simp: number_text_def json_quote_def print_fields_def)

lemma sortKeys_ok: "json_ok v \<Longrightarrow> json_ok (sortKeys v)"
  by (induction v) (fastforce simp: list_all_iff comp_def)+

lemma canonical_text:
  assumes "decoder_ok env" "canonicalSchema env raw = Some s"
  shows "s \<noteq> [] \<and> CHR 0x0A \<notin> set s"
  using assms Marshal_newline Marshal_nonempty sortKeys_ok
  by (auto simp: canonicalSchema_def decoder_ok_def split: if_splits option.splits)

lemma canonicalSchemas_text:
  assumes "decoder_ok env" "canonicalSchemas env t = Inr (input, output)"
  shows "input \<noteq> [] \<and> CHR 0x0A \<notin> set input \<and> CHR 0x0A \<notin> set output"
  using assms canonical_text [OF assms(1)]
  by (auto simp: canonicalSchemas_def split: option.splits)

lemma tool_text_inj:
  assumes "tool_text n d i o1 = tool_text n d' i' o2"
    and "CHR 0x0A \<notin> set i" "CHR 0x0A \<notin> set o1" "CHR 0x0A \<notin> set i'" "CHR 0x0A \<notin> set o2"
  shows "d = d' \<and> i = i' \<and> o1 = o2"
proof -
  have "(n @ [CHR 0x0A] @ d @ [CHR 0x0A] @ i) @ CHR 0x0A # o1 = (n @ [CHR 0x0A] @ d' @ [CHR 0x0A] @ i') @ CHR 0x0A # o2"
    using assms(1) by (simp add: tool_text_def)
  from last_sep_inj [OF this assms(3,5)]
  have "o1 = o2" and "(n @ [CHR 0x0A] @ d) @ CHR 0x0A # i = (n @ [CHR 0x0A] @ d') @ CHR 0x0A # i'" by simp_all
  with last_sep_inj [OF this(2) assms(2,4)] show ?thesis by simp
qed

text \<open>SHA-256 tells two texts apart.\<close>

definition told_apart :: "pin_env \<Rightarrow> string \<Rightarrow> string \<Rightarrow> bool" where
  "told_apart env a b \<longleftrightarrow> (pe_sha256 env a = pe_sha256 env b \<longrightarrow> a = b)"

definition text_of :: "pin_env \<Rightarrow> tool \<Rightarrow> string" where
  "text_of env t =
     (case canonicalSchemas env t of Inl _ \<Rightarrow> [] | Inr (input, output) \<Rightarrow> tool_text (t_name t) (t_description t) input output)"

lemma same_digest:
  assumes "decoder_ok env" "told_apart env (text_of env t) (text_of env u)" "t_name t = t_name u"
    and "hashTool env u = Inr h"
  shows "hashTool env t = Inr h \<longleftrightarrow>
     t_description t = t_description u \<and> canonicalSchemas env t = canonicalSchemas env u"
proof -
  obtain i o1 where u: "canonicalSchemas env u = Inr (i, o1)" "h = schemeV2Prefix @ pe_sha256 env (text_of env u)"
    using assms(4) by (cases "canonicalSchemas env u") (auto simp: hashTool_def text_of_def)
  show ?thesis
  proof (cases "canonicalSchemas env t")
    case (Inr p)
    then obtain i' o2 where t: "canonicalSchemas env t = Inr (i', o2)" by (cases p) auto
    have texts: "text_of env t = tool_text (t_name u) (t_description t) i' o2"
      "text_of env u = tool_text (t_name u) (t_description u) i o1"
      by (simp_all add: text_of_def t u(1) assms(3))
    have "hashTool env t = Inr h \<longleftrightarrow> pe_sha256 env (text_of env t) = pe_sha256 env (text_of env u)"
      by (simp add: hashTool_def t u(2) text_of_def)
    also have "\<dots> \<longleftrightarrow> text_of env t = text_of env u" using assms(2) by (auto simp: told_apart_def)
    also have "\<dots> \<longleftrightarrow> t_description t = t_description u \<and> i' = i \<and> o2 = o1"
      using tool_text_inj [of "t_name u" "t_description t" i' o2 "t_description u" i o1]
        canonicalSchemas_text [OF assms(1) t] canonicalSchemas_text [OF assms(1) u(1)]
      unfolding texts by auto
    finally show ?thesis by (simp add: t u(1))
  qed (simp add: hashTool_def u(1))
qed

subsection \<open>What pinning records\<close>

lemma fresh_recordD:
  assumes "fresh_record ps env now t = Inr r"
  obtains i o1 where "canonicalSchemas env t = Inr (i, o1)" "hashTool env t = Inr (pr_hash r)"
    "pr_inputSchema r = i" "pr_outputSchema r = o1" "pr_description r = t_description t"
    "pr_pinnedAt r = now" "prefix schemeV2Prefix (pr_hash r)"
  using assms by (fastforce simp: fresh_record_def hashTool_def split: sum.splits prod.splits)

lemma fresh_current: "decoder_ok env \<Longrightarrow> fresh_record ps env now t = Inr r \<Longrightarrow> current_pin r"
  by (elim fresh_recordD) (auto simp: current_pin_def dest: canonicalSchemas_text)

lemma pin_all_keeps:
  "pin_all ps env now ts (recs, hs) = Inr (recs', hs') \<Longrightarrow> n \<notin> t_name ` set ts \<Longrightarrow> map_of recs' n = map_of recs n"
  by (induction ts arbitrary: recs hs) (auto simp: map_of_update split: sum.splits)

lemma pin_all_keys: "pin_all ps env now ts (recs, hs) = Inr (recs', hs') \<Longrightarrow> map_keys_ok recs \<Longrightarrow> map_keys_ok recs'"
  by (induction ts arbitrary: recs hs) (auto simp: map_keys_ok_update split: sum.splits)

lemma pin_all_records:
  "pin_all ps env now ts (recs, hs) = Inr (recs', hs') \<Longrightarrow> distinct (map t_name ts) \<Longrightarrow> t \<in> set ts \<Longrightarrow>
     \<exists>r. fresh_record ps env now t = Inr r \<and> map_of recs' (t_name t) = Some r"
proof (induction ts arbitrary: recs hs)
  case (Cons u ts)
  from Cons.prems(1) obtain r where r: "fresh_record ps env now u = Inr r"
    "pin_all ps env now ts (AList.update (t_name u) r recs, hs @ [pr_hash r]) = Inr (recs', hs')"
    by (auto split: sum.splits)
  from Cons r pin_all_keeps [OF r(2), of "t_name u"] show ?case by (auto simp: map_of_update)
qed simp

lemma approved_pin:
  assumes "Approve env io s ts ps d = (None, ps', d')" "distinct (map t_name ts)" "t \<in> set ts"
  obtains sp r where "pinned ps' s = Some sp" "map_of (sp_tools sp) (t_name t) = Some r"
    "fresh_record ps env (pio_now io) t = Inr r" "map_keys_ok (sp_tools sp)"
proof -
  obtain recs hs where p: "pin_all ps env (pio_now io) (sortedTools ts) ([], []) = Inr (recs, hs)"
    using assms(1) by (auto simp: Approve_def pinServer_def split: if_splits sum.splits prod.splits)
  then have "pinned (snd (pinServer env (pio_now io) s ts ps)) s \<noteq> None"
    and recs: "sp_tools (the (pinned (snd (pinServer env (pio_now io) s ts ps)) s)) = recs"
    by (simp_all add: pinServer_def Let_def)
  moreover have "pinned ps' = pinned (snd (pinServer env (pio_now io) s ts ps))"
    using assms(1) p by (auto simp: Approve_def split: if_splits sum.splits prod.splits dest: savePins_pinned)
  ultimately obtain sp where sp: "pinned ps' s = Some sp" "sp_tools sp = recs" by auto
  have "distinct (map t_name (sortedTools ts))" "t \<in> set (sortedTools ts)"
    using assms(2,3) by (simp_all add: sortedTools_def distinct_map)
  from pin_all_records [OF p this] show ?thesis using sp that pin_all_keys [OF p] by auto
qed

subsection \<open>Properties\<close>

text \<open>C10. 
  Trust on first use cannot be laundered. Take a tool that an approval pinned. Whatever verifications follow,
  of any server, with any tools, failing or not, with the tool missing in between, a later verification reports the
  tool as modified exactly when its description or one of its schemas, up to the order of JSON keys, is not the
  one approved; and then the server's status is drift. Only this rests on the digest: that SHA-256 tells the two
  texts at hand apart.
\<close>

theorem changed_tool_stays_drifted:
  assumes "decoder_ok env"
    and "Approve env io s approved ps d = (None, ps0, d0)" "distinct (map t_name approved)" "u \<in> set approved"
    and "verify_all env history (ps0, d0) = (ps1, d1)"
    and "VerifyOrPin env io' s tools ps1 d1 = (Inr result, ps2, d2)" "distinct (map t_name tools)" "t \<in> set tools"
    and "t_name t = t_name u" "told_apart env (text_of env t) (text_of env u)"
  shows "(t_name t \<in> td_name ` set (vr_modified result) \<longleftrightarrow>
            t_description t \<noteq> t_description u \<or> canonicalSchemas env t \<noteq> canonicalSchemas env u)
       \<and> (t_name t \<in> td_name ` set (vr_modified result) \<longrightarrow> vr_status result = VerifyStatusDrift)"
proof -
  obtain sp0 r where p0: "pinned ps0 s = Some sp0" "map_of (sp_tools sp0) (t_name u) = Some r"
    and r: "fresh_record ps env (pio_now io) u = Inr r" and k0: "map_keys_ok (sp_tools sp0)"
    by (rule approved_pin [OF assms(2-4)])
  from fresh_current [OF assms(1) r] have cur: "current_pin r" .
  obtain sp where p1: "pinned ps1 s = Some sp" "map_of (sp_tools sp) (t_name u) = Some r" "map_keys_ok (sp_tools sp)"
    using verify_all_keeps_pin [of "(ps0, d0)" s sp0 "t_name u" r env history] p0 k0 cur by (auto simp: assms(5))
  have res: "buildVerifyResult env ps1 s sp tools = Inr result"
    using assms(6) p1(1) by (auto simp: VerifyOrPin_def verifyAndUpdate_def split: if_splits sum.splits prod.splits option.splits)
  have hash: "hashTool env u = Inr (pr_hash r)" "prefix schemeV2Prefix (pr_hash r)"
    using r by (auto elim: fresh_recordD)
  have now: "map_of (current_tools tools) (t_name u) = Some t"
    using current_tool [OF assms(8,7)] by (simp add: assms(9))
  have "t_name t \<in> td_name ` set (vr_modified result) \<longleftrightarrow> moved env (current_tools tools) (t_name u, r)"
    using map_keys_ok_mem [OF p1(3)] p1(2) by (force simp: reported(1) [OF res] assms(9))
  also have "\<dots> \<longleftrightarrow> hashTool env t \<noteq> Inr (pr_hash r)"
    using hash(2) by (simp add: moved_def now hashToolForPin_def)
  finally show ?thesis
    using same_digest [OF assms(1,10,9) hash(1)] reported(4) [OF res] by auto
qed

definition pins_demo_env :: pin_env where
  "pins_demo_env = \<lparr>pe_unmarshal = (\<lambda>raw. if raw = ''1'' then Some (JNum ''1'') else Some JNull),
     pe_sha256 = (\<lambda>x. x), pe_scan = (\<lambda>_. [])\<rparr>"

definition pins_demo_io :: pin_io where
  "pins_demo_io = \<lparr>pio_lock = True, pio_path = True, pio_mkdir = True, pio_write = True, pio_rename = True, pio_now = 7\<rparr>"

definition pins_demo_tool :: "string \<Rightarrow> tool" where
  "pins_demo_tool descr = \<lparr>t_name = ''read'', t_title = [], t_description = descr, t_inputSchema = [],
     t_outputSchema = [], t_annotations = None\<rparr>"

definition pins_demo_approved :: "pin_error option \<times> pin_store \<times> pin_disk" where
  "pins_demo_approved = Approve pins_demo_env pins_demo_io ''fs'' [pins_demo_tool ''a''] (New_store ''stack'' 0) NoPinFile"

definition pins_demo_later :: "(pin_error + verify_result) \<times> pin_store \<times> pin_disk" where
  "pins_demo_later =
     (let (ps, d) = verify_all pins_demo_env [(pins_demo_io, ''fs'', [])] (snd pins_demo_approved)
      in VerifyOrPin pins_demo_env pins_demo_io ''fs'' [pins_demo_tool ''b''] ps d)"

lemma pins_demo_env_ok: "decoder_ok pins_demo_env" "told_apart pins_demo_env a b"
  by (auto simp: decoder_ok_def pins_demo_env_def told_apart_def number_text_def)

lemma pins_demo_runs: "fst pins_demo_approved = None" "\<not> isl (fst pins_demo_later)"
  by code_simp+

theorem changed_tool_stays_drifted_witness:
  "\<exists>result. fst pins_demo_later = Inr result \<and> ''read'' \<in> td_name ` set (vr_modified result) \<and> vr_status result = VerifyStatusDrift"
proof -
  obtain ps0 d0 where a: "pins_demo_approved = (None, ps0, d0)" using pins_demo_runs(1) by (metis prod_cases3 fst_conv)
  obtain ps1 d1 where h: "verify_all pins_demo_env [(pins_demo_io, ''fs'', [])] (ps0, d0) = (ps1, d1)" by fastforce
  have l: "pins_demo_later = VerifyOrPin pins_demo_env pins_demo_io ''fs'' [pins_demo_tool ''b''] ps1 d1"
    by (simp add: pins_demo_later_def a h del: verify_all.simps)
  obtain res ps2 d2 where e: "VerifyOrPin pins_demo_env pins_demo_io ''fs'' [pins_demo_tool ''b''] ps1 d1 = (res, ps2, d2)"
    by (metis prod_cases3)
  with pins_demo_runs(2) obtain result where r: "res = Inr result" unfolding l by (cases res) auto
  note v = e [unfolded r]
  from changed_tool_stays_drifted [OF pins_demo_env_ok(1) a [unfolded pins_demo_approved_def] _ _ h v, of "pins_demo_tool ''a''" "pins_demo_tool ''b''"]
  have "''read'' \<in> td_name ` set (vr_modified result) \<and> vr_status result = VerifyStatusDrift"
    by (simp add: pins_demo_tool_def pins_demo_env_ok)
  then show ?thesis unfolding l v by simp
qed

text \<open>
  The order of the keys of an object, at any depth, is no difference: two schemas that are the same JSON value up
  to the order of object keys have one canonical text, so re-ordering them is never reported as drift.
\<close>

inductive same_json :: "json \<Rightarrow> json \<Rightarrow> bool" where
  same_refl: "same_json v v"
| same_arr: "list_all2 same_json xs ys \<Longrightarrow> same_json (JArr xs) (JArr ys)"
| same_obj: "list_all2 (rel_prod (=) same_json) kvs kvs' \<Longrightarrow> mset kvs' = mset kvs'' \<Longrightarrow> same_json (JObj kvs) (JObj kvs'')"

lemma print_fields_perm:
  assumes "mset kvs = mset kvs'" "distinct (map fst kvs)"
  shows "print_fields kvs = print_fields kvs'"
proof -
  have d: "distinct (map fst kvs')" using assms by (metis mset_eq_imp_distinct_iff mset_map)
  have s: "set kvs = set kvs'" using assms(1) by (rule mset_eq_setD)
  have "sort_key fst kvs = sort_key fst kvs'"
    by (rule map_sorted_distinct_set_unique [where f = fst])
      (use assms(2) d s in \<open>simp_all add: distinct_map\<close>)
  then show ?thesis by (simp add: print_fields_def)
qed

lemma same_json_text: "same_json v w \<Longrightarrow> json_ok v \<Longrightarrow> Marshal (sortKeys v) = Marshal (sortKeys w)"
proof (induction rule: same_json.induct)
  case (same_arr xs ys)
  then have "map (Marshal \<circ> sortKeys) xs = map (Marshal \<circ> sortKeys) ys"
    by (induction xs ys rule: list_all2_induct) auto
  then show ?case by simp
next
  case (same_obj kvs kvs' kvs'')
  let ?print = "map_prod id Marshal \<circ> map_prod id sortKeys"
  have keys: "map fst kvs = map fst kvs'" and eq: "map ?print kvs = map ?print kvs'"
    using same_obj.IH same_obj.prems by (induction kvs kvs' rule: list_all2_induct) (auto simp: rel_prod_sel)
  have "print_fields (map ?print kvs) = print_fields (map ?print kvs'')"
    by (rule print_fields_perm) (use same_obj.hyps same_obj.prems eq keys in \<open>simp_all add: comp_def\<close>)
  then show ?case by (simp add: comp_assoc)
qed simp

theorem key_order_is_no_drift:
  assumes "decoder_ok env" "pe_unmarshal env raw = Some v" "pe_unmarshal env raw' = Some w" "same_json v w"
    and "raw \<noteq> []" "raw' \<noteq> []"
  shows "canonicalSchema env raw = canonicalSchema env raw'"
proof -
  have ok: "json_ok v" using assms(1,2) by (auto simp: decoder_ok_def)
  have "v = JNull \<or> v = JObj [] \<longleftrightarrow> w = JNull \<or> w = JObj []"
    using assms(4) by (cases rule: same_json.cases) auto
  with same_json_text [OF assms(4) ok] assms show ?thesis by (simp add: canonicalSchema_def)
qed

text \<open>
  A verification compares the tools a server advertises with its pins exactly: it reports as modified the pinned
  tools that are advertised with another digest, as new the advertised tools without a pin, as removed the pinned
  tools no longer advertised, and its status names the first of these that is not empty.
\<close>

theorem verification_report:
  assumes "Verify env s tools ps = Inr result" "pinned ps s = Some sp" "map_keys_ok (sp_tools sp)"
  shows "td_name ` set (vr_modified result) =
       {n. \<exists>r t. map_of (sp_tools sp) n = Some r \<and> map_of (current_tools tools) n = Some t
                \<and> hashToolForPin env (pr_hash r) t \<noteq> Inr (pr_hash r)}
     \<and> set (vr_new result) = t_name ` set tools - dom (map_of (sp_tools sp))
     \<and> set (vr_removed result) = dom (map_of (sp_tools sp)) - t_name ` set tools"
proof -
  have res: "buildVerifyResult env ps s sp tools = Inr result" using assms(1,2) by (simp add: Verify_def)
  have mem: "(n, r) \<in> set (sp_tools sp) \<longleftrightarrow> map_of (sp_tools sp) n = Some r" for n r
    by (rule map_keys_ok_mem [OF assms(3)])
  have "td_name ` set (vr_modified result) =
       {n. \<exists>r t. map_of (sp_tools sp) n = Some r \<and> map_of (current_tools tools) n = Some t
                \<and> hashToolForPin env (pr_hash r) t \<noteq> Inr (pr_hash r)}" (is "_ = ?M")
  proof -
    have mv: "moved env c (n, r) \<longleftrightarrow> (\<exists>t. map_of c n = Some t \<and> hashToolForPin env (pr_hash r) t \<noteq> Inr (pr_hash r))" for c n r
      by (simp add: moved_def split: option.split)
    have "fst ` {p \<in> set (sp_tools sp). moved env (current_tools tools) p} =
        {n. \<exists>r. map_of (sp_tools sp) n = Some r \<and> moved env (current_tools tools) (n, r)}"
      using mem by (auto simp: image_iff Bex_def)
    then show ?thesis unfolding reported(1) [OF res] mv by simp
  qed
  moreover have "set (vr_new result) = t_name ` set tools - dom (map_of (sp_tools sp))"
    unfolding reported(2) [OF res] by auto
  moreover have "set (vr_removed result) = dom (map_of (sp_tools sp)) - t_name ` set tools"
    unfolding reported(3) [OF res] dom_map_of_conv_image_fst by auto
  ultimately show ?thesis by blast
qed

end
