(* ===== verification/Registration.thy ===== *)
theory Registration
  imports Gateway Pins
begin

text \<open>
  Registration of downstream servers with the gateway (\<^verbatim>\<open>pkg/mcp/gateway.go\<close>): building a client per replica,
  committing a replica set, the retries of servers that failed to register, unregistration, restart, and the pin
  check that may block a server.

  The gateway guards its retry bookkeeping with one mutex and numbers the registrations of a name: a retry carries
  the number it was launched with and may commit only under the same number. What happens between two locks, such as
  connecting to a server, can interleave with anything; the locked sections are single functions here, and
  \<open>reg_step\<close> runs them in any order.

  Transports are parameters (\<open>transports\<close>) that act on a world \<open>'w\<close>: creating an OpenAPI client, connecting
  a process or a container, the readiness wait, initialisation, fetching the tools, the probe and the restart of a
  container. Closing a client is recorded in \<open>rg_closed\<close>. The schema verifier is the pin store.
\<close>

subsection \<open>Errors\<close>

text \<open>Go errors by the chain that \<^verbatim>\<open>errors.Is\<close> and \<^verbatim>\<open>errors.As\<close> walk.\<close>

datatype reg_error =
    NeedsAuthError string
  | AuthRequiredError int string
  | ContextCanceled
  | DeadlineExceeded
  | ErrReadyTimeout string
  | ErrStaleRegistration
  | OtherError string
  | TerminalError reg_error
  | WrapError string reg_error

primrec error_message :: "reg_error \<Rightarrow> string" where
  "error_message (NeedsAuthError s) =
     s @ '' requires authorization: run 'gridctl auth login '' @ s @ [CHR 0x27] @ '' or open the gridctl UI''"
| "error_message (AuthRequiredError code body) = ''HTTP '' @ itoa code @ '': '' @ body"
| "error_message ContextCanceled = ''context canceled''"
| "error_message DeadlineExceeded = ''context deadline exceeded''"
| "error_message (ErrReadyTimeout rest) = ''ready timeout'' @ rest"
| "error_message ErrStaleRegistration = ''stale registration attempt''"
| "error_message (OtherError m) = m"
| "error_message (TerminalError e) = error_message e"
| "error_message (WrapError m e) = m @ error_message e"

primrec root_cause :: "reg_error \<Rightarrow> reg_error" where
  "root_cause (NeedsAuthError s) = NeedsAuthError s"
| "root_cause (AuthRequiredError code body) = AuthRequiredError code body"
| "root_cause ContextCanceled = ContextCanceled"
| "root_cause DeadlineExceeded = DeadlineExceeded"
| "root_cause (ErrReadyTimeout rest) = ErrReadyTimeout rest"
| "root_cause ErrStaleRegistration = ErrStaleRegistration"
| "root_cause (OtherError m) = OtherError m"
| "root_cause (TerminalError e) = root_cause e"
| "root_cause (WrapError m e) = root_cause e"

definition isAuthError :: "reg_error \<Rightarrow> bool" where
  "isAuthError e = (case root_cause e of AuthRequiredError _ _ \<Rightarrow> True | NeedsAuthError _ \<Rightarrow> True | _ \<Rightarrow> False)"

primrec isTerminalRegistrationError :: "reg_error \<Rightarrow> bool" where
  "isTerminalRegistrationError (NeedsAuthError s) = False"
| "isTerminalRegistrationError (AuthRequiredError code body) = False"
| "isTerminalRegistrationError ContextCanceled = False"
| "isTerminalRegistrationError DeadlineExceeded = False"
| "isTerminalRegistrationError (ErrReadyTimeout rest) = False"
| "isTerminalRegistrationError ErrStaleRegistration = False"
| "isTerminalRegistrationError (OtherError m) = False"
| "isTerminalRegistrationError (TerminalError e) = True"
| "isTerminalRegistrationError (WrapError m e) = isTerminalRegistrationError e"

definition isCanceled :: "reg_error \<Rightarrow> bool" where
  "isCanceled e \<longleftrightarrow> root_cause e = ContextCanceled \<or> root_cause e = DeadlineExceeded"

subsection \<open>State\<close>

record mcp_config =
  mc_name :: string
  mc_transport :: string
  mc_endpoint :: string
  mc_containerID :: string
  mc_external :: bool
  mc_localProcess :: bool
  mc_ssh :: bool
  mc_openapi :: bool
  mc_openapiSpec :: "string option"
  mc_command :: "string list"
  mc_sshHost :: string
  mc_sshUser :: string
  mc_sshPort :: int
  mc_sshIdentityFile :: string
  mc_sshKnownHostsFile :: string
  mc_sshJumpHost :: string
  mc_tools :: "string list"
  mc_outputFormat :: string
  mc_pinSchemas :: "bool option"
  mc_protocolGeneration :: string
  mc_cleanup :: bool

record pending_reg =
  pd_policy :: string
  pd_cfgs :: "mcp_config list"
  pd_backoff :: backoff_state
  pd_inFlight :: bool

record auth_state =
  au_status :: string
  au_issuer :: string
  au_expiry :: "gotime option"
  au_error :: string

record health_status =
  hs_healthy :: bool
  hs_lastCheck :: "gotime option"
  hs_lastHealthy :: "gotime option"
  hs_error :: string

record 'l registry =
  rg_gateway :: "'l gateway"
  rg_serverMeta :: "(string, mcp_config) gomap"
  rg_pending :: "(string, pending_reg) gomap"
  rg_regGen :: "(string, 64 word) gomap"
  rg_cleanupRan :: "string list"
  rg_failures :: "(string, string) gomap"
  rg_authState :: "(string, auth_state) gomap"
  rg_health :: "(string, health_status) gomap"
  rg_replicaHealth :: "(string, (int, health_status) gomap) gomap"
  rg_pins :: "(pin_store \<times> pin_disk) option"
  rg_pinAction :: string
  rg_docker :: bool
  rg_closed :: "agent_client list"

definition AuthStatusNeedsAuth :: string where
  "AuthStatusNeedsAuth = ''needs_auth''"

definition on_gateway :: "('l gateway \<Rightarrow> 'l gateway) \<Rightarrow> 'l registry \<Rightarrow> 'l registry" where
  "on_gateway f r = r\<lparr>rg_gateway := f (rg_gateway r)\<rparr>"

definition on_router :: "(router \<Rightarrow> router) \<Rightarrow> 'l registry \<Rightarrow> 'l registry" where
  "on_router f = on_gateway (\<lambda>g. g\<lparr>gw_router := f (gw_router g)\<rparr>)"

abbreviation reg_router :: "'l registry \<Rightarrow> router" where
  "reg_router r \<equiv> gw_router (rg_gateway r)"

definition reg_gen :: "'l registry \<Rightarrow> string \<Rightarrow> 64 word" where
  "reg_gen r name = (case map_of (rg_regGen r) name of None \<Rightarrow> 0 | Some g \<Rightarrow> g)"

definition bump_gen :: "string \<Rightarrow> 'l registry \<Rightarrow> 'l registry" where
  "bump_gen name r = r\<lparr>rg_regGen := AList.update name (reg_gen r name + 1) (rg_regGen r)\<rparr>"

definition registrationGenIs :: "'l registry \<Rightarrow> string \<Rightarrow> 64 word \<Rightarrow> bool" where
  "registrationGenIs r name gen \<longleftrightarrow> reg_gen r name = gen"

text \<open>The metadata of a server; the gateway model reads the output format of a server from its own table.\<close>

definition put_meta :: "string \<Rightarrow> mcp_config \<Rightarrow> 'l registry \<Rightarrow> 'l registry" where
  "put_meta name cfg r =
     (on_gateway (\<lambda>g. g\<lparr>gw_outputFormats := AList.update name (mc_outputFormat cfg) (gw_outputFormats g)\<rparr>) r)
       \<lparr>rg_serverMeta := AList.update name cfg (rg_serverMeta r)\<rparr>"

definition drop_meta :: "string \<Rightarrow> 'l registry \<Rightarrow> 'l registry" where
  "drop_meta name r =
     (on_gateway (\<lambda>g. g\<lparr>gw_outputFormats := AList.delete name (gw_outputFormats g)\<rparr>) r)
       \<lparr>rg_serverMeta := AList.delete name (rg_serverMeta r)\<rparr>"

subsection \<open>Failures and authorization\<close>

definition ClearRegistrationFailure :: "string \<Rightarrow> 'l registry \<Rightarrow> 'l registry" where
  "ClearRegistrationFailure name r = r\<lparr>rg_failures := AList.delete name (rg_failures r)\<rparr>"

definition SetServerAuthState :: "string \<Rightarrow> auth_state \<Rightarrow> 'l registry \<Rightarrow> 'l registry" where
  "SetServerAuthState name st r =
     (if name = [] then r else r\<lparr>rg_authState := AList.update name st (rg_authState r)\<rparr>)"

definition ClearServerAuthState :: "string \<Rightarrow> 'l registry \<Rightarrow> 'l registry" where
  "ClearServerAuthState name r = r\<lparr>rg_authState := AList.delete name (rg_authState r)\<rparr>"

definition needs_auth :: "'l registry \<Rightarrow> string \<Rightarrow> bool" where
  "needs_auth r name \<longleftrightarrow>
     (case map_of (rg_authState r) name of None \<Rightarrow> False | Some st \<Rightarrow> au_status st = AuthStatusNeedsAuth)"

definition markNeedsAuthIfNew :: "string \<Rightarrow> string \<Rightarrow> 'l registry \<Rightarrow> 'l registry" where
  "markNeedsAuthIfNew name reason r =
     (if needs_auth r name then r
      else SetServerAuthState name
        \<lparr>au_status = AuthStatusNeedsAuth, au_issuer = [], au_expiry = None, au_error = reason\<rparr> r)"

definition oauth_hint :: string where
  "oauth_hint = ''; if this server requires OAuth, add 'auth: {type: oauth}' to it in stack.yaml''"

definition RecordRegistrationFailure :: "string \<Rightarrow> reg_error \<Rightarrow> 'l registry \<Rightarrow> 'l registry" where
  "RecordRegistrationFailure name e r =
     (if name = [] then r
      else case root_cause e of
          NeedsAuthError _ \<Rightarrow> ClearRegistrationFailure name (markNeedsAuthIfNew name ''authorization required'' r)
        | AuthRequiredError _ _ \<Rightarrow> r\<lparr>rg_failures := AList.update name (error_message e @ oauth_hint) (rg_failures r)\<rparr>
        | _ \<Rightarrow> r\<lparr>rg_failures := AList.update name (error_message e) (rg_failures r)\<rparr>)"

subsection \<open>Pending registrations\<close>

definition dropPending :: "string \<Rightarrow> 'l registry \<Rightarrow> 'l registry" where
  "dropPending name r = r\<lparr>rg_pending := AList.delete name (rg_pending r)\<rparr>"

definition pendingSnapshot :: "'l registry \<Rightarrow> string \<Rightarrow> (string \<times> mcp_config list) option" where
  "pendingSnapshot r name = map_option (\<lambda>pe. (pd_policy pe, pd_cfgs pe)) (map_of (rg_pending r) name)"

definition on_pending :: "string \<Rightarrow> (pending_reg \<Rightarrow> pending_reg) \<Rightarrow> 'l registry \<Rightarrow> 'l registry" where
  "on_pending name f r =
     (case map_of (rg_pending r) name of
        None \<Rightarrow> r
      | Some pe \<Rightarrow> r\<lparr>rg_pending := AList.update name (f pe) (rg_pending r)\<rparr>)"

text \<open>The jitter \<open>k\<close> of the back-off is the argument it is in \<open>Advance\<close>.\<close>

definition advancePendingBackoff :: "gotime \<Rightarrow> int \<Rightarrow> string \<Rightarrow> 'l registry \<Rightarrow> 'l registry" where
  "advancePendingBackoff now k name =
     on_pending name (\<lambda>pe. pe\<lparr>pd_backoff := fst (Advance (pd_backoff pe) now k)\<rparr>)"

definition notePendingRegistrationFailure ::
  "string \<Rightarrow> string \<Rightarrow> mcp_config list \<Rightarrow> reg_error \<Rightarrow> 'l registry \<Rightarrow> 'l registry" where
  "notePendingRegistrationFailure name policy cfgs e r =
     (if name \<in> set (rg_cleanupRan r)
      then r\<lparr>rg_cleanupRan := removeAll name (rg_cleanupRan r), rg_pending := AList.delete name (rg_pending r)\<rparr>
      else if isCanceled e then r
      else if isAuthError e \<or> isTerminalRegistrationError e then dropPending name r
      else case map_of (rg_pending r) name of
          Some pe \<Rightarrow> r\<lparr>rg_pending := AList.update name (pe\<lparr>pd_policy := policy, pd_cfgs := cfgs\<rparr>) (rg_pending r)\<rparr>
        | None \<Rightarrow> r\<lparr>rg_pending := AList.update name
            \<lparr>pd_policy = policy, pd_cfgs = cfgs, pd_backoff = zero_backoff, pd_inFlight = False\<rparr> (rg_pending r)\<rparr>)"

record attempt =
  at_name :: string
  at_policy :: string
  at_cfgs :: "mcp_config list"
  at_gen :: "64 word"

definition due :: "gotime \<Rightarrow> pending_reg \<Rightarrow> bool" where
  "due now pe \<longleftrightarrow> \<not> pd_inFlight pe \<and> ShouldTry (pd_backoff pe) now"

definition retryPendingRegistrations :: "gotime \<Rightarrow> 'l registry \<Rightarrow> attempt list \<times> 'l registry" where
  "retryPendingRegistrations now r =
     (map (\<lambda>(n, pe). \<lparr>at_name = n, at_policy = pd_policy pe, at_cfgs = pd_cfgs pe, at_gen = reg_gen r n\<rparr>)
        (filter (\<lambda>(n, pe). due now pe) (rg_pending r)),
      r\<lparr>rg_pending := map (\<lambda>(n, pe). (n, if due now pe then pe\<lparr>pd_inFlight := True\<rparr> else pe)) (rg_pending r)\<rparr>)"

subsection \<open>Pins of a registered server\<close>

definition pinningEnabledForServer :: "'l registry \<Rightarrow> string \<Rightarrow> bool" where
  "pinningEnabledForServer r name \<longleftrightarrow> rg_pins r \<noteq> None \<and>
     (case map_of (rg_serverMeta r) name of
        None \<Rightarrow> True
      | Some cfg \<Rightarrow> (case mc_pinSchemas cfg of None \<Rightarrow> True | Some b \<Rightarrow> b))"

definition handlePinDrift :: "string \<Rightarrow> tool_diff list \<Rightarrow> 'l registry \<Rightarrow> 'l registry" where
  "handlePinDrift name drifts r =
     (if drifts = [] then r
      else if rg_pinAction r = ''block''
      then on_gateway (\<lambda>g. g\<lparr>gw_blockedServers := set_put name (gw_blockedServers g)\<rparr>) r
      else r)"

definition UnblockServer :: "string \<Rightarrow> 'l registry \<Rightarrow> 'l registry" where
  "UnblockServer name = on_gateway (\<lambda>g. g\<lparr>gw_blockedServers := removeAll name (gw_blockedServers g)\<rparr>)"

definition ResetServerPins :: "pin_io \<Rightarrow> string \<Rightarrow> 'l registry \<Rightarrow> pin_error option \<times> 'l registry" where
  "ResetServerPins io name r =
     (case rg_pins r of
        None \<Rightarrow> (None, r)
      | Some (ps, d) \<Rightarrow> let (e, ps', d') = ResetPins io name ps d in (e, r\<lparr>rg_pins := Some (ps', d')\<rparr>))"

text \<open>The pin check of a registration and of a reconnect; a failed verification is only logged.\<close>

definition check_pins :: "pin_env \<Rightarrow> pin_io \<Rightarrow> string \<Rightarrow> tool list \<Rightarrow> 'l registry \<Rightarrow> 'l registry" where
  "check_pins penv io name tools r =
     (if \<not> pinningEnabledForServer r name then r
      else case rg_pins r of
          None \<Rightarrow> r
        | Some (ps, d) \<Rightarrow>
            let (res, ps', d') = Adapter_VerifyOrPin penv io name tools ps d; r1 = r\<lparr>rg_pins := Some (ps', d')\<rparr>
            in (case res of Inl _ \<Rightarrow> r1 | Inr drifts \<Rightarrow> handlePinDrift name drifts r1))"

subsection \<open>Building a client\<close>

record 'w transports =
  tp_openapi :: "mcp_config \<Rightarrow> 'w \<Rightarrow> reg_error option \<times> 'w"
  tp_connect :: "mcp_config \<Rightarrow> string list \<Rightarrow> 'w \<Rightarrow> reg_error option \<times> 'w"
  tp_ready :: "mcp_config \<Rightarrow> 'w \<Rightarrow> reg_error option \<times> 'w"
  tp_cleanup :: "mcp_config \<Rightarrow> 'w \<Rightarrow> 'w"
  tp_initialize :: "mcp_config \<Rightarrow> 'w \<Rightarrow> reg_error option \<times> 'w"
  tp_refresh :: "mcp_config \<Rightarrow> 'w \<Rightarrow> (reg_error + agent_client) \<times> 'w"
  tp_close :: "mcp_config \<Rightarrow> 'w \<Rightarrow> 'w"
  tp_ping :: "mcp_config \<Rightarrow> 'w \<Rightarrow> reg_error option \<times> 'w"
  tp_restart :: "string \<Rightarrow> 'w \<Rightarrow> string option \<times> 'w"

definition buildSSHCommand :: "mcp_config \<Rightarrow> string list" where
  "buildSSHCommand cfg =
     [''ssh'', ''-o'', ''BatchMode=yes'']
     @ (if mc_sshKnownHostsFile cfg \<noteq> []
        then [''-o'', ''StrictHostKeyChecking=yes'', ''-o'', ''UserKnownHostsFile='' @ mc_sshKnownHostsFile cfg]
        else [''-o'', ''StrictHostKeyChecking=accept-new''])
     @ (if mc_sshIdentityFile cfg \<noteq> [] then [''-i'', mc_sshIdentityFile cfg] else [])
     @ (if mc_sshPort cfg > 0 \<and> mc_sshPort cfg \<noteq> 22 then [''-p'', itoa (mc_sshPort cfg)] else [])
     @ (if mc_sshJumpHost cfg \<noteq> [] then [''-J'', mc_sshJumpHost cfg] else [])
     @ [mc_sshUser cfg @ ''@'' @ mc_sshHost cfg] @ mc_command cfg"

definition is_ready_timeout :: "reg_error \<Rightarrow> bool" where
  "is_ready_timeout e = (case root_cause e of ErrReadyTimeout _ \<Rightarrow> True | _ \<Rightarrow> False)"

definition handleReadyFailure :: "'w transports \<Rightarrow> mcp_config \<Rightarrow> reg_error \<Rightarrow> 'l registry \<Rightarrow> 'w \<Rightarrow> 'l registry \<times> 'w" where
  "handleReadyFailure tp cfg e r w =
     (if \<not> is_ready_timeout e \<or> \<not> mc_cleanup cfg then (r, w)
      else (r\<lparr>rg_cleanupRan := set_put (mc_name cfg) (rg_cleanupRan r)\<rparr>, tp_cleanup tp cfg w))"

text \<open>The transport switch. An SSE server without a pinned protocol generation is pinned to the handshake.\<close>

definition connect_http :: "'w transports \<Rightarrow> mcp_config \<Rightarrow> 'l registry \<Rightarrow> 'w \<Rightarrow> reg_error option \<times> 'l registry \<times> 'w" where
  "connect_http tp cfg r w =
     (let eff = (if mc_transport cfg = ''sse'' \<and> (mc_protocolGeneration cfg = [] \<or> mc_protocolGeneration cfg = ''auto'')
                 then cfg\<lparr>mc_protocolGeneration := ''handshake''\<rparr> else cfg);
          (res, w1) = tp_ready tp eff w
      in case res of
          None \<Rightarrow> (None, r, w1)
        | Some e \<Rightarrow>
            let (r2, w2) = handleReadyFailure tp cfg e r w1
            in (Some (WrapError (''MCP server '' @ mc_name cfg @ '' not ready: '') e), r2, w2))"

definition connect_client :: "'w transports \<Rightarrow> mcp_config \<Rightarrow> 'l registry \<Rightarrow> 'w \<Rightarrow> reg_error option \<times> 'l registry \<times> 'w" where
  "connect_client tp cfg r w =
     (if mc_openapi cfg
      then (if mc_openapiSpec cfg = None
            then (Some (TerminalError (OtherError (''OpenAPI config required for OpenAPI server '' @ mc_name cfg))), r, w)
            else let (res, w1) = tp_openapi tp cfg w
                 in (map_option (\<lambda>e. TerminalError (WrapError (''creating OpenAPI client '' @ mc_name cfg @ '': '') e)) res, r, w1))
      else if mc_ssh cfg
      then let (res, w1) = tp_connect tp cfg (buildSSHCommand cfg) w
           in (map_option (WrapError (''starting SSH process '' @ mc_name cfg @ '': '')) res, r, w1)
      else if mc_localProcess cfg
      then let (res, w1) = tp_connect tp cfg (mc_command cfg) w
           in (map_option (WrapError (''starting process '' @ mc_name cfg @ '': '')) res, r, w1)
      else if mc_transport cfg = ''stdio''
      then (if \<not> rg_docker r
            then (Some (TerminalError (OtherError ''docker client not set for stdio transport'')), r, w)
            else let (res, w1) = tp_connect tp cfg [] w
                 in (map_option (WrapError ''connecting to container: '') res, r, w1))
      else if mc_transport cfg = ''sse'' \<or> mc_transport cfg = ''http'' \<or> mc_transport cfg = [] then connect_http tp cfg r w
      else (Some (TerminalError (OtherError (''unknown transport: '' @ mc_transport cfg))), r, w))"

definition buildAgentClient :: "'w transports \<Rightarrow> mcp_config \<Rightarrow> 'l registry \<Rightarrow> 'w
    \<Rightarrow> (reg_error + agent_client) \<times> 'l registry \<times> 'w" where
  "buildAgentClient tp cfg r w =
     (case connect_client tp cfg r w of
        (Some e, r1, w1) \<Rightarrow> (Inl e, r1, w1)
      | (None, r1, w1) \<Rightarrow>
          (case tp_initialize tp cfg w1 of
             (Some e, w2) \<Rightarrow> (Inl (WrapError (''initializing MCP server '' @ mc_name cfg @ '': '') e), r1, tp_close tp cfg w2)
           | (None, w2) \<Rightarrow>
               (case tp_refresh tp cfg w2 of
                  (Inl e, w3) \<Rightarrow> (Inl (WrapError (''fetching tools from '' @ mc_name cfg @ '': '') e), r1, tp_close tp cfg w3)
                | (Inr client, w3) \<Rightarrow> (Inr client, r1, w3))))"

subsection \<open>Registering\<close>

text \<open>The loop over the configurations; with a single one a failure ends it.\<close>

fun build_loop :: "'w transports \<Rightarrow> bool \<Rightarrow> mcp_config list \<Rightarrow> reg_error option \<Rightarrow> agent_client list \<Rightarrow> 'l registry \<Rightarrow> 'w
    \<Rightarrow> (reg_error option \<times> agent_client list) \<times> 'l registry \<times> 'w" where
  "build_loop tp single [] firstErr clients r w = ((firstErr, clients), r, w)"
| "build_loop tp single (cfg # cfgs) firstErr clients r w =
     (case buildAgentClient tp cfg r w of
        (Inr client, r1, w1) \<Rightarrow> build_loop tp single cfgs firstErr (clients @ [client]) r1 w1
      | (Inl e, r1, w1) \<Rightarrow>
          let err = (case firstErr of None \<Rightarrow> Some e | Some x \<Rightarrow> Some x) in
          if single then ((err, []), r1, w1) else build_loop tp single cfgs err clients r1 w1)"

definition build_replicas :: "'w transports \<Rightarrow> string \<Rightarrow> mcp_config list \<Rightarrow> 'l registry \<Rightarrow> 'w
    \<Rightarrow> (reg_error + agent_client list) \<times> 'l registry \<times> 'w" where
  "build_replicas tp name cfgs r w =
     (let ((err, clients), r1, w1) = build_loop tp (length cfgs = 1) cfgs None [] r w in
      ((if clients \<noteq> [] then Inr clients
        else if length cfgs = 1 then Inl (the err)
        else Inl (WrapError (''register '' @ name @ '': all '' @ itoa (int (length cfgs)) @ '' replicas failed: '') (the err))),
       r1, w1))"

definition set_clients :: "router \<Rightarrow> string \<Rightarrow> agent_client list" where
  "set_clients rt name = (case GetReplicaSet rt name of None \<Rightarrow> [] | Some st \<Rightarrow> map r_client (rs_replicas st))"

definition closing :: "agent_client list \<Rightarrow> 'l registry \<Rightarrow> 'l registry" where
  "closing cs r = r\<lparr>rg_closed := rg_closed r @ cs\<rparr>"

text \<open>The commit: one critical section, then the replaced clients are closed and the failure state is cleared.\<close>

definition commit_registration :: "pin_env \<Rightarrow> pin_io \<Rightarrow> gotime \<Rightarrow> string \<Rightarrow> string \<Rightarrow> mcp_config list \<Rightarrow> agent_client list
    \<Rightarrow> 64 word \<Rightarrow> 'l registry \<Rightarrow> reg_error option \<times> 'l registry" where
  "commit_registration penv io now name policy cfgs clients gen r =
     (if gen \<noteq> 0 \<and> reg_gen r name \<noteq> gen then (Some ErrStaleRegistration, closing clients r)
      else
        let r1 = put_meta name ((hd cfgs)\<lparr>mc_name := name\<rparr>)
                   (r\<lparr>rg_pending := AList.delete name (rg_pending r), rg_cleanupRan := removeAll name (rg_cleanupRan r)\<rparr>);
            r2 = check_pins penv io name (ac_tools (hd clients)) r1;
            replaced = set_clients (reg_router r2) name;
            r3 = on_router (\<lambda>rt. RefreshTools (AddReplicaSet rt (NewReplicaSet name policy clients now))) r2;
            r4 = ClearRegistrationFailure name (closing replaced r3)
        in (None, if needs_auth r4 name then ClearServerAuthState name r4 else r4))"

definition registerReplicaSet :: "'w transports \<Rightarrow> pin_env \<Rightarrow> pin_io \<Rightarrow> gotime \<Rightarrow> string \<Rightarrow> string \<Rightarrow> mcp_config list
    \<Rightarrow> 64 word \<Rightarrow> 'l registry \<Rightarrow> 'w \<Rightarrow> reg_error option \<times> 'l registry \<times> 'w" where
  "registerReplicaSet tp penv io now name policy cfgs gen r w =
     (if cfgs = [] then (Some (OtherError (''register '' @ name @ '': no replica configs'')), r, w)
      else if gen \<noteq> 0 \<and> \<not> registrationGenIs r name gen then (Some ErrStaleRegistration, r, w)
      else case build_replicas tp name cfgs r w of
          (Inl e, r1, w1) \<Rightarrow> (Some e, notePendingRegistrationFailure name policy cfgs e r1, w1)
        | (Inr clients, r1, w1) \<Rightarrow>
            let (res, r2) = commit_registration penv io now name policy cfgs clients gen r1 in (res, r2, w1))"

definition RegisterMCPReplicaSet :: "'w transports \<Rightarrow> pin_env \<Rightarrow> pin_io \<Rightarrow> gotime \<Rightarrow> string \<Rightarrow> string \<Rightarrow> mcp_config list
    \<Rightarrow> 'l registry \<Rightarrow> 'w \<Rightarrow> reg_error option \<times> 'l registry \<times> 'w" where
  "RegisterMCPReplicaSet tp penv io now name policy cfgs r w =
     registerReplicaSet tp penv io now name policy cfgs 0 (bump_gen name r) w"

definition RegisterMCPServer :: "'w transports \<Rightarrow> pin_env \<Rightarrow> pin_io \<Rightarrow> gotime \<Rightarrow> mcp_config
    \<Rightarrow> 'l registry \<Rightarrow> 'w \<Rightarrow> reg_error option \<times> 'l registry \<times> 'w" where
  "RegisterMCPServer tp penv io now cfg r w =
     RegisterMCPReplicaSet tp penv io now (mc_name cfg) ReplicaPolicyRoundRobin [cfg] r w"

text \<open>The tick of an autoscaler acts on the set the router holds; \<open>None\<close> is a tick that does not end. A nil
  spawner is not modelled: every caller passes one.\<close>

definition RegisterAutoscaler :: "('w \<Rightarrow> ('e + agent_client) \<times> 'w) \<Rightarrow> (replica \<Rightarrow> 'w \<Rightarrow> 'e option \<times> 'w) \<Rightarrow> gotime \<Rightarrow> poll list
    \<Rightarrow> gotime \<Rightarrow> mcp_config \<Rightarrow> string \<Rightarrow> autoscale_policy \<Rightarrow> 'l registry \<Rightarrow> 'w
    \<Rightarrow> (reg_error option \<times> 'l registry \<times> 'w) option" where
  "RegisterAutoscaler spawn reap wall polls now template policy p r w =
     (let name = mc_name template in
      if name = [] then Some (Some (OtherError ''register autoscaler: empty name''), r, w)
      else if p_max p < 1
      then Some (Some (OtherError (''register autoscaler '' @ name @ '': invalid policy (max='' @ itoa (p_max p) @ '')'')), r, w)
      else
        let policy' = (if policy = [] then ReplicaPolicyRoundRobin else policy);
            r1 = put_meta name template r;
            st = NewReplicaSet name policy' [] now;
            r2 = on_router (\<lambda>rt. AddReplicaSet rt st) r1;
            scaler = NewAutoscaler name st p;
            install = (\<lambda>a. on_gateway (\<lambda>g. g\<lparr>gw_autoscalers := AList.update name a (gw_autoscalers g),
                                              gw_router := put_set (gw_router g) name (as_set a)\<rparr>))
        in if p_idleToZero p \<and> p_min p = 0 \<and> p_warmPool p = 0 then Some (None, install scaler r2, w)
           else map_option (\<lambda>((_, a), w'). (None, install a r2, w')) (Tick spawn reap wall polls now scaler w))"

subsection \<open>Retrying\<close>

definition probePendingEndpoint :: "'w transports \<Rightarrow> mcp_config \<Rightarrow> 'w \<Rightarrow> reg_error option \<times> 'w" where
  "probePendingEndpoint tp cfg w =
     (if mc_openapi cfg \<or> mc_localProcess cfg \<or> mc_ssh cfg \<or> mc_transport cfg = ''stdio'' then (None, w)
      else tp_ping tp cfg w)"

definition restartable :: "'l registry \<Rightarrow> mcp_config \<Rightarrow> bool" where
  "restartable r c \<longleftrightarrow> mc_transport c = ''stdio'' \<and> \<not> mc_external c \<and> \<not> mc_localProcess c \<and> \<not> mc_ssh c
     \<and> \<not> mc_openapi c \<and> mc_containerID c \<noteq> [] \<and> rg_docker r"

fun restart_containers :: "'w transports \<Rightarrow> 'l registry \<Rightarrow> mcp_config list \<Rightarrow> 'w \<Rightarrow> bool \<times> 'w" where
  "restart_containers tp r [] w = (True, w)"
| "restart_containers tp r (c # cs) w =
     (if \<not> restartable r c then restart_containers tp r cs w
      else case tp_restart tp (mc_containerID c) w of
          (Some _, w1) \<Rightarrow> (False, w1)
        | (None, w1) \<Rightarrow> restart_containers tp r cs w1)"

definition finish_attempt :: "string \<Rightarrow> 'l registry \<Rightarrow> 'l registry" where
  "finish_attempt name = on_pending name (\<lambda>pe. pe\<lparr>pd_inFlight := False\<rparr>)"

definition attemptPendingRegistration :: "'w transports \<Rightarrow> pin_env \<Rightarrow> pin_io \<Rightarrow> gotime \<Rightarrow> int \<Rightarrow> attempt
    \<Rightarrow> 'l registry \<Rightarrow> 'w \<Rightarrow> 'l registry \<times> 'w" where
  "attemptPendingRegistration tp penv io now k a r w =
     (let name = at_name a; cfgs = at_cfgs a; (ok, w1) = restart_containers tp r cfgs w in
      if \<not> ok then (finish_attempt name (advancePendingBackoff now k name r), w1)
      else case probePendingEndpoint tp (hd cfgs) w1 of
          (Some e, w2) \<Rightarrow>
            (finish_attempt name (if isAuthError e then RecordRegistrationFailure name e (dropPending name r)
                                  else advancePendingBackoff now k name r), w2)
        | (None, w2) \<Rightarrow>
            (case registerReplicaSet tp penv io now name (at_policy a) cfgs (at_gen a) r w2 of
               (None, r3, w3) \<Rightarrow> (finish_attempt name r3, w3)
             | (Some e, r3, w3) \<Rightarrow>
                 (finish_attempt name
                    (if root_cause e = ErrStaleRegistration then r3
                     else RecordRegistrationFailure name e (advancePendingBackoff now k name r3)), w3)))"

subsection \<open>Unregistering and restarting\<close>

definition take_ownership :: "string \<Rightarrow> 'l registry \<Rightarrow> 'l registry" where
  "take_ownership name r =
     (bump_gen name r)\<lparr>rg_pending := AList.delete name (rg_pending r), rg_cleanupRan := removeAll name (rg_cleanupRan r)\<rparr>"

definition teardown :: "string \<Rightarrow> 'l registry \<Rightarrow> 'l registry" where
  "teardown name r =
     ClearServerAuthState name (ClearRegistrationFailure name (drop_meta name
       (on_gateway (\<lambda>g. g\<lparr>gw_router := RefreshTools (RemoveClient (gw_router g) name),
                          gw_autoscalers := AList.delete name (gw_autoscalers g)\<rparr>) r)))"

definition UnregisterMCPServer :: "string \<Rightarrow> 'l registry \<Rightarrow> 'l registry" where
  "UnregisterMCPServer name r = teardown name (take_ownership name r)"

text \<open>One client of the server is closed: the one that \<open>GetClient\<close> picks.\<close>

definition close_picked :: "string \<Rightarrow> 'l registry \<Rightarrow> 'l registry" where
  "close_picked name r =
     (let (c, rt) = GetClient (reg_router r) name; r1 = on_router (\<lambda>_. rt) r
      in case c of None \<Rightarrow> r1 | Some client \<Rightarrow> closing [client] r1)"

text \<open>The last section of a restart whose container did not restart.\<close>

definition restart_failed :: "string \<Rightarrow> mcp_config \<Rightarrow> reg_error \<Rightarrow> 'l registry \<Rightarrow> 'l registry" where
  "restart_failed name cfg e r =
     notePendingRegistrationFailure name ReplicaPolicyRoundRobin [cfg] e (RecordRegistrationFailure name e r)"

definition RestartMCPServer :: "'w transports \<Rightarrow> pin_env \<Rightarrow> pin_io \<Rightarrow> gotime \<Rightarrow> string \<Rightarrow> 'l registry \<Rightarrow> 'w
    \<Rightarrow> reg_error option \<times> 'l registry \<times> 'w" where
  "RestartMCPServer tp penv io now name r w =
     (let again = (\<lambda>(res, r1, w1). case res of
            None \<Rightarrow> (None, r1, w1)
          | Some e \<Rightarrow> let err = WrapError (''re-registering MCP server '' @ name @ '': '') e
                     in (Some err, RecordRegistrationFailure name err r1, w1)) in
      case map_of (rg_serverMeta r) name of
        None \<Rightarrow>
          (case pendingSnapshot r name of
             Some (policy, cfgs) \<Rightarrow> again (RegisterMCPReplicaSet tp penv io now name policy cfgs r w)
           | None \<Rightarrow> (Some (OtherError (''unknown MCP server: '' @ name)), r, w))
      | Some cfg \<Rightarrow>
          let r1 = UnregisterMCPServer name (close_picked name r) in
          (case (if restartable r1 cfg then tp_restart tp (mc_containerID cfg) w else (None, w)) of
             (Some e, w1) \<Rightarrow>
               let err = WrapError (''restarting container for '' @ name @ '': '') (OtherError e)
               in (Some err, restart_failed name cfg err r1, w1)
           | (None, w1) \<Rightarrow>
               (case again (RegisterMCPServer tp penv io now cfg r1 w1) of
                  (Some e, r2, w2) \<Rightarrow> (Some e, r2, w2)
                | (None, r2, w2) \<Rightarrow>
                    (None, r2\<lparr>rg_health := AList.update name
                       \<lparr>hs_healthy = True, hs_lastCheck = Some now, hs_lastHealthy = Some now, hs_error = []\<rparr> (rg_health r2)\<rparr>, w2))))"

subsection \<open>Interleaving\<close>

text \<open>
  The locked sections as events, over the registry and the registrations in flight: explicit ones, with generation 0,
  and retries. Where a section depends on something outside (what was built, how it failed, the outcome of a pin
  check), the event carries it or leaves it open.
\<close>

datatype reg_event =
    EvScan gotime
  | EvClaim string string "mcp_config list"
  | EvTake string
  | EvTeardown string
  | EvCleanup string
  | EvStale attempt
  | EvUnreachable attempt reg_error
  | EvBuildFailed attempt reg_error
  | EvCommit attempt "agent_client list"
  | EvRestartFailed string mcp_config reg_error
  | EvScalerMeta mcp_config
  | EvScalerSet string replica_set autoscaler

text \<open>The installation of an autoscaler and its replica set.\<close>

definition install_scaler :: "string \<Rightarrow> replica_set \<Rightarrow> autoscaler \<Rightarrow> 'l registry \<Rightarrow> 'l registry" where
  "install_scaler name st a r =
     on_gateway (\<lambda>g. g\<lparr>gw_autoscalers := AList.update name a (gw_autoscalers g), gw_router := AddReplicaSet (gw_router g) st\<rparr>) r"

definition unreachable :: "attempt \<Rightarrow> reg_error \<Rightarrow> gotime \<Rightarrow> int \<Rightarrow> 'l registry \<Rightarrow> 'l registry" where
  "unreachable a e now k r =
     finish_attempt (at_name a)
       (if isAuthError e then RecordRegistrationFailure (at_name a) e (dropPending (at_name a) r)
        else advancePendingBackoff now k (at_name a) r)"

definition build_failed :: "attempt \<Rightarrow> reg_error \<Rightarrow> gotime \<Rightarrow> int \<Rightarrow> 'l registry \<Rightarrow> 'l registry" where
  "build_failed a e now k r =
     (let r1 = notePendingRegistrationFailure (at_name a) (at_policy a) (at_cfgs a) e r in
      if at_gen a = 0 then RecordRegistrationFailure (at_name a) e r1
      else finish_attempt (at_name a)
             (RecordRegistrationFailure (at_name a) e (advancePendingBackoff now k (at_name a) r1)))"

definition committed :: "pin_env \<Rightarrow> pin_io \<Rightarrow> gotime \<Rightarrow> attempt \<Rightarrow> agent_client list \<Rightarrow> 'l registry \<Rightarrow> 'l registry" where
  "committed penv io now a clients r =
     (let r1 = snd (commit_registration penv io now (at_name a) (at_policy a) (at_cfgs a) clients (at_gen a) r) in
      if at_gen a = 0 then r1 else finish_attempt (at_name a) r1)"

type_synonym 'l reg_system = "'l registry \<times> attempt list"

inductive reg_step :: "pin_env \<Rightarrow> 'l reg_system \<Rightarrow> reg_event \<Rightarrow> 'l reg_system \<Rightarrow> bool" for penv where
  scan: "retryPendingRegistrations now r = (jobs, r') \<Longrightarrow> reg_step penv (r, as) (EvScan now) (r', as @ jobs)"
| claim: "reg_step penv (r, as) (EvClaim n policy cfgs)
    (bump_gen n r, as @ [\<lparr>at_name = n, at_policy = policy, at_cfgs = cfgs, at_gen = 0\<rparr>])"
| take_name: "reg_step penv (r, as) (EvTake n) (take_ownership n r, as)"
| tear: "reg_step penv (r, as) (EvTeardown n) (teardown n r, as)"
| cleanup: "reg_step penv (r, as) (EvCleanup n) (r\<lparr>rg_cleanupRan := set_put n (rg_cleanupRan r)\<rparr>, as)"
| stale: "a \<in> set as \<Longrightarrow> at_gen a \<noteq> 0 \<Longrightarrow> \<not> registrationGenIs r (at_name a) (at_gen a) \<Longrightarrow>
    reg_step penv (r, as) (EvStale a) (finish_attempt (at_name a) r, remove1 a as)"
| unreachable: "a \<in> set as \<Longrightarrow> at_gen a \<noteq> 0 \<Longrightarrow>
    reg_step penv (r, as) (EvUnreachable a e) (unreachable a e now k r, remove1 a as)"
| failed: "a \<in> set as \<Longrightarrow> reg_step penv (r, as) (EvBuildFailed a e) (build_failed a e now k r, remove1 a as)"
| commit: "a \<in> set as \<Longrightarrow> clients \<noteq> [] \<Longrightarrow>
    reg_step penv (r, as) (EvCommit a clients) (committed penv io now a clients r, remove1 a as)"
| restart_fails: "reg_step penv (r, as) (EvRestartFailed n cfg e) (restart_failed n cfg e r, as)"
| scaler_meta: "reg_step penv (r, as) (EvScalerMeta cfg) (put_meta (mc_name cfg) cfg r, as)"
| scaler_set: "rs_name st = n \<Longrightarrow> reg_step penv (r, as) (EvScalerSet n st a) (install_scaler n st a r, as)"

inductive_cases reg_stepE: "reg_step penv st ev st'"

inductive reg_run :: "pin_env \<Rightarrow> 'l reg_system \<Rightarrow> reg_event list \<Rightarrow> 'l reg_system \<Rightarrow> bool" for penv where
  run_nil: "reg_run penv st [] st"
| run_cons: "reg_step penv st ev st' \<Longrightarrow> reg_run penv st' evs st'' \<Longrightarrow> reg_run penv st (ev # evs) st''"

fun claims :: "string \<Rightarrow> reg_event list \<Rightarrow> nat" where
  "claims n [] = 0"
| "claims n (EvClaim m policy cfgs # evs) = (if m = n then 1 else 0) + claims n evs"
| "claims n (EvTake m # evs) = (if m = n then 1 else 0) + claims n evs"
| "claims n (ev # evs) = claims n evs"

subsection \<open>What the sections keep\<close>

named_theorems section_simps

lemma gen_keeps [section_simps]:
  "rg_regGen (on_gateway f r) = rg_regGen r"
  "rg_regGen (put_meta n cfg r) = rg_regGen r"
  "rg_regGen (drop_meta n r) = rg_regGen r"
  "rg_regGen (ClearRegistrationFailure n r) = rg_regGen r"
  "rg_regGen (ClearServerAuthState n r) = rg_regGen r"
  "rg_regGen (RecordRegistrationFailure n e r) = rg_regGen r"
  "rg_regGen (dropPending n r) = rg_regGen r"
  "rg_regGen (on_pending n g r) = rg_regGen r"
  "rg_regGen (notePendingRegistrationFailure n p cfgs e r) = rg_regGen r"
  "rg_regGen (handlePinDrift n ds r) = rg_regGen r"
  "rg_regGen (check_pins penv io n ts r) = rg_regGen r"
  "rg_regGen (closing cs r) = rg_regGen r"
  "rg_regGen (snd (retryPendingRegistrations now r)) = rg_regGen r"
proof -
  show h: "rg_regGen (handlePinDrift n ds r) = rg_regGen r" for n ds and r :: "'l registry"
    by (simp add: handlePinDrift_def on_gateway_def)
  show "rg_regGen (check_pins penv io n ts r) = rg_regGen r"
    by (simp add: check_pins_def h Let_def split: option.split prod.split sum.split)
qed (simp_all add: on_gateway_def put_meta_def drop_meta_def ClearRegistrationFailure_def ClearServerAuthState_def
       RecordRegistrationFailure_def markNeedsAuthIfNew_def SetServerAuthState_def dropPending_def on_pending_def
       notePendingRegistrationFailure_def closing_def retryPendingRegistrations_def
     split: reg_error.split option.split)

lemma reg_gen_cong: "rg_regGen r = rg_regGen r' \<Longrightarrow> reg_gen r n = reg_gen r' n"
  by (simp add: reg_gen_def)

lemma reg_gen_bump: "reg_gen (bump_gen n r) m = (if m = n then reg_gen r n + 1 else reg_gen r m)"
  by (simp add: bump_gen_def reg_gen_def map_of_update)

lemma teardown_gen [section_simps]: "rg_regGen (teardown n r) = rg_regGen r"
  by (simp add: teardown_def section_simps)

lemma commit_gen [section_simps]: "rg_regGen (snd (commit_registration penv io now n p cfgs cs gen r)) = rg_regGen r"
  by (simp add: commit_registration_def Let_def on_router_def section_simps)

lemma step_gen: "reg_step penv st ev st' \<Longrightarrow> reg_gen (fst st') n = reg_gen (fst st) n + of_nat (claims n [ev])"
proof (induction rule: reg_step.induct)
  case (scan now r jobs r' as)
  then have "rg_regGen r' = rg_regGen r" using gen_keeps(13) [of now r] by simp
  then show ?case using reg_gen_cong by simp
next
  case (take_name r as m)
  have "reg_gen (take_ownership m r) n = reg_gen (bump_gen m r) n" by (simp add: take_ownership_def reg_gen_def)
  then show ?case by (simp add: reg_gen_bump)
next
  case (claim r as m policy cfgs)
  show ?case by (simp add: reg_gen_bump)
qed (simp_all add: reg_gen_def finish_attempt_def unreachable_def build_failed_def committed_def
       advancePendingBackoff_def Let_def restart_failed_def install_scaler_def section_simps)

lemma claims_Cons: "claims n (ev # evs) = claims n [ev] + claims n evs"
  by (cases ev) simp_all

lemma run_gen: "reg_run penv st evs st' \<Longrightarrow> reg_gen (fst st') n = reg_gen (fst st) n + of_nat (claims n evs)"
proof (induction rule: reg_run.induct)
  case (run_cons st ev st' evs st'')
  then show ?case using step_gen [OF run_cons.hyps(1), of n] claims_Cons [of n ev evs] by (simp add: ac_simps)
qed simp

lemma claims_le: "claims n evs \<le> length evs"
proof (induction evs)
  case (Cons ev evs)
  moreover have "claims n [ev] \<le> 1" by (cases ev) simp_all
  ultimately show ?case using claims_Cons [of n ev evs] by simp
qed simp

subsection \<open>A server that is gone\<close>

definition absent :: "string \<Rightarrow> 'l registry \<Rightarrow> bool" where
  "absent n r \<longleftrightarrow> map_of (rg_serverMeta r) n = None \<and> map_of (rt_sets (reg_router r)) n = None
     \<and> map_of (rg_pending r) n = None"

lemma sets_RefreshTools: "map_of (rt_sets (RefreshTools rt)) n = map_option (snd \<circ> toolsOf) (map_of (rt_sets rt) n)"
  by (simp add: RefreshTools_def refresh_caches_def map_of_map comp_def)

lemma absent_simps:
  "absent n (put_meta m cfg r) \<longleftrightarrow> m \<noteq> n \<and> absent n r"
  "absent n (drop_meta m r) \<longleftrightarrow> (if m = n then map_of (rt_sets (reg_router r)) n = None \<and> map_of (rg_pending r) n = None
     else absent n r)"
  "absent n (ClearRegistrationFailure m r) = absent n r"
  "absent n (ClearServerAuthState m r) = absent n r"
  "absent n (RecordRegistrationFailure m e r) = absent n r"
  "absent n (closing cs r) = absent n r"
  "absent n (bump_gen m r) = absent n r"
  "absent n (r\<lparr>rg_cleanupRan := cl\<rparr>) = absent n r"
  "absent n r \<Longrightarrow> absent n (dropPending m r)"
  "absent n r \<Longrightarrow> absent n (on_pending m g r)"
  "absent n r \<Longrightarrow> absent n (snd (retryPendingRegistrations now r))"
  "absent n r \<Longrightarrow> absent n (handlePinDrift m ds r)"
  "absent n r \<Longrightarrow> m \<noteq> n \<Longrightarrow> absent n (notePendingRegistrationFailure m p cfgs e r)"
  by (auto simp: absent_def put_meta_def drop_meta_def on_gateway_def ClearRegistrationFailure_def ClearServerAuthState_def
       RecordRegistrationFailure_def markNeedsAuthIfNew_def SetServerAuthState_def closing_def bump_gen_def dropPending_def
       on_pending_def handlePinDrift_def notePendingRegistrationFailure_def retryPendingRegistrations_def
       map_of_update map_of_delete map_of_map
     split: reg_error.split option.split)

lemma absent_pins: "absent n r \<Longrightarrow> absent n (check_pins penv io m ts r)"
proof -
  assume a: "absent n r"
  then have "absent n (r\<lparr>rg_pins := p\<rparr>)" for p by (simp add: absent_def)
  with a show ?thesis
    by (auto simp: check_pins_def Let_def absent_simps split: option.split prod.split sum.split)
qed

lemma absent_commit:
  assumes "absent n r" "m \<noteq> n"
  shows "absent n (snd (commit_registration penv io now m p cfgs cs gen r))"
proof -
  let ?r1 = "put_meta m ((hd cfgs)\<lparr>mc_name := m\<rparr>)
    (r\<lparr>rg_pending := AList.delete m (rg_pending r), rg_cleanupRan := removeAll m (rg_cleanupRan r)\<rparr>)"
  have "absent n (r\<lparr>rg_pending := AList.delete m (rg_pending r), rg_cleanupRan := removeAll m (rg_cleanupRan r)\<rparr>)"
    using assms by (simp add: absent_def map_of_delete)
  then have r2: "absent n (check_pins penv io m (ac_tools (hd cs)) ?r1)"
    using assms(2) by (intro absent_pins) (simp add: absent_simps)
  have "absent n (on_router (\<lambda>rt. RefreshTools (AddReplicaSet rt (NewReplicaSet m p cs now))) q)" if "absent n q" for q :: "'a registry"
    using that assms(2)
    by (simp add: absent_def on_router_def on_gateway_def sets_RefreshTools AddReplicaSet_def NewReplicaSet_simps map_of_update)
  from this [OF r2] assms(1) show ?thesis
    by (simp add: commit_registration_def Let_def absent_simps)
qed

lemma absent_teardown: "absent n (teardown m r) \<longleftrightarrow> (if m = n then map_of (rg_pending r) n = None else absent n r)"
  by (auto simp: teardown_def absent_simps)
     (auto simp: absent_def on_gateway_def sets_RefreshTools RemoveClient_def map_of_delete)

text \<open>The events that bring a name back without a new generation: a registration of it that fails to build, a restart of
  it whose container does not restart, and the registration of an autoscaler for it.\<close>

primrec revives :: "string \<Rightarrow> reg_event \<Rightarrow> bool" where
  "revives n (EvScan now) = False"
| "revives n (EvClaim m policy cfgs) = False"
| "revives n (EvTake m) = False"
| "revives n (EvTeardown m) = False"
| "revives n (EvCleanup m) = False"
| "revives n (EvStale a) = False"
| "revives n (EvUnreachable a e) = False"
| "revives n (EvBuildFailed a e) = (at_name a = n)"
| "revives n (EvCommit a clients) = False"
| "revives n (EvRestartFailed m cfg e) = (m = n)"
| "revives n (EvScalerMeta cfg) = (mc_name cfg = n)"
| "revives n (EvScalerSet m st a) = (m = n)"

lemma absent_scaler: "absent n r \<Longrightarrow> rs_name st \<noteq> n \<Longrightarrow> absent n (install_scaler m st a r)"
  by (simp add: absent_def install_scaler_def on_gateway_def AddReplicaSet_def map_of_update)

lemma absent_step:
  assumes "reg_step penv st ev st'" "absent n (fst st)" "claims n [ev] = 0"
    and "\<forall>a\<in>set (snd st). at_name a = n \<longrightarrow> at_gen a \<noteq> 0 \<and> at_gen a \<noteq> reg_gen (fst st) n"
    and "\<not> revives n ev"
  shows "absent n (fst st') \<and> (\<forall>a\<in>set (snd st'). at_name a = n \<longrightarrow> at_gen a \<noteq> 0 \<and> at_gen a \<noteq> reg_gen (fst st') n)"
proof -
  have gen: "reg_gen (fst st') n = reg_gen (fst st) n" using step_gen [OF assms(1), of n] assms(3) by simp
  from assms(1) show ?thesis
  proof (cases rule: reg_step.cases)
    case (scan now r jobs r' as)
    have "at_name a \<noteq> n" if "a \<in> set jobs" for a
      using that scan(4) assms(2) by (auto simp: scan(1) absent_def retryPendingRegistrations_def map_of_eq_None_iff image_iff Bex_def)
    moreover have "absent n r'"
      using scan(4) assms(2) absent_simps(11) [of n r now] by (simp add: scan(1))
    ultimately show ?thesis using scan assms(4) gen by auto
  next
    case (claim r as m policy cfgs)
    then show ?thesis using assms(2-4) gen by (auto simp: absent_simps split: if_splits)
  next
    case (take_name r as m)
    have "absent n (take_ownership m r)"
      using assms(2) by (auto simp: take_name absent_def take_ownership_def bump_gen_def map_of_delete)
    then show ?thesis using take_name assms(4) gen by simp
  next
    case (tear r as m)
    have "absent n (teardown m r)" using assms(2) by (simp add: tear absent_teardown) (simp add: absent_def)
    then show ?thesis using tear assms(4) gen by simp
  next
    case (cleanup r as m)
    then show ?thesis using assms(2,4) gen by (simp add: absent_simps)
  next
    case (stale a as r)
    then show ?thesis using assms(2,4) gen by (auto simp: finish_attempt_def absent_simps dest: set_remove1_subset [THEN subsetD])
  next
    case (unreachable a as r e now k)
    then show ?thesis using assms(2,4) gen
      by (auto simp: unreachable_def finish_attempt_def advancePendingBackoff_def absent_simps dest: set_remove1_subset [THEN subsetD])
  next
    case (failed a as r e now k)
    then have "at_name a \<noteq> n" using assms(5) by simp
    then show ?thesis using failed assms(2,4) gen
      by (auto simp: build_failed_def finish_attempt_def advancePendingBackoff_def Let_def absent_simps dest: set_remove1_subset [THEN subsetD])
  next
    case (commit a as clients r io now)
    have "absent n (snd (commit_registration penv io now (at_name a) (at_policy a) (at_cfgs a) clients (at_gen a) r))"
    proof (cases "at_name a = n")
      case True
      then have "at_gen a \<noteq> 0 \<and> reg_gen r n \<noteq> at_gen a" using assms(4) commit by auto
      then show ?thesis using assms(2) by (simp add: True commit(1) commit_registration_def absent_simps)
    next
      case False
      then show ?thesis using assms(2) by (simp add: commit(1) absent_commit)
    qed
    then show ?thesis using commit assms(4) gen
      by (auto simp: committed_def finish_attempt_def Let_def absent_simps dest: set_remove1_subset [THEN subsetD])
  next
    case (restart_fails r as m cfg e)
    then show ?thesis using assms(2,4,5) gen by (simp add: restart_failed_def absent_simps)
  next
    case (scaler_meta r as cfg)
    then show ?thesis using assms(2,4,5) gen by (simp add: absent_simps)
  next
    case (scaler_set st m r as a)
    then show ?thesis using assms(2,4,5) gen by (simp add: absent_scaler)
  qed
qed

lemma absent_run:
  "reg_run penv st evs st' \<Longrightarrow> absent n (fst st) \<Longrightarrow> claims n evs = 0 \<Longrightarrow>
     \<forall>a\<in>set (snd st). at_name a = n \<longrightarrow> at_gen a \<noteq> 0 \<and> at_gen a \<noteq> reg_gen (fst st) n \<Longrightarrow>
     \<forall>ev\<in>set evs. \<not> revives n ev \<Longrightarrow> absent n (fst st')"
proof (induction rule: reg_run.induct)
  case (run_cons st ev st' evs st'')
  have c: "claims n [ev] = 0" "claims n evs = 0" using run_cons.prems(2) claims_Cons [of n ev evs] by simp_all
  have "absent n (fst st') \<and> (\<forall>a\<in>set (snd st'). at_name a = n \<longrightarrow> at_gen a \<noteq> 0 \<and> at_gen a \<noteq> reg_gen (fst st') n)"
    by (rule absent_step [OF run_cons.hyps(1) run_cons.prems(1) c(1) run_cons.prems(3)]) (use run_cons.prems(4) in auto)
  then show ?case by (intro run_cons.IH) (use c(2) run_cons.prems(4) in auto)
qed simp

lemma absent_unregistered: "absent n (UnregisterMCPServer n r)"
  by (simp add: UnregisterMCPServer_def absent_teardown take_ownership_def map_of_delete)

lemma gen_unregistered: "reg_gen (UnregisterMCPServer n r) m = reg_gen (bump_gen n r) m"
proof -
  have "rg_regGen (UnregisterMCPServer n r) = rg_regGen (bump_gen n r)"
    by (simp add: UnregisterMCPServer_def section_simps take_ownership_def)
  then show ?thesis by (rule reg_gen_cong)
qed

lemma meta_simps:
  "rg_serverMeta (put_meta n cfg r) = AList.update n cfg (rg_serverMeta r)"
  "rg_serverMeta (ClearRegistrationFailure n r) = rg_serverMeta r"
  "rg_serverMeta (ClearServerAuthState n r) = rg_serverMeta r"
  "rg_serverMeta (closing cs r) = rg_serverMeta r"
  "rg_serverMeta (on_router f r) = rg_serverMeta r"
  "rg_serverMeta (finish_attempt n r) = rg_serverMeta r"
  "rg_serverMeta (check_pins penv io n ts r) = rg_serverMeta r"
  by (simp_all add: put_meta_def ClearRegistrationFailure_def ClearServerAuthState_def closing_def on_router_def on_gateway_def
        finish_attempt_def on_pending_def check_pins_def handlePinDrift_def Let_def split: option.split prod.split sum.split)

lemma router_simps:
  "reg_router (ClearRegistrationFailure n r) = reg_router r"
  "reg_router (ClearServerAuthState n r) = reg_router r"
  "reg_router (closing cs r) = reg_router r"
  "reg_router (on_router f r) = f (reg_router r)"
  "reg_router (finish_attempt n r) = reg_router r"
  by (simp_all add: ClearRegistrationFailure_def ClearServerAuthState_def closing_def on_router_def on_gateway_def
        finish_attempt_def on_pending_def split: option.split)

lemma new_replicas_clients: "map r_client (new_replicas i cs now) = cs"
  by (induction cs arbitrary: i) (simp_all add: new_replica_def)

lemma pending_of_record: "rg_pending (RecordRegistrationFailure n e r) = rg_pending r"
  by (simp add: RecordRegistrationFailure_def markNeedsAuthIfNew_def SetServerAuthState_def ClearRegistrationFailure_def
      split: reg_error.split)

subsection \<open>Properties\<close>

text \<open>C9. 
  A retry never clobbers. A retry is launched with the generation of its name. If, while it is in flight, the name is
  explicitly registered or unregistered at least once (and, the generation being a 64-bit counter, less than
  \<open>2^64\<close> times), then in every interleaving with other registrations, retries, failures and scans its commit is
  refused: nothing changes but that the clients it built are closed.
\<close>

theorem retry_never_clobbers:
  assumes "reg_run penv (r, as) evs (r', as')"
    and "at_gen a = reg_gen r (at_name a)" "at_gen a \<noteq> 0"
    and "0 < claims (at_name a) evs" "length evs < 2 ^ 64"
  shows "commit_registration penv io now (at_name a) (at_policy a) (at_cfgs a) clients (at_gen a) r' =
     (Some ErrStaleRegistration, r'\<lparr>rg_closed := rg_closed r' @ clients\<rparr>)"
proof -
  have "claims (at_name a) evs < 2 ^ 64" using claims_le [of "at_name a" evs] assms(5) by linarith
  then have "(of_nat (claims (at_name a) evs) :: 64 word) \<noteq> 0"
    using assms(4) by (simp add: word_of_nat_eq_0_iff nat_dvd_not_less)
  then have "reg_gen r' (at_name a) \<noteq> at_gen a"
    using run_gen [OF assms(1), of "at_name a"] assms(2) by simp
  then show ?thesis using assms(3) by (simp add: commit_registration_def closing_def)
qed

text \<open>C17. 
  A server that was unregistered stays gone, in every interleaving of explicit registrations, removals, restarts, retries,
  autoscaler registrations and scans, until its name is claimed again, under three provisos: no explicit registration of
  the name (generation 0) is in flight at the removal, and no retry of it that carries the new generation; no
  registration of it that is in flight fails to build afterwards, and no restart of it in flight fails to restart its
  container; and no autoscaler is registered for it.
\<close>

theorem unregistered_server_stays_gone:
  assumes "reg_run penv (UnregisterMCPServer n r, as) evs (r', as')" "claims n evs = 0"
    and "\<forall>a\<in>set as. at_name a = n \<longrightarrow> at_gen a \<noteq> 0 \<and> at_gen a \<noteq> reg_gen r n + 1"
    and "\<forall>ev\<in>set evs. \<not> revives n ev"
  shows "map_of (rg_serverMeta r') n = None \<and> GetReplicaSet (reg_router r') n = None \<and> map_of (rg_pending r') n = None"
proof -
  have "absent n r'"
    using absent_run [OF assms(1), of n] assms(2-4)
    by (simp add: absent_unregistered gen_unregistered reg_gen_bump)
  then show ?thesis by (simp add: absent_def GetReplicaSet_def)
qed

text \<open>C16. 
  The proviso is needed: a retry whose build fails with a retryable error after the server was unregistered records the
  server as pending again, without looking at the generation. The next scan launches a retry under the new
  generation, and its commit registers the server that was removed, although nothing has asked for it.
\<close>

theorem failed_retry_resurrects:
  assumes "a \<in> set as" "at_name a = n" "at_gen a \<noteq> 0" "reg_gen r n + 1 \<noteq> 0"
    and "\<not> isCanceled e" "\<not> isAuthError e" "\<not> isTerminalRegistrationError e" "clients \<noteq> []"
  shows "\<exists>evs r' as'. reg_run penv (UnregisterMCPServer n r, as) evs (r', as') \<and> claims n evs = 0
     \<and> map_of (rg_serverMeta r') n = Some ((hd (at_cfgs a))\<lparr>mc_name := n\<rparr>) \<and> set_clients (reg_router r') n = clients"
proof -
  let ?u = "UnregisterMCPServer n r"
  let ?f = "build_failed a e 0 0 ?u"
  let ?pe = "\<lparr>pd_policy = at_policy a, pd_cfgs = at_cfgs a, pd_backoff = fst (Advance zero_backoff 0 0), pd_inFlight = False\<rparr>"
  have clean: "n \<notin> set (rg_cleanupRan ?u)" "map_of (rg_pending ?u) n = None"
    using absent_unregistered [of n r]
    by (simp_all add: absent_def UnregisterMCPServer_def teardown_def take_ownership_def drop_meta_def on_gateway_def
          ClearServerAuthState_def ClearRegistrationFailure_def)
  have pending: "map_of (rg_pending ?f) n = Some ?pe"
    using assms(2,3,5-7) clean
    by (simp add: build_failed_def Let_def notePendingRegistrationFailure_def finish_attempt_def on_pending_def
          advancePendingBackoff_def map_of_update pending_of_record)
  have gen: "reg_gen ?f n = reg_gen r n + 1"
    using gen_unregistered [of n r n] reg_gen_bump [of n r n]
    by (simp add: build_failed_def Let_def finish_attempt_def advancePendingBackoff_def reg_gen_def section_simps)
  obtain now where due: "due now ?pe"
    by (rule that [of "the (bo_nextAt (pd_backoff ?pe))"]) (simp add: due_def ShouldTry_def Advance_def Let_def)
  let ?b = "\<lparr>at_name = n, at_policy = at_policy a, at_cfgs = at_cfgs a, at_gen = reg_gen r n + 1\<rparr>"
  obtain jobs q where scan: "retryPendingRegistrations now ?f = (jobs, q)" by fastforce
  have "(n, ?pe) \<in> set (rg_pending ?f)" using pending by (rule map_of_SomeD)
  then have job: "?b \<in> set jobs"
    using scan due gen by (force simp: retryPendingRegistrations_def)
  have "rg_regGen q = rg_regGen ?f" using scan gen_keeps(13) [of now ?f] by simp
  with gen have q: "reg_gen q n = reg_gen r n + 1" using reg_gen_cong by metis
  let ?z = "committed penv undefined 0 ?b clients q"
  have s1: "reg_step penv (?u, as) (EvBuildFailed a e) (?f, remove1 a as)" by (rule reg_step.failed [OF assms(1)])
  have s2: "reg_step penv (?f, remove1 a as) (EvScan now) (q, remove1 a as @ jobs)" by (rule reg_step.scan [OF scan])
  have s3: "reg_step penv (q, remove1 a as @ jobs) (EvCommit ?b clients) (?z, remove1 ?b (remove1 a as @ jobs))"
    by (rule reg_step.commit) (use job assms(8) in simp_all)
  have "reg_run penv (?u, as) [EvBuildFailed a e, EvScan now, EvCommit ?b clients] (?z, remove1 ?b (remove1 a as @ jobs))"
    by (rule run_cons [OF s1 run_cons [OF s2 run_cons [OF s3 run_nil]]])
  moreover have "map_of (rg_serverMeta ?z) n = Some ((hd (at_cfgs a))\<lparr>mc_name := n\<rparr>)"
    by (simp add: committed_def commit_registration_def q assms(4) Let_def meta_simps map_of_update)
  moreover have "set_clients (reg_router ?z) n = clients"
    by (simp add: committed_def commit_registration_def q assms(4) Let_def router_simps set_clients_def GetReplicaSet_def
          sets_RefreshTools AddReplicaSet_def map_of_update new_replicas_clients)
  moreover have "claims n [EvBuildFailed a e, EvScan now, EvCommit ?b clients] = 0" by simp
  ultimately show ?thesis by blast
qed

subsection \<open>Building and committing\<close>

lemma connect_keeps: "\<exists>cl. fst (snd (connect_client tp cfg r w)) = r\<lparr>rg_cleanupRan := cl\<rparr>"
proof -
  have same: "\<exists>cl. r = r\<lparr>rg_cleanupRan := cl\<rparr>" by (rule exI [of _ "rg_cleanupRan r"]) simp
  have "\<exists>cl. fst (handleReadyFailure tp c e r v) = r\<lparr>rg_cleanupRan := cl\<rparr>" for c e v
    using same by (auto simp: handleReadyFailure_def)
  then have "\<exists>cl. fst (snd (connect_http tp cfg r w)) = r\<lparr>rg_cleanupRan := cl\<rparr>"
    using same by (simp add: connect_http_def Let_def split_beta split: option.split)
  then show ?thesis using same by (auto simp: connect_client_def Let_def split_beta)
qed

lemma build_keeps: "\<exists>cl. fst (snd (buildAgentClient tp cfg r w)) = r\<lparr>rg_cleanupRan := cl\<rparr>"
  using connect_keeps [of tp cfg r w]
  by (cases "connect_client tp cfg r w") (auto simp: buildAgentClient_def split: option.split prod.split sum.split)

lemma build_loop_keeps: "\<exists>cl. fst (snd (build_loop tp single cfgs err cs r w)) = r\<lparr>rg_cleanupRan := cl\<rparr>"
proof (induction cfgs arbitrary: err cs r w)
  case Nil
  show ?case by (rule exI [of _ "rg_cleanupRan r"]) simp
next
  case (Cons cfg cfgs)
  obtain res r1 w1 where b: "buildAgentClient tp cfg r w = (res, r1, w1)" by (metis prod_cases3)
  with build_keeps [of tp cfg r w] obtain cl where r1: "r1 = r\<lparr>rg_cleanupRan := cl\<rparr>" by auto
  have "\<exists>cl'. fst (snd (build_loop tp single cfgs e c r1 w1)) = r\<lparr>rg_cleanupRan := cl'\<rparr>" for e c
    using Cons.IH [of e c r1 w1] by (simp add: r1)
  then show ?case by (auto simp: b r1 Let_def split: sum.split)
qed

lemma build_replicas_keeps:
  assumes "build_replicas tp n cfgs r w = (res, r1, w1)"
  obtains cl where "r1 = r\<lparr>rg_cleanupRan := cl\<rparr>"
  using assms build_loop_keeps [of tp "length cfgs = 1" cfgs None "[]" r w]
  by (auto simp: build_replicas_def Let_def split_beta)

lemma build_loop_length:
  "length (snd (fst (build_loop tp single cfgs err cs r w))) \<le> length cs + length cfgs"
proof (induction cfgs arbitrary: err cs r w)
  case (Cons cfg cfgs)
  obtain res r1 w1 where b: "buildAgentClient tp cfg r w = (res, r1, w1)" by (metis prod_cases3)
  have "length (snd (fst (build_loop tp single cfgs e (cs @ [c]) r1 w1))) \<le> Suc (length cs + length cfgs)"
    "length (snd (fst (build_loop tp single cfgs e cs r1 w1))) \<le> Suc (length cs + length cfgs)" for e c
    using Cons.IH [of e "cs @ [c]" r1 w1] Cons.IH [of e cs r1 w1] by simp_all
  then show ?case by (auto simp: b Let_def split: sum.split)
qed simp

lemma build_replicas_built:
  assumes "build_replicas tp n cfgs r w = (Inr cs, r1, w1)"
  shows "cs \<noteq> [] \<and> length cs \<le> length cfgs"
  using assms build_loop_length [of tp "length cfgs = 1" cfgs None "[]" r w]
  by (auto simp: build_replicas_def Let_def split_beta split: if_splits)

lemma check_pins_router [simp]: "reg_router (check_pins penv io n ts r) = reg_router r"
  "rg_closed (check_pins penv io n ts r) = rg_closed r"
  "gw_autoscalers (rg_gateway (check_pins penv io n ts r)) = gw_autoscalers (rg_gateway r)"
  "rg_pending (check_pins penv io n ts r) = rg_pending r" "rg_failures (check_pins penv io n ts r) = rg_failures r"
  by (simp_all add: check_pins_def handlePinDrift_def on_gateway_def Let_def split: option.split prod.split sum.split)

text \<open>The registry after a commit that is not stale.\<close>

lemma commit_result:
  assumes "commit_registration penv io now n p cfgs cs gen r = (None, r')"
  shows "map_of (rt_sets (reg_router r')) n = Some (snd (toolsOf (NewReplicaSet n p cs now)))"
    and "reg_router r' = RefreshTools (AddReplicaSet (reg_router r) (NewReplicaSet n p cs now))"
    and "map_of (rg_serverMeta r') n = Some ((hd cfgs)\<lparr>mc_name := n\<rparr>)"
    and "map_of (rg_pending r') n = None" and "map_of (rg_failures r') n = None"
    and "rg_closed r' = rg_closed r @ set_clients (reg_router r) n"
    and "gw_autoscalers (rg_gateway r') = gw_autoscalers (rg_gateway r)"
proof -
  let ?st = "NewReplicaSet n p cs now"
  let ?r1 = "put_meta n ((hd cfgs)\<lparr>mc_name := n\<rparr>)
    (r\<lparr>rg_pending := AList.delete n (rg_pending r), rg_cleanupRan := removeAll n (rg_cleanupRan r)\<rparr>)"
  let ?r2 = "check_pins penv io n (ac_tools (hd cs)) ?r1"
  let ?r4 = "ClearRegistrationFailure n (closing (set_clients (reg_router ?r2) n)
    (on_router (\<lambda>rt. RefreshTools (AddReplicaSet rt ?st)) ?r2))"
  have r': "r' = (if needs_auth ?r4 n then ClearServerAuthState n ?r4 else ?r4)"
    using assms by (simp add: commit_registration_def Let_def split: if_splits)
  have keep: "reg_router r' = reg_router ?r4" "rg_serverMeta r' = rg_serverMeta ?r4" "rg_pending r' = rg_pending ?r4"
    "rg_failures r' = rg_failures ?r4" "rg_closed r' = rg_closed ?r4" "rg_gateway r' = rg_gateway ?r4"
    by (simp_all add: r' ClearServerAuthState_def)
  have rt: "reg_router ?r1 = reg_router r" by (simp add: put_meta_def on_gateway_def)
  show router: "reg_router r' = RefreshTools (AddReplicaSet (reg_router r) ?st)"
    by (simp add: keep(1) router_simps rt)
  show "map_of (rt_sets (reg_router r')) n = Some (snd (toolsOf ?st))"
    by (simp add: router sets_RefreshTools AddReplicaSet_def map_of_update)
  show "map_of (rg_serverMeta r') n = Some ((hd cfgs)\<lparr>mc_name := n\<rparr>)"
    by (simp add: keep(2) meta_simps map_of_update)
  show "map_of (rg_pending r') n = None"
    by (simp add: keep(3) ClearRegistrationFailure_def closing_def on_router_def on_gateway_def)
       (simp add: put_meta_def on_gateway_def map_of_delete)
  show "map_of (rg_failures r') n = None"
    by (simp add: keep(4) ClearRegistrationFailure_def map_of_delete)
  show "rg_closed r' = rg_closed r @ set_clients (reg_router r) n"
    by (simp add: keep(5) ClearRegistrationFailure_def closing_def on_router_def on_gateway_def)
       (simp add: put_meta_def on_gateway_def rt)
  show "gw_autoscalers (rg_gateway r') = gw_autoscalers (rg_gateway r)"
    by (simp add: keep(6) ClearRegistrationFailure_def closing_def on_router_def on_gateway_def)
       (simp add: put_meta_def on_gateway_def)
qed

lemma RegisterD:
  assumes "RegisterMCPReplicaSet tp penv io now n p cfgs r w = (None, r', w')"
  obtains cs r1 where "build_replicas tp n cfgs (bump_gen n r) w = (Inr cs, r1, w')"
    "commit_registration penv io now n p cfgs cs 0 r1 = (None, r')"
proof -
  obtain res r1 w1 where b: "build_replicas tp n cfgs (bump_gen n r) w = (res, r1, w1)" by (metis prod_cases3)
  with assms obtain cs where res: "res = Inr cs"
    by (cases res) (auto simp: RegisterMCPReplicaSet_def registerReplicaSet_def split: if_splits)
  obtain e q where c: "commit_registration penv io now n p cfgs cs 0 r1 = (e, q)" by fastforce
  from assms have "e = None" "q = r'" "w1 = w'"
    by (auto simp: RegisterMCPReplicaSet_def registerReplicaSet_def b res c split: if_splits)
  with b res c that show ?thesis by blast
qed

lemma indexed: "(n, st) \<in> set (rt_sets rt) \<Longrightarrow> t \<in> set (fst (toolsOf st)) \<Longrightarrow> HasTool (RefreshTools rt) (PrefixTool n (t_name t))"
proof -
  assume "(n, st) \<in> set (rt_sets rt)" "t \<in> set (fst (toolsOf st))"
  then have "PrefixTool n (t_name t) \<in> (\<Union>(n, st)\<in>set (rt_sets rt). (\<lambda>t. PrefixTool n (t_name t)) ` set (fst (toolsOf st)))"
    by force
  then show ?thesis unfolding HasTool_def RefreshTools_def domIff [symmetric] by (simp add: dom_index_sets)
qed

lemma policy_keeps:
  "rs_policy (snd (toolsOf st)) = rs_policy st"
  "rs_policy (NewReplicaSet n ReplicaPolicyRoundRobin cs now) = ReplicaPolicyRoundRobin"
  by (simp_all add: toolsOf_def SetToolCache_def NewReplicaSet_def Let_def split: list.split)

lemma toolsOf_new: "cs \<noteq> [] \<Longrightarrow> fst (toolsOf (NewReplicaSet n p cs now)) = ac_tools (hd cs)"
  by (cases cs) (simp_all add: toolsOf_def Let_def new_replica_def)

text \<open>C23. 
  What a successful registration leaves: the server's set holds at least one client and at most one per configuration,
  its metadata is the first configuration, every tool of its first client is indexed under its prefixed name, no
  retry and no failure is recorded, and the clients of a set it replaced are closed.
\<close>

theorem registration_result:
  assumes "RegisterMCPReplicaSet tp penv io now n policy cfgs r w = (None, r', w')"
  shows "set_clients (reg_router r') n \<noteq> [] \<and> length (set_clients (reg_router r') n) \<le> length cfgs
     \<and> map_of (rg_serverMeta r') n = Some ((hd cfgs)\<lparr>mc_name := n\<rparr>)
     \<and> (\<forall>t\<in>set (ac_tools (hd (set_clients (reg_router r') n))). HasTool (reg_router r') (PrefixTool n (t_name t)))
     \<and> map_of (rg_pending r') n = None \<and> map_of (rg_failures r') n = None
     \<and> rg_closed r' = rg_closed r @ set_clients (reg_router r) n"
proof -
  obtain cs r1 where b: "build_replicas tp n cfgs (bump_gen n r) w = (Inr cs, r1, w')"
    and c: "commit_registration penv io now n policy cfgs cs 0 r1 = (None, r')"
    by (rule RegisterD [OF assms])
  obtain cl where r1: "r1 = (bump_gen n r)\<lparr>rg_cleanupRan := cl\<rparr>" by (rule build_replicas_keeps [OF b])
  note built = build_replicas_built [OF b]
  note res = commit_result [OF c]
  have cs: "set_clients (reg_router r') n = cs"
    by (simp add: set_clients_def GetReplicaSet_def res(1) new_replicas_clients)
  have "HasTool (reg_router r') (PrefixTool n (t_name t))" if "t \<in> set (ac_tools (hd cs))" for t
  proof -
    let ?st = "NewReplicaSet n policy cs now"
    have "map_of (rt_sets (AddReplicaSet (reg_router r1) ?st)) n = Some ?st"
      by (simp add: AddReplicaSet_def map_of_update)
    then have "(n, ?st) \<in> set (rt_sets (AddReplicaSet (reg_router r1) ?st))" by (rule map_of_SomeD)
    moreover have "t \<in> set (fst (toolsOf ?st))" using that built by (simp add: toolsOf_new)
    ultimately show ?thesis unfolding res(2) by (rule indexed)
  qed
  then show ?thesis using built res(3-5) by (simp add: cs res(6) r1 bump_gen_def)
qed

text \<open>
  A restart through the gateway shrinks the pool: whatever number of replicas and dispatch policy a registered server
  had, after a successful restart it has one replica under round robin and no autoscaler, and at most one of its
  clients was closed.
\<close>

theorem restart_shrinks_pool:
  assumes "RestartMCPServer tp penv io now n r w = (None, r', w')"
    and "map_of (rg_serverMeta r) n = Some cfg" "mc_name cfg = n"
  shows "length (set_clients (reg_router r') n) = 1
     \<and> map_option rs_policy (GetReplicaSet (reg_router r') n) = Some ReplicaPolicyRoundRobin
     \<and> map_of (gw_autoscalers (rg_gateway r')) n = None
     \<and> length (rg_closed r') \<le> length (rg_closed r) + 1"
proof -
  let ?r1 = "UnregisterMCPServer n (close_picked n r)"
  obtain r2 w1 w2 where reg: "RegisterMCPServer tp penv io now cfg ?r1 w1 = (None, r2, w2)"
    and r': "rg_gateway r' = rg_gateway r2" "rg_closed r' = rg_closed r2"
    using assms(1,2) by (auto simp: RestartMCPServer_def Let_def split: option.splits prod.splits)
  obtain cs q where b: "build_replicas tp n [cfg] (bump_gen n ?r1) w1 = (Inr cs, q, w2)"
    and c: "commit_registration penv io now n ReplicaPolicyRoundRobin [cfg] cs 0 q = (None, r2)"
    using reg unfolding RegisterMCPServer_def assms(3) by (rule RegisterD)
  obtain cl where q: "q = (bump_gen n ?r1)\<lparr>rg_cleanupRan := cl\<rparr>" by (rule build_replicas_keeps [OF b])
  have one: "length cs = 1" using build_replicas_built [OF b] by (cases cs) auto
  have gone: "set_clients (reg_router q) n = []" "map_of (gw_autoscalers (rg_gateway q)) n = None"
    using absent_unregistered [of n "close_picked n r"]
    by (simp_all add: q bump_gen_def absent_def set_clients_def GetReplicaSet_def)
       (simp add: UnregisterMCPServer_def teardown_def ClearServerAuthState_def ClearRegistrationFailure_def drop_meta_def
          on_gateway_def map_of_delete)
  have closed: "rg_closed q = rg_closed (close_picked n r)"
    by (simp add: q bump_gen_def UnregisterMCPServer_def teardown_def ClearServerAuthState_def ClearRegistrationFailure_def
          drop_meta_def on_gateway_def take_ownership_def)
  have "length (rg_closed (close_picked n r)) \<le> length (rg_closed r) + 1"
    by (simp add: close_picked_def Let_def closing_def on_router_def on_gateway_def split: prod.split option.split)
  then show ?thesis
    using commit_result(1,6,7) [OF c] one gone closed
    by (simp add: r' set_clients_def GetReplicaSet_def new_replicas_clients policy_keeps)
qed

text \<open>
  Unregistering closes nothing: the clients of the server are no longer routed to, and none of them is closed. For a
  server run as a local process the process stays.
\<close>

theorem unregister_leaks_clients:
  "set_clients (reg_router (UnregisterMCPServer n r)) n = [] \<and> rg_closed (UnregisterMCPServer n r) = rg_closed r"
  using absent_unregistered [of n r]
  by (simp add: absent_def set_clients_def GetReplicaSet_def)
     (simp add: UnregisterMCPServer_def teardown_def ClearServerAuthState_def ClearRegistrationFailure_def drop_meta_def
        on_gateway_def take_ownership_def bump_gen_def)

text \<open>
  The tools of an autoscaled server are never compared with their pins when the server is registered: the pin store
  and the blocked servers are what they were, whatever tools the replicas spawned by the first tick advertise.
\<close>

theorem autoscaled_server_unpinned:
  assumes "RegisterAutoscaler spawn reap wall polls now template policy p r w = Some (res, r', w')"
  shows "rg_pins r' = rg_pins r \<and> gw_blockedServers (rg_gateway r') = gw_blockedServers (rg_gateway r)"
  using assms
  by (auto simp: RegisterAutoscaler_def Let_def on_router_def on_gateway_def put_meta_def split: if_splits)

subsection \<open>Approval\<close>

text \<open>\<^verbatim>\<open>POST /api/pins/{server}/approve\<close> (\<^verbatim>\<open>internal/api/pins.go\<close>), with a well-formed body; the result is the
  HTTP status. The API server and the gateway share the pin store.\<close>

definition handleApprovePins :: "pin_env \<Rightarrow> pin_io \<Rightarrow> string \<Rightarrow> string \<Rightarrow> 'l registry \<Rightarrow> int \<times> 'l registry" where
  "handleApprovePins penv io name expected r =
     (case rg_pins r of
        None \<Rightarrow> (503, r)
      | Some (ps, d) \<Rightarrow>
          if GetServerPins name ps = None then (404, r)
          else let (client, rt) = GetClient (reg_router r) name; r1 = on_router (\<lambda>_. rt) r in
            (case client of
               None \<Rightarrow> (404, r1)
             | Some c \<Rightarrow>
                 let approve = (case Approve penv io name (ac_tools c) ps d of
                       (Some _, ps', d') \<Rightarrow> (500, r1\<lparr>rg_pins := Some (ps', d')\<rparr>)
                     | (None, ps', d') \<Rightarrow> (200, r1\<lparr>rg_pins := Some (ps', d')\<rparr>))
                 in if expected = [] then approve
                    else case HashTools penv (ac_tools c) of
                        Inl _ \<Rightarrow> (500, r1)
                      | Inr live \<Rightarrow> if live \<noteq> expected then (409, r1) else approve))"

abbreviation blocked :: "'l registry \<Rightarrow> string set" where
  "blocked r \<equiv> set (gw_blockedServers (rg_gateway r))"

lemma approve_keeps_blocked: "gw_blockedServers (rg_gateway (snd (handleApprovePins penv io n expected r))) = gw_blockedServers (rg_gateway r)"
  by (simp add: handleApprovePins_def Let_def on_router_def on_gateway_def split: option.split prod.split sum.split)

lemma blocked_keeps:
  "blocked (put_meta n cfg r) = blocked r"
  "blocked (drop_meta n r) = blocked r"
  "blocked (ClearRegistrationFailure n r) = blocked r"
  "blocked (ClearServerAuthState n r) = blocked r"
  "blocked (RecordRegistrationFailure n e r) = blocked r"
  "blocked (dropPending n r) = blocked r"
  "blocked (on_pending n g r) = blocked r"
  "blocked (notePendingRegistrationFailure n p cfgs e r) = blocked r"
  "blocked (closing cs r) = blocked r"
  "blocked (on_router f r) = blocked r"
  "blocked (bump_gen n r) = blocked r"
  "blocked (take_ownership n r) = blocked r"
  "blocked (snd (retryPendingRegistrations now r)) = blocked r"
  by (simp_all add: on_router_def on_gateway_def put_meta_def drop_meta_def ClearRegistrationFailure_def ClearServerAuthState_def
       RecordRegistrationFailure_def markNeedsAuthIfNew_def SetServerAuthState_def dropPending_def on_pending_def
       notePendingRegistrationFailure_def closing_def retryPendingRegistrations_def bump_gen_def take_ownership_def
     split: reg_error.split option.split)

lemma blocked_teardown: "blocked (teardown n r) = blocked r"
  by (simp add: teardown_def blocked_keeps) (simp add: on_gateway_def)

lemma blocked_pins: "blocked r \<subseteq> blocked (check_pins penv io n ts r)"
  by (auto simp: check_pins_def handlePinDrift_def on_gateway_def Let_def split: option.split prod.split sum.split)

lemma blocked_commit: "blocked r \<subseteq> blocked (snd (commit_registration penv io now n p cfgs cs gen r))"
proof -
  let ?r1 = "put_meta n ((hd cfgs)\<lparr>mc_name := n\<rparr>)
    (r\<lparr>rg_pending := AList.delete n (rg_pending r), rg_cleanupRan := removeAll n (rg_cleanupRan r)\<rparr>)"
  have "blocked r = blocked ?r1" by (simp add: blocked_keeps)
  also note blocked_pins [of ?r1 penv io n "ac_tools (hd cs)"]
  finally show ?thesis by (simp add: commit_registration_def Let_def blocked_keeps)
qed

lemma blocked_scaler: "blocked (install_scaler n st a r) = blocked r"
  by (simp add: install_scaler_def on_gateway_def)

lemma blocked_step: "reg_step penv st ev st' \<Longrightarrow> blocked (fst st) \<subseteq> blocked (fst st')"
proof (induction rule: reg_step.induct)
  case (scan now r jobs r' as)
  then show ?case using blocked_keeps(13) [of now r] by simp
next
  case (commit a as clients r io now)
  show ?case
    by (simp add: committed_def Let_def finish_attempt_def blocked_keeps blocked_commit)
qed (simp_all add: blocked_keeps blocked_teardown finish_attempt_def unreachable_def build_failed_def
       advancePendingBackoff_def Let_def restart_failed_def blocked_scaler)

lemma blocked_run: "reg_run penv st evs st' \<Longrightarrow> blocked (fst st) \<subseteq> blocked (fst st')"
  by (induction rule: reg_run.induct) (use blocked_step in blast)+

text \<open>C15. 
  A block outlives its approval. Once drift has blocked a server, approving its pins, whatever the approval answers,
  and then any interleaving of registrations, retries, removals of the server itself and scans leave it blocked: let
  the world be the log of downstream calls; no later \<^verbatim>\<open>tools/call\<close>, a script of code mode included, adds a call of
  that server to it.
\<close>

theorem block_outlives_approval:
  assumes "n \<in> blocked r" "handleApprovePins penv io n expected r = (status, r1)"
    and "reg_run penv (r1, as) evs (r2, as2)"
    and log: "\<forall>c t a v. snd (env_call env c t a v) = v @ [(ac_name c, t)]"
    and quiet: "\<forall>s v. snd (env_spawn env s v) = v"
    and "HandleToolsCall env now origin ctx name args (rg_gateway r2) w = (res, g', w')"
  shows "n \<in> blocked r2 \<and> (\<exists>calls. w' = w @ calls \<and> (\<forall>(server, tool)\<in>set calls. server \<noteq> n))"
proof -
  have "n \<in> blocked r1"
    using approve_keeps_blocked [of penv io n expected r] assms(1,2) by simp
  with blocked_run [OF assms(3)] have n: "n \<in> blocked r2" by auto
  have "\<exists>calls. w' = w @ calls \<and> (\<forall>(server, tool)\<in>set calls. server \<noteq> n)"
    using blocked_server_uncalled [OF log quiet n] assms(6) by (metis snd_conv)
  with n show ?thesis ..
qed

subsection \<open>Witnesses\<close>

definition demo_cfg :: mcp_config where
  "demo_cfg = \<lparr>mc_name = ''db'', mc_transport = ''http'', mc_endpoint = ''http://localhost:1'', mc_containerID = [],
     mc_external = True, mc_localProcess = False, mc_ssh = False, mc_openapi = False, mc_openapiSpec = None, mc_command = [],
     mc_sshHost = [], mc_sshUser = [], mc_sshPort = 0, mc_sshIdentityFile = [], mc_sshKnownHostsFile = [], mc_sshJumpHost = [],
     mc_tools = [], mc_outputFormat = [], mc_pinSchemas = None, mc_protocolGeneration = [], mc_cleanup = False\<rparr>"

definition demo_transports :: "nat transports" where
  "demo_transports = \<lparr>tp_openapi = (\<lambda>_ w. (None, w)), tp_connect = (\<lambda>_ _ w. (None, w)), tp_ready = (\<lambda>_ w. (None, w)),
     tp_cleanup = (\<lambda>_ w. w), tp_initialize = (\<lambda>_ w. (None, w)),
     tp_refresh = (\<lambda>cfg w. (Inr (demo_server (mc_name cfg) [''get'']), w)), tp_close = (\<lambda>_ w. w),
     tp_ping = (\<lambda>_ w. (None, w)), tp_restart = (\<lambda>_ w. (None, w))\<rparr>"

definition demo_pins :: "pin_store \<times> pin_disk" where
  "demo_pins = snd (Approve pins_demo_env pins_demo_io ''db'' (ac_tools (demo_server ''db'' [''get'', ''put''])) (New_store ''s'' 0) NoPinFile)"

definition demo_registry :: "bucket registry" where
  "demo_registry = \<lparr>rg_gateway = demo_gateway\<lparr>gw_blockedServers := [''db''],
       gw_router := RefreshTools (AddReplicaSet (gw_router demo_gateway) (NewReplicaSet ''db'' ReplicaPolicyLeastConnections
         [demo_server ''db'' [''get'', ''put''], demo_server ''db'' [''get'', ''put'']] 0))\<rparr>, rg_serverMeta = [(''db'', demo_cfg)], rg_pending = [],
     rg_regGen = [(''db'', 1)], rg_cleanupRan = [], rg_failures = [], rg_authState = [], rg_health = [], rg_replicaHealth = [],
     rg_pins = Some demo_pins, rg_pinAction = ''block'', rg_docker = False, rg_closed = []\<rparr>"

definition demo_attempt :: attempt where
  "demo_attempt = \<lparr>at_name = ''db'', at_policy = [], at_cfgs = [demo_cfg], at_gen = 1\<rparr>"

lemma demo_gen: "reg_gen demo_registry ''db'' = 1"
  by (simp add: reg_gen_def demo_registry_def)

theorem retry_never_clobbers_witness:
  "fst (commit_registration pins_demo_env pins_demo_io 0 ''db'' [] [demo_cfg] [demo_server ''db'' []] 1
     (take_ownership ''db'' demo_registry)) = Some ErrStaleRegistration"
proof -
  have "reg_run pins_demo_env (demo_registry, [demo_attempt]) [EvTake ''db''] (take_ownership ''db'' demo_registry, [demo_attempt])"
    by (rule run_cons [OF reg_step.take_name run_nil])
  from retry_never_clobbers [OF this, where a = demo_attempt and io = pins_demo_io and now = 0
      and clients = "[demo_server ''db'' []]"]
  show ?thesis by (simp add: demo_attempt_def demo_gen)
qed

theorem unregistered_server_stays_gone_witness:
  "map_of (rg_serverMeta (UnregisterMCPServer ''db'' demo_registry)) ''db'' = None"
proof -
  have "reg_run pins_demo_env (UnregisterMCPServer ''db'' demo_registry, [demo_attempt]) [EvCleanup ''web'']
      ((UnregisterMCPServer ''db'' demo_registry)\<lparr>rg_cleanupRan := set_put ''web'' (rg_cleanupRan (UnregisterMCPServer ''db'' demo_registry))\<rparr>,
       [demo_attempt])"
    by (rule run_cons [OF reg_step.cleanup run_nil])
  from unregistered_server_stays_gone [OF this] show ?thesis by (simp add: demo_attempt_def demo_gen)
qed

theorem failed_retry_resurrects_witness:
  "\<exists>evs r' as'. reg_run pins_demo_env (UnregisterMCPServer ''db'' demo_registry, [demo_attempt]) evs (r', as') \<and> claims ''db'' evs = 0
     \<and> map_of (rg_serverMeta r') ''db'' = Some demo_cfg \<and> set_clients (reg_router r') ''db'' = [demo_server ''db'' [''get'']]"
proof -
  have "demo_cfg\<lparr>mc_name := ''db''\<rparr> = demo_cfg" by (simp add: demo_cfg_def)
  then show ?thesis
    using failed_retry_resurrects [of demo_attempt "[demo_attempt]" "''db''" demo_registry "OtherError ''connection refused''"
        "[demo_server ''db'' [''get'']]" pins_demo_env]
    by (simp add: demo_attempt_def demo_gen isCanceled_def isAuthError_def)
qed

theorem registration_result_witness:
  "map_option (\<lambda>c. mc_name c) (map_of (rg_serverMeta (fst (snd (RegisterMCPReplicaSet demo_transports pins_demo_env pins_demo_io 5
     ''db'' [] [demo_cfg, demo_cfg] demo_registry 0)))) ''db'') = Some ''db''"
proof -
  let ?run = "RegisterMCPReplicaSet demo_transports pins_demo_env pins_demo_io 5 ''db'' [] [demo_cfg, demo_cfg] demo_registry 0"
  have "fst ?run = None" by code_simp
  then obtain r' w' where run: "?run = (None, r', w')" by (metis prod_cases3 fst_conv)
  from registration_result [OF run] show ?thesis unfolding run by simp
qed

theorem restart_shrinks_pool_witness:
  "length (set_clients (reg_router demo_registry) ''db'') = 2
   \<and> length (set_clients (reg_router (fst (snd (RestartMCPServer demo_transports pins_demo_env pins_demo_io 5 ''db'' demo_registry 0)))) ''db'') = 1"
proof -
  let ?run = "RestartMCPServer demo_transports pins_demo_env pins_demo_io 5 ''db'' demo_registry 0"
  have "fst ?run = None" by code_simp
  then obtain r' w' where run: "?run = (None, r', w')" by (metis prod_cases3 fst_conv)
  have "map_of (rg_serverMeta demo_registry) ''db'' = Some demo_cfg" "mc_name demo_cfg = ''db''"
    by (simp_all add: demo_registry_def demo_cfg_def)
  from restart_shrinks_pool [OF run this] have "length (set_clients (reg_router r') ''db'') = 1" by simp
  moreover have "length (set_clients (reg_router demo_registry) ''db'') = 2" by code_simp
  ultimately show ?thesis unfolding run by simp
qed

theorem autoscaled_server_unpinned_witness:
  "map_option (\<lambda>(_, r', _). gw_blockedServers (rg_gateway r'))
     (RegisterAutoscaler demo_spawn demo_reap 0 [] 5 demo_cfg [] (demo_policy\<lparr>p_min := 1\<rparr>) demo_registry 0) = Some [''db'']"
proof -
  let ?run = "RegisterAutoscaler demo_spawn demo_reap 0 [] 5 demo_cfg [] (demo_policy\<lparr>p_min := 1\<rparr>) demo_registry 0"
  have "?run \<noteq> None" by code_simp
  then obtain res r' w' where run: "?run = Some (res, r', w')" by (cases ?run) auto
  from autoscaled_server_unpinned [OF run] show ?thesis unfolding run by (simp add: demo_registry_def)
qed

theorem block_outlives_approval_witness:
  "fst (handleApprovePins pins_demo_env pins_demo_io ''db'' [] demo_registry) = 200
   \<and> ''db'' \<in> blocked (snd (handleApprovePins pins_demo_env pins_demo_io ''db'' [] demo_registry))"
proof -
  let ?a = "handleApprovePins pins_demo_env pins_demo_io ''db'' [] demo_registry"
  obtain status r1 where a: "?a = (status, r1)" by fastforce
  have st: "fst ?a = 200" by code_simp
  obtain res g' w' where h: "HandleToolsCall demo_env 0 [] demo_ctx ''shout'' () (rg_gateway r1) [] = (res, g', w')"
    by (metis prod_cases3)
  from block_outlives_approval [OF _ a run_nil _ _ h] have "''db'' \<in> blocked r1"
    by (simp add: demo_registry_def demo_env_def)
  with st a show ?thesis by simp
qed

end
