(* ===== verification/Health.thy ===== *)
theory Health
  imports Registration
begin

text \<open>
  The health monitor of the gateway (\<^verbatim>\<open>pkg/mcp/gateway.go\<close>): one cycle over the replicas of every registered
  server, with the ping, the status kept per replica, the reconnect gated by the replica's back-off and the pin check
  after it, then the status of the server computed from those of its replicas; and the report per replica.

  Pings and reconnects are parameters (\<open>monitor\<close>) that act on a world \<open>'w\<close>. A replica is found in the router by the
  name of its server and its id. One cycle runs alone: the model does not interleave it with registrations.
\<close>

record 'w monitor =
  mo_pingable :: "agent_client \<Rightarrow> bool"
  mo_ping :: "agent_client \<Rightarrow> 'w \<Rightarrow> reg_error option \<times> 'w"
  mo_reconnectable :: "agent_client \<Rightarrow> bool"
  mo_reconnect :: "agent_client \<Rightarrow> 'w \<Rightarrow> (reg_error + agent_client) \<times> 'w"

text \<open>The clock before the ping and after the reconnect, and the jitter of the back-off.\<close>

record cycle_clock =
  cy_now :: gotime
  cy_later :: gotime
  cy_jitter :: int

subsection \<open>Status per replica\<close>

definition replicaStatusLocked :: "'l registry \<Rightarrow> string \<Rightarrow> int \<Rightarrow> health_status option" where
  "replicaStatusLocked r server i =
     (case map_of (rg_replicaHealth r) server of None \<Rightarrow> None | Some m \<Rightarrow> map_of m i)"

definition setReplicaStatusLocked :: "string \<Rightarrow> int \<Rightarrow> health_status \<Rightarrow> 'l registry \<Rightarrow> 'l registry" where
  "setReplicaStatusLocked server i st r =
     (let m = (case map_of (rg_replicaHealth r) server of None \<Rightarrow> [] | Some m \<Rightarrow> m)
      in r\<lparr>rg_replicaHealth := AList.update server (AList.update i st m) (rg_replicaHealth r)\<rparr>)"

definition replicas_of :: "'l registry \<Rightarrow> string \<Rightarrow> replica list" where
  "replicas_of r server = (case GetReplicaSet (reg_router r) server of None \<Rightarrow> [] | Some st \<Rightarrow> rs_replicas st)"

text \<open>A write through the pointer of a replica.\<close>

definition on_replica :: "string \<Rightarrow> int \<Rightarrow> (replica \<Rightarrow> replica) \<Rightarrow> 'l registry \<Rightarrow> 'l registry" where
  "on_replica server i f = on_router (\<lambda>rt. case map_of (rt_sets rt) server of
     None \<Rightarrow> rt | Some st \<Rightarrow> put_set rt server (update_replica i f st))"

definition ping_status :: "gotime \<Rightarrow> health_status option \<Rightarrow> reg_error option \<Rightarrow> health_status" where
  "ping_status now prev err =
     (case err of
        None \<Rightarrow> \<lparr>hs_healthy = True, hs_lastCheck = Some now, hs_lastHealthy = Some now, hs_error = []\<rparr>
      | Some e \<Rightarrow> \<lparr>hs_healthy = False, hs_lastCheck = Some now,
                   hs_lastHealthy = (case prev of None \<Rightarrow> None | Some p \<Rightarrow> hs_lastHealthy p), hs_error = error_message e\<rparr>)"

definition reset_restart :: "replica \<Rightarrow> replica" where
  "reset_restart rep = rep\<lparr>r_restart := Reset_backoff (r_restart rep)\<rparr>"

definition advance_restart :: "gotime \<Rightarrow> int \<Rightarrow> replica \<Rightarrow> replica" where
  "advance_restart now k rep = rep\<lparr>r_restart := fst (Advance (r_restart rep) now k)\<rparr>"

definition needs_auth_error :: "reg_error \<Rightarrow> bool" where
  "needs_auth_error e = (case root_cause e of NeedsAuthError _ \<Rightarrow> True | _ \<Rightarrow> False)"

text \<open>The reconnect of an unhealthy replica; a successful one replaces what the client advertises.\<close>

definition try_reconnect :: "'w monitor \<Rightarrow> pin_env \<Rightarrow> pin_io \<Rightarrow> cycle_clock \<Rightarrow> string \<Rightarrow> replica \<Rightarrow> 'l registry \<Rightarrow> 'w \<Rightarrow> 'l registry \<times> 'w" where
  "try_reconnect mo penv io cy server rep r w =
     (if \<not> mo_reconnectable mo (r_client rep) \<or> \<not> ShouldTry (r_restart rep) (cy_now cy) then (r, w)
      else case mo_reconnect mo (r_client rep) w of
          (Inl _, w1) \<Rightarrow> (on_replica server (r_id rep) (advance_restart (cy_now cy) (cy_jitter cy)) r, w1)
        | (Inr client, w1) \<Rightarrow>
            let later = cy_later cy;
                r1 = on_replica server (r_id rep)
                       (\<lambda>x. MarkStarted later (SetHealthy True (reset_restart (x\<lparr>r_client := client\<rparr>)))) r;
                r2 = setReplicaStatusLocked server (r_id rep)
                       \<lparr>hs_healthy = True, hs_lastCheck = Some later, hs_lastHealthy = Some later, hs_error = []\<rparr> r1;
                r3 = on_router RefreshTools r2
            in (check_pins penv io server (ac_tools client) r3, w1))"

definition checkReplicaHealth :: "'w monitor \<Rightarrow> pin_env \<Rightarrow> pin_io \<Rightarrow> cycle_clock \<Rightarrow> string \<Rightarrow> replica \<Rightarrow> 'l registry \<Rightarrow> 'w
    \<Rightarrow> 'l registry \<times> 'w" where
  "checkReplicaHealth mo penv io cy server rep r w =
     (if \<not> mo_pingable mo (r_client rep) then (r, w)
      else
        let (err, w1) = mo_ping mo (r_client rep) w;
            r1 = setReplicaStatusLocked server (r_id rep)
                   (ping_status (cy_now cy) (replicaStatusLocked r server (r_id rep)) err) r
        in case err of
             None \<Rightarrow> (on_replica server (r_id rep) (\<lambda>x. reset_restart (SetHealthy True x)) r1, w1)
           | Some e \<Rightarrow>
               let r2 = (if needs_auth_error e then markNeedsAuthIfNew server ''authorization required'' r1 else r1);
                   r3 = on_replica server (r_id rep) (SetHealthy False) r2
               in try_reconnect mo penv io cy server rep r3 w1)"

subsection \<open>Status of a server\<close>

definition later_time :: "gotime option \<Rightarrow> gotime option \<Rightarrow> gotime option" where
  "later_time a b =
     (case b of None \<Rightarrow> a | Some y \<Rightarrow> (case a of None \<Rightarrow> Some y | Some x \<Rightarrow> if y > x then Some y else Some x))"

record rollup_acc =
  ra_any :: bool
  ra_saw :: bool
  ra_check :: "gotime option"
  ra_healthy :: "gotime option"
  ra_error :: string

definition rollup_step :: "'l registry \<Rightarrow> string \<Rightarrow> replica \<Rightarrow> rollup_acc \<Rightarrow> rollup_acc" where
  "rollup_step r server rep acc =
     (case replicaStatusLocked r server (r_id rep) of
        None \<Rightarrow> acc
      | Some s \<Rightarrow> \<lparr>ra_any = (ra_any acc \<or> hs_healthy s), ra_saw = True,
                  ra_check = later_time (ra_check acc) (hs_lastCheck s),
                  ra_healthy = later_time (ra_healthy acc) (hs_lastHealthy s),
                  ra_error = (if \<not> hs_healthy s \<and> hs_error s \<noteq> [] then hs_error s else ra_error acc)\<rparr>)"

definition rollup :: "'l registry \<Rightarrow> string \<Rightarrow> replica list \<Rightarrow> rollup_acc" where
  "rollup r server reps =
     fold (rollup_step r server) reps \<lparr>ra_any = False, ra_saw = False, ra_check = None, ra_healthy = None, ra_error = []\<rparr>"

definition recomputeRollup :: "string \<Rightarrow> replica list \<Rightarrow> 'l registry \<Rightarrow> 'l registry" where
  "recomputeRollup server reps r =
     (let acc = rollup r server reps in
      if \<not> ra_saw acc
      then r\<lparr>rg_health := AList.delete server (rg_health r), rg_replicaHealth := AList.delete server (rg_replicaHealth r)\<rparr>
      else r\<lparr>rg_health := AList.update server
        \<lparr>hs_healthy = ra_any acc, hs_lastCheck = ra_check acc, hs_lastHealthy = ra_healthy acc,
         hs_error = (if ra_any acc then [] else ra_error acc)\<rparr> (rg_health r)\<rparr>)"

definition GetHealthStatus :: "'l registry \<Rightarrow> string \<Rightarrow> health_status option" where
  "GetHealthStatus r name = map_of (rg_health r) name"

fun check_replicas :: "'w monitor \<Rightarrow> pin_env \<Rightarrow> pin_io \<Rightarrow> cycle_clock \<Rightarrow> string \<Rightarrow> replica list \<Rightarrow> 'l registry \<Rightarrow> 'w
    \<Rightarrow> 'l registry \<times> 'w" where
  "check_replicas mo penv io cy server [] r w = (r, w)"
| "check_replicas mo penv io cy server (rep # reps) r w =
     (let (r1, w1) = checkReplicaHealth mo penv io cy server rep r w in check_replicas mo penv io cy server reps r1 w1)"

text \<open>The loop over the snapshot of the sets, in the order of their names.\<close>

fun check_servers :: "'w monitor \<Rightarrow> pin_env \<Rightarrow> pin_io \<Rightarrow> cycle_clock \<Rightarrow> string list \<Rightarrow> 'l registry \<Rightarrow> 'w \<Rightarrow> 'l registry \<times> 'w" where
  "check_servers mo penv io cy [] r w = (r, w)"
| "check_servers mo penv io cy (server # servers) r w =
     (if \<not> map_has (rg_serverMeta r) server then check_servers mo penv io cy servers r w
      else let (r1, w1) = check_replicas mo penv io cy server (replicas_of r server) r w
           in check_servers mo penv io cy servers (recomputeRollup server (replicas_of r1 server) r1) w1)"

definition checkHealth :: "'w monitor \<Rightarrow> pin_env \<Rightarrow> pin_io \<Rightarrow> cycle_clock \<Rightarrow> 'l registry \<Rightarrow> 'w \<Rightarrow> 'l registry \<times> 'w" where
  "checkHealth mo penv io cy r w = check_servers mo penv io cy (sorted_names (reg_router r)) r w"

subsection \<open>The report\<close>

record replica_status =
  rp_id :: int
  rp_state :: string
  rp_healthy :: bool
  rp_inFlight :: int
  rp_startedAt :: "gotime option"
  rp_attempts :: "32 word"
  rp_nextRetryAt :: "gotime option"
  rp_lastCheck :: "gotime option"
  rp_lastHealthy :: "gotime option"
  rp_lastError :: string

definition replicaStateString :: "bool \<Rightarrow> bool \<Rightarrow> string" where
  "replicaStateString healthy hasAttempts =
     (if healthy then ''healthy'' else if hasAttempts then ''restarting'' else ''unhealthy'')"

definition report_replica :: "'l registry \<Rightarrow> string \<Rightarrow> replica \<Rightarrow> replica_status" where
  "report_replica r server rep =
     (let hs = replicaStatusLocked r server (r_id rep) in
      \<lparr>rp_id = r_id rep, rp_state = replicaStateString (r_healthy rep) (0 < bo_attempts (r_restart rep)),
       rp_healthy = r_healthy rep, rp_inFlight = r_inFlight rep, rp_startedAt = r_startedAt rep,
       rp_attempts = bo_attempts (r_restart rep), rp_nextRetryAt = bo_nextAt (r_restart rep),
       rp_lastCheck = (case hs of None \<Rightarrow> None | Some h \<Rightarrow> hs_lastCheck h),
       rp_lastHealthy = (case hs of None \<Rightarrow> None | Some h \<Rightarrow> hs_lastHealthy h),
       rp_lastError = (case hs of None \<Rightarrow> [] | Some h \<Rightarrow> hs_error h)\<rparr>)"

definition ReplicaStatuses :: "'l registry \<Rightarrow> string \<Rightarrow> replica_status list option" where
  "ReplicaStatuses r server =
     map_option (\<lambda>st. map (report_replica r server) (rs_replicas st)) (GetReplicaSet (reg_router r) server)"

subsection \<open>What a cycle does to the replicas\<close>

lemma replicas_on_router:
  "replicas_of (on_router f r) s = (case map_of (rt_sets (f (reg_router r))) s of None \<Rightarrow> [] | Some st \<Rightarrow> rs_replicas st)"
  by (simp add: replicas_of_def on_router_def on_gateway_def GetReplicaSet_def)

lemma replicas_on_replica:
  "replicas_of (on_replica s i f r) s = map (\<lambda>x. if r_id x = i then f x else x) (replicas_of r s)"
  by (simp add: on_replica_def replicas_on_router put_set_def map_of_update update_replica_def split: option.split)
     (simp add: replicas_of_def GetReplicaSet_def)

lemma replicas_refresh: "replicas_of (on_router RefreshTools r) s = replicas_of r s"
  by (simp add: replicas_on_router sets_RefreshTools option.case_distrib split: option.split)
     (simp add: replicas_of_def GetReplicaSet_def)

lemma replicas_cong: "reg_router r = reg_router r' \<Longrightarrow> replicas_of r s = replicas_of r' s"
  by (simp add: replicas_of_def)

lemma router_keeps [simp]:
  "reg_router (setReplicaStatusLocked s i st r) = reg_router r"
  "reg_router (markNeedsAuthIfNew s m r) = reg_router r"
  by (simp_all add: setReplicaStatusLocked_def markNeedsAuthIfNew_def SetServerAuthState_def Let_def)

lemma status_set [simp]: "replicaStatusLocked (setReplicaStatusLocked s i st r) s i = Some st"
  by (simp add: replicaStatusLocked_def setReplicaStatusLocked_def map_of_update Let_def)

lemma health_keeps [simp]:
  "rg_replicaHealth (on_router f r) = rg_replicaHealth r"
  "rg_replicaHealth (on_replica s i g r) = rg_replicaHealth r"
  "rg_replicaHealth (markNeedsAuthIfNew s m r) = rg_replicaHealth r"
  "rg_replicaHealth (check_pins penv io s ts r) = rg_replicaHealth r"
  by (simp_all add: on_replica_def on_router_def on_gateway_def markNeedsAuthIfNew_def SetServerAuthState_def
        check_pins_def handlePinDrift_def Let_def split: option.split prod.split sum.split)

lemma status_keeps [simp]:
  "replicaStatusLocked (on_router f r) = replicaStatusLocked r"
  "replicaStatusLocked (on_replica s i g r) = replicaStatusLocked r"
  "replicaStatusLocked (markNeedsAuthIfNew s m r) = replicaStatusLocked r"
  "replicaStatusLocked (check_pins penv io s ts r) = replicaStatusLocked r"
  by (simp_all add: replicaStatusLocked_def fun_eq_iff)

lemma replicas_keeps [simp]:
  "replicas_of (setReplicaStatusLocked s i st r) n = replicas_of r n"
  "replicas_of (markNeedsAuthIfNew s m r) n = replicas_of r n"
  "replicas_of (check_pins penv io s ts r) n = replicas_of r n"
  by (simp_all add: replicas_of_def)

lemma replica_updates [simp]:
  "r_id (reset_restart x) = r_id x" "r_id (SetHealthy b x) = r_id x" "r_id (MarkStarted t x) = r_id x"
  "r_id (advance_restart t k x) = r_id x" "r_healthy (reset_restart x) = r_healthy x" "r_healthy (SetHealthy b x) = b"
  "r_healthy (MarkStarted t x) = r_healthy x" "r_healthy (advance_restart t k x) = r_healthy x"
  by (simp_all add: reset_restart_def SetHealthy_def MarkStarted_def advance_restart_def)

text \<open>Whether the cycle ends with the replica in service.\<close>

definition back_in_service :: "'w monitor \<Rightarrow> cycle_clock \<Rightarrow> replica \<Rightarrow> 'w \<Rightarrow> bool" where
  "back_in_service mo cy rep w =
     (case mo_ping mo (r_client rep) w of
        (None, _) \<Rightarrow> True
      | (Some _, w1) \<Rightarrow> mo_reconnectable mo (r_client rep) \<and> ShouldTry (r_restart rep) (cy_now cy)
          \<and> \<not> isl (fst (mo_reconnect mo (r_client rep) w1)))"

lemma cycle_outcome:
  assumes "mo_pingable mo (r_client rep)"
  shows "\<forall>x\<in>set (replicas_of (fst (checkReplicaHealth mo penv io cy s rep r w)) s).
       r_id x = r_id rep \<longrightarrow> r_healthy x = back_in_service mo cy rep w"
    and "map_option hs_healthy (replicaStatusLocked (fst (checkReplicaHealth mo penv io cy s rep r w)) s (r_id rep)) =
           Some (back_in_service mo cy rep w)"
proof -
  obtain err w1 where p: "mo_ping mo (r_client rep) w = (err, w1)" by fastforce
  have "(\<forall>x\<in>set (replicas_of (fst (checkReplicaHealth mo penv io cy s rep r w)) s).
       r_id x = r_id rep \<longrightarrow> r_healthy x = back_in_service mo cy rep w) \<and>
    map_option hs_healthy (replicaStatusLocked (fst (checkReplicaHealth mo penv io cy s rep r w)) s (r_id rep)) =
           Some (back_in_service mo cy rep w)"
  proof (cases err)
    case None
    show ?thesis
      using assms
      by (auto simp: checkReplicaHealth_def p None back_in_service_def replicas_on_replica ping_status_def split: if_splits)
  next
    case (Some e)
    define r3 where "r3 = on_replica s (r_id rep) (SetHealthy False)
      (if needs_auth_error e then markNeedsAuthIfNew s ''authorization required''
         (setReplicaStatusLocked s (r_id rep) (ping_status (cy_now cy) (replicaStatusLocked r s (r_id rep)) (Some e)) r)
       else setReplicaStatusLocked s (r_id rep) (ping_status (cy_now cy) (replicaStatusLocked r s (r_id rep)) (Some e)) r)"
    have c: "checkReplicaHealth mo penv io cy s rep r w = try_reconnect mo penv io cy s rep r3 w1"
      using assms by (simp add: checkReplicaHealth_def p Some r3_def Let_def)
    have down: "\<forall>y\<in>set (replicas_of r3 s). r_id y = r_id rep \<longrightarrow> \<not> r_healthy y"
      by (auto simp: r3_def replicas_on_replica split: if_splits)
    have stat: "map_option hs_healthy (replicaStatusLocked r3 s (r_id rep)) = Some False"
      by (simp add: r3_def ping_status_def)
    show ?thesis
    proof (cases "mo_reconnectable mo (r_client rep) \<and> ShouldTry (r_restart rep) (cy_now cy)")
      case False
      then have "try_reconnect mo penv io cy s rep r3 w1 = (r3, w1)" "\<not> back_in_service mo cy rep w"
        by (auto simp: try_reconnect_def back_in_service_def p Some)
      then show ?thesis using down stat by (auto simp: c)
    next
      case True
      obtain res w2 where rc: "mo_reconnect mo (r_client rep) w1 = (res, w2)" by fastforce
      show ?thesis
      proof (cases res)
        case (Inl e2)
        have "try_reconnect mo penv io cy s rep r3 w1 =
            (on_replica s (r_id rep) (advance_restart (cy_now cy) (cy_jitter cy)) r3, w2)"
          using True by (simp add: try_reconnect_def rc Inl)
        moreover have "\<not> back_in_service mo cy rep w" by (simp add: back_in_service_def p Some rc Inl)
        ultimately show ?thesis using down stat by (auto simp: c replicas_on_replica split: if_splits)
      next
        case (Inr client)
        have "back_in_service mo cy rep w" using True by (simp add: back_in_service_def p Some rc Inr)
        then show ?thesis
          using True
          by (auto simp: c try_reconnect_def rc Inr Let_def replicas_refresh replicas_on_replica split: if_splits)
      qed
    qed
  qed
  then show "\<forall>x\<in>set (replicas_of (fst (checkReplicaHealth mo penv io cy s rep r w)) s).
       r_id x = r_id rep \<longrightarrow> r_healthy x = back_in_service mo cy rep w"
    "map_option hs_healthy (replicaStatusLocked (fst (checkReplicaHealth mo penv io cy s rep r w)) s (r_id rep)) =
           Some (back_in_service mo cy rep w)" by blast+
qed

subsection \<open>Properties\<close>

text \<open>C22. 
  A replica that a cycle leaves out of service gets no call. When the client of a checked replica can be pinged, the ping
  failed and no reconnect was admitted by its back-off and succeeded, then after the cycle the status of the replica says
  unhealthy, and no routing of any of its server's tools, whatever it finds, ends at it.
\<close>

theorem unhealthy_replica_gets_no_call:
  assumes "mo_pingable mo (r_client rep)" "\<not> back_in_service mo cy rep w"
    and "checkReplicaHealth mo penv io cy s rep r w = (r', w')"
  shows "map_option hs_healthy (replicaStatusLocked r' s (r_id rep)) = Some False
    \<and> (\<forall>p t x t'. ParsePrefixedTool p = Inr (s, t) \<and> fst (RouteToolCallReplica (reg_router r') p) = Inr (x, t') \<longrightarrow> r_id x \<noteq> r_id rep)"
proof (intro conjI allI impI)
  note out = cycle_outcome [OF assms(1), of penv io cy s r w]
  from out(2) assms(2,3) show "map_option hs_healthy (replicaStatusLocked r' s (r_id rep)) = Some False" by simp
  fix p t x t' assume p: "ParsePrefixedTool p = Inr (s, t) \<and> fst (RouteToolCallReplica (reg_router r') p) = Inr (x, t')"
  then obtain rt where route: "RouteToolCallReplica (reg_router r') p = (Inr (x, t'), rt)" by (metis prod.collapse)
  then obtain s' st where x: "ParsePrefixedTool p = Inr (s', t')" "map_of (rt_sets (reg_router r')) s' = Some st"
    "x \<in> set (rs_replicas st)" "r_healthy x"
    by (rule RouteToolCallReplica_Inr)
  with p have mem: "x \<in> set (replicas_of r' s)" by (simp add: replicas_of_def GetReplicaSet_def)
  from out(1) mem x(4) assms(2,3) show "r_id x \<noteq> r_id rep" by auto
qed

text \<open>C32. 
  Reconnects of a failing replica are spaced. When a reconnect failed, the replica's back-off is advanced, and a later
  cycle that comes within three quarters of the exponential delay (one second doubled per attempt, at most thirty)
  makes no reconnect: it changes the world by its ping alone.
\<close>

theorem reconnects_are_spaced:
  assumes "mo_pingable mo (r_client rep)" "mo_ping mo (r_client rep) w = (Some e, w1)"
    and "mo_reconnectable mo (r_client rep)" "ShouldTry (r_restart rep) (cy_now cy)"
    and "mo_reconnect mo (r_client rep) w1 = (Inl e2, w2)" "0 \<le> cy_jitter cy" "cy_jitter cy < 2 ^ 53"
    and "x \<in> set (replicas_of (fst (checkReplicaHealth mo penv io cy s rep r w)) s)" "r_id x = r_id rep"
    and "\<forall>y\<in>set (replicas_of r s). r_id y = r_id rep \<longrightarrow> y = rep"
    and "4 * (cy_now cy' - cy_now cy) < 3 * min (2 ^ unat (bo_attempts (r_restart rep)) * second) (30 * second)"
    and "mo_pingable mo (r_client x)" "fst (mo_ping mo (r_client x) v) \<noteq> None"
  shows "snd (checkReplicaHealth mo penv io cy' s x q v) = snd (mo_ping mo (r_client x) v)"
proof -
  have c: "checkReplicaHealth mo penv io cy s rep r w =
    (on_replica s (r_id rep) (advance_restart (cy_now cy) (cy_jitter cy)) (on_replica s (r_id rep) (SetHealthy False)
      (if needs_auth_error e then markNeedsAuthIfNew s ''authorization required''
         (setReplicaStatusLocked s (r_id rep) (ping_status (cy_now cy) (replicaStatusLocked r s (r_id rep)) (Some e)) r)
       else setReplicaStatusLocked s (r_id rep) (ping_status (cy_now cy) (replicaStatusLocked r s (r_id rep)) (Some e)) r)), w2)"
    using assms(1-5) by (simp add: checkReplicaHealth_def try_reconnect_def Let_def)
  have x: "x = advance_restart (cy_now cy) (cy_jitter cy) (SetHealthy False rep)"
    using assms(8-10) unfolding c by (auto simp: replicas_on_replica split: if_splits)
  let ?a = "bo_attempts (r_restart rep)" and ?j = "jitter_offset (backoff_base (bo_attempts (r_restart rep))) (cy_jitter cy)"
  have base: "backoff_base ?a = min (2 ^ unat ?a * second) (30 * second)"
    by (simp add: backoff_base_eq restartBackoffCap_def)
  then have "0 \<le> backoff_base ?a" by simp
  from jitter_bound [OF assms(6,7) this] have "4 * (cy_now cy' - cy_now cy) < 4 * (backoff_base ?a + ?j)"
    using assms(11) unfolding base [symmetric] by (simp add: abs_if split: if_splits)
  then have "cy_now cy' < cy_now cy + computeBackoff ?a (cy_jitter cy)" by (simp add: computeBackoff_def)
  then have "\<not> ShouldTry (r_restart x) (cy_now cy')"
    by (simp add: x advance_restart_def SetHealthy_def Advance_def ShouldTry_def Let_def)
  then show ?thesis
    using assms(12,13)
    by (auto simp: checkReplicaHealth_def try_reconnect_def Let_def split: prod.split option.split)
qed

lemma rollup_Nil: "rollup r s [] = \<lparr>ra_any = False, ra_saw = False, ra_check = None, ra_healthy = None, ra_error = []\<rparr>"
  by (simp add: rollup_def)

lemma rollup_snoc: "rollup r s (xs @ [x]) = rollup_step r s x (rollup r s xs)"
  by (simp add: rollup_def)

text \<open>
  The status of a server is that of its replicas: there is none when no replica has a status; otherwise it is healthy
  exactly when some replica is, its error is empty unless no replica is healthy and then is empty or that of a replica, and no
  replica was checked or seen healthy later than it says.
\<close>

theorem rollup_exact:
  shows "(GetHealthStatus (recomputeRollup s reps r) s = None \<longleftrightarrow> (\<forall>x\<in>set reps. replicaStatusLocked r s (r_id x) = None))
     \<and> (\<forall>h. GetHealthStatus (recomputeRollup s reps r) s = Some h \<longrightarrow>
          (hs_healthy h \<longleftrightarrow> (\<exists>x\<in>set reps. \<exists>st. replicaStatusLocked r s (r_id x) = Some st \<and> hs_healthy st))
        \<and> (hs_error h \<noteq> [] \<longrightarrow> \<not> hs_healthy h \<and>
             (\<exists>x\<in>set reps. \<exists>st. replicaStatusLocked r s (r_id x) = Some st \<and> hs_error h = hs_error st))
        \<and> (\<forall>x\<in>set reps. \<forall>st t. replicaStatusLocked r s (r_id x) = Some st \<longrightarrow> hs_lastCheck st = Some t \<longrightarrow>
             (\<exists>u. hs_lastCheck h = Some u \<and> t \<le> u)))"
proof -
  have "(ra_saw (rollup r s reps) \<longleftrightarrow> (\<exists>x\<in>set reps. replicaStatusLocked r s (r_id x) \<noteq> None))
     \<and> (ra_any (rollup r s reps) \<longleftrightarrow> (\<exists>x\<in>set reps. \<exists>st. replicaStatusLocked r s (r_id x) = Some st \<and> hs_healthy st))
     \<and> (ra_error (rollup r s reps) \<noteq> [] \<longrightarrow>
          (\<exists>x\<in>set reps. \<exists>st. replicaStatusLocked r s (r_id x) = Some st \<and> ra_error (rollup r s reps) = hs_error st))
     \<and> (\<forall>x\<in>set reps. \<forall>st t. replicaStatusLocked r s (r_id x) = Some st \<longrightarrow> hs_lastCheck st = Some t \<longrightarrow>
          (\<exists>u. ra_check (rollup r s reps) = Some u \<and> t \<le> u))"
    (is "?saw reps \<and> ?any reps \<and> ?err reps \<and> ?check reps")
  proof (intro conjI)
    show "?saw reps" by (induction reps rule: rev_induct) (auto simp: rollup_snoc rollup_Nil rollup_step_def split: option.splits)
    show "?any reps" by (induction reps rule: rev_induct) (auto simp: rollup_snoc rollup_Nil rollup_step_def split: option.splits)
    show "?err reps" by (induction reps rule: rev_induct) (auto simp: rollup_snoc rollup_Nil rollup_step_def split: option.splits)
    show "?check reps"
    proof (induction reps rule: rev_induct)
      case (snoc y ys)
      show ?case
      proof (cases "replicaStatusLocked r s (r_id y)")
        case None
        with snoc show ?thesis by (simp add: rollup_snoc rollup_step_def)
      next
        case (Some st)
        with snoc show ?thesis
          by (fastforce simp: rollup_snoc rollup_step_def later_time_def split: option.splits)
      qed
    qed simp
  qed
  then show ?thesis
    by (simp add: recomputeRollup_def GetHealthStatus_def Let_def map_of_update map_of_delete)
qed

definition demo_monitor :: "nat monitor" where
  "demo_monitor = \<lparr>mo_pingable = (\<lambda>_. True), mo_ping = (\<lambda>_ w. (Some (OtherError ''timeout''), w + 1)),
     mo_reconnectable = (\<lambda>_. True), mo_reconnect = (\<lambda>_ w. (Inl (OtherError ''refused''), w + 100))\<rparr>"

definition demo_clock :: "gotime \<Rightarrow> cycle_clock" where
  "demo_clock t = \<lparr>cy_now = t, cy_later = t, cy_jitter = 0\<rparr>"

definition demo_replica :: replica where
  "demo_replica = hd (replicas_of demo_registry ''db'')"

definition demo_checked :: "bucket registry \<times> nat" where
  "demo_checked = checkReplicaHealth demo_monitor pins_demo_env pins_demo_io (demo_clock 0) ''db'' demo_replica demo_registry 0"

lemma demo_facts:
  "map r_id (replicas_of (fst demo_checked) ''db'') = [0, 1]" "map r_id (replicas_of demo_registry ''db'') = [0, 1]"
  "r_id demo_replica = 0" "ShouldTry (r_restart demo_replica) 0" "bo_attempts (r_restart demo_replica) = 0"
  "\<not> isl (fst (RouteToolCallReplica (reg_router (fst demo_checked)) ''db__get''))"
  "ParsePrefixedTool ''db__get'' = Inr (''db'', ''get'')"
  by code_simp+

theorem unhealthy_replica_gets_no_call_witness:
  "(\<exists>x t'. fst (RouteToolCallReplica (reg_router (fst demo_checked)) ''db__get'') = Inr (x, t') \<and> r_id x \<noteq> 0)
    \<and> map_option hs_healthy (replicaStatusLocked (fst demo_checked) ''db'' 0) = Some False"
proof -
  obtain r' w' where c: "demo_checked = (r', w')" by fastforce
  obtain y where "fst (RouteToolCallReplica (reg_router r') ''db__get'') = Inr y"
    using demo_facts(6) by (cases "fst (RouteToolCallReplica (reg_router r') ''db__get'')") (auto simp: c)
  then obtain x t' where x: "fst (RouteToolCallReplica (reg_router r') ''db__get'') = Inr (x, t')" by (cases y) auto
  have b: "\<not> back_in_service demo_monitor (demo_clock 0) demo_replica 0" "mo_pingable demo_monitor (r_client demo_replica)"
    by (simp_all add: back_in_service_def demo_monitor_def)
  note u = unhealthy_replica_gets_no_call [OF b(2,1) c [unfolded demo_checked_def], unfolded demo_facts(3)]
  from u x demo_facts(7) have "r_id x \<noteq> 0" by blast
  with u x show ?thesis by (auto simp: c)
qed

theorem reconnects_are_spaced_witness:
  "\<exists>x\<in>set (replicas_of (fst demo_checked) ''db'').
     snd (checkReplicaHealth demo_monitor pins_demo_env pins_demo_io (demo_clock 500000000) ''db'' x demo_registry 7) = 8"
proof -
  have "0 \<in> set (map r_id (replicas_of (fst demo_checked) ''db''))" by (simp add: demo_facts(1))
  then obtain x where x: "x \<in> set (replicas_of (fst demo_checked) ''db'')" "r_id x = 0" by auto
  have "distinct (map r_id (replicas_of demo_registry ''db''))" "demo_replica \<in> set (replicas_of demo_registry ''db'')"
    using demo_facts(2) by (simp, cases "replicas_of demo_registry ''db''") (simp_all add: demo_replica_def)
  then have one: "\<forall>y\<in>set (replicas_of demo_registry ''db''). r_id y = r_id demo_replica \<longrightarrow> y = demo_replica"
    by (auto simp: distinct_map inj_on_def)
  have "snd (checkReplicaHealth demo_monitor pins_demo_env pins_demo_io (demo_clock 500000000) ''db'' x demo_registry 7) =
      snd (mo_ping demo_monitor (r_client x) 7)"
    by (rule reconnects_are_spaced [of demo_monitor demo_replica 0 "OtherError ''timeout''" 1 "demo_clock 0" "OtherError ''refused''" 101
          x pins_demo_env pins_demo_io "''db''" demo_registry])
       (use x one demo_facts(3-5) in \<open>simp_all add: demo_monitor_def demo_clock_def demo_checked_def\<close>)
  with x(1) show ?thesis by (auto simp: demo_monitor_def)
qed

end
