(* ===== verification/Log_Buffer.thy ===== *)
theory Log_Buffer
  imports Prelude
begin

text \<open>
  The in-memory log ring (\<^verbatim>\<open>pkg/logging/buffer.go\<close>): a circular array of entries with a write position, its
  readers and the preload from a file at start-up. The abstract view is a list, oldest entry first, that keeps the
  last entries up to the capacity.

  Entries are any type \<open>'e\<close>; the array starts filled with the zero value. The mutex is the atomicity of an operation.
  Reading a file and parsing one of its lines are parameters; the slog handler in front of the ring is not modelled.
\<close>

record 'e log_buffer =
  lb_entries :: "'e list"
  lb_maxSize :: int
  lb_position :: int
  lb_wrapped :: bool

definition NewLogBuffer :: "'e \<Rightarrow> int \<Rightarrow> 'e log_buffer" where
  "NewLogBuffer zero maxSize =
     (let m = (if maxSize \<le> 0 then 1000 else maxSize)
      in \<lparr>lb_entries = replicate (nat m) zero, lb_maxSize = m, lb_position = 0, lb_wrapped = False\<rparr>)"

definition Add_entry :: "'e \<Rightarrow> 'e log_buffer \<Rightarrow> 'e log_buffer" where
  "Add_entry e b =
     (let b1 = b\<lparr>lb_entries := (lb_entries b)[nat (lb_position b) := e], lb_position := lb_position b + 1\<rparr> in
      if lb_position b1 \<ge> lb_maxSize b1 then b1\<lparr>lb_position := 0, lb_wrapped := True\<rparr> else b1)"

definition count_entries :: "'e log_buffer \<Rightarrow> int" where
  "count_entries b = (if lb_wrapped b then lb_maxSize b else lb_position b)"

definition Count_entries :: "'e log_buffer \<Rightarrow> int" where
  "Count_entries b = count_entries b"

definition Capacity :: "'e log_buffer \<Rightarrow> int" where
  "Capacity b = lb_maxSize b"

definition Clear_buffer :: "'e log_buffer \<Rightarrow> 'e log_buffer" where
  "Clear_buffer b = b\<lparr>lb_position := 0, lb_wrapped := False\<rparr>"

definition GetRecent :: "int \<Rightarrow> 'e log_buffer \<Rightarrow> 'e list" where
  "GetRecent n0 b =
     (let count = count_entries b; n = (if n0 \<le> 0 \<or> n0 > count then count else n0) in
      if n = 0 then []
      else if lb_wrapped b
      then let s = lb_position b - n; start = (if s < 0 then s + lb_maxSize b else s)
           in map (\<lambda>i. lb_entries b ! nat ((start + int i) mod lb_maxSize b)) [0..<nat n]
      else let s = lb_position b - n; start = (if s < 0 then 0 else s)
           in drop (nat start) (take (nat (lb_position b)) (lb_entries b)))"

text \<open>The scan from the newest entry; the first argument counts the entries left.\<close>

fun match_scan :: "nat \<Rightarrow> ('e \<Rightarrow> bool) \<Rightarrow> int \<Rightarrow> int \<Rightarrow> 'e log_buffer \<Rightarrow> int \<Rightarrow> 'e list \<Rightarrow> 'e list" where
  "match_scan 0 match n newest b i result = result"
| "match_scan (Suc k) match n newest b i result =
     (if int (length result) < n
      then let idx0 = newest - i; idx = (if idx0 < 0 then idx0 + lb_maxSize b else idx0); e = lb_entries b ! nat idx
           in match_scan k match n newest b (i + 1) (if match e then result @ [e] else result)
      else result)"

definition GetRecentMatching :: "int \<Rightarrow> ('e \<Rightarrow> bool) \<Rightarrow> 'e log_buffer \<Rightarrow> 'e list" where
  "GetRecentMatching n0 match b =
     (let count = count_entries b; n = (if n0 \<le> 0 \<or> n0 > count then count else n0) in
      if count = 0 then []
      else let newest = (if lb_position b - 1 < 0 then lb_maxSize b - 1 else lb_position b - 1)
           in rev (match_scan (nat count) match n newest b 0 []))"

text \<open>What opening and scanning the file can yield.\<close>

datatype log_file = FileMissing | OpenFailed | ScanFailed | FileLines "string list"

datatype seed_error = ErrSeedOpen string | ErrSeedScan string

definition SeedFromFile :: "(string \<Rightarrow> 'e option) \<Rightarrow> string \<Rightarrow> log_file \<Rightarrow> int \<Rightarrow> 'e log_buffer
    \<Rightarrow> seed_error option \<times> 'e log_buffer" where
  "SeedFromFile parse path f n b =
     (if path = [] then (None, b)
      else case f of
          FileMissing \<Rightarrow> (None, b)
        | OpenFailed \<Rightarrow> (Some (ErrSeedOpen path), b)
        | ScanFailed \<Rightarrow> (Some (ErrSeedScan path), b)
        | FileLines ls \<Rightarrow>
            let lines = (if n > 0 \<and> int (length ls) > n then drop (length ls - nat n) ls else ls)
            in (None, fold (\<lambda>line b. if trim_space line = [] then b
                                     else case parse line of None \<Rightarrow> b | Some e \<Rightarrow> Add_entry e b) lines b))"

subsection \<open>The abstract list\<close>

definition last_n :: "nat \<Rightarrow> 'e list \<Rightarrow> 'e list" where
  "last_n n xs = drop (length xs - n) xs"

definition ring_ok :: "'e log_buffer \<Rightarrow> bool" where
  "ring_ok b \<longleftrightarrow> 0 \<le> lb_position b \<and> lb_position b < lb_maxSize b \<and> int (length (lb_entries b)) = lb_maxSize b"

definition ring_contents :: "'e log_buffer \<Rightarrow> 'e list" where
  "ring_contents b =
     (let p = nat (lb_position b) in
      if lb_wrapped b then drop p (lb_entries b) @ take p (lb_entries b) else take p (lb_entries b))"

definition spec_add :: "nat \<Rightarrow> 'e \<Rightarrow> 'e list \<Rightarrow> 'e list" where
  "spec_add cap e xs = last_n cap (xs @ [e])"

text \<open>A request for \<open>n\<close> entries: zero or less, or more than there are, means all.\<close>

definition asked :: "int \<Rightarrow> 'e list \<Rightarrow> nat" where
  "asked n xs = (if n \<le> 0 \<or> n > int (length xs) then length xs else nat n)"

lemma ring_new: "ring_ok (NewLogBuffer z m)" "ring_contents (NewLogBuffer z m) = []"
  by (simp_all add: ring_ok_def NewLogBuffer_def ring_contents_def Let_def)

lemma ring_clear: "ring_ok b \<Longrightarrow> ring_ok (Clear_buffer b) \<and> ring_contents (Clear_buffer b) = []"
  by (simp add: ring_ok_def Clear_buffer_def ring_contents_def)

lemma ring_add:
  assumes "ring_ok b"
  shows "ring_ok (Add_entry e b)" and "ring_contents (Add_entry e b) = spec_add (nat (lb_maxSize b)) e (ring_contents b)"
    and "lb_maxSize (Add_entry e b) = lb_maxSize b"
proof -
  define p where "p = nat (lb_position b)"
  have p: "lb_position b = int p" "p < length (lb_entries b)" "lb_maxSize b = int (length (lb_entries b))"
    using assms by (auto simp: ring_ok_def p_def)
  show "ring_ok (Add_entry e b)" "lb_maxSize (Add_entry e b) = lb_maxSize b"
    using assms by (auto simp: ring_ok_def Add_entry_def Let_def)
  define xs where "xs = lb_entries b"
  have upd: "xs[p := e] = take p xs @ e # drop (Suc p) xs" using p(2) by (simp add: xs_def upd_conv_take_nth_drop)
  show "ring_contents (Add_entry e b) = spec_add (nat (lb_maxSize b)) e (ring_contents b)"
  proof (cases "Suc p < length xs")
    case True
    then show ?thesis using p(2) upd
      by (simp add: ring_contents_def Add_entry_def Let_def p(1,3) spec_add_def last_n_def xs_def [symmetric] min_def nat_add_distrib)
  next
    case False
    with p(2) have l: "length xs = Suc p" by (simp add: xs_def)
    then have "drop p xs = [xs ! p]" by (metis Cons_nth_drop_Suc drop_all le_refl lessI)
    then show ?thesis using l upd
      by (simp add: ring_contents_def Add_entry_def Let_def p(1,3) spec_add_def last_n_def xs_def [symmetric] nat_add_distrib)
  qed
qed

lemma length_contents: "ring_ok b \<Longrightarrow> int (length (ring_contents b)) = count_entries b"
  by (auto simp: ring_ok_def ring_contents_def count_entries_def Let_def)

lemma contents_bounded: "ring_ok b \<Longrightarrow> length (ring_contents b) \<le> nat (lb_maxSize b)"
  using length_contents [of b] by (auto simp: ring_ok_def count_entries_def split: if_splits)

text \<open>The entry the readers find at the place of the \<open>i\<close>-th entry counted from the newest.\<close>

lemma nth_newest:
  assumes "ring_ok b" "i < length (ring_contents b)"
  shows "rev (ring_contents b) ! i = lb_entries b ! nat ((lb_position b - 1 - int i) mod lb_maxSize b)"
proof -
  define p where "p = nat (lb_position b)"
  define N where "N = length (lb_entries b)"
  have p: "lb_position b = int p" "p < N" "lb_maxSize b = int N" using assms(1) by (auto simp: ring_ok_def p_def N_def)
  show ?thesis
  proof (cases "i < p")
    case True
    have "(int p - 1 - int i) mod int N = int p - 1 - int i" using True p(2) by simp
    moreover have "nat (int p - 1 - int i) = p - Suc i" using True by simp
    ultimately show ?thesis
      using True p(2) assms(2)
      by (auto simp: ring_contents_def Let_def p(1,3) rev_nth nth_append N_def [symmetric] split: if_splits)
  next
    case False
    then have w: "lb_wrapped b" and i: "i < N"
      using assms(2) p(2) by (auto simp: ring_contents_def Let_def p(1) N_def [symmetric] split: if_splits)
    have "(int p - 1 - int i) mod int N = int p - 1 - int i + int N"
    proof -
      have "(int p - 1 - int i + int N) mod int N = int p - 1 - int i + int N"
        using False i p(2) by (intro mod_pos_pos_trivial) auto
      then show ?thesis by simp
    qed
    moreover have "nat (int p - 1 - int i + int N) = N + p - Suc i" using i p(2) by simp
    moreover have "rev (ring_contents b) ! i = lb_entries b ! (N + p - Suc i)"
      using False w i p(2) by (simp add: ring_contents_def Let_def p(1) rev_nth nth_append N_def [symmetric] add.commute)
    ultimately show ?thesis by (simp add: p(1,3))
  qed
qed

lemma last_n_rev: "last_n n xs = rev (take n (rev xs))"
  by (simp add: last_n_def rev_take)

lemma GetRecent_spec:
  assumes "ring_ok b"
  shows "GetRecent n b = last_n (asked n (ring_contents b)) (ring_contents b)"
proof -
  define k where "k = asked n (ring_contents b)"
  have len: "count_entries b = int (length (ring_contents b))" using length_contents [OF assms] by simp
  have k: "(if n \<le> 0 \<or> n > count_entries b then count_entries b else n) = int k" "k \<le> length (ring_contents b)"
    by (auto simp: k_def asked_def len)
  show ?thesis
  proof (cases "lb_wrapped b")
    case True
    have entry: "lb_entries b ! nat ((start + int i) mod lb_maxSize b) = rev (ring_contents b) ! (k - Suc i)"
      if "i < k" "start = lb_position b - int k \<or> start = lb_position b - int k + lb_maxSize b" for i start
    proof -
      have idx: "lb_position b - 1 - int (k - Suc i) = lb_position b - int k + int i" using that(1) by simp
      have "start + int i = lb_position b - int k + int i \<or>
          start + int i = lb_position b - int k + int i + lb_maxSize b"
        using that(2) by linarith
      then have wrap: "(lb_position b - int k + int i) mod lb_maxSize b = (start + int i) mod lb_maxSize b"
        by (metis mod_add_self2)
      have "k - Suc i < length (ring_contents b)" using that(1) k(2) by simp
      from nth_newest [OF assms this] show ?thesis by (simp only: idx wrap)
    qed
    have "GetRecent n b = map (\<lambda>i. rev (ring_contents b) ! (k - Suc i)) [0..<k]"
    proof -
      define start where
        "start = (if lb_position b - int k < 0 then lb_position b - int k + lb_maxSize b else lb_position b - int k)"
      have "GetRecent n b =
          (if int k = 0 then [] else map (\<lambda>i. lb_entries b ! nat ((start + int i) mod lb_maxSize b)) [0..<nat (int k)])"
        by (simp only: GetRecent_def Let_def k(1) True if_True start_def)
      moreover have "map (\<lambda>i. lb_entries b ! nat ((start + int i) mod lb_maxSize b)) [0..<k] =
          map (\<lambda>i. rev (ring_contents b) ! (k - Suc i)) [0..<k]"
        by (rule map_cong [OF refl], rule entry) (auto simp: start_def)
      ultimately show ?thesis by simp
    qed
    also have "\<dots> = last_n k (ring_contents b)"
      using k(2) by (intro nth_equalityI) (auto simp: last_n_rev rev_nth min_def)
    finally show ?thesis by (simp add: k_def)
  next
    case False
    define p where "p = length (ring_contents b)"
    have p: "lb_position b = int p" using len False by (simp add: count_entries_def p_def)
    then have c: "take p (lb_entries b) = ring_contents b" using False by (simp add: ring_contents_def)
    have "k \<le> p" using k(2) by (simp add: p_def)
    then have "GetRecent n b = drop (p - k) (ring_contents b)"
      using False unfolding GetRecent_def Let_def k(1) p by (auto simp: c p_def [symmetric] nat_diff_distrib)
    then show ?thesis by (simp add: last_n_def k_def p_def)
  qed
qed

lemma match_scan_spec:
  assumes "ring_ok b" "k \<le> length (ring_contents b)" "int (length res) \<le> n"
    and "newest = (if lb_position b - 1 < 0 then lb_maxSize b - 1 else lb_position b - 1)"
  shows "match_scan k P n newest b (int (length (ring_contents b) - k)) res =
     res @ take (nat n - length res) (filter P (drop (length (ring_contents b) - k) (rev (ring_contents b))))"
  using assms(2,3)
proof (induction k arbitrary: res)
  case (Suc k)
  let ?c = "length (ring_contents b)" and ?i = "length (ring_contents b) - Suc k"
  show ?case
  proof (cases "int (length res) < n")
    case True
    have i: "?i < ?c" using Suc.prems(1) by simp
    have bounds: "0 \<le> lb_position b" "lb_position b < lb_maxSize b" using assms(1) by (simp_all add: ring_ok_def)
    define idx where "idx = (if newest - int ?i < 0 then newest - int ?i + lb_maxSize b else newest - int ?i)"
    have "int ?i < lb_maxSize b" using i length_contents [OF assms(1)] bounds by (auto simp: count_entries_def split: if_splits)
    then have "0 \<le> idx" "idx < lb_maxSize b"
      using bounds assms(4) by (auto simp: idx_def)
    moreover have "idx = lb_position b - 1 - int ?i \<or> idx = lb_position b - 1 - int ?i + lb_maxSize b"
      using bounds \<open>int ?i < lb_maxSize b\<close> assms(4) by (auto simp: idx_def)
    ultimately have "idx = (lb_position b - 1 - int ?i) mod lb_maxSize b"
      by (metis mod_add_self2 mod_pos_pos_trivial)
    then have e: "lb_entries b ! nat idx = rev (ring_contents b) ! ?i" using nth_newest [OF assms(1) i] by simp
    have next_i: "int ?i + 1 = int (?c - k)" using Suc.prems(1) by simp
    have d: "drop ?i (rev (ring_contents b)) = rev (ring_contents b) ! ?i # drop (?c - k) (rev (ring_contents b))"
      using Suc.prems(1) by (subst Cons_nth_drop_Suc [symmetric]) (simp_all add: Suc_diff_Suc)
    have n: "nat n - length res = Suc (nat n - Suc (length res))" using True by simp
    have "match_scan (Suc k) P n newest b (int ?i) res =
        match_scan k P n newest b (int (?c - k)) (if P (rev (ring_contents b) ! ?i) then res @ [rev (ring_contents b) ! ?i] else res)"
      by (simp only: match_scan.simps Let_def idx_def [symmetric] e next_i True if_True)
    then show ?thesis
      using Suc.IH [of res] Suc.IH [of "res @ [rev (ring_contents b) ! ?i]"] Suc.prems True n unfolding d by simp
  qed (use Suc.prems in simp)
qed simp

lemma GetRecentMatching_spec:
  assumes "ring_ok b"
  shows "GetRecentMatching n P b = last_n (asked n (ring_contents b)) (filter P (ring_contents b))"
proof -
  define newest where "newest = (if lb_position b - 1 < 0 then lb_maxSize b - 1 else lb_position b - 1)"
  have len: "count_entries b = int (length (ring_contents b))" using length_contents [OF assms] by simp
  have k: "(if n \<le> 0 \<or> n > count_entries b then count_entries b else n) = int (asked n (ring_contents b))"
    by (auto simp: asked_def len)
  have "match_scan (length (ring_contents b)) P (int (asked n (ring_contents b))) newest b 0 [] =
      take (asked n (ring_contents b)) (filter P (rev (ring_contents b)))"
    using match_scan_spec [OF assms, of "length (ring_contents b)" "[]" "int (asked n (ring_contents b))" newest P]
    by (simp add: newest_def)
  then show ?thesis
    unfolding GetRecentMatching_def Let_def k newest_def [symmetric]
    by (simp add: len last_n_rev rev_filter)
qed


subsection \<open>The ring is the list of the last entries\<close>

lemma count_and_capacity: "ring_ok b \<Longrightarrow> Count_entries b = int (length (ring_contents b)) \<and> Count_entries b \<le> Capacity b"
  using length_contents [of b] contents_bounded [of b] by (auto simp: Count_entries_def Capacity_def ring_ok_def)

datatype 'e log_op = OpAdd 'e | OpClear | OpSeed string log_file int

fun log_step :: "(string \<Rightarrow> 'e option) \<Rightarrow> 'e log_op \<Rightarrow> 'e log_buffer \<Rightarrow> 'e log_buffer" where
  "log_step parse (OpAdd e) b = Add_entry e b"
| "log_step parse OpClear b = Clear_buffer b"
| "log_step parse (OpSeed path f n) b = snd (SeedFromFile parse path f n b)"

text \<open>What a preload adds: the entries of the last \<open>n\<close> lines that parse.\<close>

definition seed_entries :: "(string \<Rightarrow> 'e option) \<Rightarrow> string \<Rightarrow> log_file \<Rightarrow> int \<Rightarrow> 'e list" where
  "seed_entries parse path f n =
     (case f of
        FileLines ls \<Rightarrow>
          if path = [] then []
          else List.map_filter (\<lambda>line. if trim_space line = [] then None else parse line)
                 (if n > 0 then last_n (nat n) ls else ls)
      | _ \<Rightarrow> [])"

fun log_list :: "nat \<Rightarrow> (string \<Rightarrow> 'e option) \<Rightarrow> 'e log_op \<Rightarrow> 'e list \<Rightarrow> 'e list" where
  "log_list cap parse (OpAdd e) xs = spec_add cap e xs"
| "log_list cap parse OpClear xs = []"
| "log_list cap parse (OpSeed path f n) xs = fold (spec_add cap) (seed_entries parse path f n) xs"

lemma add_all:
  assumes "ring_ok b" "lb_maxSize b = int cap"
  shows "ring_ok (fold Add_entry es b) \<and> lb_maxSize (fold Add_entry es b) = int cap \<and>
     ring_contents (fold Add_entry es b) = fold (spec_add cap) es (ring_contents b)"
  using assms by (induction es arbitrary: b) (simp_all add: ring_add)

lemma seed_adds: "snd (SeedFromFile parse path f n b) = fold Add_entry (seed_entries parse path f n) b"
proof -
  have "fold (\<lambda>line b. if trim_space line = [] then b else case parse line of None \<Rightarrow> b | Some e \<Rightarrow> Add_entry e b) ls b =
      fold Add_entry (List.map_filter (\<lambda>line. if trim_space line = [] then None else parse line) ls) b" for ls b
    by (induction ls arbitrary: b) (auto simp: List.map_filter_simps split: option.splits)
  then show ?thesis
    by (cases f) (auto simp: SeedFromFile_def seed_entries_def last_n_def Let_def)
qed

lemma step_refines:
  assumes "ring_ok b" "lb_maxSize b = int cap"
  shows "ring_ok (log_step parse q b) \<and> lb_maxSize (log_step parse q b) = int cap \<and>
     ring_contents (log_step parse q b) = log_list cap parse q (ring_contents b)"
  using assms ring_add [of b] ring_clear [of b] add_all [of b]
  by (cases q) (simp_all add: seed_adds Clear_buffer_def)

lemma run_refines:
  assumes "ring_ok b" "lb_maxSize b = int cap"
  shows "ring_ok (fold (log_step parse) qs b) \<and> lb_maxSize (fold (log_step parse) qs b) = int cap \<and>
     ring_contents (fold (log_step parse) qs b) = fold (log_list cap parse) qs (ring_contents b)"
  using assms
proof (induction qs arbitrary: b)
  case (Cons q qs)
  then show ?case using step_refines [OF Cons.prems, of parse q] by simp
qed simp

text \<open>C31. 
  The ring refines a list: after any sequence of additions, preloads and clears from a new buffer, the readers
  return what the last entries of the list of the same operations give, filtered or not, and the number of
  entries never exceeds the capacity.
\<close>

theorem ring_refines_list:
  fixes zero :: 'e and parse :: "string \<Rightarrow> 'e option"
  shows "let cap = (if maxSize \<le> 0 then 1000 else nat maxSize);
             b = fold (log_step parse) qs (NewLogBuffer zero maxSize);
             xs = fold (log_list cap parse) qs []
         in GetRecent n b = last_n (asked n xs) xs \<and>
            GetRecentMatching n P b = last_n (asked n xs) (filter P xs) \<and>
            Count_entries b = int (length xs) \<and> length xs \<le> cap \<and> Capacity b = int cap"
proof -
  define cap where "cap = (if maxSize \<le> 0 then 1000 else nat maxSize)"
  define b where "b = fold (log_step parse) qs (NewLogBuffer zero maxSize)"
  have "lb_maxSize (NewLogBuffer zero maxSize) = int cap" by (simp add: NewLogBuffer_def cap_def Let_def)
  from run_refines [OF ring_new(1) this, of parse qs]
  have b: "ring_ok b" "lb_maxSize b = int cap" "ring_contents b = fold (log_list cap parse) qs []"
    by (simp_all add: b_def ring_new(2))
  show ?thesis
    unfolding Let_def cap_def [symmetric] b_def [symmetric]
    using GetRecent_spec [OF b(1), of n] GetRecentMatching_spec [OF b(1), of n P]
      count_and_capacity [OF b(1)] contents_bounded [OF b(1)] b by (simp add: Capacity_def)
qed

end
