(* ===== verification/Skill_File.thy ===== *)
theory Skill_File
  imports Paths Pins
begin

text \<open>
  Skills and their files (\<^verbatim>\<open>pkg/registry/types.go\<close>, \<^verbatim>\<open>validator.go\<close>, \<^verbatim>\<open>frontmatter.go\<close>): the
  record of a skill, its validation, and the text of a \<^verbatim>\<open>SKILL.md\<close>: YAML front matter between two lines of
  dashes, then the Markdown body.

  YAML is a parameter (\<open>yaml_lib\<close>): reading a text into a node tree, decoding a node into a field (which may keep the
  value the field has, as null does), writing fields. What the code does with the tree is modelled. A value of a key the code does not know is JSON, or a text when it has no JSON form.
\<close>

type_synonym yaml_any = "string + json"

record agent_skill =
  ak_name :: string
  ak_description :: string
  ak_license :: string
  ak_compatibility :: string
  ak_metadata :: "(string, string) gomap"
  ak_allowedTools :: string
  ak_acceptance :: "string list"
  ak_state :: string
  ak_extra :: "(string, yaml_any) gomap"
  ak_body :: string
  ak_fileCount :: int
  ak_dir :: string

definition blank_skill :: agent_skill where
  "blank_skill = \<lparr>ak_name = [], ak_description = [], ak_license = [], ak_compatibility = [], ak_metadata = [],
     ak_allowedTools = [], ak_acceptance = [], ak_state = [], ak_extra = [], ak_body = [], ak_fileCount = 0, ak_dir = []\<rparr>"

definition StateDraft :: string where "StateDraft = ''draft''"
definition StateActive :: string where "StateActive = ''active''"
definition StateDisabled :: string where "StateDisabled = ''disabled''"

subsection \<open>Validation\<close>

text \<open>The error, and the state with the default filled in.\<close>

definition validateState :: "string \<Rightarrow> string option \<times> string" where
  "validateState s =
     (if s = [] then (None, StateDraft)
      else if s \<in> {StateDraft, StateActive, StateDisabled} then (None, s)
      else (Some (''state '' @ go_quote s @ '' must be one of: draft, active, disabled''), s))"

definition skillNamePattern :: regex where
  "skillNamePattern =
     (let w = Sym (\<lambda>c. is_lower c \<or> is_digit c)
      in Cat w (opt (Cat (Rep (Sym (\<lambda>c. is_lower c \<or> is_digit c \<or> c = CHR ''-''))) w)))"

definition maxNameLength :: int where "maxNameLength = 64"
definition maxDescriptionLength :: int where "maxDescriptionLength = 1024"
definition maxBodyLines :: int where "maxBodyLines = 500"
definition maxBodyTokens :: int where "maxBodyTokens = 5000"
definition bytesPerToken :: int where "bytesPerToken = 4"

definition ValidateSkillName :: "string \<Rightarrow> string option" where
  "ValidateSkillName name =
     (if name = [] then Some ''name is required''
      else if int (length name) > maxNameLength
      then Some (''name exceeds '' @ itoa maxNameLength @ '' characters ('' @ itoa (int (length name)) @ '')'')
      else if contains name ''--'' then Some (''name '' @ go_quote name @ '' must not contain consecutive hyphens'')
      else if \<not> MatchString skillNamePattern name
      then Some (''name '' @ go_quote name @ '' must be lowercase alphanumeric with hyphens (matching ^[a-z0-9]([a-z0-9-]*[a-z0-9])?$)'')
      else None)"

definition ValidateSkillFull :: "agent_skill \<Rightarrow> string list \<times> string list" where
  "ValidateSkillFull s =
     (let n = int (length (ak_description s));
          lineCount = int (length (filter (\<lambda>c. c = CHR 0x0A) (ak_body s))) + 1;
          tokens = int (length (ak_body s)) div bytesPerToken
      in ((case ValidateSkillName (ak_name s) of None \<Rightarrow> [] | Some e \<Rightarrow> [e])
            @ (if ak_description s = [] then [''description is required''] else [])
            @ (case fst (validateState (ak_state s)) of None \<Rightarrow> [] | Some e \<Rightarrow> [e]),
          (if ak_description s \<noteq> [] \<and> n > maxDescriptionLength
           then [''description exceeds '' @ itoa maxDescriptionLength @ '' characters ('' @ itoa n @ '')''] else [])
            @ (if ak_body s = [] then []
               else (if lineCount > maxBodyLines
                     then [''body exceeds '' @ itoa maxBodyLines @ '' lines ('' @ itoa lineCount @ '')''] else [])
                 @ (if tokens > maxBodyTokens
                    then [''body exceeds estimated '' @ itoa maxBodyTokens @ '' tokens (~'' @ itoa tokens @ '')''] else []))))"

definition ValidateSkill :: "agent_skill \<Rightarrow> string option" where
  "ValidateSkill s =
     (let errors = fst (ValidateSkillFull s)
      in if errors = [] then None else Some (''validation failed: '' @ join_with ''; '' errors))"

subsection \<open>Front matter\<close>

datatype yaml_node =
    YScalar string string
  | YSeq "yaml_node list"
  | YMap "(yaml_node \<times> yaml_node) list"
  | YAlias "yaml_node option"

record yaml_lib =
  y_nodes :: "string \<Rightarrow> yaml_node option"
  y_string :: "yaml_node \<Rightarrow> string \<Rightarrow> string option"
  y_strings :: "yaml_node \<Rightarrow> string list \<Rightarrow> string list option"
  y_any :: "yaml_node \<Rightarrow> yaml_any option"
  y_marshal :: "agent_skill \<Rightarrow> string option"
  y_marshalExtra :: "(string, yaml_any) gomap \<Rightarrow> string option"

fun metadataNodeString :: "yaml_lib \<Rightarrow> yaml_node \<Rightarrow> string" where
  "metadataNodeString y (YScalar tag v) = (if tag = ''!!null'' then [] else v)"
| "metadataNodeString y (YAlias None) = []"
| "metadataNodeString y (YAlias (Some n)) = metadataNodeString y n"
| "metadataNodeString y n = (case y_any y n of None \<Rightarrow> [] | Some (Inl s) \<Rightarrow> s | Some (Inr v) \<Rightarrow> Marshal v)"

fun metadata_entries :: "yaml_lib \<Rightarrow> (yaml_node \<times> yaml_node) list \<Rightarrow> (string, string) gomap \<Rightarrow> (string, string) gomap" where
  "metadata_entries y [] out = out"
| "metadata_entries y ((k, v) # kvs) out =
     metadata_entries y kvs (case k of YScalar _ key \<Rightarrow> AList.update key (metadataNodeString y v) out | _ \<Rightarrow> out)"

text \<open>A value that is no mapping leaves the metadata as they are.\<close>

definition UnmarshalYAML_metadata :: "yaml_lib \<Rightarrow> yaml_node \<Rightarrow> (string, string) gomap \<Rightarrow> (string, string) gomap" where
  "UnmarshalYAML_metadata y n m = (case n of YMap kvs \<Rightarrow> metadata_entries y kvs [] | _ \<Rightarrow> m)"

text \<open>\<^verbatim>\<open>Decode\<close> resolves an alias and clears on null before it calls the method above.\<close>

fun decode_metadata :: "yaml_lib \<Rightarrow> yaml_node \<Rightarrow> (string, string) gomap \<Rightarrow> (string, string) gomap" where
  "decode_metadata y (YAlias (Some n)) m = decode_metadata y n m"
| "decode_metadata y (YScalar tag v) m = (if tag = ''!!null'' then [] else UnmarshalYAML_metadata y (YScalar tag v) m)"
| "decode_metadata y n m = UnmarshalYAML_metadata y n m"

definition known_keys :: "string list" where
  "known_keys = [''name'', ''description'', ''license'', ''compatibility'', ''metadata'', ''allowed-tools'',
     ''acceptance_criteria'', ''state'']"

definition knownFrontmatterKey :: "string \<Rightarrow> bool" where
  "knownFrontmatterKey k \<longleftrightarrow> k \<in> set known_keys"

text \<open>One key of the front matter; \<open>None\<close> when a known key has a value of the wrong type.\<close>

definition set_key :: "yaml_lib \<Rightarrow> string \<Rightarrow> yaml_node \<Rightarrow> agent_skill \<Rightarrow> agent_skill option" where
  "set_key y key v s =
     (if key = ''name'' then map_option (\<lambda>x. s\<lparr>ak_name := x\<rparr>) (y_string y v (ak_name s))
      else if key = ''description'' then map_option (\<lambda>x. s\<lparr>ak_description := x\<rparr>) (y_string y v (ak_description s))
      else if key = ''license'' then map_option (\<lambda>x. s\<lparr>ak_license := x\<rparr>) (y_string y v (ak_license s))
      else if key = ''compatibility'' then map_option (\<lambda>x. s\<lparr>ak_compatibility := x\<rparr>) (y_string y v (ak_compatibility s))
      else if key = ''metadata'' then Some (s\<lparr>ak_metadata := decode_metadata y v (ak_metadata s)\<rparr>)
      else if key = ''allowed-tools'' then map_option (\<lambda>x. s\<lparr>ak_allowedTools := x\<rparr>) (y_string y v (ak_allowedTools s))
      else if key = ''acceptance_criteria'' then map_option (\<lambda>x. s\<lparr>ak_acceptance := x\<rparr>) (y_strings y v (ak_acceptance s))
      else if key = ''state'' then map_option (\<lambda>x. s\<lparr>ak_state := x\<rparr>) (y_string y v (ak_state s))
      else (case y_any y v of None \<Rightarrow> Some s | Some a \<Rightarrow> Some (s\<lparr>ak_extra := AList.update key a (ak_extra s)\<rparr>)))"

fun set_keys :: "yaml_lib \<Rightarrow> (yaml_node \<times> yaml_node) list \<Rightarrow> agent_skill \<Rightarrow> string + agent_skill" where
  "set_keys y [] s = Inr s"
| "set_keys y ((k, v) # kvs) s =
     (case k of
        YScalar _ key \<Rightarrow> (case set_key y key v s of None \<Rightarrow> Inl key | Some s' \<Rightarrow> set_keys y kvs s')
      | _ \<Rightarrow> set_keys y kvs s)"

definition UnmarshalYAML_skill :: "yaml_lib \<Rightarrow> yaml_node \<Rightarrow> agent_skill \<Rightarrow> string + agent_skill" where
  "UnmarshalYAML_skill y n s = (case n of YMap kvs \<Rightarrow> set_keys y kvs s | _ \<Rightarrow> Inr s)"

subsection \<open>The text of a skill\<close>

abbreviation newline :: char where "newline \<equiv> CHR 0x0A"

text \<open>\<^verbatim>\<open>strings.SplitAfter\<close> with a newline: every piece but the last ends in one.\<close>

fun split_after :: "string \<Rightarrow> string list" where
  "split_after [] = [[]]"
| "split_after (c # cs) =
     (if c = newline then [c] # split_after cs
      else case split_after cs of [] \<Rightarrow> [[c]] | w # ws \<Rightarrow> (c # w) # ws)"

definition is_delimiter :: "string \<Rightarrow> bool" where
  "is_delimiter line \<longleftrightarrow> trim_space (trim_right_char newline line) = ''---''"

datatype skill_file_error = ErrFrontmatter | ErrFrontmatterKey string | ErrMarshal | ErrMarshalExtra

definition default_state :: "agent_skill \<Rightarrow> agent_skill" where
  "default_state s = s\<lparr>ak_state := snd (validateState (ak_state s))\<rparr>"

text \<open>The first two delimiter lines, by their indices.\<close>

definition delimiters :: "string list \<Rightarrow> (nat \<times> nat) option" where
  "delimiters lines =
     (case filter (\<lambda>i. is_delimiter (lines ! i)) [0..<length lines] of i # j # _ \<Rightarrow> Some (i, j) | _ \<Rightarrow> None)"

definition ParseSkillMD :: "yaml_lib \<Rightarrow> string \<Rightarrow> skill_file_error + agent_skill" where
  "ParseSkillMD y text =
     (let content = replace_all [CHR 0x0D, newline] [newline] text;
          bare = default_state (blank_skill\<lparr>ak_body := content\<rparr>);
          lines = split_after content
      in if \<not> prefix ''---'' (dropWhile (\<lambda>c. c = CHR '' '' \<or> c = CHR 0x09) content) then Inr bare
         else case delimiters lines of
             None \<Rightarrow> Inr bare
           | Some (i, j) \<Rightarrow>
               let frontmatter = concat (drop (Suc i) (take j lines));
                   rest = concat (drop (Suc j) lines);
                   body = (if prefix [newline] rest then drop 1 rest else rest);
                   finish = (\<lambda>s. default_state (s\<lparr>ak_body := body\<rparr>))
               in if frontmatter = [] then Inr (finish blank_skill)
                  else case y_nodes y frontmatter of
                      None \<Rightarrow> Inl ErrFrontmatter
                    | Some n \<Rightarrow> (case UnmarshalYAML_skill y n blank_skill of
                          Inl k \<Rightarrow> Inl (ErrFrontmatterKey k) | Inr s \<Rightarrow> Inr (finish s)))"

definition unknown_extra :: "agent_skill \<Rightarrow> (string, yaml_any) gomap" where
  "unknown_extra s = filter (\<lambda>(k, v). \<not> knownFrontmatterKey k) (ak_extra s)"

text \<open>The YAML of a skill: its known fields, then the keys the code does not know.\<close>

definition skill_yaml :: "yaml_lib \<Rightarrow> agent_skill \<Rightarrow> skill_file_error + string" where
  "skill_yaml y s =
     (case y_marshal y s of
        None \<Rightarrow> Inl ErrMarshal
      | Some known \<Rightarrow>
          if unknown_extra s = [] then Inr known
          else (case y_marshalExtra y (unknown_extra s) of None \<Rightarrow> Inl ErrMarshalExtra | Some e \<Rightarrow> Inr (known @ e)))"

definition RenderSkillMD :: "yaml_lib \<Rightarrow> agent_skill \<Rightarrow> skill_file_error + string" where
  "RenderSkillMD y s =
     map_sum id (\<lambda>yaml. ''---'' @ [newline] @ yaml @ ''---'' @ [newline] @ (if ak_body s = [] then [] else newline # ak_body s))
       (skill_yaml y s)"

subsection \<open>The text is read back\<close>

text \<open>The nodes of the YAML that is written for a skill: a string is a scalar, and the entries of its two maps are
  written in an order of the library's choice.\<close>

definition str_node :: "string \<Rightarrow> yaml_node" where
  "str_node v = YScalar ''!!str'' v"

definition field_node :: "string \<Rightarrow> string \<Rightarrow> (yaml_node \<times> yaml_node) list" where
  "field_node k v = (if v = [] then [] else [(str_node k, str_node v)])"

definition skill_entries :: "(yaml_any \<Rightarrow> yaml_node) \<Rightarrow> agent_skill \<Rightarrow> (string, string) gomap \<Rightarrow> (string, yaml_any) gomap
    \<Rightarrow> (yaml_node \<times> yaml_node) list" where
  "skill_entries node s ms es =
     field_node ''name'' (ak_name s) @ field_node ''description'' (ak_description s)
     @ field_node ''license'' (ak_license s) @ field_node ''compatibility'' (ak_compatibility s)
     @ (if ms = [] then [] else [(str_node ''metadata'', YMap (map (\<lambda>(k, v). (str_node k, str_node v)) ms))])
     @ field_node ''allowed-tools'' (ak_allowedTools s)
     @ (if ak_acceptance s = [] then [] else [(str_node ''acceptance_criteria'', YSeq (map str_node (ak_acceptance s)))])
     @ field_node ''state'' (ak_state s)
     @ map (\<lambda>(k, v). (str_node k, node v)) es"

text \<open>What the YAML library does with the YAML of one skill: it reads the fields back, the entries of the maps in
  some order. A carriage return is written as an escape, so the YAML has none before a newline.\<close>

definition yaml_reads_back :: "yaml_lib \<Rightarrow> (yaml_any \<Rightarrow> yaml_node) \<Rightarrow> agent_skill \<Rightarrow> (string, string) gomap \<Rightarrow> (string, yaml_any) gomap
    \<Rightarrow> string \<Rightarrow> bool" where
  "yaml_reads_back y node s ms es yaml \<longleftrightarrow>
     yaml \<noteq> [] \<and> last yaml = newline \<and> \<not> contains yaml [CHR 0x0D, newline]
     \<and> mset ms = mset (ak_metadata s) \<and> mset es = mset (unknown_extra s)
     \<and> y_nodes y yaml = Some (YMap (skill_entries node s ms es))
     \<and> (\<forall>v w. y_string y (str_node v) w = Some v) \<and> (\<forall>vs ws. y_strings y (YSeq (map str_node vs)) ws = Some vs)
     \<and> (\<forall>v\<in>snd ` set (ak_extra s). y_any y (node v) = Some v)"

lemma set_keys_append:
  "set_keys y (xs @ ys) s = (case set_keys y xs s of Inl e \<Rightarrow> Inl e | Inr s' \<Rightarrow> set_keys y ys s')"
  by (induction y xs s rule: set_keys.induct) (auto split: yaml_node.splits option.splits)

lemma set_keys_str: "set_keys y ((str_node k, v) # kvs) s =
    (case set_key y k v s of None \<Rightarrow> Inl k | Some s' \<Rightarrow> set_keys y kvs s')"
  by (simp add: str_node_def)

declare set_keys.simps(2) [simp del]

lemma update_fresh: "k \<notin> fst ` set m \<Longrightarrow> AList.update k v m = m @ [(k, v)]"
  by (induction m) auto

lemma metadata_read_back:
  "distinct (map fst m) \<Longrightarrow> fst ` set out \<inter> fst ` set m = {} \<Longrightarrow>
     metadata_entries y (map (\<lambda>(k, v). (str_node k, str_node v)) m) out = out @ m"
proof (induction m arbitrary: out)
  case (Cons kv m)
  then show ?case by (cases kv) (auto simp: str_node_def update_fresh)
qed simp

lemma extra_read_back:
  assumes "\<forall>v\<in>V. y_any y (node v) = Some v"
  shows "snd ` set m \<subseteq> V \<Longrightarrow> distinct (map fst m) \<Longrightarrow> fst ` set (ak_extra s) \<inter> fst ` set m = {} \<Longrightarrow> \<forall>(k, v)\<in>set m. \<not> knownFrontmatterKey k \<Longrightarrow>
     set_keys y (map (\<lambda>(k, v). (str_node k, node v)) m) s = Inr (s\<lparr>ak_extra := ak_extra s @ m\<rparr>)"
proof (induction m arbitrary: s)
  case (Cons kv m)
  obtain k v where kv: "kv = (k, v)" by (cases kv)
  have "set_key y k (node v) s = Some (s\<lparr>ak_extra := ak_extra s @ [(k, v)]\<rparr>)"
    using Cons.prems(1,3,4) assms by (auto simp: kv set_key_def knownFrontmatterKey_def known_keys_def update_fresh)
  then show ?case
    using Cons.IH [of "s\<lparr>ak_extra := ak_extra s @ [(k, v)]\<rparr>"] Cons.prems by (auto simp: kv set_keys_str)
qed simp

lemma field_read_back:
  assumes "\<forall>v w. y_string y (str_node v) w = Some v"
  shows "ak_name t = [] \<Longrightarrow> set_keys y (field_node ''name'' v @ rest) t = set_keys y rest (t\<lparr>ak_name := v\<rparr>)"
    and "ak_description t = [] \<Longrightarrow> set_keys y (field_node ''description'' v @ rest) t = set_keys y rest (t\<lparr>ak_description := v\<rparr>)"
    and "ak_license t = [] \<Longrightarrow> set_keys y (field_node ''license'' v @ rest) t = set_keys y rest (t\<lparr>ak_license := v\<rparr>)"
    and "ak_compatibility t = [] \<Longrightarrow> set_keys y (field_node ''compatibility'' v @ rest) t = set_keys y rest (t\<lparr>ak_compatibility := v\<rparr>)"
    and "ak_allowedTools t = [] \<Longrightarrow> set_keys y (field_node ''allowed-tools'' v @ rest) t = set_keys y rest (t\<lparr>ak_allowedTools := v\<rparr>)"
    and "ak_state t = [] \<Longrightarrow> set_keys y (field_node ''state'' v @ rest) t = set_keys y rest (t\<lparr>ak_state := v\<rparr>)"
  using assms by (cases t; auto simp: field_node_def set_keys_str set_key_def)+

lemma group_read_back:
  assumes "\<forall>vs ws. y_strings y (YSeq (map str_node vs)) ws = Some vs"
  shows "ak_acceptance t = [] \<Longrightarrow>
      set_keys y ((if vs = [] then [] else [(str_node ''acceptance_criteria'', YSeq (map str_node vs))]) @ rest) t =
      set_keys y rest (t\<lparr>ak_acceptance := vs\<rparr>)"
    and "ak_metadata t = [] \<Longrightarrow> distinct (map fst m) \<Longrightarrow>
      set_keys y ((if m = [] then [] else [(str_node ''metadata'',
        YMap (map (\<lambda>(k, v). (str_node k, str_node v)) m))]) @ rest) t =
      set_keys y rest (t\<lparr>ak_metadata := m\<rparr>)"
  using assms
  by (cases t; auto simp: set_keys_str set_key_def UnmarshalYAML_metadata_def metadata_read_back distinct_map)+

lemma same_keys_distinct: "mset xs = mset ys \<Longrightarrow> distinct (map fst ys) \<Longrightarrow> distinct (map fst xs)"
  by (metis mset_eq_imp_distinct_iff mset_map)

lemma entries_read_back:
  assumes "yaml_reads_back y node s ms es yaml" "distinct (map fst (ak_metadata s))" "distinct (map fst (ak_extra s))"
  shows "set_keys y (skill_entries node s ms es) blank_skill =
     Inr (s\<lparr>ak_metadata := ms, ak_extra := es, ak_body := [], ak_fileCount := 0, ak_dir := []\<rparr>)"
proof -
  note y = assms(1) [unfolded yaml_reads_back_def]
  have es: "set es = set (unknown_extra s)" using y by (metis set_mset_mset)
  have "distinct (map fst (unknown_extra s))" using assms(3) by (auto simp: unknown_extra_def distinct_map inj_on_def)
  then have d: "distinct (map fst es)" using y same_keys_distinct by blast
  have m: "distinct (map fst ms)" using y assms(2) same_keys_distinct by blast
  have u: "\<forall>(k, v)\<in>set es. \<not> knownFrontmatterKey k" by (auto simp: es unknown_extra_def)
  have any: "\<forall>v\<in>snd ` set (ak_extra s). y_any y (node v) = Some v" using y by blast
  have sub: "snd ` set es \<subseteq> snd ` set (ak_extra s)" by (auto simp: es unknown_extra_def)
  show ?thesis
    unfolding skill_entries_def
    using y m
    by (simp add: field_read_back group_read_back extra_read_back [OF any sub d _ u] blank_skill_def)
qed

lemma replace_absent: "old \<noteq> [] \<Longrightarrow> \<not> contains s old \<Longrightarrow> replace_all old new s = s"
proof (induction s)
  case (Cons c s)
  then have "\<not> prefix old (c # s)" "\<not> contains s old"
    by (auto simp: contains_iff_sublist sublist_Cons_right)
  with Cons show ?case by (subst replace_all.simps) simp
qed (simp add: replace_all.simps)

text \<open>A text that ends in a newline is normalised on its own.\<close>

lemma replace_crlf_append:
  assumes "\<not> contains u [CHR 0x0D, newline]" "u = [] \<or> last u = newline"
  shows "replace_all [CHR 0x0D, newline] [newline] (u @ v) = u @ replace_all [CHR 0x0D, newline] [newline] v"
  using assms
proof (induction u)
  case (Cons c u)
  have "\<not> prefix [CHR 0x0D, newline] (c # u)" "\<not> contains u [CHR 0x0D, newline]"
    using Cons.prems(1) by (auto simp: contains_iff_sublist sublist_Cons_right)
  moreover have "\<not> prefix [CHR 0x0D, newline] (c # u @ v)"
    using Cons.prems(2) calculation(1) by (cases u) auto
  ultimately show ?case using Cons by (subst replace_all.simps) (auto split: if_splits)
qed simp

lemma split_after_ne: "split_after s \<noteq> []"
  by (induction s) (auto split: list.splits)

lemma concat_split_after: "concat (split_after s) = s"
  by (induction s) (auto simp: split_after_ne split: list.splits)

lemma split_after_line: "newline \<notin> set l \<Longrightarrow> split_after (l @ newline # s) = (l @ [newline]) # split_after s"
  by (induction l) auto

lemma split_after_append:
  assumes "u \<noteq> []" "last u = newline"
  obtains ls where "concat ls = u" "\<forall>v. split_after (u @ v) = ls @ split_after v" "set ls \<subseteq> set (split_after u)"
proof -
  have "\<exists>ls. concat ls = u \<and> (\<forall>v. split_after (u @ v) = ls @ split_after v) \<and> set ls \<subseteq> set (split_after u)"
    using assms
  proof (induction u)
    case (Cons c u)
    show ?case
    proof (cases "u = []")
      case True
      then show ?thesis using Cons.prems by (intro exI [of _ "[[newline]]"]) auto
    next
      case False
      with Cons obtain ls where ls: "concat ls = u" "\<forall>v. split_after (u @ v) = ls @ split_after v" "set ls \<subseteq> set (split_after u)"
        by auto
      show ?thesis
      proof (cases "c = newline")
        case True
        with ls show ?thesis by (intro exI [of _ "[newline] # ls"]) auto
      next
        case c: False
        obtain w ws where w: "ls = w # ws" using ls(1) False by (cases ls) auto
        have "split_after u = ls @ split_after []" using ls(2) by (metis append_Nil2)
        with ls c w show ?thesis by (intro exI [of _ "(c # w) # ws"]) auto
      qed
    qed
  qed simp
  then show ?thesis using that by blast
qed

lemma delimiters_framed:
  assumes "is_delimiter a" "is_delimiter b" "\<forall>l\<in>set ls. \<not> is_delimiter l"
  shows "delimiters (a # ls @ b # rest) = Some (0, Suc (length ls))"
proof -
  let ?all = "a # ls @ b # rest"
  have len: "[0..<length ?all] = 0 # [Suc 0..<Suc (length ls)] @ Suc (length ls) # [Suc (Suc (length ls))..<length ?all]"
  proof -
    have "[0..<length ?all] = [0..<Suc (length ls)] @ [Suc (length ls)..<length ?all]"
      using upt_add_eq_append [of 0 "Suc (length ls)" "Suc (length rest)"] by simp
    also have "[0..<Suc (length ls)] = 0 # [Suc 0..<Suc (length ls)]" by (simp add: upt_rec)
    also have "[Suc (length ls)..<length ?all] = Suc (length ls) # [Suc (Suc (length ls))..<length ?all]"
      by (subst upt_conv_Cons) simp_all
    finally show ?thesis by simp
  qed
  have "filter (\<lambda>i. is_delimiter (?all ! i)) [Suc 0..<Suc (length ls)] = []"
    using assms(3) by (auto simp: filter_empty_conv nth_Cons' nth_append)
  then show ?thesis
    unfolding delimiters_def len using assms(1,2) by (simp add: nth_append del: upt_Suc)
qed

text \<open>Front matter without a line of dashes, then such a line.\<close>

lemma parse_framed:
  assumes "yaml \<noteq> []" "last yaml = newline" "\<forall>l\<in>set (split_after yaml). \<not> is_delimiter l"
    and "split_after dashes = [dashes, []]" "is_delimiter dashes"
    and "replace_all [CHR 0x0D, newline] [newline] content = ''---'' @ newline # yaml @ dashes @ rest"
    and "y_nodes y yaml = Some n" "UnmarshalYAML_skill y n blank_skill = Inr s"
  shows "ParseSkillMD y content = Inr (default_state (s\<lparr>ak_body := (if prefix [newline] rest then drop 1 rest else rest)\<rparr>))"
proof -
  let ?norm = "replace_all [CHR 0x0D, newline] [newline] content"
  obtain ls where ls: "concat ls = yaml" "\<forall>v. split_after (yaml @ v) = ls @ split_after v" "set ls \<subseteq> set (split_after yaml)"
    by (rule split_after_append [OF assms(1,2)])
  have "dashes \<noteq> []" using assms(4) by auto
  have "last dashes = newline"
  proof (rule ccontr)
    assume "last dashes \<noteq> newline"
    have "last (split_after u) \<noteq> []" if "u \<noteq> []" "last u \<noteq> newline" for u
      using that
    proof (induction u)
      case (Cons c u)
      then show ?case by (cases "u = []") (auto simp: split_after_ne split: list.splits)
    qed simp
    then have "last (split_after dashes) \<noteq> []" using \<open>dashes \<noteq> []\<close> \<open>last dashes \<noteq> newline\<close> by blast
    then show False using assms(4) by simp
  qed
  then obtain ds where ds: "concat ds = dashes" "\<forall>v. split_after (dashes @ v) = ds @ split_after v"
    using split_after_append [OF \<open>dashes \<noteq> []\<close>] by metis
  have "ds = [dashes]" using ds(2) [rule_format, of "[]"] assms(4) by simp
  let ?d = "''---'' @ [newline]"
  have lines: "split_after ?norm = ?d # ls @ dashes # split_after rest"
    unfolding assms(6) by (subst split_after_line, simp, subst ls(2) [rule_format], subst ds(2) [rule_format])
      (simp add: \<open>ds = [dashes]\<close>)
  have d: "is_delimiter ?d" by code_simp
  have del: "delimiters (split_after ?norm) = Some (0, Suc (length ls))"
    unfolding lines using delimiters_framed [OF d assms(5)] ls(3) assms(3) by blast
  have front: "concat (drop (Suc 0) (take (Suc (length ls)) (split_after ?norm))) = yaml"
    unfolding lines by (simp add: ls(1))
  have rest: "concat (drop (Suc (Suc (length ls))) (split_after ?norm)) = rest"
    unfolding lines by (simp add: concat_split_after)
  have start: "prefix ''---'' (dropWhile (\<lambda>c. c = CHR '' '' \<or> c = CHR 0x09) ?norm)"
    unfolding assms(6) by simp
  show ?thesis
    unfolding ParseSkillMD_def Let_def
    using start del assms(1,7,8) by (simp add: front rest del: concat_eq_Nil_conv)
qed

lemma rendered_text:
  "RenderSkillMD y s = Inr body \<Longrightarrow> skill_yaml y s = Inr yaml \<Longrightarrow>
     body = ''---'' @ newline # yaml @ (''---'' @ [newline]) @ (if ak_body s = [] then [] else newline # ak_body s)"
  by (auto simp: RenderSkillMD_def split: if_splits)

lemma rendered_normal:
  assumes "body = ''---'' @ newline # yaml @ dashes @ (if b = [] then [] else newline # b)"
    and "last yaml = newline" "\<not> contains yaml [CHR 0x0D, newline]" "dashes = ''---'' @ [newline]"
  shows "replace_all [CHR 0x0D, newline] [newline] body = ''---'' @ newline # yaml @ dashes
     @ (if b = [] then [] else newline # replace_all [CHR 0x0D, newline] [newline] b)"
proof -
  have d: "\<not> contains (''---'' @ [newline]) [CHR 0x0D, newline]" by code_simp
  have n: "\<not> contains [newline] [CHR 0x0D, newline]" by code_simp
  have e: "replace_all [CHR 0x0D, newline] [newline] [] = []" by (simp add: replace_all.simps)
  have "replace_all [CHR 0x0D, newline] [newline] ((''---'' @ [newline]) @ (yaml @ ((''---'' @ [newline]) @ (if b = [] then [] else [newline] @ b))))
     = (''---'' @ [newline]) @ (yaml @ ((''---'' @ [newline]) @ (if b = [] then [] else [newline] @ replace_all [CHR 0x0D, newline] [newline] b)))"
    using replace_crlf_append [OF d] replace_crlf_append [OF assms(3)] assms(2) replace_crlf_append [OF n] e
    by (simp del: append_assoc append_Cons append.simps)
  then show ?thesis using assms(1,4) by (cases "b = []") simp_all
qed

text \<open>C29. 
  A skill's file is read back: when the YAML library reads its own output back (in which it writes no carriage return
  before a newline) and no line of that output is a line of dashes, parsing the rendered text gives the skill, with an
  empty state read as draft, its maps in the order in which they were written, every carriage return before a newline of
  the body dropped, and without the keys of the extra map that the code knows.
\<close>

theorem skill_file_round_trip:
  assumes "RenderSkillMD y s = Inr body" "skill_yaml y s = Inr yaml" "yaml_reads_back y node s ms es yaml"
    and "\<forall>l\<in>set (split_after yaml). \<not> is_delimiter l"
    and "distinct (map fst (ak_metadata s))" "distinct (map fst (ak_extra s))"
  shows "ParseSkillMD y body = Inr (default_state
     (s\<lparr>ak_metadata := ms, ak_extra := es, ak_body := replace_all [CHR 0x0D, newline] [newline] (ak_body s),
        ak_fileCount := 0, ak_dir := []\<rparr>)) \<and> mset ms = mset (ak_metadata s) \<and> mset es = mset (unknown_extra s)"
proof -
  have yaml: "yaml \<noteq> []" "last yaml = newline" "y_nodes y yaml = Some (YMap (skill_entries node s ms es))"
      "\<not> contains yaml [CHR 0x0D, newline]" and ms: "mset ms = mset (ak_metadata s)" "mset es = mset (unknown_extra s)"
    using assms(3) by (auto simp: yaml_reads_back_def)
  have d: "split_after (''---'' @ [newline]) = [''---'' @ [newline], []]" "is_delimiter (''---'' @ [newline])" by code_simp+
  have "UnmarshalYAML_skill y (YMap (skill_entries node s ms es)) blank_skill = Inr (s\<lparr>ak_metadata := ms, ak_extra := es,
      ak_body := [], ak_fileCount := 0, ak_dir := []\<rparr>)"
    using entries_read_back [OF assms(3,5,6)] by (simp add: UnmarshalYAML_skill_def)
  from parse_framed [OF yaml(1,2) assms(4) d rendered_normal [OF rendered_text [OF assms(1,2)] yaml(2,4)] yaml(3) this]
  have "ParseSkillMD y body = Inr (default_state
     (s\<lparr>ak_metadata := ms, ak_extra := es, ak_body := replace_all [CHR 0x0D, newline] [newline] (ak_body s),
        ak_fileCount := 0, ak_dir := []\<rparr>))"
    by (cases s; cases "ak_body s") (simp_all add: replace_all.simps [of _ _ "[]"])
  with ms show ?thesis by simp
qed

text \<open>
  A line of dashes inside the YAML, as a text of several lines may have in block style, ends the front matter there:
  only what stands before it is read as YAML, and the rest of the YAML becomes part of the body.
\<close>

theorem dashes_cut_front_matter:
  assumes "RenderSkillMD y s = Inr body" "skill_yaml y s = Inr (a @ dashes @ b)" "split_after dashes = [dashes, []]"
    and "is_delimiter dashes" "\<forall>l\<in>set (split_after a). \<not> is_delimiter l" "a \<noteq> []" "last a = newline"
    and "\<not> contains body [CHR 0x0D, newline]" "y_nodes y a = Some n" "UnmarshalYAML_skill y n blank_skill = Inr s'"
  shows "\<exists>rest. ParseSkillMD y body = Inr (default_state (s'\<lparr>ak_body := rest\<rparr>))
    \<and> suffix (''---'' @ newline # (if ak_body s = [] then [] else newline # ak_body s)) rest"
proof -
  let ?tail = "b @ ''---'' @ newline # (if ak_body s = [] then [] else newline # ak_body s)"
  have "body = ''---'' @ newline # a @ dashes @ ?tail"
    using rendered_text [OF assms(1,2)] by simp
  then have "replace_all [CHR 0x0D, newline] [newline] body = ''---'' @ newline # a @ dashes @ ?tail"
    using replace_absent [OF _ assms(8)] by simp
  note parsed = parse_framed [OF assms(6,7,5,3,4) this assms(9,10)]
  have "suffix (''---'' @ newline # (if ak_body s = [] then [] else newline # ak_body s))
      (if prefix [newline] ?tail then drop 1 ?tail else ?tail)"
    by (cases b) (auto simp: suffix_def)
  with parsed show ?thesis by blast
qed

definition demo_skill :: agent_skill where
  "demo_skill = blank_skill\<lparr>ak_name := ''a'', ak_description := ''d'', ak_extra := [(''hint'', Inr (JBool True))],
     ak_body := newline # ''text'', ak_dir := ''g/a''\<rparr>"

definition demo_yaml :: string where
  "demo_yaml = ''name: a'' @ [newline] @ ''description: d'' @ [newline] @ ''hint: true'' @ [newline]"

definition demo_node :: "yaml_any \<Rightarrow> yaml_node" where
  "demo_node v = YScalar ''!!bool'' ''true''"

definition demo_yaml_lib :: yaml_lib where
  "demo_yaml_lib = \<lparr>y_nodes = (\<lambda>_. Some (YMap (skill_entries demo_node demo_skill [] [(''hint'', Inr (JBool True))]))),
     y_string = (\<lambda>n w. case n of YScalar _ v \<Rightarrow> Some v | _ \<Rightarrow> None),
     y_strings = (\<lambda>n w. case n of YSeq ns \<Rightarrow> Some (map (\<lambda>m. case m of YScalar _ v \<Rightarrow> v | _ \<Rightarrow> []) ns) | _ \<Rightarrow> None),
     y_any = (\<lambda>_. Some (Inr (JBool True))),
     y_marshal = (\<lambda>_. Some (''name: a'' @ [newline] @ ''description: d'' @ [newline])),
     y_marshalExtra = (\<lambda>_. Some (''hint: true'' @ [newline]))\<rparr>"

abbreviation demo_md :: string where
  "demo_md \<equiv> ''---'' @ [newline] @ demo_yaml @ ''---'' @ [newline] @ [newline, newline] @ ''text''"

lemma demo_renders:
  "skill_yaml demo_yaml_lib demo_skill = Inr demo_yaml" "RenderSkillMD demo_yaml_lib demo_skill = Inr demo_md"
proof -
  show k: "skill_yaml demo_yaml_lib demo_skill = Inr demo_yaml"
    by (simp add: skill_yaml_def demo_yaml_lib_def unknown_extra_def demo_skill_def knownFrontmatterKey_def known_keys_def
          demo_yaml_def)
  show "RenderSkillMD demo_yaml_lib demo_skill = Inr demo_md"
    using k by (simp add: RenderSkillMD_def) (simp add: demo_skill_def)
qed

lemma demo_reads_back: "yaml_reads_back demo_yaml_lib demo_node demo_skill [] [(''hint'', Inr (JBool True))] demo_yaml"
proof -
  have "y_strings demo_yaml_lib (YSeq (map str_node vs)) ws = Some vs" for vs ws
    by (simp add: demo_yaml_lib_def str_node_def comp_def)
  moreover have "\<not> contains demo_yaml [CHR 0x0D, newline]" by code_simp
  moreover have "ak_metadata demo_skill = []" "unknown_extra demo_skill = [(''hint'', Inr (JBool True))]"
    by (simp_all add: demo_skill_def blank_skill_def unknown_extra_def knownFrontmatterKey_def known_keys_def)
  ultimately show ?thesis
    by (simp add: yaml_reads_back_def demo_yaml_lib_def str_node_def demo_skill_def) (simp add: demo_yaml_def)
qed

lemma demo_clean: "\<forall>l\<in>set (split_after demo_yaml). \<not> is_delimiter l"
  by code_simp

lemma demo_parsed:
  "default_state (demo_skill\<lparr>ak_metadata := [], ak_extra := [(''hint'', Inr (JBool True))],
     ak_body := replace_all [CHR 0x0D, newline] [newline] (ak_body demo_skill), ak_fileCount := 0, ak_dir := []\<rparr>) =
   demo_skill\<lparr>ak_state := ''draft'', ak_dir := []\<rparr>"
proof -
  have "replace_all [CHR 0x0D, newline] [newline] (newline # ''text'') = newline # ''text''" by code_simp
  then show ?thesis by (simp add: demo_skill_def blank_skill_def default_state_def validateState_def StateDraft_def)
qed

lemma demo_keys: "distinct (map fst (ak_metadata demo_skill))" "distinct (map fst (ak_extra demo_skill))"
  by (simp_all add: demo_skill_def blank_skill_def)

theorem skill_file_round_trip_witness:
  "ParseSkillMD demo_yaml_lib demo_md = Inr (demo_skill\<lparr>ak_state := ''draft'', ak_dir := []\<rparr>)"
  using skill_file_round_trip [OF demo_renders(2) demo_renders(1) demo_reads_back demo_clean demo_keys]
  unfolding demo_parsed by blast

end
