(* ===== verification/Skill_Store.thy ===== *)
theory Skill_Store
  imports Skill_File
begin

text \<open>
  The store of skills (\<^verbatim>\<open>pkg/registry/store.go\<close>) and the server that offers them as prompts
  (\<^verbatim>\<open>server.go\<close>): a cache over directories that hold a \<^verbatim>\<open>SKILL.md\<close> each.

  The disk maps absolute clean paths to contents; a directory is there when a file lies below it, and symbolic links do
  not occur. A walk meets files in the order of their path elements. What system calls answer is an argument
  (\<open>skill_io\<close>); the temporary file of an atomic write is not part of the disk. The listing of a skill's files is left out.
\<close>

type_synonym skill_disk = "(string, string) gomap"

record skill_io =
  si_cwd :: "string option"
  si_mkdir :: bool
  si_write :: bool
  si_torn :: "string option"
  si_rename :: bool
  si_back :: bool
  si_readable :: "string \<Rightarrow> bool"
  si_stuck :: "string \<Rightarrow> bool"

record skill_store =
  ss_base :: string
  ss_skills :: "(string, agent_skill) gomap"

datatype skill_error =
    ErrSkillNotFound string
  | ErrSkillInactive string string
  | ErrInvalidSkill string
  | ErrSkillMkdir
  | ErrSkillRender skill_file_error
  | ErrSkillWrite string
  | ErrSkillReparse string skill_file_error
  | ErrSkillDelete string
  | ErrNewName string
  | ErrSkillExists string
  | ErrSkillRename
  | ErrSkillName string
  | ErrFilePath string
  | ErrFileResolve
  | ErrFileEscapes string
  | ErrFileMissing string string
  | ErrFileRead
  | ErrFileMkdir
  | ErrFileWrite
  | ErrFileDelete

subsection \<open>The disk\<close>

definition dir_on_disk :: "skill_disk \<Rightarrow> string \<Rightarrow> bool" where
  "dir_on_disk d p \<longleftrightarrow> list_ex (\<lambda>(q, _). prefix (p @ ''/'') q) d"

text \<open>\<^verbatim>\<open>os.RemoveAll\<close>: what cannot be removed stays, and the rest goes.\<close>

definition remove_all :: "skill_io \<Rightarrow> string \<Rightarrow> skill_disk \<Rightarrow> bool \<times> skill_disk" where
  "remove_all io p d =
     (\<not> list_ex (\<lambda>(q, _). below p q \<and> si_stuck io q) d, filter (\<lambda>(q, _). \<not> below p q \<or> si_stuck io q) d)"

definition move_tree :: "string \<Rightarrow> string \<Rightarrow> skill_disk \<Rightarrow> skill_disk" where
  "move_tree a b d = map (\<lambda>(q, v). (if below a q then b @ drop (length a) q else q, v)) d"

definition countSupportingFiles :: "skill_disk \<Rightarrow> string \<Rightarrow> int" where
  "countSupportingFiles d skillDir =
     sum_list (map (\<lambda>sub. int (length (filter (\<lambda>(q, _). below (path_Join [skillDir, sub]) q) d)))
       [''scripts'', ''references'', ''assets''])"

subsection \<open>Paths\<close>

definition skills_dir :: "skill_store \<Rightarrow> string" where
  "skills_dir s = path_Join [ss_base s, ''skills'']"

definition dir_path :: "skill_store \<Rightarrow> string \<Rightarrow> string" where
  "dir_path s rel = path_Join [ss_base s, ''skills'', rel]"

definition skillDirPath :: "skill_store \<Rightarrow> string \<Rightarrow> string" where
  "skillDirPath s name =
     (case map_of (ss_skills s) name of
        Some sk \<Rightarrow> if ak_dir sk \<noteq> [] then dir_path s (ak_dir sk) else dir_path s (path_Base name)
      | None \<Rightarrow> dir_path s (path_Base name))"

definition safeFilePath :: "skill_io \<Rightarrow> skill_store \<Rightarrow> string \<Rightarrow> string \<Rightarrow> skill_error + string" where
  "safeFilePath io s skillName filePath =
     (if contains skillName ''..'' \<or> path_IsAbs skillName then Inl (ErrSkillName skillName)
      else let cleanPath = path_Clean filePath in
        if path_IsAbs cleanPath \<or> prefix ''..'' cleanPath then Inl (ErrFilePath filePath)
        else let skillDir = skillDirPath s skillName; fullPath = path_Join [skillDir, cleanPath] in
          case path_Abs (si_cwd io) fullPath of
            None \<Rightarrow> Inl ErrFileResolve
          | Some resolved \<Rightarrow> (case path_Abs (si_cwd io) skillDir of
                None \<Rightarrow> Inl ErrFileResolve
              | Some base \<Rightarrow>
                  if \<not> prefix (base @ ''/'') resolved \<and> resolved \<noteq> base then Inl (ErrFileEscapes filePath) else Inr fullPath))"

subsection \<open>Loading\<close>

text \<open>The files a walk of the skills directory meets, in its order.\<close>

definition skill_files :: "skill_store \<Rightarrow> skill_disk \<Rightarrow> string list" where
  "skill_files s d =
     filter (\<lambda>q. below (skills_dir s) q \<and> path_Base q = ''SKILL.md'') (sort_key (split_on (CHR ''/'')) (map fst d))"

text \<open>The error of \<^verbatim>\<open>filepath.Rel\<close> is ignored, and its result is then empty.\<close>

definition relative_dir :: "string \<Rightarrow> string \<Rightarrow> string" where
  "relative_dir dir0 p = (case path_Rel dir0 p of None \<Rightarrow> [] | Some r \<Rightarrow> r)"

text \<open>The name of the directory is the name of the skill, whatever the front matter says.\<close>

definition read_skill :: "yaml_lib \<Rightarrow> skill_io \<Rightarrow> skill_disk \<Rightarrow> string \<Rightarrow> agent_skill option" where
  "read_skill y io d q =
     (case map_of d q of
        None \<Rightarrow> None
      | Some content \<Rightarrow>
          if \<not> si_readable io q then None
          else case ParseSkillMD y content of
              Inl _ \<Rightarrow> None
            | Inr sk \<Rightarrow>
                let sk1 = sk\<lparr>ak_name := path_Base (path_Dir q)\<rparr>
                in if ValidateSkill sk1 \<noteq> None then None else Some sk1)"

definition load_file :: "yaml_lib \<Rightarrow> skill_io \<Rightarrow> string \<Rightarrow> skill_disk \<Rightarrow> string \<Rightarrow> (string, agent_skill) gomap
    \<Rightarrow> (string, agent_skill) gomap" where
  "load_file y io dir0 d q skills =
     (case read_skill y io d q of
        None \<Rightarrow> skills
      | Some sk \<Rightarrow>
          if map_has skills (ak_name sk) then skills
          else AList.update (ak_name sk)
                 (sk\<lparr>ak_dir := relative_dir dir0 (path_Dir q), ak_fileCount := countSupportingFiles d (path_Dir q)\<rparr>) skills)"

definition loadSkills :: "yaml_lib \<Rightarrow> skill_io \<Rightarrow> skill_store \<Rightarrow> skill_disk \<Rightarrow> skill_store" where
  "loadSkills y io s d = s\<lparr>ss_skills := fold (load_file y io (skills_dir s) d) (skill_files s d) (ss_skills s)\<rparr>"

definition Load_skills :: "yaml_lib \<Rightarrow> skill_io \<Rightarrow> skill_store \<Rightarrow> skill_disk \<Rightarrow> skill_store" where
  "Load_skills y io s d = loadSkills y io (s\<lparr>ss_skills := []\<rparr>) d"

subsection \<open>Reading the cache\<close>

definition HasContent :: "skill_store \<Rightarrow> bool" where
  "HasContent s \<longleftrightarrow> ss_skills s \<noteq> []"

definition Status_skills :: "skill_store \<Rightarrow> int \<times> int" where
  "Status_skills s = (int (length (ss_skills s)), int (length (filter (\<lambda>(_, sk). ak_state sk = StateActive) (ss_skills s))))"

definition ListSkills :: "skill_store \<Rightarrow> agent_skill list" where
  "ListSkills s = sort_key ak_name (map snd (ss_skills s))"

definition ActiveSkills :: "skill_store \<Rightarrow> agent_skill list" where
  "ActiveSkills s = sort_key ak_name (filter (\<lambda>sk. ak_state sk = StateActive) (map snd (ss_skills s)))"

definition GetSkill :: "skill_store \<Rightarrow> string \<Rightarrow> skill_error + agent_skill" where
  "GetSkill s name = (case map_of (ss_skills s) name of None \<Rightarrow> Inl (ErrSkillNotFound name) | Some sk \<Rightarrow> Inr sk)"

subsection \<open>Writing\<close>

definition default_dir :: "skill_store \<Rightarrow> agent_skill \<Rightarrow> agent_skill" where
  "default_dir s sk =
     (if ak_dir sk \<noteq> [] then sk
      else sk\<lparr>ak_dir := (case map_of (ss_skills s) (ak_name sk) of Some old \<Rightarrow> ak_dir old | None \<Rightarrow> ak_name sk)\<rparr>)"

text \<open>The result holds the caller's object, which the code writes to.\<close>

definition SaveSkill :: "yaml_lib \<Rightarrow> skill_io \<Rightarrow> agent_skill \<Rightarrow> skill_store \<Rightarrow> skill_disk
    \<Rightarrow> skill_error option \<times> agent_skill \<times> skill_store \<times> skill_disk" where
  "SaveSkill y io sk s d =
     (case ValidateSkill sk of
        Some e \<Rightarrow> (Some (ErrInvalidSkill e), sk, s, d)
      | None \<Rightarrow>
          let sk1 = default_dir s sk; skillDir = dir_path s (ak_dir sk1) in
          if \<not> si_mkdir io then (Some ErrSkillMkdir, sk1, s, d)
          else case RenderSkillMD y sk1 of
              Inl e \<Rightarrow> (Some (ErrSkillRender e), sk1, s, d)
            | Inr md \<Rightarrow>
                if \<not> si_write io \<or> dir_on_disk d (path_Join [skillDir, ''SKILL.md''])
                then (Some (ErrSkillWrite (ak_name sk1)), sk1, s, d)
                else let d1 = AList.update (path_Join [skillDir, ''SKILL.md'']) md d in
                  case ParseSkillMD y md of
                    Inl e \<Rightarrow> (Some (ErrSkillReparse (ak_name sk1) e), sk1, s, d1)
                  | Inr c \<Rightarrow>
                      let canonical = c\<lparr>ak_name := ak_name sk1, ak_dir := ak_dir sk1, ak_fileCount := countSupportingFiles d1 skillDir\<rparr>
                      in (None, canonical, s\<lparr>ss_skills := AList.update (ak_name sk1) canonical (ss_skills s)\<rparr>, d1))"

definition RefreshFileCount :: "string \<Rightarrow> skill_store \<Rightarrow> skill_disk \<Rightarrow> skill_error option \<times> skill_store" where
  "RefreshFileCount name s d =
     (case map_of (ss_skills s) name of
        None \<Rightarrow> (Some (ErrSkillNotFound name), s)
      | Some sk \<Rightarrow>
          (None, s\<lparr>ss_skills := AList.update name
             (sk\<lparr>ak_fileCount := countSupportingFiles d (dir_path s (ak_dir sk))\<rparr>) (ss_skills s)\<rparr>))"

definition DeleteSkill :: "skill_io \<Rightarrow> string \<Rightarrow> skill_store \<Rightarrow> skill_disk \<Rightarrow> skill_error option \<times> skill_store \<times> skill_disk" where
  "DeleteSkill io name s d =
     (let (ok, d1) = remove_all io (skillDirPath s name) d in
      if \<not> ok then (Some (ErrSkillDelete name), s, d1)
      else (None, s\<lparr>ss_skills := AList.delete name (ss_skills s)\<rparr>, d1))"

text \<open>A rename of a directory fails when it has no files or when there are files at the new place.\<close>

definition RenameSkill :: "yaml_lib \<Rightarrow> skill_io \<Rightarrow> string \<Rightarrow> string \<Rightarrow> skill_store \<Rightarrow> skill_disk
    \<Rightarrow> skill_error option \<times> skill_store \<times> skill_disk" where
  "RenameSkill y io oldName newName s d =
     (case ValidateSkillName newName of
        Some e \<Rightarrow> (Some (ErrNewName e), s, d)
      | None \<Rightarrow>
          if map_has (ss_skills s) newName then (Some (ErrSkillExists newName), s, d)
          else case map_of (ss_skills s) oldName of
              None \<Rightarrow> (Some (ErrSkillNotFound oldName), s, d)
            | Some sk \<Rightarrow>
                let oldDir = skillDirPath s oldName; newDir = path_Join [path_Dir oldDir, path_Base newName] in
                if \<not> si_rename io \<or> \<not> dir_on_disk d oldDir \<or> dir_on_disk d newDir \<or> map_has d newDir
                then (Some ErrSkillRename, s, d)
                else let sk1 = sk\<lparr>ak_name := newName\<rparr>; d1 = move_tree oldDir newDir d; undone = (if si_back io then d else d1) in
                  case RenderSkillMD y sk1 of
                    Inl e \<Rightarrow> (Some (ErrSkillRender e), s, undone)
                  | Inr md \<Rightarrow>
                      if \<not> si_write io then (Some (ErrSkillWrite newName), s, undone)
                      else (None,
                        s\<lparr>ss_skills := AList.update newName (sk1\<lparr>ak_dir := relative_dir (skills_dir s) newDir\<rparr>)
                            (AList.delete oldName (ss_skills s))\<rparr>,
                        AList.update (path_Join [newDir, ''SKILL.md'']) md d1))"

subsection \<open>Files of a skill\<close>

definition ReadFile_skill :: "skill_io \<Rightarrow> string \<Rightarrow> string \<Rightarrow> skill_store \<Rightarrow> skill_disk \<Rightarrow> skill_error + string" where
  "ReadFile_skill io skillName filePath s d =
     (case safeFilePath io s skillName filePath of
        Inl e \<Rightarrow> Inl e
      | Inr p \<Rightarrow>
          (case map_of d p of
             Some content \<Rightarrow> if si_readable io p then Inr content else Inl ErrFileRead
           | None \<Rightarrow> if dir_on_disk d p then Inl ErrFileRead else Inl (ErrFileMissing filePath skillName)))"

definition recount :: "string \<Rightarrow> skill_disk \<Rightarrow> skill_store \<Rightarrow> skill_store" where
  "recount name d s =
     (case map_of (ss_skills s) name of
        None \<Rightarrow> s
      | Some sk \<Rightarrow> s\<lparr>ss_skills := AList.update name (sk\<lparr>ak_fileCount := countSupportingFiles d (skillDirPath s name)\<rparr>) (ss_skills s)\<rparr>)"

text \<open>A write that fails may have torn the file.\<close>

definition WriteFile_skill :: "skill_io \<Rightarrow> string \<Rightarrow> string \<Rightarrow> string \<Rightarrow> skill_store \<Rightarrow> skill_disk
    \<Rightarrow> skill_error option \<times> skill_store \<times> skill_disk" where
  "WriteFile_skill io skillName filePath content s d =
     (case safeFilePath io s skillName filePath of
        Inl e \<Rightarrow> (Some e, s, d)
      | Inr p \<Rightarrow>
          if \<not> si_mkdir io then (Some ErrFileMkdir, s, d)
          else if dir_on_disk d p then (Some ErrFileWrite, s, d)
          else if \<not> si_write io
          then (Some ErrFileWrite, s, (case si_torn io of None \<Rightarrow> d | Some t \<Rightarrow> AList.update p t d))
          else let d1 = AList.update p content d in (None, recount skillName d1 s, d1))"

definition DeleteFile_skill :: "skill_io \<Rightarrow> string \<Rightarrow> string \<Rightarrow> skill_store \<Rightarrow> skill_disk
    \<Rightarrow> skill_error option \<times> skill_store \<times> skill_disk" where
  "DeleteFile_skill io skillName filePath s d =
     (case safeFilePath io s skillName filePath of
        Inl e \<Rightarrow> (Some e, s, d)
      | Inr p \<Rightarrow>
          if dir_on_disk d p then (Some ErrFileDelete, s, d)
          else if \<not> map_has d p then (Some (ErrFileMissing filePath skillName), s, d)
          else if si_stuck io p then (Some ErrFileDelete, s, d)
          else let d1 = AList.delete p d in (None, recount skillName d1 s, d1))"

subsection \<open>Prompts\<close>

record prompt_argument =
  pg_name :: string
  pg_description :: string
  pg_required :: bool
  pg_default :: string

record prompt_data =
  pp_name :: string
  pp_description :: string
  pp_content :: string
  pp_arguments :: "prompt_argument list"

definition skill_prompt :: "agent_skill \<Rightarrow> prompt_data" where
  "skill_prompt sk = \<lparr>pp_name = ak_name sk, pp_description = ak_description sk, pp_content = ak_body sk,
     pp_arguments = [\<lparr>pg_name = ''context'', pg_description = ''Additional context for the skill'', pg_required = False,
                      pg_default = []\<rparr>]\<rparr>"

definition ListPromptData :: "skill_store \<Rightarrow> prompt_data list" where
  "ListPromptData s = map skill_prompt (ActiveSkills s)"

definition GetPromptData :: "skill_store \<Rightarrow> string \<Rightarrow> skill_error + prompt_data" where
  "GetPromptData s name =
     (case GetSkill s name of
        Inl e \<Rightarrow> Inl e
      | Inr sk \<Rightarrow> if ak_state sk \<noteq> StateActive then Inl (ErrSkillInactive name (ak_state sk)) else Inr (skill_prompt sk))"

subsection \<open>File operations stay in the skill's directory\<close>

lemma skillDirPath_abs:
  assumes "path_IsAbs (ss_base s)"
  shows "path_IsAbs (skillDirPath s name)" and "path_Clean (skillDirPath s name) = skillDirPath s name"
  using path_Join_abs [OF assms] by (simp_all add: skillDirPath_def dir_path_def split: option.splits)

lemma safeFilePath_below:
  assumes "path_IsAbs (ss_base s)" "safeFilePath io s name f = Inr p"
  shows "below (skillDirPath s name) p"
proof -
  let ?d = "skillDirPath s name"
  note d = skillDirPath_abs [OF assms(1)]
  have p: "p = path_Join [?d, path_Clean f]" "path_IsAbs p" "path_Clean p = p"
    using assms(2) path_Join_abs [OF d(1)] by (auto simp: safeFilePath_def Let_def split: if_splits option.splits)
  have "prefix (?d @ ''/'') p \<or> p = ?d"
    using assms(2) d p by (auto simp: safeFilePath_def Let_def path_Abs_def split: if_splits)
  then show ?thesis by (auto simp: below_def)
qed

lemma map_of_update_other: "p \<noteq> q \<Longrightarrow> map_of (AList.update p v d) q = map_of d q"
  by (simp add: update_conv')

lemma dir_on_disk_delete: "\<not> below p q \<Longrightarrow> dir_on_disk (AList.delete q d) p = dir_on_disk d p"
  by (auto simp: dir_on_disk_def list_ex_iff AList.delete_eq below_def)

text \<open>C28. 
  Reading, writing and deleting a file of a skill concern the skill's own directory only, whatever the paths given: a
  file outside it is as it was after a write or a deletion, and what a read answers does not depend on it.
\<close>

theorem skill_files_contained:
  assumes "path_IsAbs (ss_base s)" "\<not> below (skillDirPath s name) q"
  shows "map_of (snd (snd (WriteFile_skill io name f content s d))) q = map_of d q
    \<and> map_of (snd (snd (DeleteFile_skill io name f s d))) q = map_of d q
    \<and> ReadFile_skill io name f s (AList.delete q d) = ReadFile_skill io name f s d"
proof (cases "safeFilePath io s name f")
  case (Inl e)
  then show ?thesis by (simp add: WriteFile_skill_def DeleteFile_skill_def ReadFile_skill_def)
next
  case (Inr p)
  have p: "below (skillDirPath s name) p" by (rule safeFilePath_below [OF assms(1) Inr])
  then have q: "\<not> below p q" "p \<noteq> q" using assms(2) below_trans by auto
  show ?thesis
    using Inr q
    by (simp add: WriteFile_skill_def DeleteFile_skill_def ReadFile_skill_def map_of_update_other delete_conv'
          dir_on_disk_delete Let_def split: option.splits)
qed

subsection \<open>Removing a skill\<close>

text \<open>C30. 
  Removing a skill does not check that there is one: with the name \<^verbatim>\<open>..\<close> the directory that is removed is the
  base directory of the store, with every skill and everything else in it.
\<close>

theorem delete_skill_escapes:
  assumes "clean_dir (ss_base s)" "map_of (ss_skills s) ''..'' = None" "\<forall>q. \<not> si_stuck io q"
  shows "DeleteSkill io ''..'' s d = (None, s, filter (\<lambda>(q, _). \<not> below (ss_base s) q) d)"
proof -
  have "path_Join [ss_base s, ''skills'', ''..''] = ss_base s"
  proof -
    let ?out = "\<lambda>p. fold (clean_step True) (split_on (CHR ''/'') p) []" and ?b = "ss_base s"
    have b: "path_IsAbs ?b" "path_Clean ?b = ?b" "?b \<noteq> []"
      using assms(1) by (auto simp: clean_dir_def path_IsAbs_def)
    have "?out (?b @ CHR ''/'' # ''skills/..'') = ?out ?b"
      by (simp add: split_on_append clean_step_def)
    moreover have "path_IsAbs (?b @ w)" for w using b(1) by (cases ?b) (simp_all add: path_IsAbs_def)
    ultimately have "path_Clean (?b @ ''/skills/..'') = path_Clean ?b"
      using b(1) by (simp add: path_Clean_def)
    then show ?thesis using b by (simp add: path_Join_def)
  qed
  moreover have "path_Base ''..'' = ''..''" by code_simp
  ultimately have "skillDirPath s ''..'' = ss_base s"
    using assms(2) by (simp add: skillDirPath_def dir_path_def)
  moreover have "AList.delete ''..'' (ss_skills s) = ss_skills s"
    using assms(2) by (simp add: delete_idem map_of_eq_None_iff)
  moreover have "\<not> list_ex (\<lambda>(q, _). below b q \<and> si_stuck io q) d" for b using assms(3) by (auto simp: list_ex_iff)
  ultimately show ?thesis
    using assms(3) by (simp add: DeleteSkill_def remove_all_def case_prod_unfold)
qed

subsection \<open>Saving and loading agree\<close>

lemma skills_element: "element ''skills''" "element ''SKILL.md''"
  by (simp_all add: element_def)

lemma dir_path_elements:
  assumes "clean_dir (ss_base s)" "list_all element ws" "ws \<noteq> []"
  shows "skills_dir s = ss_base s @ ''/skills''"
    and "dir_path s (join_with ''/'' ws) = skills_dir s @ ''/'' @ join_with ''/'' ws"
    and "clean_dir (skills_dir s)"
proof -
  have b: "ss_base s \<noteq> []" using assms(1) by (auto simp: clean_dir_def path_IsAbs_def)
  note one = path_Join_elements [OF assms(1), of "[''skills'']", simplified] skills_element(1)
  show sd: "skills_dir s = ss_base s @ ''/skills''" and cd: "clean_dir (skills_dir s)"
    using one b by (simp_all add: skills_dir_def path_Join_def)
  have "join_with ''/'' (''skills'' # ws) = ''skills/'' @ join_with ''/'' ws" using assms(3) by (cases ws) simp_all
  then show "dir_path s (join_with ''/'' ws) = skills_dir s @ ''/'' @ join_with ''/'' ws"
    using path_Join_elements(1) [OF assms(1), of "''skills'' # ws"] assms(2,3) skills_element(1) b
      join_elements(5) [OF assms(2,3)] sd
    by (simp add: dir_path_def path_Join_def)
qed

lemma saved_file_path:
  assumes "clean_dir (ss_base s)" "list_all element (ws @ [n])"
  defines "x \<equiv> dir_path s (join_with ''/'' (ws @ [n]))"
  shows "path_Dir (path_Join [x, ''SKILL.md'']) = x" "path_Base x = n"
    "relative_dir (skills_dir s) x = join_with ''/'' (ws @ [n])"
proof -
  note d = dir_path_elements [OF assms(1,2), simplified]
  have x: "x = skills_dir s @ ''/'' @ join_with ''/'' (ws @ [n])" using d(2) by (simp add: x_def)
  have cx: "clean_dir x" using path_Join_elements(2) [OF d(3) assms(2)] x by simp
  then have "path_Join [x, ''SKILL.md''] = x @ ''/'' @ ''SKILL.md''"
    using path_Join_elements(1) [OF cx, of "[''SKILL.md'']"] skills_element(2)
    by (auto simp: path_Join_def clean_dir_def path_IsAbs_def)
  then show "path_Dir (path_Join [x, ''SKILL.md'']) = x" using path_Dir_snoc [OF cx skills_element(2)] by simp
  have "x = (if ws = [] then skills_dir s else skills_dir s @ ''/'' @ join_with ''/'' ws) @ ''/'' @ n"
    using x by (simp add: join_with_snoc)
  then show "path_Base x = n" using path_Base_snoc assms(2) by (metis list.pred_inject(2) list_all_append)
  show "relative_dir (skills_dir s) x = join_with ''/'' (ws @ [n])"
    using path_Rel_below [OF d(3) assms(2)] x by (simp add: relative_dir_def)
qed

text \<open>C27. 
  What a save puts into the cache is what the next load reads from the file it wrote, if the load accepts that file: when
  the directory of the skill is a relative path that ends in the skill's name, as it is by default, and the files are
  readable, the next load reads exactly the cached skill when it is valid, and skips the file when it is not. The save
  checks the skill it is given, not the one it caches, which is the parse of the text it wrote.
\<close>

theorem saved_skill_reloads:
  assumes "clean_dir (ss_base s)" "list_all element (ws @ [ak_name sk])"
    and "ak_dir (default_dir s sk) = join_with ''/'' (ws @ [ak_name sk])"
    and "SaveSkill y io sk s d = (None, sk', s', d')" "\<forall>p. si_readable io p"
  shows "map_of (ss_skills s') (ak_name sk) = Some sk'
    \<and> load_file y io (skills_dir s') d' (path_Join [skillDirPath s' (ak_name sk), ''SKILL.md'']) []
       = (if ValidateSkill sk' = None then [(ak_name sk, sk')] else [])"
proof -
  let ?sk1 = "default_dir s sk" and ?dir = "join_with ''/'' (ws @ [ak_name sk])"
  let ?x = "dir_path s ?dir" let ?q = "path_Join [?x, ''SKILL.md'']"
  have name: "ak_name ?sk1 = ak_name sk" by (simp add: default_dir_def)
  obtain md c where save: "ParseSkillMD y md = Inr c" "d' = AList.update ?q md d"
      "sk' = c\<lparr>ak_name := ak_name sk, ak_dir := ?dir, ak_fileCount := countSupportingFiles d' ?x\<rparr>"
      "s' = s\<lparr>ss_skills := AList.update (ak_name sk) sk' (ss_skills s)\<rparr>"
    using assms(4) name
    by (auto simp: SaveSkill_def Let_def assms(3) split: option.splits sum.splits if_splits)
  have "?dir \<noteq> []" using join_elements(5) [OF assms(2)] by simp
  then have path: "skillDirPath s' (ak_name sk) = ?x" "skills_dir s' = skills_dir s"
    using save(3,4) by (simp_all add: skillDirPath_def update_conv' dir_path_def skills_dir_def)
  note f = saved_file_path [OF assms(1,2)]
  have "ValidateSkill (c\<lparr>ak_name := ak_name sk\<rparr>) = ValidateSkill sk'"
    using save(3) by (simp add: ValidateSkill_def ValidateSkillFull_def)
  then have "read_skill y io d' ?q = (if ValidateSkill sk' = None then Some (c\<lparr>ak_name := ak_name sk\<rparr>) else None)"
    using save(1,2) assms(5) f(1,2) by (simp add: read_skill_def update_conv' Let_def)
  then show ?thesis
    using save f path by (simp add: load_file_def update_conv')
qed

subsection \<open>A skill at the top of the skills directory\<close>

lemma path_Base_element: "element w \<Longrightarrow> path_Base w = w"
proof -
  assume w: "element w"
  have "rev (takeWhile (\<lambda>c. c \<noteq> CHR ''/'') (rev w)) = w"
    using w by (subst takeWhile_eq_all_conv [THEN iffD2]) (auto simp: element_def)
  moreover have "trim_right_char (CHR ''/'') w = w"
    using w by (cases w rule: rev_cases) (auto simp: trim_right_char_def element_def)
  ultimately show ?thesis using w by (auto simp: path_Base_def element_def Let_def)
qed

lemma first_element: "element w \<Longrightarrow> r = [] \<or> hd r = CHR ''/'' \<Longrightarrow> hd (split_on (CHR ''/'') (w @ r)) = w"
  using split_on_append [of "CHR ''/''" w "tl r"] join_elements(1) [of "[w]"] by (cases r) auto

lemma sibling_not_below:
  assumes "element w" "w \<noteq> ''skills''" "r = [] \<or> hd r = CHR ''/''"
  shows "\<not> below (b @ ''/skills'') (b @ ''/'' @ w @ r)"
proof
  assume "below (b @ ''/skills'') (b @ ''/'' @ w @ r)"
  then obtain r' where r': "w @ r = ''skills'' @ r'" "r' = [] \<or> hd r' = CHR ''/''"
    by (auto simp: below_def prefix_def)
  then have "w = ''skills''"
    using first_element [OF assms(1,3)] first_element [OF skills_element(1) r'(2)] by simp
  then show False using assms(2) by simp
qed

text \<open>
  A \<^verbatim>\<open>SKILL.md\<close> that stands in the skills directory itself is a skill whose directory is the skills directory: renaming
  it moves the files of every skill to a directory beside it, and none is left where the next load looks.
\<close>

theorem rename_top_skill_moves_all:
  assumes "clean_dir (ss_base s)" "map_of (ss_skills s) old = Some sk" "ak_dir sk = ''.''" "element new" "new \<noteq> ''skills''"
    and "RenameSkill y io old new s d = (None, s', d')" "below (skills_dir s) q"
  shows "map_of d' q = None"
proof -
  let ?b = "ss_base s" and ?new = "ss_base s @ ''/'' @ new"
  have sd: "skills_dir s = ?b @ ''/skills''"
    using dir_path_elements(1) [OF assms(1), of "[''skills'']"] skills_element(1) by simp
  have ne: "?b \<noteq> []" using assms(1) by (auto simp: clean_dir_def path_IsAbs_def)
  have old: "skillDirPath s old = ?b @ ''/skills''"
  proof -
    have "filter proper (split_on (CHR ''/'') ''skills/.'') = [''skills'']" "no_parent ''skills/.''"
      by code_simp+
    then have "path_Clean (?b @ ''/'' @ ''skills/.'') = ?b @ ''/'' @ ''skills''"
      using path_Clean_below [OF assms(1), of "''skills/.''"] by (simp add: Let_def)
    then show ?thesis using assms(2,3) ne by (simp add: skillDirPath_def dir_path_def path_Join_def)
  qed
  have "path_Dir (?b @ ''/'' @ ''skills'') = ?b" by (rule path_Dir_snoc [OF assms(1) skills_element(1)])
  then have "path_Join [path_Dir (?b @ ''/skills''), path_Base new] = ?new"
    using path_Join_elements(1) [OF assms(1), of "[new]"] assms(4) ne
    by (simp add: path_Base_element path_Join_def element_def)
  then obtain md where d': "d' = AList.update (path_Join [?new, ''SKILL.md'']) md (move_tree (?b @ ''/skills'') ?new d)"
    using assms(2,6) old by (auto simp: RenameSkill_def Let_def split: option.splits sum.splits if_splits)
  have "clean_dir ?new" using path_Join_elements(2) [OF assms(1), of "[new]"] assms(4) by simp
  then have md: "path_Join [?new, ''SKILL.md''] = ?new @ ''/SKILL.md''"
    using path_Join_elements(1) [of ?new "[''SKILL.md'']"] skills_element(2) by (simp add: path_Join_def)
  have out: "\<not> below (skills_dir s) (?new @ r)" if "r = [] \<or> hd r = CHR ''/''" for r
    using sibling_not_below [OF assms(4,5) that, of ?b] sd by simp
  have "q \<notin> fst ` set (move_tree (?b @ ''/skills'') ?new d)"
  proof
    assume "q \<in> fst ` set (move_tree (?b @ ''/skills'') ?new d)"
    then obtain q0 where q0: "q = (if below (?b @ ''/skills'') q0 then ?new @ drop (length (?b @ ''/skills'')) q0 else q0)"
      unfolding move_tree_def set_map image_image by (elim imageE) (simp add: split_def split: if_splits; metis)
    have "drop (length (?b @ ''/skills'')) q0 = [] \<or> hd (drop (length (?b @ ''/skills'')) q0) = CHR ''/''"
      if "below (?b @ ''/skills'') q0" using that by (auto simp: below_def prefix_def)
    then show False using q0 assms(7) out sd by (auto split: if_splits)
  qed
  moreover have "q \<noteq> ?new @ ''/SKILL.md''" using out [of "''/SKILL.md''"] assms(7) by auto
  ultimately show ?thesis by (simp add: d' update_conv' map_of_eq_None_iff md [simplified])
qed

subsection \<open>Examples\<close>

definition skill_demo_io :: skill_io where
  "skill_demo_io = \<lparr>si_cwd = Some ''/'', si_mkdir = True, si_write = True, si_torn = None, si_rename = True, si_back = True,
     si_readable = (\<lambda>_. True), si_stuck = (\<lambda>_. False)\<rparr>"

definition skill_demo_store :: skill_store where
  "skill_demo_store = \<lparr>ss_base = ''/b'', ss_skills = []\<rparr>"

definition skill_demo_disk :: skill_disk where
  "skill_demo_disk = [(''/b/skills/a/SKILL.md'', ''x''), (''/b/y'', ''y''), (''/c'', ''z'')]"

lemma skill_demo_base: "clean_dir ''/b''" "path_IsAbs ''/b''" "\<not> below (skillDirPath skill_demo_store ''a'') ''/b/y''"
    "safeFilePath skill_demo_io skill_demo_store ''a'' ''s/../n'' = Inr ''/b/skills/a/n''"
  by code_simp+

theorem skill_files_contained_witness:
  "map_of (snd (snd (WriteFile_skill skill_demo_io ''a'' ''s/../n'' ''w'' skill_demo_store skill_demo_disk))) ''/b/y'' = Some ''y''
   \<and> map_of (snd (snd (WriteFile_skill skill_demo_io ''a'' ''s/../n'' ''w'' skill_demo_store skill_demo_disk))) ''/b/skills/a/n'' = Some ''w''"
proof -
  have "path_IsAbs (ss_base skill_demo_store)" using skill_demo_base(2) by (simp add: skill_demo_store_def)
  from skill_files_contained [OF this skill_demo_base(3), of skill_demo_io "''s/../n''" "''w''" skill_demo_disk]
  have "map_of (snd (snd (WriteFile_skill skill_demo_io ''a'' ''s/../n'' ''w'' skill_demo_store skill_demo_disk))) ''/b/y'' = map_of skill_demo_disk ''/b/y''"
    by blast
  moreover have "\<not> dir_on_disk skill_demo_disk ''/b/skills/a/n''" by code_simp
  then have "map_of (snd (snd (WriteFile_skill skill_demo_io ''a'' ''s/../n'' ''w'' skill_demo_store skill_demo_disk))) ''/b/skills/a/n'' = Some ''w''"
    using skill_demo_base(4) by (simp add: WriteFile_skill_def Let_def skill_demo_io_def update_conv')
  ultimately show ?thesis by (simp add: skill_demo_disk_def)
qed

theorem delete_skill_escapes_witness:
  "DeleteSkill skill_demo_io ''..'' skill_demo_store skill_demo_disk = (None, skill_demo_store, [(''/c'', ''z'')])"
proof -
  have hyps: "clean_dir (ss_base skill_demo_store)" "map_of (ss_skills skill_demo_store) ''..'' = None" "\<forall>q. \<not> si_stuck skill_demo_io q"
    using skill_demo_base(1) by (simp_all add: skill_demo_store_def skill_demo_io_def)
  show ?thesis
    unfolding delete_skill_escapes [OF hyps] by (simp add: skill_demo_store_def skill_demo_disk_def below_def)
qed

lemma skill_demo_parse: "ParseSkillMD demo_yaml_lib demo_md = Inr (demo_skill\<lparr>ak_state := ''draft'', ak_dir := []\<rparr>)"
  by code_simp

lemma skill_demo_valid: "ValidateSkill demo_skill = None" "ValidateSkill (demo_skill\<lparr>ak_state := ''draft''\<rparr>) = None"
  by code_simp+

definition skill_demo_saved :: agent_skill where
  "skill_demo_saved = demo_skill\<lparr>ak_state := ''draft'', ak_dir := ''g/a'', ak_fileCount := 0\<rparr>"

abbreviation skill_demo_file :: string where
  "skill_demo_file \<equiv> ''/b/skills/g/a/SKILL.md''"

lemma skill_demo_paths:
  "dir_path skill_demo_store ''g/a'' = ''/b/skills/g/a''" "path_Join [''/b/skills/g/a'', ''SKILL.md''] = skill_demo_file"
  "countSupportingFiles [(skill_demo_file, demo_md)] ''/b/skills/g/a'' = 0" "\<not> dir_on_disk [] skill_demo_file"
  by code_simp+

lemma skill_demo_fields: "ak_name demo_skill = ''a''" "ak_dir demo_skill = ''g/a''"
  by (simp_all add: demo_skill_def)

lemma skill_demo_save: "SaveSkill demo_yaml_lib skill_demo_io demo_skill skill_demo_store [] =
    (None, skill_demo_saved, skill_demo_store\<lparr>ss_skills := [(''a'', skill_demo_saved)]\<rparr>, [(skill_demo_file, demo_md)])"
proof -
  have "default_dir skill_demo_store demo_skill = demo_skill" by (simp add: default_dir_def skill_demo_fields)
  moreover have "demo_skill\<lparr>ak_state := ''draft'', ak_dir := [], ak_name := ''a'', ak_dir := ''g/a'', ak_fileCount := 0\<rparr> = skill_demo_saved"
    by (simp add: skill_demo_saved_def demo_skill_def)
  ultimately show ?thesis
    unfolding SaveSkill_def skill_demo_valid(1)
    by (simp only: Let_def option.case sum.case skill_demo_fields skill_demo_paths [unfolded skill_demo_store_def] demo_renders skill_demo_parse skill_demo_io_def skill_io.simps
          AList.update.simps not_True_eq_False if_False simp_thms skill_demo_store_def skill_store.simps)
qed

theorem saved_skill_reloads_witness:
  "load_file demo_yaml_lib skill_demo_io ''/b/skills'' [(skill_demo_file, demo_md)] skill_demo_file [] = [(''a'', skill_demo_saved)]"
proof -
  have "clean_dir (ss_base skill_demo_store)" using skill_demo_base(1) by (simp add: skill_demo_store_def)
  moreover have "list_all element ([''g''] @ [ak_name demo_skill])" by (simp add: skill_demo_fields element_def)
  moreover have "ak_dir (default_dir skill_demo_store demo_skill) = join_with ''/'' ([''g''] @ [ak_name demo_skill])"
    by (simp add: default_dir_def skill_demo_fields)
  moreover have "ValidateSkill skill_demo_saved = None"
    using skill_demo_valid(2) by (simp add: skill_demo_saved_def demo_skill_def ValidateSkill_def ValidateSkillFull_def)
  moreover have "\<forall>p. si_readable skill_demo_io p" by (simp add: skill_demo_io_def)
  ultimately have "load_file demo_yaml_lib skill_demo_io (skills_dir (skill_demo_store\<lparr>ss_skills := [(''a'', skill_demo_saved)]\<rparr>)) [(skill_demo_file, demo_md)]
      (path_Join [skillDirPath (skill_demo_store\<lparr>ss_skills := [(''a'', skill_demo_saved)]\<rparr>) (ak_name demo_skill), ''SKILL.md'']) []
    = [(ak_name demo_skill, skill_demo_saved)]"
    using saved_skill_reloads [OF _ _ _ skill_demo_save] by presburger
  moreover have "skills_dir (skill_demo_store\<lparr>ss_skills := v\<rparr>) = ''/b/skills''" for v
    by (simp only: skills_dir_def skill_demo_store_def skill_store.simps) code_simp
  moreover have "skillDirPath (skill_demo_store\<lparr>ss_skills := [(''a'', skill_demo_saved)]\<rparr>) ''a'' = ''/b/skills/g/a''"
    using skill_demo_paths(1) by (simp add: skillDirPath_def dir_path_def skill_demo_saved_def)
  ultimately show ?thesis by (simp only: skill_demo_fields skill_demo_paths)
qed

end
