(* ===== verification/Spec2Isabelle.thy ===== *)
theory Spec2Isabelle
  imports Gateway Dep_Graph Vault_Laws Var_Run Reload Health Log_Buffer Skill_Store
begin

text \<open>
  A verification development for \<^bold>\<open>gridctl\<close>, a gateway that puts many MCP servers behind one
  endpoint. A stack file declares servers, resources, clients, rate limits, tool groups, links and variable
  sets; the controller validates it, injects variables, starts the workloads and builds a gateway; the gateway
  lists and routes tool calls under client scopes, groups, rate limits, replica sets and autoscalers; the vault
  keeps the variables; \<^verbatim>\<open>gridctl var run\<close> hands them to a child process and redacts its output.

  \<^bold>\<open>Theories and the code they model\<close> (paths under \<^verbatim>\<open>src/\<close>).
  \<^item> \<open>Prelude\<close>: Go maps as association lists without duplicate keys, string helpers
    (\<^verbatim>\<open>strings.Split\<close>, \<^verbatim>\<open>Contains\<close>, \<^verbatim>\<open>HasPrefix\<close>), decimal
    printing, sets as lists, the lemmas the components share.
  \<^item> \<open>Tool_Names\<close>, \<open>Client_Id\<close>, \<open>Mcp_Types\<close>: the prefixed name codec of
    \<^verbatim>\<open>pkg/mcp/router.go\<close> and of \<^verbatim>\<open>pkg/config/validate.go\<close>, client identities
    (\<^verbatim>\<open>clientid.go\<close>), tools and gate calls (\<^verbatim>\<open>types.go\<close>).
  \<^item> \<open>Client_Scope\<close>, \<open>Tool_Groups\<close>: the compiled access profiles
    (\<^verbatim>\<open>clientscope.go\<close>) and the rewritten group surfaces (\<^verbatim>\<open>groups.go\<close>). Both offer
    the interface \<open>exposure\<close> of \<open>Mcp_Types\<close> or \<open>curated_surface\<close>: what a list shows and what a
    call accepts agree.
  \<^item> \<open>Replica_Set\<close>, \<open>Router\<close>, \<open>Session\<close>, \<open>Autoscaler\<close>: replicas
    with back-off and two dispatch policies, the tool index and routes, the session table, and the scaler with
    its window, tick, drain and cold start (files of the same names). Replica ids are 64-bit words, the
    round-robin cursor and the restart counter keep their widths.
  \<^item> \<open>Rate_Limits\<close>: \<^verbatim>\<open>pkg/limits\<close>: compilation, gate, carry-over, status.
  \<^item> \<open>Code_Mode\<close>: tool results and \<^verbatim>\<open>pkg/mcp/codemode*.go\<close>: the two meta tools, the checks before a
    script runs and what becomes of its result. A script is what the engine does with it: an answer, or a call of a tool and
    a continuation that takes the result.
  \<^item> \<open>Gateway\<close>: \<^verbatim>\<open>HandleToolsList\<close> and the whole of
    \<^verbatim>\<open>HandleToolsCall\<close> of \<^verbatim>\<open>pkg/mcp/gateway.go\<close>, composed from the theories above. A script in code mode
    calls the handler again, without code mode; that depth of two is the recursion of \<open>tools_call\<close>.
  \<^item> \<open>Pins\<close>: \<^verbatim>\<open>pkg/pins\<close>: canonical schemas, both digest schemes, the store of pins with
    verification, auto-pin, upgrade, approval and reset.
  \<^item> \<open>Registration\<close>: the registration half of \<^verbatim>\<open>gateway.go\<close>: replica sets and autoscalers, the
    transport switch, pending registrations with back-off, generations, failures and authorization states
    (\<^verbatim>\<open>serverauth.go\<close>), pin checks and blocks, restart, and the approval handler of
    \<^verbatim>\<open>internal/api/pins.go\<close>. Operations run alone as functions; their locked sections interleave in
    \<open>reg_step\<close>.
  \<^item> \<open>Health\<close>: the cycle of the health monitor (\<^verbatim>\<open>gateway.go\<close>), the status of a server and
    the report of its replicas.
  \<^item> \<open>Log_Buffer\<close>: the ring of \<^verbatim>\<open>pkg/logging/buffer.go\<close>, which refines a list.
  \<^item> \<open>Paths\<close>: the lexical functions of \<^verbatim>\<open>path/filepath\<close> that loading and the skill store use.
  \<^item> \<open>Skill_File\<close>, \<open>Skill_Store\<close>: \<^verbatim>\<open>pkg/registry\<close>: a skill, its validation, parsing
    and writing its \<^verbatim>\<open>SKILL.md\<close>, and the store of skills over a disk, with the files of a skill and the prompts.
  \<^item> \<open>Dep_Graph\<close>: the start order of workloads, \<^verbatim>\<open>pkg/runtime/depgraph.go\<close>.
  \<^item> \<open>Text_Util\<close>: truncation and edit distance.
  \<^item> \<open>Vault\<close>, \<open>Vault_Laws\<close>: \<^verbatim>\<open>pkg/vault\<close>: the store over memory and two
    files, each operation with every error path, envelope encryption; the laws refine an abstract map. The
    locale \<open>store_change\<close> states once what every state-changing operation keeps and is interpreted for
    each of them.
  \<^item> \<open>Redactor\<close>, \<open>Var_Run\<close>: \<^verbatim>\<open>pkg/varrun\<close>: the streaming redactor, the child's
    environment, the choice of writers.
  \<^item> \<open>Regex\<close>, \<open>Config_Types\<close>, \<open>Config_Validate\<close>: the stack as records
    (\<^verbatim>\<open>pkg/config/types.go\<close>, \<^verbatim>\<open>links.go\<close>, \<^verbatim>\<open>secrets.go\<close>),
    \<^verbatim>\<open>SetDefaults\<close>, the translation to gateway specifications, and the whole of
    \<^verbatim>\<open>Validate\<close> with its messages. Regular expressions run on a derivative matcher proved
    against their language.
  \<^item> \<open>Config_Accept\<close>, \<open>Secret_Inject\<close>: what acceptance guarantees to the gateway, the
    autoscaler and the limits, and \<^verbatim>\<open>injectSetSecrets\<close> of \<^verbatim>\<open>pkg/config/loader.go\<close>.
  \<^item> \<open>Expand\<close>, \<open>Loader\<close>: variable references (\<^verbatim>\<open>pkg/config/expand.go\<close>) and
    \<^verbatim>\<open>LoadStack\<close> (\<^verbatim>\<open>loader.go\<close>): the chain of \<^verbatim>\<open>extends\<close>, merging,
    expansion with its usage index, paths. The grammar is a tokenizer; the walk over the fields is one state
    monad for any action, run for expansion and for the list of sites.
  \<^item> \<open>Config_Diff\<close>, \<open>Reload\<close>: effective equality, the difference of two stacks and the plan
    (\<^verbatim>\<open>equality.go\<close>, \<^verbatim>\<open>plan.go\<close>, \<^verbatim>\<open>pkg/reload/diff.go\<close>), and the
    reload handler (\<^verbatim>\<open>pkg/reload/reload.go\<close>) over a history of the calls it makes, on which every
    answer of the gateway and the container runtime may depend.
  \<^item> This theory: the theorems that span configuration and gateway.

  \<^bold>\<open>What the theorems show.\<close> A downstream call is authorised by group, scope and gates and reaches a
  healthy replica of the server its name says, also when a script makes it; a refused call reaches nothing; a listed tool is
  callable; rate
  limits bound the calls that pass; scaling stays within its bounds, terminates and reaps only with cause; ids
  are never reused; sessions are bounded; the dependency sort is correct and complete; the vault refines a map
  across processes and survives every failed operation; redaction does not depend on chunking; injected
  environments are exact and scoped sets stay in scope; accepted stacks have the properties the runtime relies
  on; a loaded stack is the expanded merge of its files and independent of the bootstrap credentials, and its usage index is exact; plan and reload
  agree on the servers; a reload returns, settles, leaves alone what did not change and retries what it could
  not prepare; a retry never overtakes an explicit registration or removal; a changed tool stays reported until it
  is approved; a replica out of service gets no call and its reconnects are spaced; the log ring is a list; a skill
  file is read back, a saved skill is what the next load sees, and the file operations of a skill stay in its directory.
  Some theorems record defects of the code: profile bypass by alias, an idle gate that never opens,
  a first tick that scales to zero, a second lock that empties the vault, a write to a locked vault that leaks,
  changes a reload does not see, a failed start that is forgotten, replicas on one port, a missing runtime, a removed
  server that a failed retry brings back, a save that caches a skill the next load skips, a block that no approval lifts, a restart that shrinks the pool, a deletion or a
  rename of a skill that takes the others with it.

  \<^bold>\<open>Parameters.\<close> Code outside the repository is an argument with its documented laws: the token bucket
  of \<^verbatim>\<open>golang.org/x/time/rate\<close> (\<open>token_bucket\<close>), the cryptography (\<open>crypto_ok\<close>: what
  was sealed opens), \<^verbatim>\<open>time.ParseDuration\<close>, file existence and glob syntax
  (\<open>validation_env\<close>), SHA-256, JSON decoding and the poisoning scanner (\<open>pin_env\<close>), YAML
  (\<open>yaml_lib\<close>) and the answers of system calls (\<open>skill_io\<close>), connecting and pinging
  (\<open>transports\<close>, \<open>monitor\<close>), the spawner, the downstream client, the JavaScript engine with its transpiler (\<open>sandbox\<close>), the formatter, file errors
  and the clock. Points in time and durations are integers without bounds, and the texts of the vault valid UTF-8. Go map iteration is the order of an association list, over which the theorems quantify. Locks make
  each operation one step; processes interleave at operations.

  \<^bold>\<open>Loops and fuel.\<close> Recursions are structural or have a termination proof. The autoscaler's drain loop is
  a recursion over the polls it makes and gives \<open>None\<close> when the list ends early; \<open>tick_terminates\<close> shows
  that 301 polls suffice. The redactor's loop carries the length of its buffer as fuel, and the theorem states
  that every write returns. \<^verbatim>\<open>resolveExtends\<close> recurses on the depth that is left of its ten.
  In \<open>Reload\<close>, a nil dereference is \<open>None\<close>, and \<open>reload_returns\<close> says when there is none.

  \<^bold>\<open>Not modelled.\<close> HTTP handlers and the command line, transports, the JavaScript engine, its transpiler and its fetch binding, OpenAPI
  parsing, Docker and image builds, file and git synchronisation of skills, packs, contexts and models, client
  configuration editors, OAuth, log handlers, tracing and metrics: input/output around the parts above. Of the
  gateway, prompts, resources and the skill policy; of the pins, the poisoning heuristics; of the skill store, the
  listing of a skill's files, the warning about legacy files, symbolic links and empty directories.
\<close>

section \<open>From an accepted stack to the running gateway\<close>

lemma refreshed_index:
  assumes "router_ok r" and "u \<in> set (fst (AggregatedTools (RefreshTools r)))"
  shows "HasTool (RefreshTools r) (t_name u)"
  using refreshed_index_matches_list [OF assms(1)] assms(2) by blast

text \<open>C3. What an accepted stack lists, it serves: let a gateway run the groups of an accepted stack and have its
  tool index refreshed. Outside code mode, the name of every tool that \<^verbatim>\<open>tools/list\<close> shows a session, in a group
  or not, resolves to an aggregated tool that the same client may call. In code mode the list is the two meta tools, and
  the gateway answers a call of either of them itself.\<close>

theorem accepted_stack_lists_callable_tools:
  assumes "accepted venv s" and "\<forall>(n, g)\<in>set (sk_groups s). map_keys_ok (gp_overrides g)"
    and "gw_groupPolicy g = NewGroupPolicy (groupsSpec (Some s))"
    and "router_ok r" and "gw_router g = RefreshTools r"
    and "t \<in> set (fst (HandleToolsList env g ctx))"
  shows "if gw_codeMode g then fst (HandleToolsList env g ctx) = [SearchTool, ExecuteTool] \<and> meta_call g ctx (t_name t)
    else \<exists>c. canonical_name g ctx (t_name t) = Some c \<and> clientAllowsToolCall g ctx c
      \<and> c \<in> t_name ` set (fst (AggregatedTools (gw_router g)))"
proof (cases "gw_codeMode g")
  case True
  with assms(6) have "t_name t \<in> {MetaToolSearch, MetaToolExecute}"
    by (auto simp: HandleToolsList_def ToolsList_def SearchTool_def ExecuteTool_def meta_tool_def)
  with True show ?thesis
    by (auto simp: HandleToolsList_def ToolsList_def meta_call_def canonical_name_def IsMetaTool_def)
next
  case False
  have "\<exists>c. canonical_name g ctx (t_name t) = Some c \<and> clientAllowsToolCall g ctx c
      \<and> c \<in> t_name ` set (fst (AggregatedTools (gw_router g)))"
  proof (rule listed_tool_is_callable [OF False _ _ assms(6)])
    show "\<forall>u\<in>set (fst (AggregatedTools (gw_router g))). HasTool (gw_router g) (t_name u)"
      unfolding assms(5) using refreshed_index [OF assms(4)] by blast
    show "\<forall>gs d. gw_groupPolicy g = Some gs \<longrightarrow> map_of gs (GroupFromContext ctx) = Some d \<longrightarrow> group_def_ok d"
      unfolding assms(3) using accepted_groups_well_formed [OF assms(1,2)] by blast
  qed
  with False show ?thesis by simp
qed

definition two_server_stack :: stack where
  "two_server_stack = (blank_stack [(blank_server ''db'')\<lparr>sv_command := [''run'']\<rparr>, (blank_server ''web'')\<lparr>sv_command := [''run'']\<rparr>])
     \<lparr>sk_groups := [(''g'', demo_group_config\<lparr>gp_servers := [''db''], gp_overrides := [(''db__get'', \<lparr>go_name = ''shout'', go_description = [],
        go_readOnlyHint = None, go_destructiveHint = None, go_idempotentHint = None, go_openWorldHint = None\<rparr>)]\<rparr>)],
      sk_limits := Some [\<lparr>rl_client = [], rl_server = ''db'', rl_tool = [], rl_callsPerMinute = 60, rl_burst = 2\<rparr>]\<rparr>"

theorem accepted_stack_lists_callable_tools_witness:
  "\<exists>c. canonical_name (demo_gateway\<lparr>gw_groupPolicy := NewGroupPolicy (groupsSpec (Some two_server_stack))\<rparr>) demo_ctx ''shout'' = Some c"
proof -
  let ?g = "demo_gateway\<lparr>gw_groupPolicy := NewGroupPolicy (groupsSpec (Some two_server_stack))\<rparr>"
  have a: "accepted demo_venv two_server_stack" by code_simp
  have k: "\<forall>(n, g)\<in>set (sk_groups two_server_stack). map_keys_ok (gp_overrides g)" by code_simp
  have r: "router_ok demo_router" by code_simp
  have g: "gw_groupPolicy ?g = NewGroupPolicy (groupsSpec (Some two_server_stack))" "\<not> gw_codeMode ?g" "gw_router ?g = RefreshTools demo_router"
    by (simp_all add: demo_gateway_def)
  have "list_ex (\<lambda>t. t_name t = ''shout'') (fst (HandleToolsList demo_env ?g demo_ctx))" by code_simp
  then obtain t where t: "t \<in> set (fst (HandleToolsList demo_env ?g demo_ctx))" "t_name t = ''shout''" by (auto simp: list_ex_iff)
  from accepted_stack_lists_callable_tools [OF a k g(1) r g(3) t(1)] t(2) g(2) show ?thesis by auto
qed

lemma compiled_entry:
  assumes "r \<in> set rls" and "snd (snd (ScopeKey r))" and "seen_key r \<notin> set seen"
    and "\<forall>q\<in>set rls. seen_key q = seen_key r \<longrightarrow> snd (snd (ScopeKey q)) \<longrightarrow> q = r"
  shows "entry_of ops r \<in> set (compile_rates ops seen rls)"
  using assms
proof (induction rls arbitrary: seen)
  case (Cons q rls)
  show ?case
  proof (cases "q = r")
    case True
    then show ?thesis using Cons.prems unfolding compile_rates_Cons by simp
  next
    case False
    then have "snd (snd (ScopeKey q)) \<Longrightarrow> seen_key q \<noteq> seen_key r" using Cons.prems by auto
    then show ?thesis using Cons False unfolding compile_rates_Cons by auto
  qed
qed simp

lemma seen_key_inj:
  assumes "snd (snd (ScopeKey q))" and "snd (snd (ScopeKey r))" and "seen_key q = seen_key r" and "fst (ScopeKey r) \<noteq> scopeClient"
  shows "fst (ScopeKey q) = fst (ScopeKey r) \<and> fst (snd (ScopeKey q)) = fst (snd (ScopeKey r))"
  using assms ScopeKey_scope [OF assms(1)] ScopeKey_scope [OF assms(2)] by (auto simp: seen_key_def split_beta Let_def scopeClient_def)

text \<open>C4. A limit in an accepted stack holds: for every server or tool limit, the compiled policy lets through at
  most its burst plus its rate times the elapsed time of the calls to that server or tool, whatever other
  limits the stack has.\<close>

theorem accepted_limit_bounds_calls:
  assumes "accepted venv s" and "sk_limits s = Some rs" and "r \<in> set rs" and "fst (ScopeKey r) \<noteq> scopeClient"
    and "token_bucket ops" and "sorted (t0 # map fst cs)"
    and "\<forall>(now, call)\<in>set cs. scopeMatches (fst (ScopeKey r)) (fst (snd (ScopeKey r))) call (NormalizeClientID (gc_clientAccessID call))"
  shows "\<exists>es. NewPolicy ops (sk_limits s) = Some es
    \<and> of_nat (length (filter (\<lambda>ok. ok) (run_checks ops cs es)))
      \<le> of_int (if rl_burst r \<le> 0 then DefaultBurst (rl_callsPerMinute r) else rl_burst r)
        + of_int (rl_callsPerMinute r) * of_int (last (t0 # map fst cs) - t0) / (60000000000 :: rat)"
proof -
  note lim = accepted_limits [OF assms(1,2)]
  let ?es = "compile_rates ops [] rs"
  have ok: "snd (snd (ScopeKey q))" if "q \<in> set rs" for q using lim that by blast
  have "q = r" if "q \<in> set rs" "seen_key q = seen_key r" for q
  proof -
    note k = seen_key_inj [OF ok [OF that(1)] ok [OF assms(3)] that(2) assms(4)]
    with lim assms(3,4) that(1) show ?thesis by (auto simp: distinct_map scopeClient_def dest: inj_onD)
  qed
  then have e: "entry_of ops r \<in> set ?es" using compiled_entry [OF assms(3) ok [OF assms(3)], of "[]" ops] by auto
  then obtain i where i: "i < length ?es" "?es ! i = entry_of ops r" by (auto simp: in_set_conv_nth)
  have p: "NewPolicy ops (sk_limits s) = Some ?es" using assms(2,3) e by (auto simp: NewPolicy_def Let_def)
  have "0 < re_perMinute (?es ! i)" using lim assms(3) i(2) by (auto simp: entry_of_def split_beta Let_def)
  moreover have "\<forall>(now, call)\<in>set cs. matches (?es ! i) call (NormalizeClientID (gc_clientAccessID call))"
    using assms(4,7) i(2) by (auto simp: entry_of_def split_beta Let_def matches_def)
  ultimately show ?thesis using compiled_rate_bound [OF assms(5) p i(1) _ assms(6)] i(2) p
    by (auto simp: entry_of_def split_beta Let_def)
qed

theorem accepted_limit_bounds_calls_witness:
  "\<exists>es. NewPolicy bucket_ops (sk_limits two_server_stack) = Some es
     \<and> of_nat (length (filter (\<lambda>ok. ok) (run_checks bucket_ops (replicate 5 (0, demo_call)) es))) \<le> (2 :: rat)"
proof -
  have a: "accepted demo_venv two_server_stack" by code_simp
  let ?r = "\<lparr>rl_client = [], rl_server = ''db'', rl_tool = [], rl_callsPerMinute = 60, rl_burst = 2\<rparr>"
  have l: "sk_limits two_server_stack = Some [?r]" by (simp add: two_server_stack_def)
  have k: "fst (ScopeKey ?r) \<noteq> scopeClient" by code_simp
  have m: "scopeMatches (fst (ScopeKey ?r)) (fst (snd (ScopeKey ?r))) demo_call (NormalizeClientID (gc_clientAccessID demo_call))" by code_simp
  from accepted_limit_bounds_calls [OF a l _ k bucket_is_token_bucket, where cs = "replicate 5 (0, demo_call)" and ?t0.0 = 0] m
  show ?thesis by simp
qed

end
